(* ===== verification/Go_Prelude.thy ===== *)
theory Go_Prelude
  imports Main "HOL-Library.Sublist"
begin

text \<open>
  The part of Go and of its standard library that the control plane relies on, and the generic
  lemmas the components share.

  Strings are byte strings (\<^typ>\<open>string\<close>), as Go's are. \<open>toLower\<close> and \<open>trimSpace\<close> follow the
  ASCII path of \<open>strings.ToLower\<close> and \<open>strings.TrimSpace\<close>: they agree with Go on every ASCII
  string, and leave the bytes from 128 on alone (Go maps the Unicode letters and spaces there).

  \<open>time.Time\<close> is an \<^typ>\<open>int\<close>, nanoseconds since the epoch; \<open>time.Duration\<close> is an \<^typ>\<open>int\<close> kept in
  the range of \<open>int64\<close>: additions and multiplications wrap (\<open>wrap64\<close>), and \<open>Time.Sub\<close> saturates
  (\<open>timeSub\<close>), as the Go specification and the \<open>time\<close> package say.
\<close>

named_theorems go_str \<comment> \<open>evaluation of the string functions\<close>
named_theorems go_num \<comment> \<open>evaluation of the integer and time functions\<close>

section \<open>Strings\<close>

definition hasPrefix :: "string \<Rightarrow> string \<Rightarrow> bool" where
  "hasPrefix s p \<longleftrightarrow> prefix p s"

definition hasSuffix :: "string \<Rightarrow> string \<Rightarrow> bool" where
  "hasSuffix s x \<longleftrightarrow> prefix (rev x) (rev s)"

definition trimPrefix :: "string \<Rightarrow> string \<Rightarrow> string" where
  "trimPrefix s p = (if hasPrefix s p then drop (length p) s else s)"

definition trimSuffix :: "string \<Rightarrow> string \<Rightarrow> string" where
  "trimSuffix s x = (if hasSuffix s x then take (length s - length x) s else s)"

text \<open>\<open>strings.CutSuffix\<close>: the rest and whether the suffix was there.\<close>

definition cutSuffix :: "string \<Rightarrow> string \<Rightarrow> string \<times> bool" where
  "cutSuffix s x = (if hasSuffix s x then (take (length s - length x) s, True) else (s, False))"

text \<open>\<open>strings.IndexByte\<close>: \<^const>\<open>None\<close> is Go's \<open>-1\<close>.\<close>

fun indexByte :: "string \<Rightarrow> char \<Rightarrow> nat option" where
  "indexByte [] c = None"
| "indexByte (x # xs) c = (if x = c then Some 0 else map_option Suc (indexByte xs c))"

definition upperLetters :: string where
  "upperLetters = ''ABCDEFGHIJKLMNOPQRSTUVWXYZ''"

definition lowerLetters :: string where
  "lowerLetters = ''abcdefghijklmnopqrstuvwxyz''"

definition lowerChar :: "char \<Rightarrow> char" where
  "lowerChar c = (case map_of (zip upperLetters lowerLetters) c of None \<Rightarrow> c | Some d \<Rightarrow> d)"

definition toLower :: "string \<Rightarrow> string" where
  "toLower s = map lowerChar s"

definition isSpace :: "char \<Rightarrow> bool" where
  "isSpace c \<longleftrightarrow> c \<in> {CHR 0x09, CHR 0x0A, CHR 0x0B, CHR 0x0C, CHR 0x0D, CHR 0x20}"

definition trimSpace :: "string \<Rightarrow> string" where
  "trimSpace s = rev (dropWhile isSpace (rev (dropWhile isSpace s)))"

text \<open>\<open>strings.TrimRight\<close> with a one-byte cutset.\<close>

definition trimRight :: "string \<Rightarrow> char \<Rightarrow> string" where
  "trimRight s c = rev (dropWhile (\<lambda>x. x = c) (rev s))"

text \<open>\<open>strings.ReplaceAll\<close> for a non-empty \<open>old\<close>: leftmost, non-overlapping.\<close>

function replaceAll :: "string \<Rightarrow> string \<Rightarrow> string \<Rightarrow> string" where
  "replaceAll s old new =
     (if s = [] then []
      else if old \<noteq> [] \<and> prefix old s then new @ replaceAll (drop (length old) s) old new
      else hd s # replaceAll (tl s) old new)"
  by pat_completeness auto
termination
  by (relation "measure (\<lambda>(s, old, new). length s)") auto

declare replaceAll.simps [simp del]

definition containsStr :: "string \<Rightarrow> string \<Rightarrow> bool" where
  "containsStr s x \<longleftrightarrow> sublist x s"

text \<open>\<open>strings.Split\<close> on a one-byte separator.\<close>

fun splitByte :: "char \<Rightarrow> string \<Rightarrow> string list" where
  "splitByte c [] = [[]]"
| "splitByte c (x # xs) =
     (if x = c then [] # splitByte c xs
      else (case splitByte c xs of [] \<Rightarrow> [[x]] | y # ys \<Rightarrow> (x # y) # ys))"

text \<open>\<open>strings.Join\<close>.\<close>

fun joinStr :: "string list \<Rightarrow> string \<Rightarrow> string" where
  "joinStr [] sep = []"
| "joinStr [x] sep = x"
| "joinStr (x # y # ys) sep = x @ sep @ joinStr (y # ys) sep"

text \<open>\<open>strconv.Itoa\<close>.\<close>

definition digitChars :: string where
  "digitChars = ''0123456789''"

fun decimal :: "nat \<Rightarrow> string" where
  "decimal n = (if n < 10 then [digitChars ! n] else decimal (n div 10) @ [digitChars ! (n mod 10)])"

declare decimal.simps [simp del]

definition itoa :: "int \<Rightarrow> string" where
  "itoa i = (if i < 0 then CHR ''-'' # decimal (nat (- i)) else decimal (nat i))"

section \<open>Integers, durations and times\<close>

type_synonym time = int
type_synonym duration = int

definition wrap32 :: "int \<Rightarrow> int" where
  "wrap32 x = (x + 2 ^ 31) mod 2 ^ 32 - 2 ^ 31"

definition wrap64 :: "int \<Rightarrow> int" where
  "wrap64 x = (x + 2 ^ 63) mod 2 ^ 64 - 2 ^ 63"

definition nanosecond :: duration where "nanosecond = 1"
definition second :: duration where "second = 1000000000"
definition minute :: duration where "minute = 60 * second"
definition hour :: duration where "hour = 60 * minute"

text \<open>\<open>Time.Sub\<close> returns the largest or smallest duration where the difference overflows.\<close>

definition timeSub :: "time \<Rightarrow> time \<Rightarrow> duration" where
  "timeSub t u = max (- (2 ^ 63)) (min (2 ^ 63 - 1) (t - u))"

text \<open>Integer division of durations truncates toward zero.\<close>

definition divTrunc :: "int \<Rightarrow> int \<Rightarrow> int" where
  "divTrunc a b = sgn a * sgn b * (\<bar>a\<bar> div \<bar>b\<bar>)"

lemmas duration_consts [go_num] = second_def minute_def hour_def nanosecond_def

section \<open>Lemmas on strings\<close>

lemma hasPrefix_iff: "hasPrefix s p \<longleftrightarrow> (\<exists>r. s = p @ r)"
  by (auto simp: hasPrefix_def prefix_def)

lemma hasSuffix_iff: "hasSuffix s x \<longleftrightarrow> (\<exists>r. s = r @ x)"
  by (auto simp: hasSuffix_def suffix_to_prefix [symmetric] suffix_def)

lemma hasPrefix_append [simp]: "hasPrefix (p @ s) p"
  by (auto simp: hasPrefix_iff)

lemma hasSuffix_append [simp]: "hasSuffix (s @ x) x"
  by (auto simp: hasSuffix_iff)

lemma hasPrefix_Nil [simp]: "hasPrefix s []"
  by (simp add: hasPrefix_def)

lemma hasPrefix_Cons [simp]: "hasPrefix (a # s) (b # p) \<longleftrightarrow> a = b \<and> hasPrefix s p"
  by (auto simp: hasPrefix_def)

lemma hasPrefix_Nil_left [simp]: "hasPrefix [] p \<longleftrightarrow> p = []"
  by (simp add: hasPrefix_def)

lemma trimPrefix_append [simp]: "trimPrefix (p @ s) p = s"
  by (simp add: trimPrefix_def)

lemma trimSuffix_append [simp]: "trimSuffix (s @ x) x = s"
  by (simp add: trimSuffix_def)

lemma cutSuffix_append [simp]: "cutSuffix (s @ x) x = (s, True)"
  by (simp add: cutSuffix_def)

lemma cutSuffix_True: "cutSuffix s x = (r, True) \<longleftrightarrow> s = r @ x"
  by (auto simp: cutSuffix_def hasSuffix_iff split: if_splits)

lemma cutSuffix_False: "cutSuffix s x = (r, False) \<longleftrightarrow> r = s \<and> \<not> hasSuffix s x"
  by (auto simp: cutSuffix_def)

lemma indexByte_None: "indexByte s c = None \<longleftrightarrow> c \<notin> set s"
  by (induction s c rule: indexByte.induct) auto

lemma indexByte_Some: "indexByte s c = Some i \<longleftrightarrow> (\<exists>r. s = take i s @ c # r \<and> i < length s \<and> c \<notin> set (take i s))"
proof (induction s c arbitrary: i rule: indexByte.induct)
  case (1 c)
  then show ?case by simp
next
  case (2 x xs c)
  then show ?case by (cases i) auto
qed

lemma set_toLower_subset: "set (toLower s) = lowerChar ` set s"
  by (simp add: toLower_def)

lemma toLower_append [simp]: "toLower (s @ t) = toLower s @ toLower t"
  by (simp add: toLower_def)

lemma lowerChar_image: "lowerChar c \<notin> set upperLetters"
proof (cases "c \<in> set upperLetters")
  case True
  then have "lowerChar c \<in> set lowerLetters"
    by (auto simp: upperLetters_def lowerLetters_def lowerChar_def)
  moreover have "set lowerLetters \<inter> set upperLetters = {}"
    by (auto simp: upperLetters_def lowerLetters_def)
  ultimately show ?thesis by blast
next
  case False
  then have "map_of (zip upperLetters lowerLetters) c = None"
    by (auto simp: map_of_eq_None_iff dest: set_zip_leftD)
  with False show ?thesis by (simp add: lowerChar_def)
qed

lemma lowerChar_fix: "c \<notin> set upperLetters \<Longrightarrow> lowerChar c = c"
proof -
  assume "c \<notin> set upperLetters"
  then have "map_of (zip upperLetters lowerLetters) c = None"
    by (auto simp: map_of_eq_None_iff dest: set_zip_leftD)
  then show ?thesis by (simp add: lowerChar_def)
qed

lemma lowerChar_idem [simp]: "lowerChar (lowerChar c) = lowerChar c"
  by (rule lowerChar_fix) (rule lowerChar_image)

lemma toLower_idem [simp]: "toLower (toLower s) = toLower s"
  by (simp add: toLower_def)

lemma toLower_fix: "set s \<inter> set upperLetters = {} \<Longrightarrow> toLower s = s"
  by (induction s) (auto simp: toLower_def lowerChar_fix)

lemma dropWhile_rev_dropWhile_idem:
  "dropWhile P (rev (dropWhile P (rev (dropWhile P s)))) = rev (dropWhile P (rev (dropWhile P s)))"
proof (cases "dropWhile P s")
  case Nil
  then show ?thesis by (simp only: dropWhile.simps rev.simps)
next
  case (Cons a list)
  then have "\<not> P a" by (metis dropWhile_eq_Cons_conv)
  then have "dropWhile P (rev list @ [a]) = dropWhile P (rev list) @ [a]"
    by (induction "rev list" arbitrary: list) (auto simp: dropWhile_append)
  with Cons \<open>\<not> P a\<close> show ?thesis by simp
qed

lemma trimSpace_idem [simp]: "trimSpace (trimSpace s) = trimSpace s"
  by (simp add: trimSpace_def dropWhile_rev_dropWhile_idem)

lemma set_trimSpace: "set (trimSpace s) \<subseteq> set s"
  by (auto simp: trimSpace_def dest!: set_dropWhileD)

lemma trimSpace_fix:
  assumes "s = [] \<or> \<not> isSpace (hd s) \<and> \<not> isSpace (last s)"
  shows "trimSpace s = s"
proof (cases s rule: rev_cases)
  case Nil
  then show ?thesis by (simp add: trimSpace_def)
next
  case (snoc ys y)
  with assms have "\<not> isSpace y" and "\<not> isSpace (hd s)" by auto
  moreover have "dropWhile isSpace s = s"
    using calculation(2) by (cases s) auto
  ultimately show ?thesis using snoc by (simp add: trimSpace_def)
qed

lemma splitByte_ne [simp]: "splitByte c s \<noteq> []"
  by (cases s) (auto split: list.splits)

lemma replaceAll_Nil [simp]: "replaceAll [] old new = []"
  by (simp add: replaceAll.simps)

lemma replaceAll_single [simp]:
  "replaceAll (x # s) [c] [d] = (if x = c then d else x) # replaceAll s [c] [d]"
  by (subst replaceAll.simps) auto

lemma replaceAll_single_map: "replaceAll s [c] [d] = map (\<lambda>x. if x = c then d else x) s"
  by (induction s) auto

section \<open>Lemmas on decimal numerals\<close>

lemma decimal_ne [simp]: "decimal n \<noteq> []"
  by (subst decimal.simps) simp

lemma decimal_digits: "set (decimal n) \<subseteq> set digitChars"
proof (induction n rule: decimal.induct)
  case (1 n)
  have "digitChars ! (n mod 10) \<in> set digitChars"
    by (rule nth_mem) (simp add: digitChars_def)
  moreover have "n < 10 \<Longrightarrow> digitChars ! n \<in> set digitChars"
    by (rule nth_mem) (simp add: digitChars_def)
  ultimately show ?case
    using 1 by (subst decimal.simps) auto
qed

lemma digitChars_inj: "a < 10 \<Longrightarrow> b < 10 \<Longrightarrow> digitChars ! a = digitChars ! b \<Longrightarrow> a = b"
proof -
  assume "a < 10" "b < 10" "digitChars ! a = digitChars ! b"
  moreover have "distinct digitChars" "length digitChars = 10"
    by (simp_all add: digitChars_def)
  ultimately show ?thesis by (simp add: nth_eq_iff_index_eq)
qed

lemma decimal_small: "n < 10 \<Longrightarrow> decimal n = [digitChars ! n]"
  by (subst decimal.simps) simp

lemma decimal_big: "\<not> n < 10 \<Longrightarrow> decimal n = decimal (n div 10) @ [digitChars ! (n mod 10)]"
  by (subst decimal.simps) simp

lemma decimal_inj: "decimal m = decimal n \<longleftrightarrow> m = n"
proof (induction m arbitrary: n rule: decimal.induct)
  case (1 m)
  consider "m < 10" "n < 10" | "m < 10" "\<not> n < 10" | "\<not> m < 10" "n < 10" | "\<not> m < 10" "\<not> n < 10"
    by blast
  then show ?case
  proof cases
    case 4
    then have "decimal m = decimal n \<longleftrightarrow> m div 10 = n div 10 \<and> digitChars ! (m mod 10) = digitChars ! (n mod 10)"
      using 1 by (simp add: decimal_big)
    also have "\<dots> \<longleftrightarrow> m div 10 = n div 10 \<and> m mod 10 = n mod 10"
      by (auto dest: digitChars_inj [rotated 2])
    also have "\<dots> \<longleftrightarrow> m = n"
      by (metis div_mult_mod_eq)
    finally show ?thesis .
  qed (auto simp: decimal_small decimal_big Cons_eq_append_conv dest: digitChars_inj)
qed

lemma itoa_nonneg: "0 \<le> i \<Longrightarrow> itoa i = decimal (nat i)"
  by (simp add: itoa_def)

section \<open>Lemmas on durations\<close>

lemma wrap64_id: "- (2 ^ 63) \<le> x \<Longrightarrow> x < 2 ^ 63 \<Longrightarrow> wrap64 x = x"
  by (simp add: wrap64_def)

lemma wrap32_id: "- (2 ^ 31) \<le> x \<Longrightarrow> x < 2 ^ 31 \<Longrightarrow> wrap32 x = x"
  by (simp add: wrap32_def)

lemma wrap64_range: "- (2 ^ 63) \<le> wrap64 x \<and> wrap64 x < 2 ^ 63"
proof -
  have "0 \<le> (x + 2 ^ 63) mod 2 ^ 64" and "(x + 2 ^ 63) mod 2 ^ 64 < (2 ^ 64 :: int)"
    by simp_all
  then show ?thesis by (simp add: wrap64_def)
qed

lemma timeSub_le: "d < 2 ^ 63 - 1 \<Longrightarrow> - (2 ^ 63) \<le> d \<Longrightarrow> timeSub t u \<le> d \<longleftrightarrow> t - u \<le> d"
  by (auto simp: timeSub_def)

lemma timeSub_less: "d \<le> 2 ^ 63 - 1 \<Longrightarrow> - (2 ^ 63) < d \<Longrightarrow> timeSub t u < d \<longleftrightarrow> t - u < d"
  by (auto simp: timeSub_def)

lemma timeSub_mono: "t \<le> t' \<Longrightarrow> timeSub t u \<le> timeSub t' u"
  by (auto simp: timeSub_def)

lemma timeSub_antimono: "u \<le> u' \<Longrightarrow> timeSub t u' \<le> timeSub t u"
  by (auto simp: timeSub_def)

end
