(* ===== verification/Go_Sha256.thy ===== *)
theory Go_Sha256
  imports Go_Prelude "HOL-Library.Word"
begin

text \<open>
  \<open>crypto/sha256\<close> and \<open>encoding/hex\<close>, the two packages every identity of the control plane goes
  through: the project key, the stored form of a build token and the template fingerprint are
  hexadecimal SHA-256 digests. The compression function follows FIPS 180-4 on \<^typ>\<open>32 word\<close>; a
  message is a byte string. The lemmas give the lengths and the alphabet of the digests.
\<close>

unbundle bit_operations_syntax

type_synonym u32 = "32 word"

section \<open>SHA-256\<close>

text \<open>
  The constants of the standard are the first 32 bits of the fractional parts of the cube roots of the
  first 64 primes (the rounds) and of the square roots of the first 8 (the initial state).
  \<open>rootBits k n b r\<close> extends \<open>r\<close> by \<open>b\<close> binary digits to the integer \<open>k\<close>-th root of \<open>n\<close>.
\<close>

fun rootBits :: "nat \<Rightarrow> nat \<Rightarrow> nat \<Rightarrow> nat \<Rightarrow> nat" where
  "rootBits k n 0 r = r"
| "rootBits k n (Suc b) r = rootBits k n b (if (r + 2 ^ b) ^ k \<le> n then r + 2 ^ b else r)"

definition rootFrac32 :: "nat \<Rightarrow> nat \<Rightarrow> u32" where
  "rootFrac32 k p = word_of_nat (rootBits k (p * 2 ^ (32 * k)) 35 0)"

definition sha256_primes :: "nat list" where
  "sha256_primes = [2, 3, 5, 7, 11, 13, 17, 19, 23, 29, 31, 37, 41, 43, 47, 53, 59, 61, 67, 71, 73, 79, 83, 89,
     97, 101, 103, 107, 109, 113, 127, 131, 137, 139, 149, 151, 157, 163, 167, 173, 179, 181, 191, 193,
     197, 199, 211, 223, 227, 229, 233, 239, 241, 251, 257, 263, 269, 271, 277, 281, 283, 293, 307, 311]"

definition sha256_K :: "u32 list" where
  "sha256_K = map (rootFrac32 3) sha256_primes"

type_synonym sha_state = "u32 \<times> u32 \<times> u32 \<times> u32 \<times> u32 \<times> u32 \<times> u32 \<times> u32"

definition sha256_init :: sha_state where
  "sha256_init = (rootFrac32 2 2, rootFrac32 2 3, rootFrac32 2 5, rootFrac32 2 7,
     rootFrac32 2 11, rootFrac32 2 13, rootFrac32 2 17, rootFrac32 2 19)"

definition rotr32 :: "nat \<Rightarrow> u32 \<Rightarrow> u32" where
  "rotr32 n x = drop_bit n x OR push_bit (32 - n) x"


definition big_sigma0 :: "u32 \<Rightarrow> u32" where
  "big_sigma0 x = rotr32 2 x XOR rotr32 13 x XOR rotr32 22 x"
definition big_sigma1 :: "u32 \<Rightarrow> u32" where
  "big_sigma1 x = rotr32 6 x XOR rotr32 11 x XOR rotr32 25 x"
definition small_sigma0 :: "u32 \<Rightarrow> u32" where
  "small_sigma0 x = rotr32 7 x XOR rotr32 18 x XOR drop_bit 3 x"
definition small_sigma1 :: "u32 \<Rightarrow> u32" where
  "small_sigma1 x = rotr32 17 x XOR rotr32 19 x XOR drop_bit 10 x"
definition ch32 :: "u32 \<Rightarrow> u32 \<Rightarrow> u32 \<Rightarrow> u32" where
  "ch32 x y z = (x AND y) XOR (NOT x AND z)"
definition maj32 :: "u32 \<Rightarrow> u32 \<Rightarrow> u32 \<Rightarrow> u32" where
  "maj32 x y z = (x AND y) XOR (x AND z) XOR (y AND z)"

fun sha256_schedule :: "nat \<Rightarrow> u32 list \<Rightarrow> u32 list" where
  "sha256_schedule 0 w = rev w"
| "sha256_schedule (Suc n) w =
     sha256_schedule n ((small_sigma1 (w ! 1) + w ! 6 + small_sigma0 (w ! 14) + w ! 15) # w)"

fun sha256_mix :: "u32 \<Rightarrow> u32 \<Rightarrow> sha_state \<Rightarrow> sha_state" where
  "sha256_mix t1 t2 (a, b, c, d, e, f, g, h) = (t1 + t2, a, b, c, d + t1, e, f, g)"

fun sha256_round :: "u32 \<Rightarrow> u32 \<Rightarrow> sha_state \<Rightarrow> sha_state" where
  "sha256_round k w (a, b, c, d, e, f, g, h) =
     sha256_mix (h + big_sigma1 e + ch32 e f g + k + w) (big_sigma0 a + maj32 a b c) (a, b, c, d, e, f, g, h)"

fun sha256_rounds :: "u32 list \<Rightarrow> u32 list \<Rightarrow> sha_state \<Rightarrow> sha_state" where
  "sha256_rounds (k # ks) (w # ws) st = sha256_rounds ks ws (sha256_round k w st)"
| "sha256_rounds _ _ st = st"

fun sha256_add :: "sha_state \<Rightarrow> sha_state \<Rightarrow> sha_state" where
  "sha256_add (a, b, c, d, e, f, g, h) (a', b', c', d', e', f', g', h') =
     (a + a', b + b', c + c', d + d', e + e', f + f', g + g', h + h')"

definition sha256_block :: "sha_state \<Rightarrow> u32 list \<Rightarrow> sha_state" where
  "sha256_block st ws = sha256_add st (sha256_rounds sha256_K (sha256_schedule 48 (rev ws)) st)"

definition be32 :: "char list \<Rightarrow> u32" where
  "be32 cs = foldl (\<lambda>acc c. push_bit 8 acc OR of_char c) 0 cs"

fun words_of_bytes :: "char list \<Rightarrow> u32 list" where
  "words_of_bytes (a # b # c # d # cs) = be32 [a, b, c, d] # words_of_bytes cs"
| "words_of_bytes _ = []"

function chunks :: "nat \<Rightarrow> 'a list \<Rightarrow> 'a list list" where
  "chunks n xs = (if xs = [] \<or> n = 0 then [] else take n xs # chunks n (drop n xs))"
  by pat_completeness auto
termination by (relation "measure (\<lambda>(n, xs). length xs)") auto

definition bytes_of_u64 :: "nat \<Rightarrow> char list" where
  "bytes_of_u64 n = map (\<lambda>i. char_of (n div 256 ^ i)) [7, 6, 5, 4, 3, 2, 1, 0]"

definition sha256_pad :: "char list \<Rightarrow> char list" where
  "sha256_pad m = m @ [char_of (128::nat)] @ replicate ((119 - length m mod 64) mod 64) (char_of (0::nat))
     @ bytes_of_u64 (8 * length m)"

definition bytes_of_word :: "u32 \<Rightarrow> char list" where
  "bytes_of_word w = map (\<lambda>i. char_of (unat (drop_bit i w))) [24, 16, 8, 0]"

fun sha256_digest :: "sha_state \<Rightarrow> char list" where
  "sha256_digest (a, b, c, d, e, f, g, h) = concat (map bytes_of_word [a, b, c, d, e, f, g, h])"

definition sha256 :: "char list \<Rightarrow> char list" where
  "sha256 m = sha256_digest (foldl sha256_block sha256_init (chunks 16 (words_of_bytes (sha256_pad m))))"

section \<open>Hexadecimal encoding\<close>

definition hexDigits :: string where
  "hexDigits = ''0123456789abcdef''"

definition hex_digit :: "nat \<Rightarrow> char" where
  "hex_digit n = hexDigits ! n"

definition hex_encode :: "char list \<Rightarrow> char list" where
  "hex_encode bs = concat (map (\<lambda>c. let n = of_char c :: nat in [hex_digit (n div 16), hex_digit (n mod 16)]) bs)"


section \<open>Lengths and alphabet\<close>

lemma length_concat_const: "(\<And>x. x \<in> set xs \<Longrightarrow> length (f x) = n) \<Longrightarrow> length (concat (map f xs)) = n * length xs"
  by (induction xs) auto

lemma length_sha256_digest: "length (sha256_digest st) = 32"
  by (induction st rule: sha256_digest.induct) (simp add: bytes_of_word_def)

lemma length_sha256 [simp]: "length (sha256 m) = 32"
  by (simp add: sha256_def length_sha256_digest)

lemma length_hex_encode [simp]: "length (hex_encode bs) = 2 * length bs"
  unfolding hex_encode_def by (rule length_concat_const) (simp add: Let_def)

lemma hex_digit_in: "n < 16 \<Longrightarrow> hex_digit n \<in> set hexDigits"
  unfolding hex_digit_def by (rule nth_mem) (simp add: hexDigits_def)

lemma set_hex_encode: "set (hex_encode bs) \<subseteq> set hexDigits"
proof (induction bs)
  case Nil
  then show ?case by (simp add: hex_encode_def)
next
  case (Cons c bs)
  have "of_char c < (256 :: nat)"
    by simp
  then have "hex_digit (of_char c div 16) \<in> set hexDigits" "hex_digit (of_char c mod 16) \<in> set hexDigits"
    by (auto intro!: hex_digit_in simp: less_mult_imp_div_less)
  with Cons show ?case
    by (auto simp: hex_encode_def Let_def)
qed

end
