(* ===== verification/Router.thy ===== *)
theory Router
  imports Go_Sha256
begin

text \<open>
  \<open>internal/router/router.go\<close>: the cache identity. The wire records of \<open>/route\<close>, the normalisation of
  repositories, targets, names and architectures, the project key and the names derived from it
  (daemon, fork, clone, cache volume, endpoint).

  The lemmas show that normalisation yields a canonical string (lower case, no colon, no double
  slash), that every URL style of one repository collapses to one identity, that the hashed seed
  determines the normalised identity, and that canonical, fork and clone keys live in disjoint
  name spaces.
\<close>

section \<open>Wire records\<close>

record RouteRequest =
  rq_Repo :: string
  rq_Name :: string
  rq_Target :: string
  rq_Arch :: string
  rq_Untrusted :: bool

record CacheConfig =
  cc_Type :: string
  cc_Bucket :: string
  cc_Region :: string
  cc_EndpointURL :: string
  cc_Name :: string
  cc_SkipExport :: bool

record RouteResponse =
  rr_Key :: string
  rr_BuildID :: string
  rr_Endpoint :: string
  rr_Namespace :: string
  rr_Ready :: bool
  rr_Cache :: "CacheConfig option"

section \<open>Normalisation\<close>

text \<open>\<open>isAllDigits\<close>: non-empty, and every byte an ASCII digit.\<close>

definition isAllDigits :: "string \<Rightarrow> bool" where
  "isAllDigits s \<longleftrightarrow> list_all (\<lambda>c. c \<in> set digitChars) s \<and> s \<noteq> []"

text \<open>The loop over the schemes: each is stripped in turn, in this order.\<close>

definition stripSchemes :: "string \<Rightarrow> string" where
  "stripSchemes s = foldl trimPrefix s [''https://'', ''http://'', ''git://'', ''ssh://'']"

text \<open>A leading \<open>user@\<close>, when the first \<open>@\<close> comes before the first slash.\<close>

definition stripUser :: "string \<Rightarrow> string" where
  "stripUser s =
     (case indexByte s CHR ''@'' of
        None \<Rightarrow> s
      | Some at \<Rightarrow>
          (case indexByte s CHR ''/'' of
             None \<Rightarrow> drop (at + 1) s
           | Some slash \<Rightarrow> if at < slash then drop (at + 1) s else s))"

text \<open>An explicit port after the first colon.\<close>

definition dropPort :: "string \<Rightarrow> string" where
  "dropPort s =
     (case indexByte s CHR '':'' of
        None \<Rightarrow> s
      | Some i \<Rightarrow>
          let rest = drop (i + 1) s in
          (case indexByte rest CHR ''/'' of
             Some e \<Rightarrow>
               let port = take e rest in
               if port \<noteq> [] \<and> isAllDigits port then take i s @ drop e rest else s
           | None \<Rightarrow> if rest \<noteq> [] \<and> isAllDigits rest then take i s else s))"

lemma replaceAll_shorter:
  "length (replaceAll s ''//'' ''/'') \<le> length s \<and>
   (sublist ''//'' s \<longrightarrow> length (replaceAll s ''//'' ''/'') < length s)"
proof (induction s "''//''" "''/''" rule: replaceAll.induct)
  case (1 s)
  show ?case
  proof (cases "prefix ''//'' s")
    case True
    then obtain r where s: "s = ''//'' @ r" by (auto simp: prefix_def)
    with 1 have "length (replaceAll r ''//'' ''/'') \<le> length r" by simp
    with s show ?thesis by (subst (1 2) replaceAll.simps) simp
  next
    case False
    show ?thesis
    proof (cases s)
      case (Cons x xs)
      with False 1 have IH: "length (replaceAll xs ''//'' ''/'') \<le> length xs"
        "sublist ''//'' xs \<Longrightarrow> length (replaceAll xs ''//'' ''/'') < length xs" by auto
      from Cons False have "sublist ''//'' s \<longleftrightarrow> sublist ''//'' xs"
        by (auto simp: sublist_Cons_right)
      with Cons False IH show ?thesis by (subst (1 2) replaceAll.simps) auto
    qed simp
  qed
qed

text \<open>\<open>for strings.Contains(s, "//") \<open>{ s = strings.ReplaceAll(s, "//", "/") }\<close>\<close>: every round
  shortens the string, so the loop ends.\<close>

function collapseSlashes :: "string \<Rightarrow> string" where
  "collapseSlashes s =
     (if containsStr s ''//'' then collapseSlashes (replaceAll s ''//'' ''/'') else s)"
  by pat_completeness auto
termination
  by (relation "measure length") (auto simp: containsStr_def replaceAll_shorter)

declare collapseSlashes.simps [simp del]

definition normalizeRepo :: "string \<Rightarrow> string" where
  "normalizeRepo repo =
     (let s = trimSpace (toLower repo);
          s = stripSchemes s;
          s = stripUser s;
          s = dropPort s;
          s = replaceAll s '':'' ''/'';
          s = trimSuffix s ''/'';
          s = trimSuffix s ''.git'';
          s = trimSuffix s ''/''
      in collapseSlashes s)"

definition normalizeTarget :: "string \<Rightarrow> string" where
  "normalizeTarget target =
     (let t = trimSpace (toLower target) in if t = [] then ''default'' else t)"

definition normalizeName :: "string \<Rightarrow> string" where
  "normalizeName name = trimSpace (toLower name)"

definition normalizeArch :: "string \<Rightarrow> string" where
  "normalizeArch arch =
     (let a = trimSpace (toLower arch) in
      if a \<in> {''x86_64'', ''amd64''} then ''amd64''
      else if a \<in> {''aarch64'', ''arm64''} then ''arm64''
      else a)"

section \<open>Keys and names\<close>

abbreviation NUL :: char where "NUL \<equiv> CHR 0x00"

text \<open>The hashed seed of \<open>ProjectKey\<close>; the name part is left out when the name is empty.\<close>

definition keySeed :: "string \<Rightarrow> string \<Rightarrow> string \<Rightarrow> string \<Rightarrow> string" where
  "keySeed repo name target arch =
     (let n = normalizeName name in
      normalizeRepo repo @ (if n \<noteq> [] then NUL # ''n:'' @ n else [])
      @ NUL # normalizeTarget target @ NUL # normalizeArch arch)"

definition projectKey :: "string \<Rightarrow> string \<Rightarrow> string \<Rightarrow> string \<Rightarrow> string" where
  "projectKey repo name target arch =
     ''p'' @ take 16 (hex_encode (sha256 (keySeed repo name target arch)))"

definition daemonName :: "string \<Rightarrow> string" where
  "daemonName key = ''buildkitd-'' @ key"

definition forkKey :: "string \<Rightarrow> string" where
  "forkKey canonicalKey = ''fork'' @ canonicalKey"

definition isForkKey :: "string \<Rightarrow> bool" where
  "isForkKey key \<longleftrightarrow> hasPrefix key ''fork''"

definition cloneKey :: "string \<Rightarrow> int \<Rightarrow> string" where
  "cloneKey canonicalKey i = ''c'' @ itoa i @ canonicalKey"

definition cachePVCName :: "string \<Rightarrow> string" where
  "cachePVCName key = ''cache-'' @ daemonName key @ ''-0''"

definition serviceFQDN :: "string \<Rightarrow> string \<Rightarrow> string" where
  "serviceFQDN key namespace = daemonName key @ ''.'' @ namespace @ ''.svc''"

definition endpoint :: "string \<Rightarrow> string \<Rightarrow> int \<Rightarrow> string" where
  "endpoint key namespace port = ''tcp://'' @ serviceFQDN key namespace @ '':'' @ itoa port"

definition endpointHost :: "string \<Rightarrow> int \<Rightarrow> string" where
  "endpointHost host port = ''tcp://'' @ host @ '':'' @ itoa port"

section \<open>Normal forms\<close>

lemma collapseSlashes_no_double: "\<not> sublist ''//'' (collapseSlashes s)"
proof (induction s rule: collapseSlashes.induct)
  case (1 s)
  then show ?case
    by (cases "containsStr s ''//''")
      (simp_all add: collapseSlashes.simps [of s] containsStr_def)
qed

lemma collapseSlashes_id: "\<not> sublist ''//'' s \<Longrightarrow> collapseSlashes s = s"
  by (simp add: collapseSlashes.simps [of s] containsStr_def)

lemma set_replaceAll: "set (replaceAll s old new) \<subseteq> set s \<union> set new"
proof (induction s old new rule: replaceAll.induct)
  case (1 s old new)
  show ?case
  proof (cases "s = []")
    case False
    have d: "set (drop (length old) s) \<subseteq> set s" by (rule set_drop_subset)
    have t: "set (tl s) \<subseteq> set s" "hd s \<in> set s" using False by (auto dest: list.set_sel(2))
    show ?thesis
    proof (cases "old \<noteq> [] \<and> prefix old s")
      case True
      with 1(1) False d show ?thesis by (subst replaceAll.simps) auto
    next
      case F: False
      with 1(2) False t show ?thesis by (subst replaceAll.simps) auto
    qed
  qed simp
qed

lemma set_collapseSlashes: "set (collapseSlashes s) \<subseteq> set s"
proof (induction s rule: collapseSlashes.induct)
  case (1 s)
  show ?case
  proof (cases "containsStr s ''//''")
    case True
    then have "CHR ''/'' \<in> set s"
      using set_mono_sublist [of "''//''" s] by (auto simp: containsStr_def)
    then have "set (replaceAll s ''//'' ''/'') \<subseteq> set s"
      using set_replaceAll [of s "''//''" "''/''"] by auto
    with 1 True show ?thesis by (subst collapseSlashes.simps) auto
  next
    case False
    then show ?thesis by (subst collapseSlashes.simps) simp
  qed
qed

lemma set_trimPrefix: "set (trimPrefix s p) \<subseteq> set s"
  by (auto simp: trimPrefix_def dest: in_set_dropD)

lemma set_trimSuffix: "set (trimSuffix s p) \<subseteq> set s"
  by (auto simp: trimSuffix_def dest: in_set_takeD)

lemma set_stripSchemes: "set (stripSchemes s) \<subseteq> set s"
  unfolding stripSchemes_def using set_trimPrefix by (simp, blast)

lemma set_stripUser: "set (stripUser s) \<subseteq> set s"
  by (auto simp: stripUser_def split: option.splits dest: in_set_dropD)

lemma set_dropPort: "set (dropPort s) \<subseteq> set s"
  by (auto simp: dropPort_def Let_def split: option.splits dest: in_set_dropD in_set_takeD)

lemma set_normalizeRepo_lower: "set (normalizeRepo r) \<inter> set upperLetters = {}"
proof -
  have "set (trimSpace (toLower r)) \<inter> set upperLetters = {}"
    using set_trimSpace [of "toLower r"] lowerChar_image by (auto simp: set_toLower_subset)
  moreover have "CHR ''/'' \<notin> set upperLetters" by (simp add: upperLetters_def)
  ultimately show ?thesis
    using set_stripSchemes [of "trimSpace (toLower r)"]
      set_stripUser [of "stripSchemes (trimSpace (toLower r))"]
      set_dropPort [of "stripUser (stripSchemes (trimSpace (toLower r)))"]
      set_replaceAll [of "dropPort (stripUser (stripSchemes (trimSpace (toLower r))))" "'':''" "''/''"]
    unfolding normalizeRepo_def Let_def
    by (fastforce dest!: subsetD [OF set_collapseSlashes] subsetD [OF set_trimSuffix])
qed

lemma set_normalizeRepo_colon: "CHR '':'' \<notin> set (normalizeRepo r)"
proof -
  have "CHR '':'' \<notin> set (replaceAll s '':'' ''/'')" for s
    by (auto simp: replaceAll_single_map)
  then show ?thesis
    unfolding normalizeRepo_def Let_def
    by (auto dest!: subsetD [OF set_collapseSlashes] subsetD [OF set_trimSuffix])
qed

section \<open>URL styles of one repository\<close>

text \<open>
  A repository given by its host and its path. The host has no slash, colon, at sign or space; the
  path has no colon, at sign or double slash, does not begin or end with a slash or a space, and
  does not end in \<open>.git\<close>.
\<close>

definition sepChar :: "char \<Rightarrow> bool" where
  "sepChar c \<longleftrightarrow> c \<in> {CHR ''/'', CHR '':'', CHR ''@''} \<or> isSpace c"

definition clean_host :: "string \<Rightarrow> bool" where
  "clean_host h \<longleftrightarrow> h \<noteq> [] \<and> (\<forall>c \<in> set h. \<not> sepChar c)"

definition clean_user :: "string option \<Rightarrow> bool" where
  "clean_user u \<longleftrightarrow> (case u of None \<Rightarrow> True | Some x \<Rightarrow> \<forall>c \<in> set x. \<not> sepChar c)"

definition clean_path :: "string \<Rightarrow> bool" where
  "clean_path p \<longleftrightarrow> p \<noteq> [] \<and> CHR '':'' \<notin> set p \<and> CHR ''@'' \<notin> set p \<and> \<not> sublist ''//'' p \<and>
     hd p \<noteq> CHR ''/'' \<and> last p \<noteq> CHR ''/'' \<and> \<not> isSpace (last p) \<and> \<not> hasSuffix (toLower p) ''.git''"

text \<open>The ways a client may write it: a scheme, a user, a port, a \<open>.git\<close> suffix, a final slash.\<close>

definition url_style :: "string \<Rightarrow> string option \<Rightarrow> string option \<Rightarrow> bool \<Rightarrow> bool \<Rightarrow> string \<Rightarrow> string \<Rightarrow> string" where
  "url_style scheme user port git slash h p =
     scheme @ (case user of None \<Rightarrow> [] | Some u \<Rightarrow> u @ ''@'') @ h
     @ (case port of None \<Rightarrow> [] | Some n \<Rightarrow> '':'' @ n)
     @ ''/'' @ p @ (if git then ''.git'' else []) @ (if slash then ''/'' else [])"

definition scp_style :: "string option \<Rightarrow> bool \<Rightarrow> bool \<Rightarrow> string \<Rightarrow> string \<Rightarrow> string" where
  "scp_style user git slash h p =
     (case user of None \<Rightarrow> [] | Some u \<Rightarrow> u @ ''@'') @ h @ '':'' @ p
     @ (if git then ''.git'' else []) @ (if slash then ''/'' else [])"

lemma indexByte_append:
  "c \<notin> set u \<Longrightarrow> indexByte (u @ s) c = map_option (\<lambda>i. length u + i) (indexByte s c)"
  by (cases "indexByte s c"; induction u) auto

lemma lowerChar_nonletter: "d \<notin> set lowerLetters \<Longrightarrow> lowerChar c = d \<Longrightarrow> c = d"
proof (cases "c \<in> set upperLetters")
  case True
  assume "d \<notin> set lowerLetters" "lowerChar c = d"
  moreover have "lowerChar c \<in> set lowerLetters"
    using True by (auto simp: upperLetters_def lowerLetters_def lowerChar_def)
  ultimately show ?thesis by simp
qed (simp add: lowerChar_fix)

lemma nonletters: "CHR ''/'' \<notin> set lowerLetters" "CHR '':'' \<notin> set lowerLetters"
  "CHR ''@'' \<notin> set lowerLetters" "isSpace c \<Longrightarrow> c \<notin> set lowerLetters"
  by (auto simp: lowerLetters_def isSpace_def)

lemma isSpace_lowerChar: "isSpace (lowerChar c) \<Longrightarrow> isSpace c"
  using lowerChar_nonletter [of "lowerChar c" c] nonletters(4) by metis

lemma in_toLower: "d \<notin> set lowerLetters \<Longrightarrow> d \<in> set (toLower s) \<Longrightarrow> d \<in> set s"
  by (auto simp: toLower_def) (metis lowerChar_nonletter)

lemma sublist_double_toLower:
  assumes "sublist ''//'' (toLower s)"
  shows "sublist ''//'' s"
proof -
  from assms obtain a b where "map lowerChar s = a @ [CHR ''/'', CHR ''/''] @ b"
    by (auto simp: sublist_def toLower_def)
  then obtain a' x y b' where s: "s = a' @ x # y # b'" and "lowerChar x = CHR ''/''" "lowerChar y = CHR ''/''"
    by (auto simp: map_eq_append_conv map_eq_Cons_conv)
  then have "x = CHR ''/''" "y = CHR ''/''"
    using lowerChar_nonletter nonletters(1) by blast+
  with s have "s = a' @ ''//'' @ b'" by simp
  then show ?thesis unfolding sublist_def by blast
qed

lemma toLower_eq_Nil [simp]: "toLower s = [] \<longleftrightarrow> s = []"
  by (simp add: toLower_def)

lemma sepChar_lowerChar: "sepChar (lowerChar c) \<Longrightarrow> sepChar c"
proof -
  assume s: "sepChar (lowerChar c)"
  then have "lowerChar c \<notin> set lowerLetters" using nonletters by (auto simp: sepChar_def)
  then have "c = lowerChar c" by (rule lowerChar_nonletter) simp
  with s show ?thesis by simp
qed

lemma clean_host_toLower: "clean_host h \<Longrightarrow> clean_host (toLower h)"
  by (auto simp: clean_host_def toLower_def dest: sepChar_lowerChar)

lemma clean_host_mem: "clean_host h \<Longrightarrow> CHR ''/'' \<notin> set h \<and> CHR '':'' \<notin> set h \<and> CHR ''@'' \<notin> set h"
  by (auto simp: clean_host_def sepChar_def)

lemma clean_user_mem: "clean_user (Some x) \<Longrightarrow> CHR ''/'' \<notin> set x \<and> CHR '':'' \<notin> set x \<and> CHR ''@'' \<notin> set x"
  by (auto simp: clean_user_def sepChar_def)

lemma digit_chars: "set digitChars \<inter> (set upperLetters \<union> {CHR ''/'', CHR '':'', CHR ''@''}) = {}"
  by (simp add: digitChars_def upperLetters_def)

lemma isAllDigits_mem: "isAllDigits n \<Longrightarrow> n \<noteq> [] \<and> set n \<inter> (set upperLetters \<union> {CHR ''/'', CHR '':'', CHR ''@''}) = {}"
  using digit_chars by (auto simp: isAllDigits_def list_all_iff)

lemma clean_path_toLower: "clean_path p \<Longrightarrow> clean_path (toLower p)"
proof -
  assume "clean_path p"
  moreover have "p \<noteq> [] \<Longrightarrow> hd (toLower p) = lowerChar (hd p)" "p \<noteq> [] \<Longrightarrow> last (toLower p) = lowerChar (last p)"
    by (simp_all add: toLower_def hd_map last_map)
  ultimately show ?thesis
    using in_toLower [of "CHR '':''" p] in_toLower [of "CHR ''@''" p] nonletters sublist_double_toLower [of p]
      lowerChar_nonletter [of "CHR ''/''" "hd p"] lowerChar_nonletter [of "CHR ''/''" "last p"]
      isSpace_lowerChar [of "last p"]
    by (auto simp: clean_path_def)
qed

lemma not_scheme:
  assumes "CHR '':'' \<notin> set a" "CHR '':'' \<notin> set x" "b = [] \<or> (\<exists>c. b = CHR '':'' # c \<and> \<not> hasPrefix c ''//'')"
  shows "\<not> hasPrefix (a @ b) (x @ ''://'')"
proof
  let ?P = "\<lambda>c. c \<noteq> CHR '':''"
  assume "hasPrefix (a @ b) (x @ ''://'')"
  then obtain r where e: "a @ b = x @ CHR '':'' # ''//'' @ r"
    by (auto simp: hasPrefix_iff)
  then have "CHR '':'' \<in> set (a @ b)" by simp
  with assms obtain c where b: "b = CHR '':'' # c" and c: "\<not> hasPrefix c ''//''"
    by auto
  have "dropWhile ?P (a @ b) = b"
    using assms(1) b by (subst dropWhile_append2) auto
  moreover have "dropWhile ?P (x @ CHR '':'' # ''//'' @ r) = CHR '':'' # ''//'' @ r"
    using assms(2) by (subst dropWhile_append2) auto
  ultimately have "c = ''//'' @ r" using e b by simp
  with c show False by simp
qed

text \<open>A string whose first colon is not followed by two slashes has no scheme to strip.\<close>

lemma stripSchemes_id:
  assumes "CHR '':'' \<notin> set a" "b = [] \<or> (\<exists>c. b = CHR '':'' # c \<and> \<not> hasPrefix c ''//'')"
  shows "stripSchemes (a @ b) = a @ b"
  using not_scheme [OF assms(1) _ assms(2), of "''https''"] not_scheme [OF assms(1) _ assms(2), of "''http''"]
    not_scheme [OF assms(1) _ assms(2), of "''git''"] not_scheme [OF assms(1) _ assms(2), of "''ssh''"]
  by (simp add: stripSchemes_def trimPrefix_def)

definition url_schemes :: "string list" where
  "url_schemes = [[], ''https://'', ''http://'', ''git://'', ''ssh://'']"

lemma stripSchemes_scheme:
  assumes "sch \<in> set url_schemes" "CHR '':'' \<notin> set a"
    "b = [] \<or> (\<exists>c. b = CHR '':'' # c \<and> \<not> hasPrefix c ''//'')"
  shows "stripSchemes (sch @ a @ b) = a @ b"
  using assms(1) stripSchemes_id [OF assms(2,3)]
    not_scheme [OF assms(2) _ assms(3), of "''https''"] not_scheme [OF assms(2) _ assms(3), of "''http''"]
    not_scheme [OF assms(2) _ assms(3), of "''git''"] not_scheme [OF assms(2) _ assms(3), of "''ssh''"]
  by (auto simp: url_schemes_def stripSchemes_def trimPrefix_def)

lemma stripUser_none: "CHR ''@'' \<notin> set s \<Longrightarrow> stripUser s = s"
  by (simp add: stripUser_def indexByte_None [THEN iffD2])

lemma stripUser_user:
  assumes "CHR ''@'' \<notin> set u" "CHR ''/'' \<notin> set u"
  shows "stripUser (u @ CHR ''@'' # s) = s"
  using assms by (auto simp: stripUser_def indexByte_append split: option.splits)

lemma dropPort_none: "CHR '':'' \<notin> set s \<Longrightarrow> dropPort s = s"
  by (simp add: dropPort_def indexByte_None [THEN iffD2])

lemma digits_no_slash: "isAllDigits n \<Longrightarrow> CHR ''/'' \<notin> set n"
  using isAllDigits_mem by auto

lemma dropPort_port:
  assumes "CHR '':'' \<notin> set h" "isAllDigits n"
  shows "dropPort (h @ CHR '':'' # n @ CHR ''/'' # y) = h @ CHR ''/'' # y"
  using assms digits_no_slash [OF assms(2)]
  by (auto simp: dropPort_def indexByte_append Let_def isAllDigits_def)

text \<open>The colon of the scp form stays: what follows it is a path, not a port.\<close>

lemma dropPort_scp:
  assumes "CHR '':'' \<notin> set h" "\<not> isAllDigits (takeWhile (\<lambda>c. c \<noteq> CHR ''/'') r)"
  shows "dropPort (h @ CHR '':'' # r) = h @ CHR '':'' # r"
proof (cases "CHR ''/'' \<in> set r")
  case True
  then obtain a b where r: "r = a @ CHR ''/'' # b" and "CHR ''/'' \<notin> set a"
    by (meson split_list_first)
  moreover from this have "takeWhile (\<lambda>c. c \<noteq> CHR ''/'') r = a"
    by (subst r, subst takeWhile_append2) auto
  ultimately show ?thesis using assms by (auto simp: dropPort_def indexByte_append Let_def)
next
  case False
  then have "takeWhile (\<lambda>c. c \<noteq> CHR ''/'') r = r" by (auto simp: takeWhile_eq_all_conv)
  with False assms show ?thesis by (auto simp: dropPort_def indexByte_append indexByte_None [THEN iffD2] Let_def)
qed

lemma double_slash_append:
  "sublist ''//'' (a @ b) \<longleftrightarrow>
   sublist ''//'' a \<or> sublist ''//'' b \<or> (a \<noteq> [] \<and> b \<noteq> [] \<and> last a = CHR ''/'' \<and> hd b = CHR ''/'')"
proof (induction a)
  case Nil
  then show ?case by simp
next
  case (Cons x a)
  show ?case
  proof (cases a)
    case Nil
    with Cons show ?thesis by (cases b) (auto simp: sublist_Cons_right)
  next
    case (Cons y ys)
    with Cons.IH show ?thesis by (auto simp: sublist_Cons_right)
  qed
qed

lemma double_slash_mem: "sublist ''//'' a \<Longrightarrow> CHR ''/'' \<in> set a"
  using set_mono_sublist [of "''//''" a] by auto

lemma trimSuffix_last: "s \<noteq> [] \<Longrightarrow> last s \<noteq> c \<Longrightarrow> trimSuffix s [c] = s"
  by (auto simp: trimSuffix_def hasSuffix_iff)

lemma trimSuffix_no_git:
  assumes "clean_path p" "toLower p = p"
  shows "trimSuffix (h @ CHR ''/'' # p) ''.git'' = h @ CHR ''/'' # p"
proof -
  have False if r: "h @ CHR ''/'' # p = r @ ''.git''" for r
  proof -
    from r have "rev p @ CHR ''/'' # rev h = rev ''.git'' @ rev r"
      by (metis append_Cons append_Nil rev.simps(2) rev_append append.assoc)
    then have "CHR ''/'' \<in> set (rev ''.git'') \<or> (\<exists>t. rev p = rev ''.git'' @ t)"
      by (auto simp: append_eq_append_conv2 append_eq_Cons_conv Cons_eq_append_conv)
    then obtain t where "rev p = rev ''.git'' @ t" by auto
    then have "p = rev t @ ''.git''" by (metis rev_append rev_rev_ident)
    then show False using assms by (auto simp: clean_path_def hasSuffix_iff)
  qed
  then show ?thesis by (auto simp: trimSuffix_def hasSuffix_iff)
qed

text \<open>The tail of \<open>NormalizeRepo\<close> on a host and a path: the suffixes go, nothing else changes.\<close>

lemma trim_tail:
  assumes "clean_host h" "clean_path p" "toLower p = p"
  shows "collapseSlashes (trimSuffix (trimSuffix (trimSuffix
      (h @ CHR ''/'' # p @ (if git then ''.git'' else []) @ (if slash then ''/'' else [])) ''/'') ''.git'') ''/'')
    = h @ CHR ''/'' # p"
proof -
  let ?g = "if git then ''.git'' else []"
  have p: "p \<noteq> []" "last p \<noteq> CHR ''/''" "hd p \<noteq> CHR ''/''" "\<not> sublist ''//'' p"
    using assms(2) by (auto simp: clean_path_def)
  have 1: "trimSuffix (h @ CHR ''/'' # p @ ?g @ (if slash then ''/'' else [])) ''/'' = h @ CHR ''/'' # p @ ?g"
  proof (cases slash)
    case True
    then show ?thesis using trimSuffix_append [of "h @ CHR ''/'' # p @ ?g" "''/''"] by simp
  next
    case False
    then show ?thesis using p by (simp add: trimSuffix_last)
  qed
  have 2: "trimSuffix (h @ CHR ''/'' # p @ ?g) ''.git'' = h @ CHR ''/'' # p"
    using trimSuffix_append [of "h @ CHR ''/'' # p" "''.git''"] trimSuffix_no_git [OF assms(2,3)] by simp
  have 3: "trimSuffix (h @ CHR ''/'' # p) ''/'' = h @ CHR ''/'' # p"
    using p by (simp add: trimSuffix_last)
  have "\<not> sublist ''//'' h" using double_slash_mem [of h] clean_host_mem [OF assms(1)] by auto
  moreover have "h \<noteq> []" "last h \<noteq> CHR ''/''"
    using assms(1) clean_host_mem [OF assms(1)] by (auto simp: clean_host_def) (metis last_in_set)
  moreover have "\<not> sublist ''//'' (CHR ''/'' # p)"
    using p by (cases p) (auto simp: sublist_Cons_right)
  ultimately have 4: "\<not> sublist ''//'' (h @ CHR ''/'' # p)"
    by (simp add: double_slash_append)
  show ?thesis using 1 2 3 4 by (simp add: collapseSlashes_id)
qed

lemma clean_user_toLower: "clean_user u \<Longrightarrow> clean_user (map_option toLower u)"
  by (auto simp: clean_user_def toLower_def dest: sepChar_lowerChar split: option.splits)

abbreviation user_part :: "string option \<Rightarrow> string" where
  "user_part u \<equiv> (case u of None \<Rightarrow> [] | Some x \<Rightarrow> x @ ''@'')"

lemma stripUser_part:
  assumes "clean_user u" "CHR ''@'' \<notin> set s"
  shows "stripUser (user_part u @ s) = s"
proof (cases u)
  case None
  with assms show ?thesis by (simp add: stripUser_none)
next
  case (Some x)
  with assms show ?thesis using stripUser_user [of x s] clean_user_mem [of x] by simp
qed

lemma hd_clean: "clean_user u \<Longrightarrow> clean_host h \<Longrightarrow> \<not> isSpace (hd (user_part u @ h @ s))"
proof (cases "user_part u")
  case Nil
  assume "clean_host h"
  with Nil show ?thesis by (cases h) (auto simp: clean_host_def sepChar_def)
next
  case (Cons c cs)
  assume "clean_user u"
  with Cons have "\<not> isSpace c"
    by (cases u; cases "the u") (auto simp: clean_user_def sepChar_def isSpace_def)
  with Cons show ?thesis by simp
qed

lemma last_clean: "clean_path p \<Longrightarrow>
    \<not> isSpace (last (x @ p @ (if git then ''.git'' else []) @ (if slash then ''/'' else [])))"
  by (auto simp: clean_path_def isSpace_def)

lemma trimSpace_clean:
  assumes "sch \<in> set url_schemes" "clean_user u" "clean_host h" "clean_path p"
  shows "trimSpace (sch @ user_part u @ h @ m @ p @ (if git then ''.git'' else []) @ (if slash then ''/'' else []))
    = sch @ user_part u @ h @ m @ p @ (if git then ''.git'' else []) @ (if slash then ''/'' else [])"
    (is "trimSpace ?s = ?s")
proof (rule trimSpace_fix, intro disjI2 conjI)
  show "\<not> isSpace (hd ?s)"
    using assms(1) hd_clean [OF assms(2,3)] by (auto simp: url_schemes_def isSpace_def simp del: append_assoc)
  show "\<not> isSpace (last ?s)"
    using last_clean [OF assms(4), of "sch @ user_part u @ h @ m"] by simp
qed

lemma url_lower:
  assumes "sch \<in> set url_schemes" "clean_user u" "clean_host h" "clean_path p" "toLower p = p" "toLower h = h"
    "case port of None \<Rightarrow> True | Some n \<Rightarrow> isAllDigits n"
  shows "collapseSlashes (trimSuffix (trimSuffix (trimSuffix (replaceAll (dropPort (stripUser (stripSchemes (trimSpace
    (url_style sch u port git slash h p))))) '':'' ''/'') ''/'') ''.git'') ''/'') = h @ CHR ''/'' # p"
proof -
  let ?t = "p @ (if git then ''.git'' else []) @ (if slash then ''/'' else [])"
  let ?b = "(case port of None \<Rightarrow> [] | Some n \<Rightarrow> CHR '':'' # n) @ CHR ''/'' # ?t"
  have raw: "url_style sch u port git slash h p = sch @ user_part u @ h @ ?b"
    by (simp add: url_style_def split: option.split)
  have t: "CHR '':'' \<notin> set ?t" "CHR ''@'' \<notin> set ?t"
    using assms(4) by (auto simp: clean_path_def)
  have h: "CHR '':'' \<notin> set h" "CHR ''@'' \<notin> set h" using clean_host_mem [OF assms(3)] by auto
  have u: "CHR '':'' \<notin> set (user_part u)" using assms(2) clean_user_mem by (auto split: option.splits)
  have 1: "trimSpace (url_style sch u port git slash h p) = sch @ user_part u @ h @ ?b"
    unfolding raw using trimSpace_clean [OF assms(1-4), of "(case port of None \<Rightarrow> [] | Some n \<Rightarrow> CHR '':'' # n) @ ''/''"]
    by (simp split: option.split)
  have 2: "stripSchemes (sch @ user_part u @ h @ ?b) = user_part u @ h @ ?b"
  proof (cases port)
    case None
    then show ?thesis
      using stripSchemes_scheme [OF assms(1), of "user_part u @ h @ CHR ''/'' # ?t" "[]"] t h u by auto
  next
    case (Some n)
    then have "n \<noteq> []" "CHR ''/'' \<notin> set n" using assms(7) isAllDigits_mem [of n] by auto
    then have "\<not> hasPrefix (n @ CHR ''/'' # ?t) ''//''" by (cases n) auto
    then show ?thesis using Some stripSchemes_scheme [OF assms(1), of "user_part u @ h" ?b] h u by auto
  qed
  have n: "port = Some n \<Longrightarrow> CHR ''@'' \<notin> set n" for n
    using assms(7) isAllDigits_mem [of n] by auto
  have 3: "stripUser (user_part u @ h @ ?b) = h @ ?b"
    using t h n by (intro stripUser_part [OF assms(2)]) (auto split: option.splits)
  have 4: "dropPort (h @ ?b) = h @ CHR ''/'' # ?t"
    using dropPort_port [OF h(1)] dropPort_none [of "h @ CHR ''/'' # ?t"] t h assms(7) by (auto split: option.splits)
  have 5: "replaceAll (h @ CHR ''/'' # ?t) '':'' ''/'' = h @ CHR ''/'' # ?t"
    using t h by (auto simp: replaceAll_single_map intro!: map_idI)
  show ?thesis unfolding 1 2 3 4 5 by (rule trim_tail [OF assms(3-5)])
qed

lemma toLower_url:
  assumes "sch \<in> set url_schemes" "case port of None \<Rightarrow> True | Some n \<Rightarrow> isAllDigits n"
  shows "toLower (url_style sch u port git slash h p) =
    url_style sch (map_option toLower u) port git slash (toLower h) (toLower p)"
proof -
  have "toLower sch = sch"
    using assms(1) by (auto simp: url_schemes_def toLower_fix upperLetters_def)
  moreover have "toLower ''.git'' = ''.git''" "toLower ''/'' = ''/''" "toLower ''@'' = ''@''" "toLower '':'' = '':''"
    by (simp_all add: toLower_fix upperLetters_def)
  moreover have "isAllDigits n \<Longrightarrow> toLower n = n" for n
    using isAllDigits_mem [of n] by (intro toLower_fix) auto
  ultimately show ?thesis using assms(2) by (auto simp: url_style_def simp del: append_Cons append_Nil split: option.splits)
qed

lemma isAllDigits_appendD: "isAllDigits (a @ b) \<Longrightarrow> a \<noteq> [] \<Longrightarrow> isAllDigits a"
  by (auto simp: isAllDigits_def)

lemma first_segment_not_digits:
  assumes "p \<noteq> []" "\<not> isAllDigits (takeWhile (\<lambda>c. c \<noteq> CHR ''/'') p)"
  shows "\<not> isAllDigits (takeWhile (\<lambda>c. c \<noteq> CHR ''/'') (p @ r))"
proof (cases "CHR ''/'' \<in> set p")
  case True
  then have "takeWhile (\<lambda>c. c \<noteq> CHR ''/'') (p @ r) = takeWhile (\<lambda>c. c \<noteq> CHR ''/'') p"
    by (auto intro: takeWhile_append1)
  with assms(2) show ?thesis by simp
next
  case False
  then have "takeWhile (\<lambda>c. c \<noteq> CHR ''/'') p = p"
    "takeWhile (\<lambda>c. c \<noteq> CHR ''/'') (p @ r) = p @ takeWhile (\<lambda>c. c \<noteq> CHR ''/'') r"
    by (auto simp: takeWhile_append takeWhile_eq_all_conv)
  with assms isAllDigits_appendD [of p] show ?thesis by metis
qed

lemma scp_lower:
  assumes "clean_user u" "clean_host h" "clean_path p" "toLower p = p" "toLower h = h"
    "\<not> isAllDigits (takeWhile (\<lambda>c. c \<noteq> CHR ''/'') p)"
  shows "collapseSlashes (trimSuffix (trimSuffix (trimSuffix (replaceAll (dropPort (stripUser (stripSchemes (trimSpace
    (scp_style u git slash h p))))) '':'' ''/'') ''/'') ''.git'') ''/'') = h @ CHR ''/'' # p"
proof -
  let ?t = "p @ (if git then ''.git'' else []) @ (if slash then ''/'' else [])"
  have p: "p \<noteq> []" "hd p \<noteq> CHR ''/''" using assms(3) by (auto simp: clean_path_def)
  have t: "CHR '':'' \<notin> set ?t" "CHR ''@'' \<notin> set ?t"
    using assms(3) by (auto simp: clean_path_def)
  have h: "CHR '':'' \<notin> set h" "CHR ''@'' \<notin> set h" using clean_host_mem [OF assms(2)] by auto
  have u: "CHR '':'' \<notin> set (user_part u)" using assms(1) clean_user_mem by (auto split: option.splits)
  have nil: "[] \<in> set url_schemes" by (simp add: url_schemes_def)
  have 1: "trimSpace (scp_style u git slash h p) = user_part u @ h @ CHR '':'' # ?t"
    using trimSpace_clean [OF nil assms(1-3), of "'':''"] by (simp add: scp_style_def)
  have "\<not> hasPrefix ?t ''//''" using p by (cases p) auto
  then have 2: "stripSchemes (user_part u @ h @ CHR '':'' # ?t) = user_part u @ h @ CHR '':'' # ?t"
    using stripSchemes_id [of "user_part u @ h" "CHR '':'' # ?t"] h u by auto
  have 3: "stripUser (user_part u @ h @ CHR '':'' # ?t) = h @ CHR '':'' # ?t"
    using t h by (intro stripUser_part [OF assms(1)]) auto
  have "\<not> isAllDigits (takeWhile (\<lambda>c. c \<noteq> CHR ''/'') ?t)"
    by (rule first_segment_not_digits [OF p(1) assms(6)])
  then have 4: "dropPort (h @ CHR '':'' # ?t) = h @ CHR '':'' # ?t"
    by (rule dropPort_scp [OF h(1)])
  have 5: "replaceAll (h @ CHR '':'' # ?t) '':'' ''/'' = h @ CHR ''/'' # ?t"
    using t h by (auto simp: replaceAll_single_map intro!: map_idI)
  show ?thesis unfolding 1 2 3 4 5 by (rule trim_tail [OF assms(2-4)])
qed

lemma toLower_scp: "toLower (scp_style u git slash h p) =
    scp_style (map_option toLower u) git slash (toLower h) (toLower p)"
proof -
  have "toLower ''.git'' = ''.git''" "toLower ''/'' = ''/''" "toLower ''@'' = ''@''" "toLower '':'' = '':''"
    by (simp_all add: toLower_fix upperLetters_def)
  then show ?thesis by (auto simp: scp_style_def simp del: append_Cons append_Nil split: option.splits)
qed

lemma isAllDigits_toLower: "isAllDigits (toLower s) \<Longrightarrow> isAllDigits s"
proof -
  have "set digitChars \<inter> set lowerLetters = {}" by (simp add: digitChars_def lowerLetters_def)
  then have "lowerChar c \<in> set digitChars \<Longrightarrow> c \<in> set digitChars" for c
    using lowerChar_nonletter [of "lowerChar c" c] by (metis disjoint_iff)
  moreover assume "isAllDigits (toLower s)"
  ultimately show ?thesis by (auto simp: isAllDigits_def list_all_iff toLower_def)
qed

lemma takeWhile_toLower:
  "takeWhile (\<lambda>c. c \<noteq> CHR ''/'') (toLower p) = toLower (takeWhile (\<lambda>c. c \<noteq> CHR ''/'') p)"
proof -
  have "lowerChar c = CHR ''/'' \<longleftrightarrow> c = CHR ''/''" for c
    using lowerChar_nonletter [OF nonletters(1), of c] by (auto simp: lowerChar_fix upperLetters_def)
  then show ?thesis by (simp add: toLower_def takeWhile_map comp_def)
qed

text \<open>C38: \<^bold>\<open>URL styles of one repository share one identity.\<close> A repository written with any of the
  schemes (or none), with or without a user, an explicit port, a \<open>.git\<close> suffix and a final slash, or
  in the scp form \<open>user@host:path\<close>, normalises to its lower-case host and path: both URL forms give
  the same result. The scp form needs a first path segment that is not all digits, because the code
  reads such a segment as a port.\<close>

theorem normalizeRepo_url_styles:
  assumes "clean_host h" "clean_path p" "clean_user u" "clean_user v" "sch \<in> set url_schemes"
    "case port of None \<Rightarrow> True | Some n \<Rightarrow> isAllDigits n"
    "\<not> isAllDigits (takeWhile (\<lambda>c. c \<noteq> CHR ''/'') p)"
  shows "normalizeRepo (url_style sch u port git slash h p) = toLower h @ ''/'' @ toLower p \<and>
    normalizeRepo (scp_style v git' slash' h p) = toLower h @ ''/'' @ toLower p"
proof
  note low = clean_host_toLower [OF assms(1)] clean_path_toLower [OF assms(2)]
  show "normalizeRepo (url_style sch u port git slash h p) = toLower h @ ''/'' @ toLower p"
    using url_lower [OF assms(5) clean_user_toLower [OF assms(3)] low _ _ assms(6)] toLower_url [OF assms(5,6)]
    by (simp add: normalizeRepo_def Let_def)
  have "\<not> isAllDigits (takeWhile (\<lambda>c. c \<noteq> CHR ''/'') (toLower p))"
    using assms(7) isAllDigits_toLower by (auto simp: takeWhile_toLower)
  then show "normalizeRepo (scp_style v git' slash' h p) = toLower h @ ''/'' @ toLower p"
    using scp_lower [OF clean_user_toLower [OF assms(4)] low] by (simp add: normalizeRepo_def Let_def toLower_scp)
qed

theorem normalizeRepo_url_styles_witness:
  "normalizeRepo ''https://ci@GitHub.com:443/Acme/App.git'' = ''github.com/acme/app'' \<and>
   normalizeRepo ''git@GitHub.com:Acme/App/'' = ''github.com/acme/app''"
proof -
  have "clean_host ''GitHub.com''" "clean_path ''Acme/App''" "clean_user (Some ''ci'')" "clean_user (Some ''git'')"
    "''https://'' \<in> set url_schemes" "isAllDigits ''443''"
    "\<not> isAllDigits (takeWhile (\<lambda>c. c \<noteq> CHR ''/'') ''Acme/App'')"
    by (simp_all add: clean_host_def clean_path_def clean_user_def sepChar_def isSpace_def url_schemes_def
        isAllDigits_def digitChars_def hasSuffix_def toLower_def lowerChar_def upperLetters_def lowerLetters_def sublist_Cons_right)
  note t = normalizeRepo_url_styles [OF this(1-5) _ this(7), of "Some ''443''" True False False True, simplified]
  moreover have "toLower ''GitHub.com'' = ''github.com''" "toLower ''Acme/App'' = ''acme/app''"
    by (simp_all add: toLower_def lowerChar_def upperLetters_def lowerLetters_def)
  ultimately show ?thesis using \<open>isAllDigits ''443''\<close> by (simp add: url_style_def scp_style_def)
qed

section \<open>The canonical form\<close>

text \<open>\<^bold>\<open>Normalisation reaches a canonical form.\<close> Whatever the input, the result of
  \<open>NormalizeRepo\<close> has no upper-case letter, no colon and no double slash; the slash-collapsing loop
  ends on every input (it is a total function).\<close>

theorem normalizeRepo_canonical:
  "set (normalizeRepo r) \<inter> set upperLetters = {} \<and> CHR '':'' \<notin> set (normalizeRepo r) \<and>
   \<not> sublist ''//'' (normalizeRepo r)"
  using set_normalizeRepo_lower set_normalizeRepo_colon collapseSlashes_no_double
  unfolding normalizeRepo_def Let_def by blast

text \<open>\<^bold>\<open>The client and the server agree on the key.\<close> The CLI normalises the repository before it
  sends it and \<open>buildd\<close> normalises it again: on every URL style of a clean repository the second
  normalisation changes nothing, so the key the client computes is the key the server routes to.\<close>

theorem projectKey_client_server:
  assumes "clean_host h" "clean_path p" "clean_user u" "sch \<in> set url_schemes"
    "case port of None \<Rightarrow> True | Some n \<Rightarrow> isAllDigits n"
  shows "projectKey (normalizeRepo (url_style sch u port git slash h p)) name target arch =
    projectKey (url_style sch u port git slash h p) name target arch"
proof -
  note low = clean_host_toLower [OF assms(1)] clean_path_toLower [OF assms(2)]
  have nil: "[] \<in> set url_schemes" "clean_user None" by (simp_all add: url_schemes_def clean_user_def)
  have once: "normalizeRepo (url_style sch u port git slash h p) = toLower h @ ''/'' @ toLower p"
    using url_lower [OF assms(4) clean_user_toLower [OF assms(3)] low _ _ assms(5)] toLower_url [OF assms(4,5)]
    by (simp add: normalizeRepo_def Let_def)
  moreover have "normalizeRepo (url_style [] None None False False (toLower h) (toLower p)) = toLower h @ ''/'' @ toLower p"
    using url_lower [OF nil low, of None False False] toLower_url [OF nil(1), of None None False False "toLower h" "toLower p"]
    by (simp add: normalizeRepo_def Let_def)
  ultimately show ?thesis by (simp add: projectKey_def keySeed_def url_style_def)
qed

theorem projectKey_client_server_witness:
  "projectKey (normalizeRepo ''ssh://git@Host.io:22/Org/Repo.git'') ''api'' '''' ''x86_64'' =
   projectKey ''ssh://git@Host.io:22/Org/Repo.git'' ''api'' '''' ''x86_64''"
proof -
  have "clean_host ''Host.io''" "clean_path ''Org/Repo''" "clean_user (Some ''git'')" "''ssh://'' \<in> set url_schemes"
    by (simp_all add: clean_host_def clean_path_def clean_user_def sepChar_def isSpace_def url_schemes_def
        hasSuffix_def toLower_def lowerChar_def upperLetters_def lowerLetters_def sublist_Cons_right)
  from projectKey_client_server [OF this, of "Some ''22''" True False "''api''" "[]" "''x86_64''"]
  show ?thesis by (simp add: url_style_def isAllDigits_def digitChars_def)
qed

text \<open>\<^bold>\<open>Normalisation is not idempotent on every input.\<close> The comment on \<open>NormalizeRepo\<close> says that
  trailing \<open>.git\<close> and slashes all collapse to the same identity; the code strips one slash, one
  \<open>.git\<close> and one slash, so a doubled slash after \<open>.git\<close> or three final slashes leave a different
  identity than the plain form, and a second pass changes the result again.\<close>

theorem normalizeRepo_not_idempotent:
  "normalizeRepo ''h/a.git//'' = ''h/a.git'' \<and> normalizeRepo ''h/a.git'' = ''h/a'' \<and>
   normalizeRepo ''h/a///'' = ''h/a/'' \<and> normalizeRepo ''h/a'' = ''h/a''"
  by code_simp

section \<open>The seed and the key\<close>

lemma splitByte_absent: "c \<notin> set a \<Longrightarrow> splitByte c a = [a]"
  by (induction a) auto

lemma splitByte_sep: "c \<notin> set a \<Longrightarrow> splitByte c (a @ c # s) = a # splitByte c s"
  by (induction a) auto

lemma NUL_in_toLower: "NUL \<in> set (toLower s) \<Longrightarrow> NUL \<in> set s"
  by (rule in_toLower [rotated]) (simp_all add: lowerLetters_def)

lemma NUL_normalizeRepo: "NUL \<notin> set r \<Longrightarrow> NUL \<notin> set (normalizeRepo r)"
proof -
  assume "NUL \<notin> set r"
  then have "NUL \<notin> set (trimSpace (toLower r))" using NUL_in_toLower set_trimSpace by blast
  then have "NUL \<notin> set (replaceAll (dropPort (stripUser (stripSchemes (trimSpace (toLower r))))) '':'' ''/'')"
    by (auto simp: replaceAll_single_map
        dest!: subsetD [OF set_dropPort] subsetD [OF set_stripUser] subsetD [OF set_stripSchemes])
  then show ?thesis
    unfolding normalizeRepo_def Let_def using set_collapseSlashes set_trimSuffix by blast
qed

lemma NUL_trimmed: "NUL \<notin> set s \<Longrightarrow> NUL \<notin> set (trimSpace (toLower s))"
  using NUL_in_toLower set_trimSpace by blast

lemma NUL_normalizeName: "NUL \<notin> set n \<Longrightarrow> NUL \<notin> set (normalizeName n)"
  by (simp add: normalizeName_def NUL_trimmed)

lemma NUL_normalizeTarget: "NUL \<notin> set t \<Longrightarrow> NUL \<notin> set (normalizeTarget t)"
  by (simp add: normalizeTarget_def Let_def NUL_trimmed)

lemma NUL_normalizeArch: "NUL \<notin> set a \<Longrightarrow> NUL \<notin> set (normalizeArch a)"
  by (simp add: normalizeArch_def Let_def NUL_trimmed)

lemmas NUL_normalize = NUL_normalizeRepo NUL_normalizeName NUL_normalizeTarget NUL_normalizeArch

lemma splitByte_keySeed:
  assumes "NUL \<notin> set r" "NUL \<notin> set n" "NUL \<notin> set t" "NUL \<notin> set a"
  shows "splitByte NUL (keySeed r n t a) =
    normalizeRepo r # (if normalizeName n = [] then [] else [''n:'' @ normalizeName n])
    @ [normalizeTarget t, normalizeArch a]"
proof -
  have s: "splitByte NUL (x @ NUL # normalizeTarget t @ NUL # normalizeArch a) = [x, normalizeTarget t, normalizeArch a]"
    if "NUL \<notin> set x" for x
    using that NUL_normalize(3,4) assms(3,4) by (simp add: splitByte_sep splitByte_absent)
  have n: "NUL \<notin> set (''n:'' @ normalizeName n)" using NUL_normalize(2) assms(2) by simp
  show ?thesis
    using NUL_normalize(1) [OF assms(1)] s [OF n] s
    by (simp add: keySeed_def Let_def splitByte_sep)
qed

text \<open>\<^bold>\<open>The seed determines the normalised identity.\<close> For inputs without NUL bytes, two requests
  hash the same seed exactly when their normalised repository, component name, target and
  architecture agree: leaving the name out when it is empty cannot make two identities meet.\<close>

theorem keySeed_injective:
  assumes "NUL \<notin> set r \<union> set n \<union> set t \<union> set a" "NUL \<notin> set r' \<union> set n' \<union> set t' \<union> set a'"
  shows "keySeed r n t a = keySeed r' n' t' a' \<longleftrightarrow>
    normalizeRepo r = normalizeRepo r' \<and> normalizeName n = normalizeName n' \<and>
    normalizeTarget t = normalizeTarget t' \<and> normalizeArch a = normalizeArch a'"
proof
  assume "keySeed r n t a = keySeed r' n' t' a'"
  then have "splitByte NUL (keySeed r n t a) = splitByte NUL (keySeed r' n' t' a')" by simp
  then show "normalizeRepo r = normalizeRepo r' \<and> normalizeName n = normalizeName n' \<and>
    normalizeTarget t = normalizeTarget t' \<and> normalizeArch a = normalizeArch a'"
    using assms by (auto simp: splitByte_keySeed split: if_splits)
qed (simp add: keySeed_def)

theorem keySeed_injective_witness:
  "keySeed ''h/a'' ''api'' [] ''amd64'' \<noteq> keySeed ''h/a'' [] ''api'' ''amd64''"
proof -
  have "normalizeName ''api'' = ''api''" "normalizeName [] = []"
    by (simp_all add: normalizeName_def toLower_def lowerChar_def upperLetters_def lowerLetters_def trimSpace_def isSpace_def)
  then show ?thesis
    using keySeed_injective [of "''h/a''" "''api''" "[]" "''amd64''" "''h/a''" "[]" "''api''" "''amd64''"] by simp
qed

lemma takeWhile_keySeed: "NUL \<notin> set r \<Longrightarrow> takeWhile (\<lambda>c. c \<noteq> NUL) (keySeed r n t a) = normalizeRepo r"
proof -
  assume "NUL \<notin> set r"
  then have "\<forall>c \<in> set (normalizeRepo r). c \<noteq> NUL" using NUL_normalize(1) by auto
  then show ?thesis by (auto simp: keySeed_def Let_def takeWhile_append)
qed

text \<open>C39: \<^bold>\<open>No request can reach another repository's key.\<close> Whatever name, target and architecture a
  caller sends (NUL bytes included), if its key equals the key of another request then the two
  normalised repositories are the same, or the two seeds are distinct and collide on the first 64
  bits of SHA-256. With the repository bound by a verified token, this is what confines a caller to
  its own cache.\<close>

theorem projectKey_repo_isolation:
  assumes "NUL \<notin> set r" "NUL \<notin> set r'" "projectKey r n t a = projectKey r' n' t' a'"
  shows "normalizeRepo r = normalizeRepo r' \<or>
    keySeed r n t a \<noteq> keySeed r' n' t' a' \<and>
    take 16 (hex_encode (sha256 (keySeed r n t a))) = take 16 (hex_encode (sha256 (keySeed r' n' t' a')))"
  using assms takeWhile_keySeed [of r n t a] takeWhile_keySeed [of r' n' t' a'] by (auto simp: projectKey_def)

theorem projectKey_repo_isolation_witness:
  "projectKey ''h/a'' ''x'' [] ''amd64'' = projectKey ''H/A/'' ''X'' [] ''x86_64'' \<and>
   normalizeRepo ''h/a'' = normalizeRepo ''H/A/''"
proof -
  have r: "normalizeRepo ''h/a'' = ''h/a''" "normalizeRepo ''H/A/'' = ''h/a''"
    by code_simp+
  have n: "normalizeName ''x'' = normalizeName ''X''" "normalizeArch ''amd64'' = normalizeArch ''x86_64''"
    by code_simp+
  have k: "projectKey ''h/a'' ''x'' [] ''amd64'' = projectKey ''H/A/'' ''X'' [] ''x86_64''"
    by (simp add: projectKey_def keySeed_def r n)
  from projectKey_repo_isolation [OF _ _ this] show ?thesis using k r by simp
qed

section \<open>Name spaces of keys\<close>

lemma projectKey_parts: "\<exists>x. projectKey r n t a = CHR ''p'' # x \<and> length x = 16 \<and> set x \<subseteq> set hexDigits"
proof -
  let ?x = "take 16 (hex_encode (sha256 (keySeed r n t a)))"
  have "set ?x \<subseteq> set hexDigits" using set_hex_encode set_take_subset by fastforce
  then show ?thesis by (simp add: projectKey_def)
qed

lemma hd_projectKey [simp]: "hd (projectKey r n t a) = CHR ''p''"
  by (simp add: projectKey_def)

lemma forkKey_inj [simp]: "forkKey k = forkKey k' \<longleftrightarrow> k = k'"
  by (simp add: forkKey_def)

lemma cachePVCName_inj [simp]: "cachePVCName k = cachePVCName k' \<longleftrightarrow> k = k'"
  by (simp add: cachePVCName_def daemonName_def)

lemma daemonName_inj [simp]: "daemonName k = daemonName k' \<longleftrightarrow> k = k'"
  by (simp add: daemonName_def)

lemma isForkKey_forkKey [simp]: "isForkKey (forkKey k)"
  by (simp add: isForkKey_def forkKey_def)

lemma not_fork_projectKey [simp]: "\<not> isForkKey (projectKey r n t a)"
  by (simp add: isForkKey_def projectKey_def)

lemma not_fork_cloneKey [simp]: "\<not> isForkKey (cloneKey k i)"
  by (simp add: isForkKey_def cloneKey_def)

lemma cloneKey_inj:
  assumes "0 \<le> i" "0 \<le> j" "k = CHR ''p'' # x" "k' = CHR ''p'' # x'"
  shows "cloneKey k i = cloneKey k' j \<longleftrightarrow> k = k' \<and> i = j"
proof
  let ?d = "\<lambda>c. c \<in> set digitChars"
  assume "cloneKey k i = cloneKey k' j"
  then have e: "decimal (nat i) @ k = decimal (nat j) @ k'"
    using assms by (simp add: cloneKey_def itoa_nonneg)
  have p: "\<not> ?d (CHR ''p'')" by (simp add: digitChars_def)
  have "takeWhile ?d (decimal m @ CHR ''p'' # y) = decimal m" for m y
    using decimal_digits [of m] p by (subst takeWhile_append2) auto
  then have "decimal (nat i) = decimal (nat j)" using e assms(3,4) by metis
  with e assms(1,2) show "k = k' \<and> i = j" by (simp add: decimal_inj)
qed simp

text \<open>\<^bold>\<open>Canonical, fork and clone daemons never share a name.\<close> A canonical key is \<open>p\<close> and 16
  hexadecimal digits, so its daemon name has 27 characters; fork keys are recognised as forks,
  canonical and clone keys are not; and the canonical key, its fork and its clones name pairwise
  different daemons and cache volumes, also across projects.\<close>

theorem key_namespaces:
  assumes "1 \<le> i" "1 \<le> j" "k = projectKey r n t a" "k' = projectKey r' n' t' a'"
  shows "length (daemonName k) = 27 \<and> set (tl k) \<subseteq> set hexDigits \<and>
    isForkKey (forkKey k) \<and> \<not> isForkKey k \<and> \<not> isForkKey (cloneKey k i) \<and>
    cachePVCName (forkKey k) \<noteq> cachePVCName k' \<and> cachePVCName (forkKey k) \<noteq> cachePVCName (cloneKey k' i) \<and>
    cachePVCName (cloneKey k i) \<noteq> cachePVCName k' \<and>
    (cachePVCName (cloneKey k i) = cachePVCName (cloneKey k' j) \<longleftrightarrow> k = k' \<and> i = j) \<and>
    (cachePVCName (forkKey k) = cachePVCName (forkKey k') \<longleftrightarrow> k = k')"
proof -
  obtain x x' where x: "k = CHR ''p'' # x" "length x = 16" "set x \<subseteq> set hexDigits" "k' = CHR ''p'' # x'"
    using projectKey_parts assms(3,4) by metis
  then show ?thesis
    using assms(1,2) cloneKey_inj [of i j k x k' x']
    by (auto simp: daemonName_def isForkKey_def forkKey_def cloneKey_def cachePVCName_def)
qed

theorem key_namespaces_witness:
  "cachePVCName (cloneKey (projectKey ''h/a'' [] [] ''amd64'') 1) \<noteq>
   cachePVCName (cloneKey (projectKey ''h/a'' [] [] ''amd64'') 12)"
  using key_namespaces [of 1 12, OF _ _ refl refl] by simp

end
