(* ===== verification/Api_Types.thy ===== *)
theory Api_Types
  imports Router
begin

text \<open>
  \<open>api/v1alpha1\<close> without the inflight set: the BuildProject resource (\<open>buildproject_types.go\<close>), its
  defaults (\<open>defaults.go\<close>), the derivation of child daemons (\<open>derive.go\<close>) and the cadence record of
  adaptive keep-warm (\<open>adaptive.go\<close>).

  A Go string field is a \<^typ>\<open>string\<close> (the empty string is \<open>[]\<close>), an \<open>int32\<close> field an \<^typ>\<open>int\<close>, a
  \<open>*metav1.Time\<close> a \<^typ>\<open>time option\<close>. \<open>corev1.ResourceRequirements\<close> is only copied into the pod
  template, so it is an opaque string here.
\<close>

section \<open>The resource\<close>

definition TierHot :: string where "TierHot = ''hot''"
definition TierWarm :: string where "TierWarm = ''warm''"

definition S3CacheCadence :: string where "S3CacheCadence = ''cadence''"
definition S3CacheAlways :: string where "S3CacheAlways = ''always''"
definition S3CacheNever :: string where "S3CacheNever = ''never''"

definition ProfileRootless :: string where "ProfileRootless = ''rootless''"
definition ProfileUserns :: string where "ProfileUserns = ''userns''"
definition ProfilePrivileged :: string where "ProfilePrivileged = ''privileged''"

lemmas api_consts = TierHot_def TierWarm_def S3CacheCadence_def S3CacheAlways_def S3CacheNever_def
  ProfileRootless_def ProfileUserns_def ProfilePrivileged_def

record BuildProjectSpec =
  sp_Key :: string
  sp_Repo :: string
  sp_Name :: string
  sp_Target :: string
  sp_Arch :: string
  sp_StorageClass :: string
  sp_CacheVolumeGi :: int
  sp_Tier :: string
  sp_IdleTimeoutSec :: int
  sp_SnapshotEverySec :: int
  sp_RestoreFromSnapshot :: string
  sp_Fanout :: int
  sp_S3CachePolicy :: string
  sp_SecurityProfile :: string
  sp_Resources :: string

text \<open>The zero value of the Go struct.\<close>

definition zeroSpec :: BuildProjectSpec where
  "zeroSpec = \<lparr>sp_Key = [], sp_Repo = [], sp_Name = [], sp_Target = [], sp_Arch = [], sp_StorageClass = [],
     sp_CacheVolumeGi = 0, sp_Tier = [], sp_IdleTimeoutSec = 0, sp_SnapshotEverySec = 0,
     sp_RestoreFromSnapshot = [], sp_Fanout = 0, sp_S3CachePolicy = [], sp_SecurityProfile = [], sp_Resources = []\<rparr>"

record InflightBuild =
  ib_ID :: string
  ib_Since :: time

record Condition =
  cd_Type :: string
  cd_Status :: string
  cd_Reason :: string
  cd_Message :: string

record BuildProjectStatus =
  st_Phase :: string
  st_Replicas :: int
  st_Endpoint :: string
  st_LastBuildTime :: "time option"
  st_RecentBuildTimes :: "time list"
  st_LastSnapshot :: string
  st_Inflight :: "InflightBuild list"
  st_InflightBuilds :: int
  st_LastCacheExportGrant :: "time option"
  st_Conditions :: "Condition list"

definition zeroStatus :: BuildProjectStatus where
  "zeroStatus = \<lparr>st_Phase = [], st_Replicas = 0, st_Endpoint = [], st_LastBuildTime = None,
     st_RecentBuildTimes = [], st_LastSnapshot = [], st_Inflight = [], st_InflightBuilds = 0,
     st_LastCacheExportGrant = None, st_Conditions = []\<rparr>"

text \<open>
  The object with the metadata the control plane reads: its name and namespace, the labels, the
  controlling owner, the creation time and the resource version the API server uses to detect
  concurrent writes.
\<close>

record BuildProject =
  bp_Name :: string
  bp_Namespace :: string
  bp_Labels :: "(string \<times> string) list"
  bp_Owner :: "string option"
  bp_CreationTimestamp :: time
  bp_ResourceVersion :: string
  bp_Spec :: BuildProjectSpec
  bp_Status :: BuildProjectStatus

text \<open>An object with only a name and a key set, as a literal in Go would give it.\<close>

definition bareProject :: "string \<Rightarrow> BuildProject" where
  "bareProject key = \<lparr>bp_Name = key, bp_Namespace = [], bp_Labels = [], bp_Owner = None, bp_CreationTimestamp = 0,
     bp_ResourceVersion = [], bp_Spec = zeroSpec\<lparr>sp_Key := key\<rparr>, bp_Status = zeroStatus\<rparr>"

section \<open>Defaults\<close>

definition DefaultCacheVolumeGi :: int where "DefaultCacheVolumeGi = 60"
definition DefaultTier :: string where "DefaultTier = TierWarm"
definition DefaultIdleTimeoutSec :: int where "DefaultIdleTimeoutSec = 900"
definition DefaultSecurityProfile :: string where "DefaultSecurityProfile = ProfileRootless"
definition DefaultS3CachePolicy :: string where "DefaultS3CachePolicy = S3CacheCadence"

lemmas api_defaults = DefaultCacheVolumeGi_def DefaultTier_def DefaultIdleTimeoutSec_def
  DefaultSecurityProfile_def DefaultS3CachePolicy_def

definition specDefaults :: "BuildProjectSpec \<Rightarrow> BuildProjectSpec" where
  "specDefaults s = s\<lparr>
     sp_CacheVolumeGi := (if sp_CacheVolumeGi s = 0 then DefaultCacheVolumeGi else sp_CacheVolumeGi s),
     sp_Tier := (if sp_Tier s = [] then DefaultTier else sp_Tier s),
     sp_IdleTimeoutSec := (if sp_IdleTimeoutSec s = 0 then DefaultIdleTimeoutSec else sp_IdleTimeoutSec s),
     sp_SecurityProfile := (if sp_SecurityProfile s = [] then DefaultSecurityProfile else sp_SecurityProfile s),
     sp_S3CachePolicy := (if sp_S3CachePolicy s = [] then DefaultS3CachePolicy else sp_S3CachePolicy s)\<rparr>"

definition applyDefaults :: "BuildProject \<Rightarrow> BuildProject" where
  "applyDefaults bp = bp\<lparr>bp_Spec := specDefaults (bp_Spec bp)\<rparr>"

section \<open>Child daemons\<close>

definition ForkIdleTimeoutSec :: int where "ForkIdleTimeoutSec = 300"

datatype ChildRole = ForkChild | CloneChild

definition deriveChild :: "BuildProjectSpec \<Rightarrow> string \<Rightarrow> ChildRole \<Rightarrow> string \<Rightarrow> BuildProjectSpec" where
  "deriveChild parent parentSnapshot role key =
     (let child = zeroSpec\<lparr>
            sp_Key := key,
            sp_Repo := sp_Repo parent,
            sp_Name := sp_Name parent,
            sp_Target := sp_Target parent,
            sp_Arch := sp_Arch parent,
            sp_StorageClass := sp_StorageClass parent,
            sp_CacheVolumeGi := sp_CacheVolumeGi parent,
            sp_SecurityProfile := sp_SecurityProfile parent,
            sp_RestoreFromSnapshot := parentSnapshot\<rparr>
      in case role of
           ForkChild \<Rightarrow> child\<lparr>sp_Tier := TierWarm, sp_IdleTimeoutSec := ForkIdleTimeoutSec\<rparr>
         | CloneChild \<Rightarrow> child\<lparr>sp_Tier := TierHot\<rparr>)"

section \<open>Adaptive keep-warm\<close>

definition AdaptiveWindow :: duration where "AdaptiveWindow = 24 * hour"
definition RecentBuildTimesCap :: nat where "RecentBuildTimesCap = 30"

text \<open>\<open>RecordBuildTime\<close>: prune, append, keep the newest entries.\<close>

definition recordBuildTime :: "time list \<Rightarrow> time \<Rightarrow> time list" where
  "recordBuildTime ts now =
     (let out = filter (\<lambda>t. timeSub now t \<le> AdaptiveWindow) ts @ [now] in
      if length out > RecentBuildTimesCap then drop (length out - RecentBuildTimesCap) out else out)"

definition buildsInWindow :: "time list \<Rightarrow> time \<Rightarrow> nat" where
  "buildsInWindow ts now = length (filter (\<lambda>t. timeSub now t \<le> AdaptiveWindow) ts)"

section \<open>Facts\<close>

lemma specDefaults_idem: "specDefaults (specDefaults s) = specDefaults s"
  by (simp add: specDefaults_def api_defaults api_consts)

lemma sp_specDefaults [simp]:
  "sp_Key (specDefaults s) = sp_Key s" "sp_Repo (specDefaults s) = sp_Repo s"
  "sp_Fanout (specDefaults s) = sp_Fanout s" "sp_SnapshotEverySec (specDefaults s) = sp_SnapshotEverySec s"
  by (simp_all add: specDefaults_def)

lemma bp_applyDefaults [simp]:
  "bp_Name (applyDefaults b) = bp_Name b" "bp_Namespace (applyDefaults b) = bp_Namespace b"
  "bp_Status (applyDefaults b) = bp_Status b" "bp_CreationTimestamp (applyDefaults b) = bp_CreationTimestamp b"
  "bp_ResourceVersion (applyDefaults b) = bp_ResourceVersion b"
  "sp_Key (bp_Spec (applyDefaults b)) = sp_Key (bp_Spec b)"
  by (simp_all add: applyDefaults_def)

lemma length_recordBuildTime: "length (recordBuildTime ts now) \<le> RecentBuildTimesCap"
  by (auto simp: recordBuildTime_def Let_def RecentBuildTimesCap_def)

lemma last_recordBuildTime: "recordBuildTime ts now \<noteq> [] \<and> last (recordBuildTime ts now) = now"
  by (auto simp: recordBuildTime_def Let_def RecentBuildTimesCap_def last_drop)

lemma set_recordBuildTime: "set (recordBuildTime ts now) \<subseteq> insert now (set ts)"
  by (auto simp: recordBuildTime_def Let_def dest: in_set_dropD)

text \<open>Every kept entry lies in the window, so the ring counts exactly its own length.\<close>

lemma recordBuildTime_in_window:
  "t \<in> set (recordBuildTime ts now) \<Longrightarrow> timeSub now t \<le> AdaptiveWindow"
  by (auto simp: recordBuildTime_def Let_def timeSub_def AdaptiveWindow_def duration_consts
      split: if_splits dest!: in_set_dropD)

text \<open>\<^bold>\<open>The cadence ring is bounded and exact.\<close> After recording a build the ring holds at most 30
  times, the newest last, all within the 24 hours before it, and the cadence the reconciler reads at
  that moment is its length, between 1 and 30.\<close>

theorem recordBuildTime_ring:
  "length (recordBuildTime ts now) \<le> 30 \<and> last (recordBuildTime ts now) = now \<and>
   buildsInWindow (recordBuildTime ts now) now = length (recordBuildTime ts now) \<and>
   1 \<le> buildsInWindow (recordBuildTime ts now) now"
proof -
  have "filter (\<lambda>t. timeSub now t \<le> AdaptiveWindow) (recordBuildTime ts now) = recordBuildTime ts now"
    using recordBuildTime_in_window by (auto simp: filter_id_conv)
  then show ?thesis
    using length_recordBuildTime [of ts now] last_recordBuildTime [of ts now]
    by (auto simp: buildsInWindow_def RecentBuildTimesCap_def Suc_le_eq)
qed

text \<open>\<^bold>\<open>A fork never inherits the lifecycle of its parent.\<close> A child derived from a project keeps the
  parent's repository, component, architecture, storage and security profile and is seeded from the
  given snapshot; it never snapshots, never fans out and takes no cache policy from the parent, a
  fork is always warm-tier with the five-minute window (also after defaulting), a clone always hot.\<close>

theorem deriveChild_policy:
  "sp_Repo (deriveChild p snap role k) = sp_Repo p \<and> sp_SecurityProfile (deriveChild p snap role k) = sp_SecurityProfile p \<and>
   sp_RestoreFromSnapshot (deriveChild p snap role k) = snap \<and> sp_Key (deriveChild p snap role k) = k \<and>
   sp_SnapshotEverySec (specDefaults (deriveChild p snap role k)) = 0 \<and>
   sp_Fanout (specDefaults (deriveChild p snap role k)) = 0 \<and>
   sp_S3CachePolicy (specDefaults (deriveChild p snap role k)) = S3CacheCadence \<and>
   sp_Tier (specDefaults (deriveChild p snap role k)) = (case role of ForkChild \<Rightarrow> TierWarm | CloneChild \<Rightarrow> TierHot) \<and>
   sp_IdleTimeoutSec (specDefaults (deriveChild p snap ForkChild k)) = 300"
  by (cases role) (simp_all add: deriveChild_def zeroSpec_def specDefaults_def api_defaults api_consts ForkIdleTimeoutSec_def)

lemma sp_Key_deriveChild [simp]: "sp_Key (deriveChild p s r k) = k"
  by (simp add: deriveChild_def Let_def split: ChildRole.split)

end
