(* ===== verification/Inflight.thy ===== *)
theory Inflight
  imports Api_Types "HOL-Library.Multiset"
begin

text \<open>
  \<open>api/v1alpha1/inflight.go\<close>: the set of routed builds that have not been released. An entry is named
  by the SHA-256 of the token \<open>/route\<close> handed out and ages on its own clock.

  The lemmas describe each operation completely (what start, end, expire and adopt do to the list),
  show the invariant every write keeps (\<open>inflight_wf\<close>: the count is the length, at most 64) and the
  two facts the rest of the control plane relies on: a release removes the build it names and no
  other, and an expiry depends on nothing but the entry's own age.
\<close>

section \<open>Operations\<close>

definition InflightCap :: nat where "InflightCap = 64"

definition inflightID :: "string \<Rightarrow> string" where
  "inflightID token = hex_encode (sha256 token)"

definition capInflight :: "InflightBuild list \<Rightarrow> InflightBuild list" where
  "capInflight entries =
     (if length entries > InflightCap then drop (length entries - InflightCap) entries else entries)"

definition setInflight :: "InflightBuild list \<Rightarrow> BuildProjectStatus \<Rightarrow> BuildProjectStatus" where
  "setInflight entries s =
     (let entries = capInflight entries in
      s\<lparr>st_Inflight := entries, st_InflightBuilds := wrap32 (int (length entries))\<rparr>)"

definition inflightCount :: "BuildProjectStatus \<Rightarrow> nat" where
  "inflightCount s = length (st_Inflight s)"

text \<open>\<open>AdoptLegacyInflight\<close>: the result is the status and whether anything was adopted.\<close>

definition adoptLegacyInflight :: "BuildProjectStatus \<Rightarrow> BuildProjectStatus \<times> bool" where
  "adoptLegacyInflight s =
     (case st_LastBuildTime s of
        None \<Rightarrow> (s, False)
      | Some t \<Rightarrow>
          if length (st_Inflight s) > 0 \<or> st_InflightBuilds s \<le> 0 then (s, False)
          else
            let n = min (nat (st_InflightBuilds s)) InflightCap;
                adopted = map (\<lambda>i. \<lparr>ib_ID = ''adopted-'' @ itoa (int i), ib_Since = t\<rparr>) [0..<n]
            in (setInflight adopted s, True))"

definition startInflight :: "InflightBuild list \<Rightarrow> string \<Rightarrow> time \<Rightarrow> InflightBuild list" where
  "startInflight inflight token now =
     capInflight (inflight @ [\<lparr>ib_ID = inflightID token, ib_Since = now\<rparr>])"

text \<open>The search loops: the index of the first entry that satisfies the test.\<close>

fun firstIndex :: "('a \<Rightarrow> bool) \<Rightarrow> 'a list \<Rightarrow> nat option" where
  "firstIndex P [] = None"
| "firstIndex P (x # xs) = (if P x then Some 0 else map_option Suc (firstIndex P xs))"

definition endInflightAt :: "InflightBuild list \<Rightarrow> string \<Rightarrow> time option \<Rightarrow> InflightBuild list \<times> bool" where
  "endInflightAt inflight bid cutoff =
     (if length inflight = 0 then (inflight, False)
      else
        let dropIx =
              (if bid = [] then
                 (case cutoff of
                    None \<Rightarrow> Some 0
                  | Some c \<Rightarrow>
                      (case firstIndex (\<lambda>b. ib_Since b < c) inflight of
                         Some i \<Rightarrow> Some i
                       | None \<Rightarrow> Some 0))
               else firstIndex (\<lambda>b. ib_ID b = inflightID bid) inflight)
        in (case dropIx of
              None \<Rightarrow> (inflight, False)
            | Some i \<Rightarrow> (take i inflight @ drop (i + 1) inflight, True)))"

definition endInflight :: "InflightBuild list \<Rightarrow> string \<Rightarrow> InflightBuild list \<times> bool" where
  "endInflight inflight bid = endInflightAt inflight bid None"

definition endInflightBefore :: "InflightBuild list \<Rightarrow> string \<Rightarrow> time \<Rightarrow> InflightBuild list \<times> bool" where
  "endInflightBefore inflight bid cutoff = endInflightAt inflight bid (Some cutoff)"

definition expireInflight :: "InflightBuild list \<Rightarrow> time \<Rightarrow> duration \<Rightarrow> InflightBuild list \<times> nat" where
  "expireInflight inflight now maxAge =
     (let expired = length (filter (\<lambda>b. timeSub now (ib_Since b) > maxAge) inflight) in
      if expired = 0 then (inflight, 0)
      else (filter (\<lambda>b. timeSub now (ib_Since b) \<le> maxAge) inflight, expired))"

section \<open>The invariant of the stored status\<close>

definition inflight_wf :: "BuildProjectStatus \<Rightarrow> bool" where
  "inflight_wf s \<longleftrightarrow> length (st_Inflight s) \<le> InflightCap \<and> st_InflightBuilds s = int (length (st_Inflight s))"

text \<open>Entries are chronological: the oldest first.\<close>

definition chronological :: "InflightBuild list \<Rightarrow> bool" where
  "chronological bs \<longleftrightarrow> sorted (map ib_Since bs)"

section \<open>Facts on the operations\<close>

lemma length_capInflight: "length (capInflight bs) = min InflightCap (length bs)"
  by (auto simp: capInflight_def InflightCap_def)

lemma capInflight_id: "length bs \<le> InflightCap \<Longrightarrow> capInflight bs = bs"
  by (simp add: capInflight_def)

lemma capInflight_suffix: "\<exists>a. bs = a @ capInflight bs"
  by (auto simp: capInflight_def) (metis append_take_drop_id)

lemma set_capInflight: "set (capInflight bs) \<subseteq> set bs"
  by (auto simp: capInflight_def dest: in_set_dropD)

lemma chronological_capInflight: "chronological bs \<Longrightarrow> chronological (capInflight bs)"
  by (auto simp: chronological_def capInflight_def drop_map [symmetric] sorted_wrt_drop)

lemma setInflight_wf: "inflight_wf (setInflight bs s)"
  by (simp add: inflight_wf_def setInflight_def Let_def length_capInflight wrap32_id InflightCap_def)

lemma st_setInflight [simp]:
  "st_Inflight (setInflight bs s) = capInflight bs" "st_LastBuildTime (setInflight bs s) = st_LastBuildTime s"
  "st_RecentBuildTimes (setInflight bs s) = st_RecentBuildTimes s" "st_Phase (setInflight bs s) = st_Phase s"
  "st_Conditions (setInflight bs s) = st_Conditions s" "st_LastSnapshot (setInflight bs s) = st_LastSnapshot s"
  "st_Replicas (setInflight bs s) = st_Replicas s" "st_Endpoint (setInflight bs s) = st_Endpoint s"
  by (simp_all add: setInflight_def Let_def)

lemma expireInflight_fst:
  "fst (expireInflight bs now age) = filter (\<lambda>b. timeSub now (ib_Since b) \<le> age) bs"
proof (cases "filter (\<lambda>b. timeSub now (ib_Since b) > age) bs")
  case Nil
  then have "filter (\<lambda>b. timeSub now (ib_Since b) \<le> age) bs = bs"
    by (auto simp: filter_empty_conv filter_id_conv not_less)
  with Nil show ?thesis by (simp add: expireInflight_def)
next
  case (Cons b l)
  then show ?thesis by (simp add: expireInflight_def Let_def)
qed

lemma expireInflight_snd:
  "snd (expireInflight bs now age) = length bs - length (fst (expireInflight bs now age))"
proof -
  have "length bs = length (filter (\<lambda>b. timeSub now (ib_Since b) > age) bs) + length (filter (\<lambda>b. timeSub now (ib_Since b) \<le> age) bs)"
    using sum_length_filter_compl [of "\<lambda>b. timeSub now (ib_Since b) > age" bs] by (simp add: not_less)
  moreover have "snd (expireInflight bs now age) = length (filter (\<lambda>b. timeSub now (ib_Since b) > age) bs)"
    by (simp add: expireInflight_def Let_def)
  ultimately show ?thesis by (simp add: expireInflight_fst)
qed

lemma chronological_expire: "chronological bs \<Longrightarrow> chronological (fst (expireInflight bs now age))"
  unfolding chronological_def expireInflight_fst by (rule sorted_filter)

lemma firstIndex_None: "firstIndex P xs = None \<longleftrightarrow> (\<forall>x \<in> set xs. \<not> P x)"
  by (induction xs) auto

lemma firstIndex_Some:
  "firstIndex P xs = Some i \<Longrightarrow> i < length xs \<and> P (xs ! i) \<and> (\<forall>j < i. \<not> P (xs ! j))"
proof (induction xs arbitrary: i)
  case (Cons x xs)
  then show ?case by (auto simp: nth_Cons less_Suc_eq_0_disj split: if_splits)
qed simp

lemma remove_firstIndex:
  "firstIndex (\<lambda>b. f b = v) xs = Some i \<Longrightarrow> distinct (map f xs) \<Longrightarrow>
   take i xs @ drop (i + 1) xs = filter (\<lambda>b. f b \<noteq> v) xs"
proof (induction xs arbitrary: i)
  case (Cons x xs)
  show ?case
  proof (cases "f x = v")
    case True
    with Cons.prems have "filter (\<lambda>b. f b \<noteq> v) xs = xs" by (auto simp: filter_id_conv) (metis image_eqI)
    with True Cons.prems(1) show ?thesis by auto
  next
    case False
    with Cons show ?thesis by auto
  qed
qed simp

lemma endInflight_named:
  "bid \<noteq> [] \<Longrightarrow> endInflightAt bs bid c =
    (case firstIndex (\<lambda>b. ib_ID b = inflightID bid) bs of
       None \<Rightarrow> (bs, False)
     | Some i \<Rightarrow> (take i bs @ drop (i + 1) bs, True))"
  by (cases bs) (auto simp: endInflightAt_def split: option.split)

lemma endInflight_found:
  "bid \<noteq> [] \<Longrightarrow> snd (endInflightAt bs bid c) \<longleftrightarrow> inflightID bid \<in> ib_ID ` set bs"
  using firstIndex_None [of "\<lambda>b. ib_ID b = inflightID bid" bs]
  by (auto simp: endInflight_named image_iff split: option.split) metis+

lemma endInflight_not_found: "\<not> snd (endInflightAt bs bid c) \<Longrightarrow> fst (endInflightAt bs bid c) = bs"
  by (auto simp: endInflightAt_def Let_def split: option.split if_splits)

lemma length_endInflight:
  "snd (endInflightAt bs bid c) \<Longrightarrow> length bs = Suc (length (fst (endInflightAt bs bid c)))"
  by (auto simp: endInflightAt_def Let_def split: option.splits if_splits dest!: firstIndex_Some)

lemma set_endInflight: "set (fst (endInflightAt bs bid c)) \<subseteq> set bs"
  by (auto simp: endInflightAt_def Let_def split: option.splits dest: in_set_takeD in_set_dropD)

lemma chronological_remove: "chronological bs \<Longrightarrow> chronological (take i bs @ drop (Suc i) bs)"
proof -
  assume s: "chronological bs"
  have "bs = take i bs @ drop i bs" by simp
  then have "sorted (map ib_Since (take i bs) @ map ib_Since (drop i bs))"
    using s by (metis chronological_def map_append)
  moreover have "set (drop (Suc i) bs) \<subseteq> set (drop i bs)" by (simp add: set_drop_subset_set_drop)
  moreover have "sorted (map ib_Since (drop (Suc i) bs))"
    using s by (simp add: chronological_def drop_map [symmetric] sorted_wrt_drop)
  ultimately show ?thesis by (auto simp: chronological_def sorted_append)
qed

lemma chronological_endInflight: "chronological bs \<Longrightarrow> chronological (fst (endInflightAt bs bid c))"
  by (auto simp: endInflightAt_def Let_def chronological_remove split: option.splits)

lemma chronological_startInflight:
  "chronological bs \<Longrightarrow> \<forall>b \<in> set bs. ib_Since b \<le> now \<Longrightarrow> chronological (startInflight bs token now)"
  unfolding startInflight_def by (rule chronological_capInflight) (auto simp: chronological_def sorted_append)

section \<open>Properties\<close>

lemma firstIndex_append_last:
  "\<forall>x \<in> set xs. \<not> P x \<Longrightarrow> P y \<Longrightarrow> firstIndex P (xs @ [y]) = Some (length xs)"
  by (induction xs) auto

text \<open>C3: \<^bold>\<open>Start and end are inverse.\<close> Below the cap, releasing a build with the token it was registered
  under gives back exactly the set that was there before, whatever the expiry cutoff is.\<close>

theorem start_end_inverse:
  assumes "length bs < InflightCap" "token \<noteq> []" "inflightID token \<notin> ib_ID ` set bs"
  shows "endInflight (startInflight bs token now) token = (bs, True) \<and>
         endInflightBefore (startInflight bs token now) token c = (bs, True)"
proof -
  have s: "startInflight bs token now = bs @ [\<lparr>ib_ID = inflightID token, ib_Since = now\<rparr>]"
    using assms(1) by (simp add: startInflight_def capInflight_id)
  have "firstIndex (\<lambda>b. ib_ID b = inflightID token) (bs @ [\<lparr>ib_ID = inflightID token, ib_Since = now\<rparr>]) = Some (length bs)"
    using assms(3) by (intro firstIndex_append_last) (auto simp: image_iff)
  then show ?thesis using assms(2) by (simp add: s endInflight_def endInflightBefore_def endInflight_named)
qed

theorem start_end_inverse_witness:
  "endInflight (startInflight [] ''t0k'' 5) ''t0k'' = ([], True) \<and>
   endInflightBefore (startInflight [] ''t0k'' 5) ''t0k'' 9 = ([], True)"
  using start_end_inverse [of "[]" "''t0k''" 5 9] by (simp add: InflightCap_def)

text \<open>C4: \<^bold>\<open>A named release touches no other build.\<close> When the entries carry distinct ids, a release that
  presents a token removes exactly the entry of that token (and reports it), keeping every other
  entry and their order; a token with no entry changes nothing and reports so.\<close>

theorem named_release_exact:
  assumes "bid \<noteq> []" "distinct (map ib_ID bs)"
  shows "endInflight bs bid = (filter (\<lambda>b. ib_ID b \<noteq> inflightID bid) bs, inflightID bid \<in> ib_ID ` set bs)"
proof (cases "firstIndex (\<lambda>b. ib_ID b = inflightID bid) bs")
  case None
  then have n: "\<forall>b \<in> set bs. ib_ID b \<noteq> inflightID bid" by (simp add: firstIndex_None)
  then have "filter (\<lambda>b. ib_ID b \<noteq> inflightID bid) bs = bs" by (simp add: filter_id_conv)
  with None n assms(1) show ?thesis by (auto simp: endInflight_def endInflight_named)
next
  case (Some i)
  with firstIndex_Some [OF Some] have "inflightID bid \<in> ib_ID ` set bs" by (metis image_eqI nth_mem)
  with Some remove_firstIndex [OF Some assms(2)] assms(1) show ?thesis
    by (simp add: endInflight_def endInflight_named)
qed

theorem named_release_exact_witness:
  "endInflight [\<lparr>ib_ID = ''adopted-0'', ib_Since = 3\<rparr>] ''x'' =
     (filter (\<lambda>b. ib_ID b \<noteq> inflightID ''x'') [\<lparr>ib_ID = ''adopted-0'', ib_Since = 3\<rparr>],
      inflightID ''x'' \<in> ib_ID ` set [\<lparr>ib_ID = ''adopted-0'', ib_Since = 3\<rparr>])"
  using named_release_exact [of "''x''" "[\<lparr>ib_ID = ''adopted-0'', ib_Since = 3\<rparr>]"] by simp

text \<open>\<^bold>\<open>Expiry is per entry.\<close> An entry survives an expiry exactly when it was there and its own age is
  within the window, in the same order; the reported number is the number dropped. So the leak of
  one build never releases another, and expiring twice at the same instant drops nothing more.\<close>

theorem expiry_per_entry:
  "fst (expireInflight bs now age) = filter (\<lambda>b. timeSub now (ib_Since b) \<le> age) bs \<and>
   snd (expireInflight bs now age) = length (filter (\<lambda>b. \<not> timeSub now (ib_Since b) \<le> age) bs) \<and>
   expireInflight (fst (expireInflight bs now age)) now age = (fst (expireInflight bs now age), 0)"
proof -
  have "snd (expireInflight bs now age) = length (filter (\<lambda>b. \<not> timeSub now (ib_Since b) \<le> age) bs)"
    by (simp add: expireInflight_def Let_def not_le)
  moreover have "filter (\<lambda>b. timeSub now (ib_Since b) > age) (filter (\<lambda>b. timeSub now (ib_Since b) \<le> age) bs) = []"
    by (auto simp: filter_empty_conv)
  then have "expireInflight (filter (\<lambda>b. timeSub now (ib_Since b) \<le> age) bs) now age = (filter (\<lambda>b. timeSub now (ib_Since b) \<le> age) bs, 0)"
    unfolding expireInflight_def Let_def by (simp del: filter_filter)
  ultimately show ?thesis by (simp add: expireInflight_fst)
qed

text \<open>
  An unnamed release prefers an entry past the cutoff. On a chronological list the oldest entry is
  the first to be past it, so the cutoff never changes which entry is released.
\<close>

theorem cutoff_is_redundant:
  assumes "chronological bs"
  shows "endInflightBefore bs bid c = endInflight bs bid"
proof (cases "bid = [] \<and> bs \<noteq> []")
  case True
  then obtain b l where bs: "bs = b # l" by (cases bs) auto
  have "i = 0" if "firstIndex (\<lambda>b. ib_Since b < c) bs = Some i" for i
  proof (rule ccontr)
    assume "i \<noteq> 0"
    with firstIndex_Some [OF that] have "bs ! i \<in> set l" "ib_Since (bs ! i) < c" "\<not> ib_Since b < c"
      by (auto simp: bs nth_Cons split: nat.splits)
    with assms show False by (auto simp: bs chronological_def)
  qed
  with True show ?thesis
    by (auto simp: endInflightBefore_def endInflight_def endInflightAt_def Let_def split: option.split)
next
  case False
  then show ?thesis
    by (cases "bs = []") (simp_all add: endInflightBefore_def endInflight_def endInflight_named, simp add: endInflightAt_def)
qed

lemma adopted_id_not_hash: "''adopted-'' @ s \<noteq> inflightID token"
proof
  assume e: "''adopted-'' @ s = inflightID token"
  have "CHR ''o'' \<in> set (''adopted-'' @ s)" by simp
  then have "CHR ''o'' \<in> set (inflightID token)" by (simp only: e)
  moreover have "set (inflightID token) \<subseteq> set hexDigits" unfolding inflightID_def by (rule set_hex_encode)
  moreover have "CHR ''o'' \<notin> set hexDigits" by (simp add: hexDigits_def)
  ultimately show False by blast
qed

text \<open>\<^bold>\<open>Adopting a bare count.\<close> A status written by a version that kept only a count is converted to
  that many entries (at most 64) dated from the last build, with distinct ids no token hashes to,
  and the result is well formed; a status that already has entries, or no positive count, or no last
  build, is left alone.\<close>

theorem adoptLegacy_dated:
  "adoptLegacyInflight s =
     (if st_Inflight s = [] \<and> 0 < st_InflightBuilds s \<and> st_LastBuildTime s \<noteq> None
      then (setInflight (map (\<lambda>i. \<lparr>ib_ID = ''adopted-'' @ decimal i, ib_Since = the (st_LastBuildTime s)\<rparr>)
              [0..<min (nat (st_InflightBuilds s)) 64]) s, True)
      else (s, False)) \<and>
   (snd (adoptLegacyInflight s) \<longrightarrow>
      inflight_wf (fst (adoptLegacyInflight s)) \<and>
      length (st_Inflight (fst (adoptLegacyInflight s))) = min (nat (st_InflightBuilds s)) 64 \<and>
      distinct (map ib_ID (st_Inflight (fst (adoptLegacyInflight s)))) \<and>
      (\<forall>token. inflightID token \<notin> ib_ID ` set (st_Inflight (fst (adoptLegacyInflight s)))))"
    (is "?eq \<and> (_ \<longrightarrow> ?wf)")
proof
  show e: ?eq
    by (auto simp: adoptLegacyInflight_def Let_def InflightCap_def itoa_nonneg split: option.splits)
  show "snd (adoptLegacyInflight s) \<longrightarrow> ?wf"
  proof
    let ?l = "map (\<lambda>i. \<lparr>ib_ID = ''adopted-'' @ decimal i, ib_Since = the (st_LastBuildTime s)\<rparr>) [0..<min (nat (st_InflightBuilds s)) 64]"
    assume "snd (adoptLegacyInflight s)"
    with e have f: "fst (adoptLegacyInflight s) = setInflight ?l s" by (auto split: if_splits)
    have "capInflight ?l = ?l" by (rule capInflight_id) (simp add: InflightCap_def)
    then have l: "st_Inflight (fst (adoptLegacyInflight s)) = ?l" by (simp add: f)
    have "distinct (map ib_ID ?l)" by (auto simp: distinct_map inj_on_def decimal_inj)
    moreover have "inflightID token \<notin> ib_ID ` set ?l" for token
      using adopted_id_not_hash [of _ token] by auto metis
    ultimately show ?wf unfolding l using setInflight_wf [of ?l s] by (simp add: f)
  qed
qed

theorem adoptLegacy_dated_witness:
  "snd (adoptLegacyInflight (zeroStatus\<lparr>st_InflightBuilds := 2, st_LastBuildTime := Some 7\<rparr>)) \<and>
   distinct (map ib_ID (st_Inflight (fst (adoptLegacyInflight (zeroStatus\<lparr>st_InflightBuilds := 2, st_LastBuildTime := Some 7\<rparr>)))))"
proof -
  have a: "snd (adoptLegacyInflight (zeroStatus\<lparr>st_InflightBuilds := 2, st_LastBuildTime := Some 7\<rparr>))"
    by (simp add: adoptLegacyInflight_def zeroStatus_def)
  then show ?thesis
    using adoptLegacy_dated [of "zeroStatus\<lparr>st_InflightBuilds := 2, st_LastBuildTime := Some 7\<rparr>"] by blast
qed

section \<open>The builds of a list of entries\<close>

lemma endInflightAt_removed:
  "snd (endInflightAt bs bid c) \<Longrightarrow> \<exists>i < length bs. fst (endInflightAt bs bid c) = take i bs @ drop (Suc i) bs \<and>
     (bid \<noteq> [] \<longrightarrow> ib_ID (bs ! i) = inflightID bid)"
  by (auto simp: endInflightAt_def Let_def split: if_splits option.splits dest!: firstIndex_Some)

lemma mset_capInflight: "mset (map ib_ID (capInflight bs)) \<subseteq># mset (map ib_ID bs)"
proof -
  obtain a where "bs = a @ capInflight bs" using capInflight_suffix by blast
  then have "mset (map ib_ID bs) = mset (map ib_ID a) + mset (map ib_ID (capInflight bs))" by (metis map_append mset_append)
  then show ?thesis by simp
qed

lemma startInflight_held:
  "mset (map ib_ID (startInflight bs tok now)) \<subseteq># add_mset (inflightID tok) (mset (map ib_ID bs))"
  "inflightID tok \<in> set (map ib_ID (startInflight bs tok now))" "length (startInflight bs tok now) \<le> InflightCap"
proof -
  show "mset (map ib_ID (startInflight bs tok now)) \<subseteq># add_mset (inflightID tok) (mset (map ib_ID bs))"
    using mset_capInflight [of "bs @ [\<lparr>ib_ID = inflightID tok, ib_Since = now\<rparr>]"] by (simp add: startInflight_def)
  show "inflightID tok \<in> set (map ib_ID (startInflight bs tok now))"
    by (auto simp: startInflight_def capInflight_def InflightCap_def)
  show "length (startInflight bs tok now) \<le> InflightCap" by (simp add: startInflight_def length_capInflight)
qed

lemma startInflight_exact:
  "length bs < InflightCap \<Longrightarrow> mset (map ib_ID (startInflight bs tok now)) = add_mset (inflightID tok) (mset (map ib_ID bs))"
  by (simp add: startInflight_def capInflight_id)

lemma endInflightAt_held:
  assumes "endInflightAt bs tok c = (rest, found)"
  shows "if found then length rest < length bs \<and> set rest \<subseteq> set bs \<and>
       (\<exists>x \<in> set (map ib_ID bs). (tok \<noteq> [] \<longrightarrow> x = inflightID tok) \<and> mset (map ib_ID rest) = mset (map ib_ID bs) - {#x#})
     else rest = bs \<and> (if tok = [] then bs = [] else inflightID tok \<notin> set (map ib_ID bs))"
proof (cases found)
  case True
  then have "snd (endInflightAt bs tok c)" "rest = fst (endInflightAt bs tok c)" using assms by simp_all
  then obtain i where i: "i < length bs" "rest = take i bs @ drop (Suc i) bs" "tok \<noteq> [] \<longrightarrow> ib_ID (bs ! i) = inflightID tok"
    using endInflightAt_removed by metis
  have "mset (map ib_ID bs) = add_mset (ib_ID (bs ! i)) (mset (map ib_ID rest))"
    unfolding i(2) by (subst id_take_nth_drop [OF i(1)]) simp
  then have "mset (map ib_ID rest) = mset (map ib_ID bs) - {#ib_ID (bs ! i)#}" by simp
  moreover have "ib_ID (bs ! i) \<in> set (map ib_ID bs)" using i(1) by simp
  moreover have "set rest \<subseteq> set bs" unfolding i(2) by (auto dest: in_set_takeD in_set_dropD)
  ultimately show ?thesis using True i by auto
next
  case False
  then show ?thesis using assms
    by (auto simp: endInflightAt_def Let_def firstIndex_None split: if_splits option.splits)
qed

lemmas endInflight_held = endInflightAt_held [where c = None, folded endInflight_def]

end
