(* ===== verification/Kube_Types.thy ===== *)
theory Kube_Types
  imports Inflight "HOL-Library.Finite_Map"
begin

text \<open>
  The Kubernetes objects the control plane renders and reads, reduced to the fields its code sets or
  inspects. The types of \<open>k8s.io/api\<close> are third-party: nothing here gives them behaviour.

  A \<open>map[string]string\<close> is a finite map (a nil map and an empty one read the same); a Go pointer is
  an \<open>option\<close>. Quantities stay the string they are parsed from (\<open>''60Gi''\<close>), tolerations, affinity
  and resource requirements are opaque strings that are only copied.
\<close>

type_synonym labels = "(string, string) fmap"
type_synonym quantity = string

abbreviation labelOf :: "labels \<Rightarrow> string \<Rightarrow> string" where
  "labelOf m k \<equiv> (case fmlookup m k of None \<Rightarrow> [] | Some v \<Rightarrow> v)"

section \<open>Errors of the API server\<close>

text \<open>\<open>Wrap\<close> is \<open>fmt.Errorf\<close> with \<open>%w\<close>; the predicates of \<open>apierrors\<close> look through it.\<close>

datatype ApiErr = NotFound | Conflict | AlreadyExists | OtherErr string | Wrap string ApiErr

type_synonym 'a res = "ApiErr + 'a"

fun rootErr :: "ApiErr \<Rightarrow> ApiErr" where
  "rootErr (Wrap s e) = rootErr e"
| "rootErr e = e"

definition isNotFound :: "ApiErr \<Rightarrow> bool" where
  "isNotFound e \<longleftrightarrow> rootErr e = NotFound"

definition isConflict :: "ApiErr \<Rightarrow> bool" where
  "isConflict e \<longleftrightarrow> rootErr e = Conflict"

definition isAlreadyExists :: "ApiErr \<Rightarrow> bool" where
  "isAlreadyExists e \<longleftrightarrow> rootErr e = AlreadyExists"

text \<open>\<open>client.IgnoreNotFound\<close> on an error result (\<^const>\<open>None\<close> is Go's nil).\<close>

definition ignoreNotFound :: "ApiErr option \<Rightarrow> ApiErr option" where
  "ignoreNotFound e = (case e of None \<Rightarrow> None | Some x \<Rightarrow> if isNotFound x then None else Some x)"

section \<open>Pods\<close>

datatype ProbeHandler = ProbeExec "string list" | ProbeHTTP string int

record Probe =
  pr_Handler :: ProbeHandler
  pr_InitialDelaySeconds :: int
  pr_PeriodSeconds :: int
  pr_FailureThreshold :: int

record SecurityContext =
  sc_Privileged :: "bool option"
  sc_RunAsNonRoot :: "bool option"
  sc_RunAsUser :: "int option"

record PodSecurityContext =
  ps_RunAsNonRoot :: "bool option"
  ps_RunAsUser :: "int option"
  ps_RunAsGroup :: "int option"
  ps_FSGroup :: "int option"
  ps_FSGroupChangePolicy :: "string option"
  ps_SeccompProfile :: "string option"
  ps_AppArmorProfile :: "string option"

record ContainerPort =
  cp_Name :: string
  cp_Port :: int
  cp_Protocol :: string

record VolumeMount =
  vm_Name :: string
  vm_MountPath :: string
  vm_ReadOnly :: bool

record Container =
  ct_Name :: string
  ct_Image :: string
  ct_Args :: "string list"
  ct_SecurityContext :: SecurityContext
  ct_Ports :: "ContainerPort list"
  ct_ReadinessProbe :: "Probe option"
  ct_LivenessProbe :: "Probe option"
  ct_Resources :: string
  ct_VolumeMounts :: "VolumeMount list"
  ct_EnvFromSecrets :: "string list"
  ct_Env :: "(string \<times> string) list"

text \<open>The key-to-path items of a projected Secret or ConfigMap.\<close>

datatype VolumeSource = EmptyDir | SecretVolume string "(string \<times> string) list" | ConfigMapVolume string "(string \<times> string) list"

record Volume =
  vo_Name :: string
  vo_Source :: VolumeSource

record PodTemplate =
  pt_Labels :: labels
  pt_SecurityContext :: PodSecurityContext
  pt_RuntimeClassName :: "string option"
  pt_NodeSelector :: labels
  pt_Tolerations :: string
  pt_Affinity :: string
  pt_Containers :: "Container list"
  pt_TerminationGracePeriodSeconds :: int
  pt_Volumes :: "Volume list"

text \<open>A running pod, as listed: name, address, phase and for each container its waiting reason and the
  reason of its last termination.\<close>

record ContainerStatus =
  cs_Name :: string
  cs_Waiting :: "string option"
  cs_LastTerminated :: "string option"

record Pod =
  pod_Name :: string
  pod_IP :: string
  pod_Phase :: string
  pod_ContainerStatuses :: "ContainerStatus list"

section \<open>Volumes\<close>

record PvcSpec =
  pv_AccessModes :: "string list"
  pv_StorageRequest :: quantity
  pv_StorageClassName :: "string option"
  pv_DataSource :: "(string \<times> string \<times> string) option"

text \<open>A live claim: the requested and the provisioned size are absent (\<^const>\<open>None\<close>) when the resource
  list has no storage entry.\<close>

record Pvc =
  pvc_Name :: string
  pvc_Namespace :: string
  pvc_Request :: "quantity option"
  pvc_Capacity :: "quantity option"
  pvc_Conditions :: "(string \<times> string) list"
  pvc_CreationTimestamp :: time
  pvc_DeletionTimestamp :: "time option"

record VolumeSnapshot =
  vs_Name :: string
  vs_CreationTimestamp :: time

section \<open>Workloads\<close>

record PvcRetention =
  rt_WhenDeleted :: string
  rt_WhenScaled :: string

record StatefulSet =
  ss_Name :: string
  ss_Namespace :: string
  ss_Labels :: labels
  ss_Annotations :: labels
  ss_Owner :: "string option"
  ss_ServiceName :: string
  ss_Replicas :: "int option"
  ss_PodManagementPolicy :: string
  ss_Selector :: labels
  ss_Template :: PodTemplate
  ss_VolumeClaimTemplates :: "(string \<times> PvcSpec) list"
  ss_PvcRetention :: "PvcRetention option"
  ss_ReadyReplicas :: int
  ss_Generation :: int
  ss_ObservedGeneration :: int
  ss_UpdatedReplicas :: int
  ss_CurrentRevision :: string
  ss_UpdateRevision :: string

record ServicePort =
  sv_PortName :: string
  sv_Port :: int
  sv_Protocol :: string
  sv_TargetPort :: int

record Service =
  sv_Name :: string
  sv_Namespace :: string
  sv_Labels :: labels
  sv_Owner :: "string option"
  sv_Type :: string
  sv_Selector :: labels
  sv_Ports :: "ServicePort list"

record PodDisruptionBudget =
  pd_Name :: string
  pd_Namespace :: string
  pd_Labels :: labels
  pd_Owner :: "string option"
  pd_MinAvailable :: "int option"
  pd_Selector :: labels

end
