(* ===== verification/Builder.thy ===== *)
theory Builder
  imports Kube_Types
begin

text \<open>
  \<open>internal/builder/statefulset.go\<close>: the objects rendered for one daemon. The definitions follow the
  functions of the file one by one; the properties state what the isolation of untrusted forks and the
  addressing of daemons rest on.
\<close>

section \<open>Configuration\<close>

record Config =
  cf_Namespace :: string
  cf_BuildkitImage :: string
  cf_CompanionImage :: string
  cf_DaemonCertsSecret :: string
  cf_CertManagerCerts :: bool
  cf_BuildkitdConfigMap :: string
  cf_SnapshotClass :: string
  cf_DefaultStorageClass :: string
  cf_Port :: int
  cf_HealthPort :: int
  cf_Companion :: bool
  cf_S3CredsSecret :: string
  cf_SandboxRuntimeClass :: string
  cf_SandboxBuildkitImage :: string
  cf_DaemonNodeSelector :: labels
  cf_DaemonTolerations :: string
  cf_DaemonAffinity :: string
  cf_PinArchToNode :: bool

text \<open>The anonymous struct \<open>SchedulingFromJSON\<close> decodes into. \<open>json.Unmarshal\<close> into the third-party
  types is the parameter \<open>unmarshal\<close>.\<close>

record Scheduling =
  sj_NodeSelector :: labels
  sj_Tolerations :: string
  sj_Affinity :: string
  sj_PinArch :: bool

definition schedulingFromJSON :: "(string \<Rightarrow> string + Scheduling) \<Rightarrow> string \<Rightarrow> Config \<Rightarrow> string + Config" where
  "schedulingFromJSON unmarshal s c =
     (if s = [] \<or> s = ''{}'' then Inr c
      else (case unmarshal s of
              Inl e \<Rightarrow> Inl (''daemon scheduling JSON: '' @ e)
            | Inr sched \<Rightarrow> Inr (c\<lparr>cf_DaemonNodeSelector := sj_NodeSelector sched,
                cf_DaemonTolerations := sj_Tolerations sched, cf_DaemonAffinity := sj_Affinity sched,
                cf_PinArchToNode := sj_PinArch sched\<rparr>)))"

section \<open>Labels and addressing\<close>

definition rootlessDataDir :: string where "rootlessDataDir = ''/home/user/.local/share/buildkit''"
definition rootlessConfig :: string where "rootlessConfig = ''/home/user/.config/buildkit''"
definition rootlessSock :: string where "rootlessSock = ''unix:///run/user/1000/buildkit/buildkitd.sock''"
definition rootlessRunDir :: string where "rootlessRunDir = ''/run/user/1000''"
definition privilegedData :: string where "privilegedData = ''/var/lib/buildkit''"
definition privilegedSock :: string where "privilegedSock = ''unix:///run/buildkit/buildkitd.sock''"
definition privilegedRun :: string where "privilegedRun = ''/run/buildkit''"
definition cacheVolName :: string where "cacheVolName = ''cache''"

definition projectKeyLabel :: string where
  "projectKeyLabel = ''buildkit-operator.socialgouv.github.io/project-key''"
definition archLabel :: string where
  "archLabel = ''buildkit-operator.socialgouv.github.io/arch''"
definition LabelUntrusted :: string where
  "LabelUntrusted = ''buildkit-operator.socialgouv.github.io/untrusted''"

definition Labels :: "BuildProject \<Rightarrow> labels" where
  "Labels bp = fmap_of_list [
     (''app.kubernetes.io/name'', ''buildkit-operator''),
     (''app.kubernetes.io/component'', ''buildkitd''),
     (projectKeyLabel, sp_Key (bp_Spec bp)),
     (archLabel, normalizeArch (sp_Arch (bp_Spec bp)))]"

definition podLabels :: "BuildProject \<Rightarrow> labels" where
  "podLabels bp =
     (let l = Labels bp in
      if isForkKey (sp_Key (bp_Spec bp)) then fmupd LabelUntrusted ''true'' l else l)"

definition ServiceOf :: "BuildProject \<Rightarrow> Config \<Rightarrow> Service" where
  "ServiceOf bp cfg =
     (let l = Labels bp in
      \<lparr>sv_Name = daemonName (sp_Key (bp_Spec bp)), sv_Namespace = cf_Namespace cfg, sv_Labels = l, sv_Owner = None,
       sv_Type = ''ClusterIP'', sv_Selector = l,
       sv_Ports = [\<lparr>sv_PortName = ''buildkit'', sv_Port = cf_Port cfg, sv_Protocol = ''TCP'', sv_TargetPort = cf_Port cfg\<rparr>]\<rparr>)"

definition PodDisruptionBudgetOf :: "BuildProject \<Rightarrow> Config \<Rightarrow> bool \<Rightarrow> PodDisruptionBudget option" where
  "PodDisruptionBudgetOf bp cfg serving =
     (if \<not> serving then None
      else
        let l = Labels bp in
        Some \<lparr>pd_Name = daemonName (sp_Key (bp_Spec bp)), pd_Namespace = cf_Namespace cfg, pd_Labels = l, pd_Owner = None,
              pd_MinAvailable = Some 1, pd_Selector = l\<rparr>)"

section \<open>The daemon\<close>

definition archNodeSelector :: "BuildProject \<Rightarrow> Config \<Rightarrow> labels" where
  "archNodeSelector bp cfg =
     (if \<not> cf_PinArchToNode cfg then cf_DaemonNodeSelector cfg
      else fmupd ''kubernetes.io/arch'' (normalizeArch (sp_Arch (bp_Spec bp))) (cf_DaemonNodeSelector cfg))"

definition buildkitdArgs :: "string \<Rightarrow> int \<Rightarrow> string list" where
  "buildkitdArgs profile port =
     (let args = [''--addr'', privilegedSock,
                  ''--addr'', ''tcp://0.0.0.0:'' @ itoa port,
                  ''--tlscacert'', ''/certs/ca.pem'',
                  ''--tlscert'', ''/certs/cert.pem'',
                  ''--tlskey'', ''/certs/key.pem'']
      in if profile = ProfilePrivileged then args
         else args[1 := rootlessSock] @
              [''--oci-worker-no-process-sandbox'', ''--config'', rootlessConfig @ ''/buildkitd.toml''])"

definition buildctlProbe :: "string \<Rightarrow> int \<Rightarrow> int \<Rightarrow> Probe" where
  "buildctlProbe addr initialDelay period =
     \<lparr>pr_Handler = ProbeExec [''buildctl'', ''--addr'', addr, ''debug'', ''workers''],
      pr_InitialDelaySeconds = initialDelay, pr_PeriodSeconds = period, pr_FailureThreshold = 3\<rparr>"

definition securityContexts :: "string \<Rightarrow> PodSecurityContext \<times> SecurityContext" where
  "securityContexts profile =
     (if profile = ProfilePrivileged then
        (\<lparr>ps_RunAsNonRoot = None, ps_RunAsUser = None, ps_RunAsGroup = None, ps_FSGroup = None,
          ps_FSGroupChangePolicy = None, ps_SeccompProfile = None, ps_AppArmorProfile = None\<rparr>,
         \<lparr>sc_Privileged = Some True, sc_RunAsNonRoot = None, sc_RunAsUser = None\<rparr>)
      else
        (\<lparr>ps_RunAsNonRoot = Some True, ps_RunAsUser = Some 1000, ps_RunAsGroup = Some 1000, ps_FSGroup = Some 1000,
          ps_FSGroupChangePolicy = Some ''OnRootMismatch'', ps_SeccompProfile = Some ''Unconfined'',
          ps_AppArmorProfile = Some ''Unconfined''\<rparr>,
         \<lparr>sc_Privileged = None, sc_RunAsNonRoot = Some True, sc_RunAsUser = Some 1000\<rparr>))"

definition sandboxedFork :: "BuildProject \<Rightarrow> Config \<Rightarrow> bool" where
  "sandboxedFork bp cfg \<longleftrightarrow> cf_SandboxRuntimeClass cfg \<noteq> [] \<and> isForkKey (sp_Key (bp_Spec bp))"

definition runtimeClassFor :: "BuildProject \<Rightarrow> Config \<Rightarrow> string option" where
  "runtimeClassFor bp cfg = (if sandboxedFork bp cfg then Some (cf_SandboxRuntimeClass cfg) else None)"

definition sandboxImage :: "Config \<Rightarrow> string" where
  "sandboxImage cfg =
     (if cf_SandboxBuildkitImage cfg \<noteq> [] then cf_SandboxBuildkitImage cfg
      else trimSuffix (cf_BuildkitImage cfg) ''-rootless'')"

text \<open>The body of \<open>StatefulSet\<close> in the order of the source: profile and image, paths, the daemon
  container, the companion, the volumes, the claim template.\<close>

definition profileImage :: "BuildProject \<Rightarrow> Config \<Rightarrow> string \<times> string" where
  "profileImage bp cfg =
     (if sandboxedFork bp cfg then (ProfilePrivileged, sandboxImage cfg)
      else (sp_SecurityProfile (bp_Spec bp), cf_BuildkitImage cfg))"

definition daemonPaths :: "string \<Rightarrow> string \<times> string \<times> string" where
  "daemonPaths profile =
     (if profile = ProfilePrivileged then (privilegedData, privilegedSock, privilegedRun)
      else (rootlessDataDir, rootlessSock, rootlessRunDir))"

definition daemonContainer :: "BuildProject \<Rightarrow> Config \<Rightarrow> Container" where
  "daemonContainer bp cfg =
     (let (profile, image) = profileImage bp cfg;
          (dataDir, sockAddr, runDir) = daemonPaths profile;
          s3 = cf_S3CredsSecret cfg \<noteq> [] \<and> \<not> isForkKey (sp_Key (bp_Spec bp))
      in \<lparr>ct_Name = ''buildkitd'', ct_Image = image, ct_Args = buildkitdArgs profile (cf_Port cfg),
          ct_SecurityContext = snd (securityContexts profile),
          ct_Ports = [\<lparr>cp_Name = ''buildkit'', cp_Port = cf_Port cfg, cp_Protocol = ''TCP''\<rparr>],
          ct_ReadinessProbe = Some (buildctlProbe sockAddr 5 10),
          ct_LivenessProbe = Some (buildctlProbe sockAddr 15 30),
          ct_Resources = sp_Resources (bp_Spec bp),
          ct_VolumeMounts =
            [\<lparr>vm_Name = cacheVolName, vm_MountPath = dataDir, vm_ReadOnly = False\<rparr>,
             \<lparr>vm_Name = ''certs'', vm_MountPath = ''/certs'', vm_ReadOnly = True\<rparr>,
             \<lparr>vm_Name = ''run'', vm_MountPath = runDir, vm_ReadOnly = False\<rparr>] @
            (if profile \<noteq> ProfilePrivileged
             then [\<lparr>vm_Name = ''config'', vm_MountPath = rootlessConfig, vm_ReadOnly = False\<rparr>] else []),
          ct_EnvFromSecrets = (if s3 then [cf_S3CredsSecret cfg] else []),
          ct_Env = (if s3 then [(''AWS_EC2_METADATA_DISABLED'', ''true'')] else [])\<rparr>)"

definition companionContainer :: "BuildProject \<Rightarrow> Config \<Rightarrow> Container" where
  "companionContainer bp cfg =
     (let (profile, image) = profileImage bp cfg;
          (dataDir, sockAddr, runDir) = daemonPaths profile
      in \<lparr>ct_Name = ''companion'', ct_Image = cf_CompanionImage cfg,
          ct_Args = [''--buildkit-addr='' @ sockAddr, ''--cache-dir='' @ dataDir, ''--listen=:'' @ itoa (cf_HealthPort cfg)],
          ct_SecurityContext = snd (securityContexts profile),
          ct_Ports = [\<lparr>cp_Name = ''health'', cp_Port = cf_HealthPort cfg, cp_Protocol = ''TCP''\<rparr>],
          ct_ReadinessProbe = Some \<lparr>pr_Handler = ProbeHTTP ''/readyz'' (cf_HealthPort cfg),
            pr_InitialDelaySeconds = 5, pr_PeriodSeconds = 15, pr_FailureThreshold = 0\<rparr>,
          ct_LivenessProbe = None, ct_Resources = [],
          ct_VolumeMounts =
            [\<lparr>vm_Name = cacheVolName, vm_MountPath = dataDir, vm_ReadOnly = True\<rparr>,
             \<lparr>vm_Name = ''run'', vm_MountPath = runDir, vm_ReadOnly = False\<rparr>],
          ct_EnvFromSecrets = [], ct_Env = []\<rparr>)"

definition daemonContainers :: "BuildProject \<Rightarrow> Config \<Rightarrow> Container list" where
  "daemonContainers bp cfg =
     daemonContainer bp cfg #
       (if cf_Companion cfg \<and> \<not> sandboxedFork bp cfg then [companionContainer bp cfg] else [])"

definition daemonVolumes :: "BuildProject \<Rightarrow> Config \<Rightarrow> Volume list" where
  "daemonVolumes bp cfg =
     (let certItems = (if cf_CertManagerCerts cfg
            then [(''tls.crt'', ''cert.pem''), (''tls.key'', ''key.pem''), (''ca.crt'', ''ca.pem'')] else [])
      in [\<lparr>vo_Name = ''run'', vo_Source = EmptyDir\<rparr>,
          \<lparr>vo_Name = ''certs'', vo_Source = SecretVolume (cf_DaemonCertsSecret cfg) certItems\<rparr>] @
         (if fst (profileImage bp cfg) \<noteq> ProfilePrivileged
          then [\<lparr>vo_Name = ''config'',
                 vo_Source = ConfigMapVolume (cf_BuildkitdConfigMap cfg) [(''buildkitd.toml'', ''buildkitd.toml'')]\<rparr>]
          else []))"

definition cachePvcSpec :: "BuildProject \<Rightarrow> PvcSpec" where
  "cachePvcSpec bp =
     (let spec = bp_Spec bp in
      \<lparr>pv_AccessModes = [''ReadWriteOnce''],
       pv_StorageRequest = itoa (sp_CacheVolumeGi spec) @ ''Gi'',
       pv_StorageClassName = (if sp_StorageClass spec \<noteq> [] then Some (sp_StorageClass spec) else None),
       pv_DataSource = (if sp_RestoreFromSnapshot spec \<noteq> []
          then Some (''snapshot.storage.k8s.io'', ''VolumeSnapshot'', sp_RestoreFromSnapshot spec) else None)\<rparr>)"

definition podTemplateOf :: "BuildProject \<Rightarrow> Config \<Rightarrow> PodTemplate" where
  "podTemplateOf bp cfg =
     \<lparr>pt_Labels = podLabels bp,
      pt_SecurityContext = fst (securityContexts (fst (profileImage bp cfg))),
      pt_RuntimeClassName = runtimeClassFor bp cfg,
      pt_NodeSelector = archNodeSelector bp cfg,
      pt_Tolerations = cf_DaemonTolerations cfg,
      pt_Affinity = cf_DaemonAffinity cfg,
      pt_Containers = daemonContainers bp cfg,
      pt_TerminationGracePeriodSeconds = 120,
      pt_Volumes = daemonVolumes bp cfg\<rparr>"

definition StatefulSetOf :: "BuildProject \<Rightarrow> Config \<Rightarrow> StatefulSet" where
  "StatefulSetOf bp cfg =
     (let l = Labels bp; name = daemonName (sp_Key (bp_Spec bp)) in
      \<lparr>ss_Name = name, ss_Namespace = cf_Namespace cfg, ss_Labels = l, ss_Annotations = fmempty, ss_Owner = None,
       ss_ServiceName = name, ss_Replicas = Some 1, ss_PodManagementPolicy = ''Parallel'', ss_Selector = l,
       ss_Template = podTemplateOf bp cfg,
       ss_VolumeClaimTemplates = [(cacheVolName, cachePvcSpec bp)],
       ss_PvcRetention = (if isForkKey (sp_Key (bp_Spec bp))
          then Some \<lparr>rt_WhenDeleted = ''Delete'', rt_WhenScaled = ''Retain''\<rparr> else None),
       ss_ReadyReplicas = 0, ss_Generation = 0, ss_ObservedGeneration = 0, ss_UpdatedReplicas = 0,
       ss_CurrentRevision = [], ss_UpdateRevision = []\<rparr>)"

text \<open>The zero value of the Go struct.\<close>

definition zeroConfig :: Config where
  "zeroConfig = \<lparr>cf_Namespace = [], cf_BuildkitImage = [], cf_CompanionImage = [], cf_DaemonCertsSecret = [],
     cf_CertManagerCerts = False, cf_BuildkitdConfigMap = [], cf_SnapshotClass = [], cf_DefaultStorageClass = [],
     cf_Port = 0, cf_HealthPort = 0, cf_Companion = False, cf_S3CredsSecret = [], cf_SandboxRuntimeClass = [],
     cf_SandboxBuildkitImage = [], cf_DaemonNodeSelector = fmempty, cf_DaemonTolerations = [], cf_DaemonAffinity = [],
     cf_PinArchToNode = False\<rparr>"

section \<open>Facts\<close>

lemmas builder_paths = rootlessDataDir_def rootlessConfig_def rootlessSock_def rootlessRunDir_def
  privilegedData_def privilegedSock_def privilegedRun_def cacheVolName_def

lemma label_keys_distinct [simp]:
  "projectKeyLabel \<noteq> archLabel" "archLabel \<noteq> projectKeyLabel" "LabelUntrusted \<noteq> projectKeyLabel"
  "LabelUntrusted \<noteq> archLabel" "projectKeyLabel \<noteq> LabelUntrusted" "archLabel \<noteq> LabelUntrusted" "projectKeyLabel \<noteq> ''app.kubernetes.io/name''" "archLabel \<noteq> ''app.kubernetes.io/name''"
  "projectKeyLabel \<noteq> ''app.kubernetes.io/component''" "archLabel \<noteq> ''app.kubernetes.io/component''"
  "LabelUntrusted \<noteq> ''app.kubernetes.io/name''" "LabelUntrusted \<noteq> ''app.kubernetes.io/component''"
  by (simp_all add: projectKeyLabel_def archLabel_def LabelUntrusted_def)

lemma Labels_lookup:
  "fmlookup (Labels bp) k =
     (if k = ''app.kubernetes.io/name'' then Some ''buildkit-operator''
      else if k = ''app.kubernetes.io/component'' then Some ''buildkitd''
      else if k = projectKeyLabel then Some (sp_Key (bp_Spec bp))
      else if k = archLabel then Some (normalizeArch (sp_Arch (bp_Spec bp))) else None)"
  by (simp add: Labels_def fmlookup_of_list)

lemma podLabels_lookup:
  "fmlookup (podLabels bp) k =
     (if k = LabelUntrusted \<and> isForkKey (sp_Key (bp_Spec bp)) then Some ''true'' else fmlookup (Labels bp) k)"
  by (simp add: podLabels_def Let_def)

lemma Labels_untrusted [simp]: "fmlookup (Labels bp) LabelUntrusted = None"
  by (simp add: Labels_lookup)

text \<open>What a label selector matches: every required pair is on the pod.\<close>

definition selects :: "labels \<Rightarrow> labels \<Rightarrow> bool" where
  "selects sel ls \<longleftrightarrow> (\<forall>k v. fmlookup sel k = Some v \<longrightarrow> fmlookup ls k = Some v)"

lemma Labels_select_podLabels:
  "selects (Labels a) (podLabels b) \<longleftrightarrow>
     sp_Key (bp_Spec a) = sp_Key (bp_Spec b) \<and> normalizeArch (sp_Arch (bp_Spec a)) = normalizeArch (sp_Arch (bp_Spec b))"
proof
  assume s: "selects (Labels a) (podLabels b)"
  have "fmlookup (Labels a) projectKeyLabel = Some (sp_Key (bp_Spec a))" "fmlookup (Labels a) archLabel = Some (normalizeArch (sp_Arch (bp_Spec a)))"
    by (simp_all add: Labels_lookup)
  with s have "fmlookup (podLabels b) projectKeyLabel = Some (sp_Key (bp_Spec a))"
    "fmlookup (podLabels b) archLabel = Some (normalizeArch (sp_Arch (bp_Spec a)))"
    by (auto simp: selects_def)
  then show "sp_Key (bp_Spec a) = sp_Key (bp_Spec b) \<and> normalizeArch (sp_Arch (bp_Spec a)) = normalizeArch (sp_Arch (bp_Spec b))"
    by (simp add: podLabels_lookup Labels_lookup)
next
  assume "sp_Key (bp_Spec a) = sp_Key (bp_Spec b) \<and> normalizeArch (sp_Arch (bp_Spec a)) = normalizeArch (sp_Arch (bp_Spec b))"
  then have "fmlookup (Labels a) k = fmlookup (Labels b) k" for k by (simp add: Labels_lookup)
  then show "selects (Labels a) (podLabels b)"
    unfolding selects_def podLabels_lookup
    by (metis (no_types, lifting) Labels_untrusted option.distinct(1))
qed

lemma ss_StatefulSetOf [simp]:
  "ss_Name (StatefulSetOf bp cfg) = daemonName (sp_Key (bp_Spec bp))" "ss_Namespace (StatefulSetOf bp cfg) = cf_Namespace cfg"
  "ss_Template (StatefulSetOf bp cfg) = podTemplateOf bp cfg" "ss_Selector (StatefulSetOf bp cfg) = Labels bp"
  "ss_Annotations (StatefulSetOf bp cfg) = fmempty" "ss_Replicas (StatefulSetOf bp cfg) = Some 1"
  by (simp_all add: StatefulSetOf_def Let_def)

section \<open>Properties\<close>

text \<open>The Secrets a pod is given: as environment of a container, or as a volume; and the ones a container
  mounts.\<close>

definition volumeSecrets :: "Volume \<Rightarrow> string list" where
  "volumeSecrets v = (case vo_Source v of SecretVolume s _ \<Rightarrow> [s] | _ \<Rightarrow> [])"

definition podSecrets :: "PodTemplate \<Rightarrow> string list" where
  "podSecrets t = concat (map ct_EnvFromSecrets (pt_Containers t)) @ concat (map volumeSecrets (pt_Volumes t))"

definition mountedSecrets :: "PodTemplate \<Rightarrow> Container \<Rightarrow> string list" where
  "mountedSecrets t c = concat (map (\<lambda>m. concat (map volumeSecrets (filter (\<lambda>v. vo_Name v = vm_Name m) (pt_Volumes t)))) (ct_VolumeMounts c))"

lemma volumes_secrets: "concat (map volumeSecrets (daemonVolumes bp cfg)) = [cf_DaemonCertsSecret cfg]"
  by (simp add: daemonVolumes_def volumeSecrets_def Let_def)

lemma companion_secrets: "mountedSecrets (podTemplateOf bp cfg) (companionContainer bp cfg) = []"
  by (simp add: mountedSecrets_def podTemplateOf_def companionContainer_def daemonVolumes_def volumeSecrets_def Let_def cacheVolName_def split: prod.split)

text \<open>C16: \<^bold>\<open>An untrusted fork is isolated.\<close> The daemon rendered for a fork key carries the untrusted
  marker the egress policy selects on, and its cache claim dies with it. Whatever the configuration,
  the only Secret its pod is given, as environment or as a volume, is the daemons' TLS certificate
  (the mTLS listener needs it; the companion does not mount it): the S3 credentials a trusted daemon
  gets are not among them, and no container has an environment variable. When a sandbox runtime is
  configured the fork runs under that runtime, alone in its pod. A daemon that is not a fork never
  carries the marker, never runs in the sandbox and keeps its cache; its Secrets are the S3
  credentials, where configured, and the TLS certificate.\<close>

theorem fork_isolation:
  "(isForkKey (sp_Key (bp_Spec bp)) \<longrightarrow>
     fmlookup (pt_Labels (ss_Template (StatefulSetOf bp cfg))) LabelUntrusted = Some ''true'' \<and>
     (\<exists>r. ss_PvcRetention (StatefulSetOf bp cfg) = Some r \<and> rt_WhenDeleted r = ''Delete'') \<and>
     podSecrets (ss_Template (StatefulSetOf bp cfg)) = [cf_DaemonCertsSecret cfg] \<and>
     (\<forall>c \<in> set (pt_Containers (ss_Template (StatefulSetOf bp cfg))). ct_Env c = [] \<and>
        (ct_Name c \<noteq> ''buildkitd'' \<longrightarrow> mountedSecrets (ss_Template (StatefulSetOf bp cfg)) c = [])) \<and>
     (cf_SandboxRuntimeClass cfg \<noteq> [] \<longrightarrow>
        pt_RuntimeClassName (ss_Template (StatefulSetOf bp cfg)) = Some (cf_SandboxRuntimeClass cfg) \<and>
        length (pt_Containers (ss_Template (StatefulSetOf bp cfg))) = 1)) \<and>
   (\<not> isForkKey (sp_Key (bp_Spec bp)) \<longrightarrow>
     fmlookup (pt_Labels (ss_Template (StatefulSetOf bp cfg))) LabelUntrusted = None \<and>
     ss_PvcRetention (StatefulSetOf bp cfg) = None \<and>
     podSecrets (ss_Template (StatefulSetOf bp cfg)) = (if cf_S3CredsSecret cfg = [] then [] else [cf_S3CredsSecret cfg]) @ [cf_DaemonCertsSecret cfg] \<and>
     pt_RuntimeClassName (ss_Template (StatefulSetOf bp cfg)) = None)"
proof -
  let ?t = "podTemplateOf bp cfg" and ?d = "daemonContainer bp cfg" and ?c = "companionContainer bp cfg" and ?f = "isForkKey (sp_Key (bp_Spec bp))"
  have d: "ct_EnvFromSecrets ?d = (if cf_S3CredsSecret cfg \<noteq> [] \<and> \<not> ?f then [cf_S3CredsSecret cfg] else [])" "?f \<Longrightarrow> ct_Env ?d = []" "ct_Name ?d = ''buildkitd''"
    by (simp_all add: daemonContainer_def Let_def split: prod.split)
  have c: "ct_EnvFromSecrets ?c = []" "ct_Env ?c = []" by (simp_all add: companionContainer_def Let_def split: prod.split)
  have cs: "pt_Containers ?t = [?d] \<or> pt_Containers ?t = [?d, ?c]" "sandboxedFork bp cfg \<Longrightarrow> pt_Containers ?t = [?d]"
    by (simp_all add: podTemplateOf_def daemonContainers_def)
  have "pt_Volumes ?t = daemonVolumes bp cfg" by (simp add: podTemplateOf_def)
  then have p: "podSecrets ?t = ct_EnvFromSecrets ?d @ [cf_DaemonCertsSecret cfg]"
    using cs(1) c(1) volumes_secrets [of bp cfg] by (auto simp: podSecrets_def)
  have e: "\<forall>k \<in> set (pt_Containers ?t). ct_Env k = [] \<and> (ct_Name k \<noteq> ''buildkitd'' \<longrightarrow> mountedSecrets ?t k = [])" if ?f
    using cs(1) d(2) [OF that] d(3) c(2) companion_secrets [of bp cfg] by auto
  have s: "?t = ss_Template (StatefulSetOf bp cfg)" "pt_Labels ?t = podLabels bp" "pt_RuntimeClassName ?t = runtimeClassFor bp cfg"
    "ss_PvcRetention (StatefulSetOf bp cfg) = (if ?f then Some \<lparr>rt_WhenDeleted = ''Delete'', rt_WhenScaled = ''Retain''\<rparr> else None)"
    by (simp_all add: StatefulSetOf_def podTemplateOf_def Let_def)
  show ?thesis unfolding s(1) [symmetric] s(2-4) p d(1)
    using e cs(2) by (auto simp: podLabels_lookup runtimeClassFor_def sandboxedFork_def)
qed

theorem fork_isolation_witness:
  "fmlookup (pt_Labels (ss_Template (StatefulSetOf (bareProject ''forkp1'') (zeroConfig\<lparr>cf_SandboxRuntimeClass := ''kata''\<rparr>)))) LabelUntrusted = Some ''true'' \<and>
   pt_RuntimeClassName (ss_Template (StatefulSetOf (bareProject ''forkp1'') (zeroConfig\<lparr>cf_SandboxRuntimeClass := ''kata''\<rparr>))) = Some ''kata'' \<and>
   pt_RuntimeClassName (ss_Template (StatefulSetOf (bareProject ''p1'') (zeroConfig\<lparr>cf_SandboxRuntimeClass := ''kata''\<rparr>))) = None"
proof -
  have "isForkKey (sp_Key (bp_Spec (bareProject ''forkp1'')))" "\<not> isForkKey (sp_Key (bp_Spec (bareProject ''p1'')))"
    by (simp_all add: bareProject_def isForkKey_def hasPrefix_def)
  then show ?thesis
    using fork_isolation [of "bareProject ''forkp1''" "zeroConfig\<lparr>cf_SandboxRuntimeClass := ''kata''\<rparr>"]
      fork_isolation [of "bareProject ''p1''" "zeroConfig\<lparr>cf_SandboxRuntimeClass := ''kata''\<rparr>"]
    by (simp add: zeroConfig_def)
qed

text \<open>\<^bold>\<open>A daemon is addressed by its own Service and budget only.\<close> The Service and the disruption
  budget of a project select a daemon pod exactly when the pod belongs to a project of the same key
  and architecture, fork or not: no Service ever sends a build to another project's daemon, and the
  StatefulSet's selector matches its own pods.\<close>

theorem daemon_addressing:
  "(selects (sv_Selector (ServiceOf a cfg)) (pt_Labels (ss_Template (StatefulSetOf b cfg'))) \<longleftrightarrow>
      sp_Key (bp_Spec a) = sp_Key (bp_Spec b) \<and> normalizeArch (sp_Arch (bp_Spec a)) = normalizeArch (sp_Arch (bp_Spec b))) \<and>
   selects (ss_Selector (StatefulSetOf b cfg)) (pt_Labels (ss_Template (StatefulSetOf b cfg))) \<and>
   map_option pd_Selector (PodDisruptionBudgetOf a cfg serving) = (if serving then Some (sv_Selector (ServiceOf a cfg)) else None)"
  using Labels_select_podLabels [of a b] Labels_select_podLabels [of b b]
  by (simp add: ServiceOf_def PodDisruptionBudgetOf_def Let_def podTemplateOf_def)

text \<open>Mounts: every volume a container mounts is declared, and the socket its probe dials is one the
  daemon listens on, in a directory mounted from the shared run volume.\<close>

definition mountedDirs :: "Container \<Rightarrow> string \<Rightarrow> string list" where
  "mountedDirs c vol = map vm_MountPath (filter (\<lambda>m. vm_Name m = vol) (ct_VolumeMounts c))"

lemma daemonPaths_socket:
  "\<exists>rest. fst (snd (daemonPaths p)) = ''unix://'' @ snd (snd (daemonPaths p)) @ ''/'' @ rest"
proof (cases "p = ProfilePrivileged")
  case True
  then show ?thesis
    by (intro exI [of _ "''buildkitd.sock''"]) (simp add: daemonPaths_def privilegedSock_def privilegedRun_def)
next
  case False
  then show ?thesis
    by (intro exI [of _ "''buildkit/buildkitd.sock''"]) (simp add: daemonPaths_def rootlessSock_def rootlessRunDir_def)
qed

lemma daemonContainer_fields:
  "ct_VolumeMounts (daemonContainer bp cfg) =
     [\<lparr>vm_Name = cacheVolName, vm_MountPath = fst (daemonPaths (fst (profileImage bp cfg))), vm_ReadOnly = False\<rparr>,
      \<lparr>vm_Name = ''certs'', vm_MountPath = ''/certs'', vm_ReadOnly = True\<rparr>,
      \<lparr>vm_Name = ''run'', vm_MountPath = snd (snd (daemonPaths (fst (profileImage bp cfg)))), vm_ReadOnly = False\<rparr>] @
     (if fst (profileImage bp cfg) \<noteq> ProfilePrivileged
      then [\<lparr>vm_Name = ''config'', vm_MountPath = rootlessConfig, vm_ReadOnly = False\<rparr>] else [])"
  "ct_ReadinessProbe (daemonContainer bp cfg) = Some (buildctlProbe (fst (snd (daemonPaths (fst (profileImage bp cfg))))) 5 10)"
  "ct_LivenessProbe (daemonContainer bp cfg) = Some (buildctlProbe (fst (snd (daemonPaths (fst (profileImage bp cfg))))) 15 30)"
  "ct_Args (daemonContainer bp cfg) = buildkitdArgs (fst (profileImage bp cfg)) (cf_Port cfg)"
  "ct_SecurityContext (daemonContainer bp cfg) = snd (securityContexts (fst (profileImage bp cfg)))"
  by (simp_all add: daemonContainer_def Let_def split: prod.split)

lemma companionContainer_fields:
  "ct_VolumeMounts (companionContainer bp cfg) =
     [\<lparr>vm_Name = cacheVolName, vm_MountPath = fst (daemonPaths (fst (profileImage bp cfg))), vm_ReadOnly = True\<rparr>,
      \<lparr>vm_Name = ''run'', vm_MountPath = snd (snd (daemonPaths (fst (profileImage bp cfg)))), vm_ReadOnly = False\<rparr>]"
  "ct_Args (companionContainer bp cfg) =
     [''--buildkit-addr='' @ fst (snd (daemonPaths (fst (profileImage bp cfg)))),
      ''--cache-dir='' @ fst (daemonPaths (fst (profileImage bp cfg))), ''--listen=:'' @ itoa (cf_HealthPort cfg)]"
  by (simp_all add: companionContainer_def Let_def split: prod.split)

lemma volume_names [simp]: "cacheVolName \<noteq> ''run''" "cacheVolName \<noteq> ''certs''" "cacheVolName \<noteq> ''config''"
  "''run'' \<noteq> cacheVolName"
  by (simp_all add: cacheVolName_def)

lemma buildkitdArgs_socket: "buildkitdArgs p port ! 1 = fst (snd (daemonPaths p))"
  by (simp add: buildkitdArgs_def daemonPaths_def Let_def)

lemma mount_names:
  "vm_Name ` set (ct_VolumeMounts (daemonContainer bp cfg)) =
     {cacheVolName, ''certs'', ''run''} \<union> (if fst (profileImage bp cfg) \<noteq> ProfilePrivileged then {''config''} else {})"
  "vm_Name ` set (ct_VolumeMounts (companionContainer bp cfg)) = {cacheVolName, ''run''}"
  "vo_Name ` set (daemonVolumes bp cfg) =
     {''run'', ''certs''} \<union> (if fst (profileImage bp cfg) \<noteq> ProfilePrivileged then {''config''} else {})"
  "fst ` set (ss_VolumeClaimTemplates (StatefulSetOf bp cfg)) = {cacheVolName}"
  by (simp_all add: daemonContainer_fields companionContainer_fields daemonVolumes_def StatefulSetOf_def Let_def insert_commute)

lemma mounts_declared:
  assumes "c \<in> set (daemonContainers bp cfg)" "m \<in> set (ct_VolumeMounts c)"
  shows "vm_Name m \<in> set (map vo_Name (daemonVolumes bp cfg)) \<union> set (map fst (ss_VolumeClaimTemplates (StatefulSetOf bp cfg)))"
proof -
  have gen: "{a, b, c} \<union> X \<subseteq> ({c, b} \<union> X) \<union> {a}" "{a, c} \<subseteq> ({c, b} \<union> X) \<union> {a}" for a b c :: string and X
    by blast+
  consider "c = daemonContainer bp cfg" | "c = companionContainer bp cfg"
    using assms(1) by (auto simp: daemonContainers_def split: if_splits)
  then have "vm_Name ` set (ct_VolumeMounts c) \<subseteq> set (map vo_Name (daemonVolumes bp cfg)) \<union> set (map fst (ss_VolumeClaimTemplates (StatefulSetOf bp cfg)))"
  proof cases
    case 1
    show ?thesis unfolding 1 set_map mount_names by (rule gen)
  next
    case 2
    show ?thesis unfolding 2 set_map mount_names by (rule gen)
  qed
  with imageI [OF assms(2)] show ?thesis by (rule subsetD [rotated])
qed

lemma run_mounted:
  "c \<in> set (daemonContainers bp cfg) \<Longrightarrow> mountedDirs c ''run'' = [snd (snd (daemonPaths (fst (profileImage bp cfg))))]"
  by (auto simp: daemonContainers_def mountedDirs_def daemonContainer_fields companionContainer_fields split: if_splits)

lemma daemon_privileged:
  "sc_Privileged (ct_SecurityContext (daemonContainer bp cfg)) = Some True \<longleftrightarrow>
     sandboxedFork bp cfg \<or> sp_SecurityProfile (bp_Spec bp) = ProfilePrivileged"
  by (simp add: daemonContainer_fields securityContexts_def profileImage_def)

text \<open>\<^bold>\<open>The rendered pod is consistent.\<close> Every volume a container mounts is declared in the pod or is the
  cache claim; the daemon's probes dial a socket it is told to listen on, and that socket lies in the
  directory that both containers mount from the shared run volume; the cache is mounted read-only in
  the companion; and the daemon is privileged exactly when its project asks for it or it is a fork in
  a sandbox runtime.\<close>

theorem rendered_pod_consistent:
  "(\<forall>c \<in> set (daemonContainers bp cfg). \<forall>m \<in> set (ct_VolumeMounts c).
      vm_Name m \<in> set (map vo_Name (daemonVolumes bp cfg)) \<union> set (map fst (ss_VolumeClaimTemplates (StatefulSetOf bp cfg)))) \<and>
   (\<exists>sock dir rest. pr_Handler (the (ct_ReadinessProbe (daemonContainer bp cfg))) = ProbeExec [''buildctl'', ''--addr'', sock, ''debug'', ''workers''] \<and>
      pr_Handler (the (ct_LivenessProbe (daemonContainer bp cfg))) = ProbeExec [''buildctl'', ''--addr'', sock, ''debug'', ''workers''] \<and>
      ct_Args (daemonContainer bp cfg) ! 1 = sock \<and> sock = ''unix://'' @ dir @ ''/'' @ rest \<and>
      (\<forall>c \<in> set (daemonContainers bp cfg). mountedDirs c ''run'' = [dir]) \<and>
      ''--buildkit-addr='' @ sock \<in> set (ct_Args (companionContainer bp cfg))) \<and>
   (\<forall>m \<in> set (ct_VolumeMounts (companionContainer bp cfg)). vm_Name m = cacheVolName \<longrightarrow> vm_ReadOnly m) \<and>
   (sc_Privileged (ct_SecurityContext (daemonContainer bp cfg)) = Some True \<longleftrightarrow>
      sandboxedFork bp cfg \<or> sp_SecurityProfile (bp_Spec bp) = ProfilePrivileged)"
proof (intro conjI)
  show "\<exists>sock dir rest. pr_Handler (the (ct_ReadinessProbe (daemonContainer bp cfg))) = ProbeExec [''buildctl'', ''--addr'', sock, ''debug'', ''workers''] \<and>
      pr_Handler (the (ct_LivenessProbe (daemonContainer bp cfg))) = ProbeExec [''buildctl'', ''--addr'', sock, ''debug'', ''workers''] \<and>
      ct_Args (daemonContainer bp cfg) ! 1 = sock \<and> sock = ''unix://'' @ dir @ ''/'' @ rest \<and>
      (\<forall>c \<in> set (daemonContainers bp cfg). mountedDirs c ''run'' = [dir]) \<and>
      ''--buildkit-addr='' @ sock \<in> set (ct_Args (companionContainer bp cfg))"
    using daemonPaths_socket [of "fst (profileImage bp cfg)"] run_mounted [of _ bp cfg]
    unfolding daemonContainer_fields companionContainer_fields buildkitdArgs_socket buildctlProbe_def
    by (metis Probe.select_convs(1) list.set_intros(1) option.sel)
qed (use mounts_declared [of _ bp cfg] daemon_privileged [of bp cfg] in \<open>simp_all add: companionContainer_fields\<close>)

theorem rendered_pod_consistent_witness:
  "sc_Privileged (ct_SecurityContext (daemonContainer (bareProject ''p1'') zeroConfig)) \<noteq> Some True \<and>
   vm_Name (ct_VolumeMounts (daemonContainer (bareProject ''p1'') zeroConfig) ! 1) \<in>
     set (map vo_Name (daemonVolumes (bareProject ''p1'') zeroConfig)) \<union>
     set (map fst (ss_VolumeClaimTemplates (StatefulSetOf (bareProject ''p1'') zeroConfig)))"
proof -
  have "\<not> sandboxedFork (bareProject ''p1'') zeroConfig" "sp_SecurityProfile (bp_Spec (bareProject ''p1'')) \<noteq> ProfilePrivileged"
    by (simp_all add: sandboxedFork_def zeroConfig_def bareProject_def zeroSpec_def ProfilePrivileged_def)
  moreover have "daemonContainer (bareProject ''p1'') zeroConfig \<in> set (daemonContainers (bareProject ''p1'') zeroConfig)"
    by (simp add: daemonContainers_def)
  moreover have "ct_VolumeMounts (daemonContainer (bareProject ''p1'') zeroConfig) ! 1 \<in> set (ct_VolumeMounts (daemonContainer (bareProject ''p1'') zeroConfig))"
    by (rule nth_mem) (simp add: daemonContainer_fields)
  ultimately show ?thesis using rendered_pod_consistent [of "bareProject ''p1''" zeroConfig] by blast
qed

end
