(* ===== verification/Effects.thy ===== *)
theory Effects
  imports Inflight "HOL-Library.State_Monad"
begin

text \<open>
  Effectful code. A program is a state transformer over a \<open>world\<close>: the process's own memory and the log
  of the calls it made to the outside (newest first), each with its answer. The outside is a parameter:
  an answer is a function of the log so far, so a statement that holds for every such function holds
  for every behaviour of the services the program talks to, including stale reads, concurrent writers
  and errors at any point.

  \<open>wp m Q w\<close> says that running \<open>m\<close> from \<open>w\<close> ends with \<open>Q\<close>; its rules are in the collection \<open>wp\<close>. \<open>emits\<close>
  bounds the events a program can add to the log. \<open>log_ok J l\<close> says that every event of \<open>l\<close> is justified
  by the events before it.
\<close>

named_theorems wp_rules \<comment> \<open>evaluation of \<open>wp\<close> over the program constructs\<close>
named_theorems emits_rules \<comment> \<open>introduction rules of \<open>emits\<close>\<close>

section \<open>Worlds and programs\<close>

record ('e, 'm) world =
  w_log :: "'e list"
  w_mem :: 'm

type_synonym ('e, 'm, 'a) prog = "(('e, 'm) world, 'a) state"

abbreviation ret :: "'a \<Rightarrow> ('s, 'a) state" where
  "ret \<equiv> State_Monad.return"

text \<open>A call to the outside: the answer depends on what happened before, and both are logged.\<close>

definition call :: "('e list \<Rightarrow> 'r) \<Rightarrow> ('r \<Rightarrow> 'e) \<Rightarrow> ('e, 'm, 'r) prog" where
  "call answer event =
     State (\<lambda>w. let r = answer (w_log w) in (r, w\<lparr>w_log := event r # w_log w\<rparr>))"

definition getMem :: "('e, 'm, 'm) prog" where
  "getMem = State (\<lambda>w. (w_mem w, w))"

definition putMem :: "'m \<Rightarrow> ('e, 'm, unit) prog" where
  "putMem m = State (\<lambda>w. ((), w\<lparr>w_mem := m\<rparr>))"

text \<open>A loop over a slice whose body may return early with an error.\<close>

fun forEach :: "'x list \<Rightarrow> ('x \<Rightarrow> ('s, 'err option) state) \<Rightarrow> ('s, 'err option) state" where
  "forEach [] body = ret None"
| "forEach (x # xs) body =
     do {
       e \<leftarrow> body x;
       (case e of None \<Rightarrow> forEach xs body | Some err \<Rightarrow> ret (Some err))
     }"

text \<open>\<open>retry.RetryOnConflict\<close>: at most \<open>steps\<close> attempts, again only while the error satisfies \<open>again\<close>; the
  last error is returned. The number of steps (at least one) is that of the client library's backoff.\<close>

fun retrying :: "nat \<Rightarrow> ('err \<Rightarrow> bool) \<Rightarrow> ('s, 'err + 'a) state \<Rightarrow> ('s, 'err + 'a) state" where
  "retrying 0 again body = body"
| "retrying (Suc n) again body =
     do {
       r \<leftarrow> body;
       (case r of
          Inl e \<Rightarrow> (if again e \<and> n > 0 then retrying n again body else ret r)
        | Inr _ \<Rightarrow> ret r)
     }"

section \<open>Weakest preconditions\<close>

definition wp :: "('s, 'a) state \<Rightarrow> ('a \<Rightarrow> 's \<Rightarrow> bool) \<Rightarrow> 's \<Rightarrow> bool" where
  "wp m Q w = (case run_state m w of (a, w') \<Rightarrow> Q a w')"

lemma wp_return [wp_rules]: "wp (ret a) Q = Q a"
  by (simp add: wp_def fun_eq_iff)

lemma wp_bind [wp_rules]: "wp (State_Monad.bind m f) Q = wp m (\<lambda>a. wp (f a) Q)"
  by (simp add: wp_def fun_eq_iff split: prod.split)

lemma wp_call [wp_rules]:
  "wp (call f ev) Q w = Q (f (w_log w)) (w\<lparr>w_log := ev (f (w_log w)) # w_log w\<rparr>)"
  by (simp add: wp_def call_def Let_def)

lemma wp_getMem [wp_rules]: "wp getMem Q w = Q (w_mem w) w"
  by (simp add: wp_def getMem_def)

lemma wp_putMem [wp_rules]: "wp (putMem m) Q w = Q () (w\<lparr>w_mem := m\<rparr>)"
  by (simp add: wp_def putMem_def)

lemma wp_if [wp_rules]: "wp (if b then m else n) Q w = (if b then wp m Q w else wp n Q w)"
  by simp

lemma wp_case_option [wp_rules]:
  "wp (case x of None \<Rightarrow> m | Some a \<Rightarrow> f a) Q w = (case x of None \<Rightarrow> wp m Q w | Some a \<Rightarrow> wp (f a) Q w)"
  by (simp split: option.split)

lemma wp_case_sum [wp_rules]:
  "wp (case x of Inl e \<Rightarrow> f e | Inr a \<Rightarrow> g a) Q w = (case x of Inl e \<Rightarrow> wp (f e) Q w | Inr a \<Rightarrow> wp (g a) Q w)"
  by (simp split: sum.split)

lemma wp_case_prod [wp_rules]:
  "wp (case p of (a, b) \<Rightarrow> f a b) Q w = (case p of (a, b) \<Rightarrow> wp (f a b) Q w)"
  by (simp split: prod.split)

lemma wp_let [wp_rules]: "wp (let x = v in f x) Q w = (let x = v in wp (f x) Q w)"
  by simp

lemma wp_mono: "wp m Q w \<Longrightarrow> (\<And>a w'. Q a w' \<Longrightarrow> R a w') \<Longrightarrow> wp m R w"
  by (auto simp: wp_def split: prod.splits)

lemma wp_bindI: "wp m R w \<Longrightarrow> (\<And>a w'. R a w' \<Longrightarrow> wp (f a) Q w') \<Longrightarrow> wp (State_Monad.bind m f) Q w"
  unfolding wp_bind by (rule wp_mono)

lemma wp_conj: "wp m Q w \<Longrightarrow> wp m R w \<Longrightarrow> wp m (\<lambda>a w'. Q a w' \<and> R a w') w"
  by (auto simp: wp_def split: prod.splits)

lemma wp_run: "wp m Q w \<longleftrightarrow> Q (fst (run_state m w)) (snd (run_state m w))"
  by (simp add: wp_def split: prod.split)

text \<open>An invariant of the loop body is one of the loop.\<close>

lemma wp_forEach:
  assumes "I w" "\<And>x w'. x \<in> set xs \<Longrightarrow> I w' \<Longrightarrow> wp (body x) (\<lambda>_. I) w'"
  shows "wp (forEach xs body) (\<lambda>_. I) w"
  using assms
proof (induction xs arbitrary: w)
  case Nil
  then show ?case by (simp add: wp_rules)
next
  case (Cons x xs)
  show ?case unfolding forEach.simps wp_rules
  proof (rule wp_mono [OF Cons.prems(2)])
    fix e w'
    assume "I w'"
    then show "case e of None \<Rightarrow> wp (forEach xs body) (\<lambda>_. I) w' | Some err \<Rightarrow> I w'"
      using Cons by (auto split: option.split)
  qed (use Cons.prems in simp_all)
qed

lemma wp_retrying:
  assumes "I w" "\<And>w'. I w' \<Longrightarrow> wp body (\<lambda>_. I) w'"
  shows "wp (retrying n again body) (\<lambda>_. I) w"
  using assms(1)
proof (induction n arbitrary: w)
  case 0
  then show ?case using assms(2) by simp
next
  case (Suc n)
  show ?case unfolding retrying.simps wp_rules
    by (rule wp_mono [OF assms(2) [OF Suc.prems]]) (use Suc.IH in \<open>auto split: sum.split simp: wp_rules\<close>)
qed

text \<open>A retried body that either ends with \<open>Q\<close> or fails with \<open>I\<close> and \<open>Q\<close>.\<close>

lemma wp_retrying_post:
  assumes "I w" "\<And>w'. I w' \<Longrightarrow> wp body (\<lambda>r w''. Q r w'' \<and> (case r of Inl _ \<Rightarrow> I w'' | Inr _ \<Rightarrow> True)) w'"
  shows "wp (retrying n again body) Q w"
  using assms(1)
proof (induction n arbitrary: w)
  case 0
  then show ?case using wp_mono [OF assms(2)] by fastforce
next
  case (Suc n)
  show ?case unfolding retrying.simps wp_rules
    by (rule wp_mono [OF assms(2) [OF Suc.prems]]) (use Suc.IH in \<open>auto split: sum.split simp: wp_rules\<close>)
qed

section \<open>Bounding the events of a program\<close>

definition emits :: "('e \<Rightarrow> bool) \<Rightarrow> ('e, 'm, 'a) prog \<Rightarrow> bool" where
  "emits E m \<longleftrightarrow> (\<forall>w. wp m (\<lambda>_ w'. \<exists>new. w_log w' = new @ w_log w \<and> (\<forall>e \<in> set new. E e)) w)"

lemma emits_run:
  "emits E m \<Longrightarrow> \<exists>new. w_log (snd (run_state m w)) = new @ w_log w \<and> (\<forall>e \<in> set new. E e)"
  by (auto simp: emits_def wp_run)

lemma emits_return [emits_rules]: "emits E (ret a)"
  by (simp add: emits_def wp_rules)

lemma emits_bind [emits_rules]:
  assumes "emits E m" "\<And>a. emits E (f a)"
  shows "emits E (State_Monad.bind m f)"
  unfolding emits_def wp_rules
proof (intro allI)
  fix w
  show "wp m (\<lambda>a. wp (f a) (\<lambda>_ w'. \<exists>new. w_log w' = new @ w_log w \<and> (\<forall>e \<in> set new. E e))) w"
  proof (rule wp_mono)
    show "wp m (\<lambda>_ w'. \<exists>new. w_log w' = new @ w_log w \<and> (\<forall>e \<in> set new. E e)) w" using assms(1) by (simp add: emits_def)
    fix a and w' :: "('a, 'b) world"
    assume "\<exists>new. w_log w' = new @ w_log w \<and> (\<forall>e \<in> set new. E e)"
    then obtain new where n: "w_log w' = new @ w_log w" "\<forall>e \<in> set new. E e" by blast
    have "wp (f a) (\<lambda>_ w''. \<exists>new. w_log w'' = new @ w_log w' \<and> (\<forall>e \<in> set new. E e)) w'"
      using assms(2) by (simp add: emits_def)
    then show "wp (f a) (\<lambda>_ w''. \<exists>new. w_log w'' = new @ w_log w \<and> (\<forall>e \<in> set new. E e)) w'"
      by (rule wp_mono) (metis (no_types, lifting) n append.assoc Un_iff set_append)
  qed
qed

lemma emits_call [emits_rules]: "(\<And>r. E (ev r)) \<Longrightarrow> emits E (call f ev)"
  by (simp add: emits_def wp_rules)

lemma emits_getMem [emits_rules]: "emits E getMem"
  by (simp add: emits_def wp_rules)

lemma emits_putMem [emits_rules]: "emits E (putMem m)"
  by (simp add: emits_def wp_rules)

lemma emits_if [emits_rules]: "(b \<Longrightarrow> emits E m) \<Longrightarrow> (\<not> b \<Longrightarrow> emits E n) \<Longrightarrow> emits E (if b then m else n)"
  by simp

lemma emits_case_option [emits_rules]:
  "(x = None \<Longrightarrow> emits E m) \<Longrightarrow> (\<And>a. x = Some a \<Longrightarrow> emits E (f a)) \<Longrightarrow> emits E (case x of None \<Rightarrow> m | Some a \<Rightarrow> f a)"
  by (simp split: option.split)

lemma emits_case_sum [emits_rules]:
  "(\<And>e. x = Inl e \<Longrightarrow> emits E (f e)) \<Longrightarrow> (\<And>a. x = Inr a \<Longrightarrow> emits E (g a)) \<Longrightarrow> emits E (case x of Inl e \<Rightarrow> f e | Inr a \<Rightarrow> g a)"
  by (simp split: sum.split)

lemma emits_case_prod [emits_rules]:
  "(\<And>a b. p = (a, b) \<Longrightarrow> emits E (f a b)) \<Longrightarrow> emits E (case p of (a, b) \<Rightarrow> f a b)"
  by (simp split: prod.split)

lemma emits_let [emits_rules]: "(\<And>x. x = v \<Longrightarrow> emits E (f x)) \<Longrightarrow> emits E (let x = v in f x)"
  by simp

lemma emits_forEach [emits_rules]:
  "(\<And>x. x \<in> set xs \<Longrightarrow> emits E (body x)) \<Longrightarrow> emits E (forEach xs body)"
proof (induction xs)
  case Nil
  then show ?case by (simp add: emits_return)
next
  case (Cons x xs)
  then show ?case unfolding forEach.simps by (intro emits_rules) auto
qed

lemma emits_retrying [emits_rules]: "emits E body \<Longrightarrow> emits E (retrying n again body)"
proof (induction n)
  case (Suc n)
  then show ?case unfolding retrying.simps by (intro emits_rules) auto
qed simp

lemma emits_weaken: "emits E m \<Longrightarrow> (\<And>e. E e \<Longrightarrow> F e) \<Longrightarrow> emits F m"
  unfolding emits_def by (fastforce elim: wp_mono)

section \<open>Justified logs\<close>

primrec log_ok :: "('e \<Rightarrow> 'e list \<Rightarrow> bool) \<Rightarrow> 'e list \<Rightarrow> bool" where
  "log_ok J [] = True"
| "log_ok J (e # l) = (J e l \<and> log_ok J l)"

text \<open>\<open>log_ok\<close> spelled out: at every point of the log the event is justified by its past.\<close>

lemma log_ok_iff: "log_ok J l \<longleftrightarrow> (\<forall>later e earlier. l = later @ e # earlier \<longrightarrow> J e earlier)"
proof (induction l)
  case (Cons x l)
  show ?case
  proof
    assume "log_ok J (x # l)"
    with Cons.IH show "\<forall>later e earlier. x # l = later @ e # earlier \<longrightarrow> J e earlier"
      by (auto simp: Cons_eq_append_conv)
  next
    assume a: "\<forall>later e earlier. x # l = later @ e # earlier \<longrightarrow> J e earlier"
    then have "J x l" by (metis append_Nil)
    moreover have "\<forall>later e earlier. l = later @ e # earlier \<longrightarrow> J e earlier" using a by (metis append_Cons)
    ultimately show "log_ok J (x # l)" using Cons.IH by simp
  qed
qed simp

lemma log_ok_benign: "log_ok J l \<Longrightarrow> (\<forall>e \<in> set new. \<forall>h. J e h) \<Longrightarrow> log_ok J (new @ l)"
  by (induction new) auto

text \<open>A program that emits only events that need no justification keeps a justified log justified, and
  keeps every fact about the past that survives an extension of the log.\<close>

lemma wp_benign:
  assumes "emits (\<lambda>e. \<forall>h. J e h) m" "log_ok J (w_log w)"
  shows "wp m (\<lambda>_ w'. log_ok J (w_log w') \<and> (\<exists>new. w_log w' = new @ w_log w)) w"
proof -
  have "wp m (\<lambda>_ w'. \<exists>new. w_log w' = new @ w_log w \<and> (\<forall>e \<in> set new. \<forall>h. J e h)) w"
    using assms(1) by (simp add: emits_def)
  then show ?thesis by (rule wp_mono) (auto simp: log_ok_benign assms(2))
qed

section \<open>Invariants of programs\<close>

named_theorems keeps_rules \<comment> \<open>introduction rules of \<open>keeps\<close>\<close>

definition keeps :: "('s \<Rightarrow> bool) \<Rightarrow> ('s, 'a) state \<Rightarrow> bool" where
  "keeps I m \<longleftrightarrow> (\<forall>w. I w \<longrightarrow> wp m (\<lambda>_. I) w)"

lemma keepsD: "keeps I m \<Longrightarrow> I w \<Longrightarrow> wp m (\<lambda>_. I) w"
  by (simp add: keeps_def)

lemma keeps_return [keeps_rules]: "keeps I (ret a)"
  by (simp add: keeps_def wp_rules)

lemma keeps_bind [keeps_rules]: "keeps I m \<Longrightarrow> (\<And>a. keeps I (f a)) \<Longrightarrow> keeps I (State_Monad.bind m f)"
  unfolding keeps_def wp_bind by (blast intro: wp_mono)

lemma keeps_if [keeps_rules]: "(b \<Longrightarrow> keeps I m) \<Longrightarrow> (\<not> b \<Longrightarrow> keeps I n) \<Longrightarrow> keeps I (if b then m else n)"
  by simp

lemma keeps_case_option [keeps_rules]:
  "(x = None \<Longrightarrow> keeps I m) \<Longrightarrow> (\<And>a. x = Some a \<Longrightarrow> keeps I (f a)) \<Longrightarrow> keeps I (case x of None \<Rightarrow> m | Some a \<Rightarrow> f a)"
  by (simp split: option.split)

lemma keeps_case_sum [keeps_rules]:
  "(\<And>e. x = Inl e \<Longrightarrow> keeps I (f e)) \<Longrightarrow> (\<And>a. x = Inr a \<Longrightarrow> keeps I (g a)) \<Longrightarrow> keeps I (case x of Inl e \<Rightarrow> f e | Inr a \<Rightarrow> g a)"
  by (simp split: sum.split)

lemma keeps_case_prod [keeps_rules]:
  "(\<And>a b. p = (a, b) \<Longrightarrow> keeps I (f a b)) \<Longrightarrow> keeps I (case p of (a, b) \<Rightarrow> f a b)"
  by (simp split: prod.split)

lemma keeps_case_bool [keeps_rules]: "keeps I m \<Longrightarrow> keeps I n \<Longrightarrow> keeps I (case b of True \<Rightarrow> m | False \<Rightarrow> n)"
  by (simp split: bool.split)

lemma keeps_let [keeps_rules]: "(\<And>x. x = v \<Longrightarrow> keeps I (f x)) \<Longrightarrow> keeps I (let x = v in f x)"
  by simp

lemma keeps_getMem [keeps_rules]: "keeps I getMem"
  by (simp add: keeps_def wp_rules)

lemma keeps_forEach [keeps_rules]: "(\<And>x. x \<in> set xs \<Longrightarrow> keeps I (body x)) \<Longrightarrow> keeps I (forEach xs body)"
  unfolding keeps_def by (auto intro!: wp_forEach)

lemma keeps_retrying [keeps_rules]: "keeps I body \<Longrightarrow> keeps I (retrying n again body)"
  unfolding keeps_def by (auto intro!: wp_retrying)

text \<open>The memory is that of before: no call to the outside touches it.\<close>

lemma keeps_mem_call [keeps_rules]: "keeps (\<lambda>w. w_mem w = m) (call f ev)"
  by (simp add: keeps_def wp_rules)

end
