(* ===== verification/Kube_Api.thy ===== *)
theory Kube_Api
  imports Builder Effects
begin

text \<open>
  The client of the API server: one program per call the control plane makes, with its event. The
  server, the clock and the companion's usage endpoint are the record \<open>Env\<close> of answer functions; none
  of its fields is given a definition, and no theorem assumes that two reads agree or that a write is
  seen by a later read unless it says so.

  Update, patch and create of an object the caller goes on using answer with the object the server
  stored, as the Go client overwrites its argument with it.
\<close>

section \<open>Events\<close>

text \<open>A read goes through the informer cache or straight to the API server (\<open>mgr.GetAPIReader()\<close>).\<close>

datatype Reader = Cached | Direct

datatype (plugins only: code) Event =
    ENow time
  | EGetBP Reader string string "BuildProject res"
  | EListBP string "(string \<times> string) option" "BuildProject list res"
  | ECreateBP BuildProject "BuildProject res"
  | EUpdateBP BuildProject "ApiErr option"
  | EUpdateBPStatus BuildProject "BuildProject res"
  | EPatchBPStatus BuildProject BuildProject "BuildProject res"
  | EDeleteBP BuildProject "ApiErr option"
  | EGetSvc string string "Service res"
  | ECreateSvc Service "ApiErr option"
  | EUpdateSvc Service "ApiErr option"
  | EGetPDB string string "PodDisruptionBudget res"
  | ECreatePDB PodDisruptionBudget "ApiErr option"
  | EUpdatePDB PodDisruptionBudget "ApiErr option"
  | EDeletePDB PodDisruptionBudget "ApiErr option"
  | EGetSts string string "StatefulSet res"
  | ECreateSts StatefulSet "ApiErr option"
  | EPatchSts StatefulSet StatefulSet "ApiErr option"
  | EGetPvc string string "Pvc res"
  | EListPvc string "Pvc list res"
  | EUpdatePvc Pvc "ApiErr option"
  | EDeletePvc Pvc "ApiErr option"
  | EGetPod string string "Pod res"
  | EListPod string string "Pod list res"
  | EDeletePod Pod "ApiErr option"
  | EListSnap string string "VolumeSnapshot list res"
  | ECreateSnap string string string "VolumeSnapshot res"
  | EDeleteSnap VolumeSnapshot "ApiErr option"
  | EProbeUsage string "(nat \<times> nat) res"
  | ESleep duration "string option"

type_synonym elog = "Event list"

section \<open>The environment\<close>

record Env =
  ev_now :: "elog \<Rightarrow> time"
  ev_getBP :: "elog \<Rightarrow> Reader \<Rightarrow> string \<Rightarrow> string \<Rightarrow> BuildProject res"
  ev_listBP :: "elog \<Rightarrow> string \<Rightarrow> (string \<times> string) option \<Rightarrow> BuildProject list res"
  ev_createBP :: "elog \<Rightarrow> BuildProject \<Rightarrow> BuildProject res"
  ev_updateBP :: "elog \<Rightarrow> BuildProject \<Rightarrow> ApiErr option"
  ev_updateBPStatus :: "elog \<Rightarrow> BuildProject \<Rightarrow> BuildProject res"
  ev_patchBPStatus :: "elog \<Rightarrow> BuildProject \<Rightarrow> BuildProject \<Rightarrow> BuildProject res"
  ev_deleteBP :: "elog \<Rightarrow> BuildProject \<Rightarrow> ApiErr option"
  ev_getSvc :: "elog \<Rightarrow> string \<Rightarrow> string \<Rightarrow> Service res"
  ev_createSvc :: "elog \<Rightarrow> Service \<Rightarrow> ApiErr option"
  ev_updateSvc :: "elog \<Rightarrow> Service \<Rightarrow> ApiErr option"
  ev_getPDB :: "elog \<Rightarrow> string \<Rightarrow> string \<Rightarrow> PodDisruptionBudget res"
  ev_createPDB :: "elog \<Rightarrow> PodDisruptionBudget \<Rightarrow> ApiErr option"
  ev_updatePDB :: "elog \<Rightarrow> PodDisruptionBudget \<Rightarrow> ApiErr option"
  ev_deletePDB :: "elog \<Rightarrow> PodDisruptionBudget \<Rightarrow> ApiErr option"
  ev_getSts :: "elog \<Rightarrow> string \<Rightarrow> string \<Rightarrow> StatefulSet res"
  ev_createSts :: "elog \<Rightarrow> StatefulSet \<Rightarrow> ApiErr option"
  ev_patchSts :: "elog \<Rightarrow> StatefulSet \<Rightarrow> StatefulSet \<Rightarrow> ApiErr option"
  ev_getPvc :: "elog \<Rightarrow> string \<Rightarrow> string \<Rightarrow> Pvc res"
  ev_listPvc :: "elog \<Rightarrow> string \<Rightarrow> Pvc list res"
  ev_updatePvc :: "elog \<Rightarrow> Pvc \<Rightarrow> ApiErr option"
  ev_deletePvc :: "elog \<Rightarrow> Pvc \<Rightarrow> ApiErr option"
  ev_getPod :: "elog \<Rightarrow> string \<Rightarrow> string \<Rightarrow> Pod res"
  ev_listPod :: "elog \<Rightarrow> string \<Rightarrow> string \<Rightarrow> Pod list res"
  ev_deletePod :: "elog \<Rightarrow> Pod \<Rightarrow> ApiErr option"
  ev_listSnap :: "elog \<Rightarrow> string \<Rightarrow> string \<Rightarrow> VolumeSnapshot list res"
  ev_createSnap :: "elog \<Rightarrow> string \<Rightarrow> string \<Rightarrow> string \<Rightarrow> VolumeSnapshot res"
  ev_deleteSnap :: "elog \<Rightarrow> VolumeSnapshot \<Rightarrow> ApiErr option"
  ev_probeUsage :: "elog \<Rightarrow> string \<Rightarrow> (nat \<times> nat) res"
  ev_sleep :: "elog \<Rightarrow> duration \<Rightarrow> string option"

text \<open>\<open>ev_sleep\<close> waits; \<open>Some\<close> is the context error when the caller was cancelled meanwhile.

  Third-party functions without an effect are the second record: \<open>ctrl.SetControllerReference\<close> (whether
  it refuses an owner for an object), \<open>json.Marshal\<close> of a pod template, \<open>resource.Quantity.Value\<close>, the
  step count of the client library's backoff, \<open>meta.FindStatusCondition\<close> and \<open>meta.SetStatusCondition\<close>, and
  \<open>sort.Slice\<close> by descending creation time, whose order among equal times Go leaves open.\<close>

record Lib =
  lib_setControllerRef :: "BuildProject \<Rightarrow> string \<Rightarrow> string \<Rightarrow> ApiErr option"
  lib_marshalTemplate :: "PodTemplate \<Rightarrow> string"
  lib_quantityValue :: "quantity \<Rightarrow> int"
  lib_defaultBackoffSteps :: nat
  lib_findStatusCondition :: "Condition list \<Rightarrow> string \<Rightarrow> Condition option"
  lib_setStatusCondition :: "Condition list \<Rightarrow> Condition \<Rightarrow> Condition list"
  lib_sortNewestFirst :: "VolumeSnapshot list \<Rightarrow> VolumeSnapshot list"

section \<open>The calls\<close>

type_synonym ('m, 'a) kprog = "(Event, 'm, 'a) prog"

definition timeNow :: "Env \<Rightarrow> ('m, time) kprog" where
  "timeNow env = call (ev_now env) ENow"

definition getBP :: "Env \<Rightarrow> Reader \<Rightarrow> string \<Rightarrow> string \<Rightarrow> ('m, BuildProject res) kprog" where
  "getBP env rd n ns = call (\<lambda>l. ev_getBP env l rd n ns) (EGetBP rd n ns)"

definition listBP :: "Env \<Rightarrow> string \<Rightarrow> (string \<times> string) option \<Rightarrow> ('m, BuildProject list res) kprog" where
  "listBP env ns sel = call (\<lambda>l. ev_listBP env l ns sel) (EListBP ns sel)"

definition createBP :: "Env \<Rightarrow> BuildProject \<Rightarrow> ('m, BuildProject res) kprog" where
  "createBP env b = call (\<lambda>l. ev_createBP env l b) (ECreateBP b)"

definition updateBP :: "Env \<Rightarrow> BuildProject \<Rightarrow> ('m, ApiErr option) kprog" where
  "updateBP env b = call (\<lambda>l. ev_updateBP env l b) (EUpdateBP b)"

definition updateBPStatus :: "Env \<Rightarrow> BuildProject \<Rightarrow> ('m, BuildProject res) kprog" where
  "updateBPStatus env b = call (\<lambda>l. ev_updateBPStatus env l b) (EUpdateBPStatus b)"

definition patchBPStatus :: "Env \<Rightarrow> BuildProject \<Rightarrow> BuildProject \<Rightarrow> ('m, BuildProject res) kprog" where
  "patchBPStatus env base b = call (\<lambda>l. ev_patchBPStatus env l base b) (EPatchBPStatus base b)"

definition deleteBP :: "Env \<Rightarrow> BuildProject \<Rightarrow> ('m, ApiErr option) kprog" where
  "deleteBP env b = call (\<lambda>l. ev_deleteBP env l b) (EDeleteBP b)"

definition getSvc :: "Env \<Rightarrow> string \<Rightarrow> string \<Rightarrow> ('m, Service res) kprog" where
  "getSvc env n ns = call (\<lambda>l. ev_getSvc env l n ns) (EGetSvc n ns)"

definition createSvc :: "Env \<Rightarrow> Service \<Rightarrow> ('m, ApiErr option) kprog" where
  "createSvc env s = call (\<lambda>l. ev_createSvc env l s) (ECreateSvc s)"

definition updateSvc :: "Env \<Rightarrow> Service \<Rightarrow> ('m, ApiErr option) kprog" where
  "updateSvc env s = call (\<lambda>l. ev_updateSvc env l s) (EUpdateSvc s)"

definition getPDB :: "Env \<Rightarrow> string \<Rightarrow> string \<Rightarrow> ('m, PodDisruptionBudget res) kprog" where
  "getPDB env n ns = call (\<lambda>l. ev_getPDB env l n ns) (EGetPDB n ns)"

definition createPDB :: "Env \<Rightarrow> PodDisruptionBudget \<Rightarrow> ('m, ApiErr option) kprog" where
  "createPDB env p = call (\<lambda>l. ev_createPDB env l p) (ECreatePDB p)"

definition updatePDB :: "Env \<Rightarrow> PodDisruptionBudget \<Rightarrow> ('m, ApiErr option) kprog" where
  "updatePDB env p = call (\<lambda>l. ev_updatePDB env l p) (EUpdatePDB p)"

definition deletePDB :: "Env \<Rightarrow> PodDisruptionBudget \<Rightarrow> ('m, ApiErr option) kprog" where
  "deletePDB env p = call (\<lambda>l. ev_deletePDB env l p) (EDeletePDB p)"

definition getSts :: "Env \<Rightarrow> string \<Rightarrow> string \<Rightarrow> ('m, StatefulSet res) kprog" where
  "getSts env n ns = call (\<lambda>l. ev_getSts env l n ns) (EGetSts n ns)"

definition createSts :: "Env \<Rightarrow> StatefulSet \<Rightarrow> ('m, ApiErr option) kprog" where
  "createSts env s = call (\<lambda>l. ev_createSts env l s) (ECreateSts s)"

definition patchSts :: "Env \<Rightarrow> StatefulSet \<Rightarrow> StatefulSet \<Rightarrow> ('m, ApiErr option) kprog" where
  "patchSts env base s = call (\<lambda>l. ev_patchSts env l base s) (EPatchSts base s)"

definition getPvc :: "Env \<Rightarrow> string \<Rightarrow> string \<Rightarrow> ('m, Pvc res) kprog" where
  "getPvc env n ns = call (\<lambda>l. ev_getPvc env l n ns) (EGetPvc n ns)"

definition listPvc :: "Env \<Rightarrow> string \<Rightarrow> ('m, Pvc list res) kprog" where
  "listPvc env ns = call (\<lambda>l. ev_listPvc env l ns) (EListPvc ns)"

definition updatePvc :: "Env \<Rightarrow> Pvc \<Rightarrow> ('m, ApiErr option) kprog" where
  "updatePvc env p = call (\<lambda>l. ev_updatePvc env l p) (EUpdatePvc p)"

definition deletePvc :: "Env \<Rightarrow> Pvc \<Rightarrow> ('m, ApiErr option) kprog" where
  "deletePvc env p = call (\<lambda>l. ev_deletePvc env l p) (EDeletePvc p)"

definition getPod :: "Env \<Rightarrow> string \<Rightarrow> string \<Rightarrow> ('m, Pod res) kprog" where
  "getPod env n ns = call (\<lambda>l. ev_getPod env l n ns) (EGetPod n ns)"

definition listPod :: "Env \<Rightarrow> string \<Rightarrow> string \<Rightarrow> ('m, Pod list res) kprog" where
  "listPod env ns key = call (\<lambda>l. ev_listPod env l ns key) (EListPod ns key)"

definition deletePod :: "Env \<Rightarrow> Pod \<Rightarrow> ('m, ApiErr option) kprog" where
  "deletePod env p = call (\<lambda>l. ev_deletePod env l p) (EDeletePod p)"

definition listSnap :: "Env \<Rightarrow> string \<Rightarrow> string \<Rightarrow> ('m, VolumeSnapshot list res) kprog" where
  "listSnap env ns key = call (\<lambda>l. ev_listSnap env l ns key) (EListSnap ns key)"

text \<open>A snapshot is created from its name, the source claim and the snapshot class.\<close>

definition createSnap :: "Env \<Rightarrow> string \<Rightarrow> string \<Rightarrow> string \<Rightarrow> ('m, VolumeSnapshot res) kprog" where
  "createSnap env n pvc cls = call (\<lambda>l. ev_createSnap env l n pvc cls) (ECreateSnap n pvc cls)"

definition deleteSnap :: "Env \<Rightarrow> VolumeSnapshot \<Rightarrow> ('m, ApiErr option) kprog" where
  "deleteSnap env s = call (\<lambda>l. ev_deleteSnap env l s) (EDeleteSnap s)"

definition probeUsage :: "Env \<Rightarrow> string \<Rightarrow> ('m, (nat \<times> nat) res) kprog" where
  "probeUsage env ip = call (\<lambda>l. ev_probeUsage env l ip) (EProbeUsage ip)"

definition sleepFor :: "Env \<Rightarrow> duration \<Rightarrow> ('m, string option) kprog" where
  "sleepFor env d = call (\<lambda>l. ev_sleep env l d) (ESleep d)"

lemmas kube_calls = timeNow_def getBP_def listBP_def createBP_def updateBP_def updateBPStatus_def patchBPStatus_def
  deleteBP_def getSvc_def createSvc_def updateSvc_def getPDB_def createPDB_def updatePDB_def deletePDB_def
  getSts_def createSts_def patchSts_def getPvc_def listPvc_def updatePvc_def deletePvc_def getPod_def listPod_def
  deletePod_def listSnap_def createSnap_def deleteSnap_def probeUsage_def sleepFor_def

section \<open>Rules\<close>

lemma wp_timeNow [wp_rules]: "wp (timeNow env) Q w = Q (ev_now env (w_log w)) (w\<lparr>w_log := ENow (ev_now env (w_log w)) # w_log w\<rparr>)"
  by (simp add: timeNow_def wp_rules)

lemma wp_getBP [wp_rules]:
  "wp (getBP env rd n ns) Q w =
     Q (ev_getBP env (w_log w) rd n ns) (w\<lparr>w_log := EGetBP rd n ns (ev_getBP env (w_log w) rd n ns) # w_log w\<rparr>)"
  by (simp add: getBP_def wp_rules)

lemma wp_getSts [wp_rules]:
  "wp (getSts env n ns) Q w =
     Q (ev_getSts env (w_log w) n ns) (w\<lparr>w_log := EGetSts n ns (ev_getSts env (w_log w) n ns) # w_log w\<rparr>)"
  by (simp add: getSts_def wp_rules)

lemma wp_getPvc [wp_rules]:
  "wp (getPvc env n ns) Q w =
     Q (ev_getPvc env (w_log w) n ns) (w\<lparr>w_log := EGetPvc n ns (ev_getPvc env (w_log w) n ns) # w_log w\<rparr>)"
  by (simp add: getPvc_def wp_rules)

lemma wp_getPod [wp_rules]:
  "wp (getPod env n ns) Q w =
     Q (ev_getPod env (w_log w) n ns) (w\<lparr>w_log := EGetPod n ns (ev_getPod env (w_log w) n ns) # w_log w\<rparr>)"
  by (simp add: getPod_def wp_rules)

text \<open>The remaining calls are evaluated by unfolding \<open>kube_calls\<close>; \<open>emits\<close> reduces each to its event.\<close>

lemma emits_kube [emits_rules]:
  "(\<And>t. E (ENow t)) \<Longrightarrow> emits E (timeNow env)"
  "(\<And>r. E (EGetBP rd n ns r)) \<Longrightarrow> emits E (getBP env rd n ns)"
  "(\<And>r. E (EListBP ns sel r)) \<Longrightarrow> emits E (listBP env ns sel)"
  "(\<And>r. E (ECreateBP b r)) \<Longrightarrow> emits E (createBP env b)"
  "(\<And>r. E (EUpdateBP b r)) \<Longrightarrow> emits E (updateBP env b)"
  "(\<And>r. E (EUpdateBPStatus b r)) \<Longrightarrow> emits E (updateBPStatus env b)"
  "(\<And>r. E (EPatchBPStatus base b r)) \<Longrightarrow> emits E (patchBPStatus env base b)"
  "(\<And>r. E (EDeleteBP b r)) \<Longrightarrow> emits E (deleteBP env b)"
  "(\<And>r. E (EGetSvc n ns r)) \<Longrightarrow> emits E (getSvc env n ns)"
  "(\<And>r. E (ECreateSvc sv r)) \<Longrightarrow> emits E (createSvc env sv)"
  "(\<And>r. E (EUpdateSvc sv r)) \<Longrightarrow> emits E (updateSvc env sv)"
  "(\<And>r. E (EGetPDB n ns r)) \<Longrightarrow> emits E (getPDB env n ns)"
  "(\<And>r. E (ECreatePDB pd r)) \<Longrightarrow> emits E (createPDB env pd)"
  "(\<And>r. E (EUpdatePDB pd r)) \<Longrightarrow> emits E (updatePDB env pd)"
  "(\<And>r. E (EDeletePDB pd r)) \<Longrightarrow> emits E (deletePDB env pd)"
  "(\<And>r. E (EGetSts n ns r)) \<Longrightarrow> emits E (getSts env n ns)"
  "(\<And>r. E (ECreateSts st r)) \<Longrightarrow> emits E (createSts env st)"
  "(\<And>r. E (EPatchSts st0 st r)) \<Longrightarrow> emits E (patchSts env st0 st)"
  "(\<And>r. E (EGetPvc n ns r)) \<Longrightarrow> emits E (getPvc env n ns)"
  "(\<And>r. E (EListPvc ns r)) \<Longrightarrow> emits E (listPvc env ns)"
  "(\<And>r. E (EUpdatePvc pv r)) \<Longrightarrow> emits E (updatePvc env pv)"
  "(\<And>r. E (EDeletePvc pv r)) \<Longrightarrow> emits E (deletePvc env pv)"
  "(\<And>r. E (EGetPod n ns r)) \<Longrightarrow> emits E (getPod env n ns)"
  "(\<And>r. E (EListPod ns n r)) \<Longrightarrow> emits E (listPod env ns n)"
  "(\<And>r. E (EDeletePod po r)) \<Longrightarrow> emits E (deletePod env po)"
  "(\<And>r. E (EListSnap ns n r)) \<Longrightarrow> emits E (listSnap env ns n)"
  "(\<And>r. E (ECreateSnap n ns cls r)) \<Longrightarrow> emits E (createSnap env n ns cls)"
  "(\<And>r. E (EDeleteSnap sn r)) \<Longrightarrow> emits E (deleteSnap env sn)"
  "(\<And>r. E (EProbeUsage n r)) \<Longrightarrow> emits E (probeUsage env n)"
  "(\<And>r. E (ESleep d r)) \<Longrightarrow> emits E (sleepFor env d)"
  by (simp_all add: kube_calls emits_call)

section \<open>An empty cluster\<close>

text \<open>Concrete environments for examples: a cluster without any object, in which every write succeeds and
  the clock stands at \<open>t\<close>, and library functions that are as simple as they can be.\<close>

definition emptyEnv :: "time \<Rightarrow> Env" where
  "emptyEnv t = \<lparr>ev_now = \<lambda>_. t, ev_getBP = \<lambda>_ _ _ _. Inl NotFound, ev_listBP = \<lambda>_ _ _. Inr [], ev_createBP = \<lambda>_ b. Inr b,
     ev_updateBP = \<lambda>_ _. None, ev_updateBPStatus = \<lambda>_ b. Inr b, ev_patchBPStatus = \<lambda>_ _ b. Inr b, ev_deleteBP = \<lambda>_ _. None,
     ev_getSvc = \<lambda>_ _ _. Inl NotFound, ev_createSvc = \<lambda>_ _. None, ev_updateSvc = \<lambda>_ _. None,
     ev_getPDB = \<lambda>_ _ _. Inl NotFound, ev_createPDB = \<lambda>_ _. None, ev_updatePDB = \<lambda>_ _. None, ev_deletePDB = \<lambda>_ _. None,
     ev_getSts = \<lambda>_ _ _. Inl NotFound, ev_createSts = \<lambda>_ _. None, ev_patchSts = \<lambda>_ _ _. None,
     ev_getPvc = \<lambda>_ _ _. Inl NotFound, ev_listPvc = \<lambda>_ _. Inr [], ev_updatePvc = \<lambda>_ _. None, ev_deletePvc = \<lambda>_ _. None,
     ev_getPod = \<lambda>_ _ _. Inl NotFound, ev_listPod = \<lambda>_ _ _. Inr [], ev_deletePod = \<lambda>_ _. None,
     ev_listSnap = \<lambda>_ _ _. Inr [], ev_createSnap = \<lambda>_ n _ _. Inr \<lparr>vs_Name = n, vs_CreationTimestamp = t\<rparr>, ev_deleteSnap = \<lambda>_ _. None,
     ev_probeUsage = \<lambda>_ _. Inl NotFound, ev_sleep = \<lambda>_ _. None\<rparr>"

definition plainLib :: Lib where
  "plainLib = \<lparr>lib_setControllerRef = \<lambda>_ _ _. None, lib_marshalTemplate = \<lambda>_. [], lib_quantityValue = \<lambda>_. 0,
     lib_defaultBackoffSteps = 4, lib_findStatusCondition = \<lambda>cs t. find (\<lambda>c. cd_Type c = t) cs,
     lib_setStatusCondition = \<lambda>cs c. filter (\<lambda>d. cd_Type d \<noteq> cd_Type c) cs @ [c],
     lib_sortNewestFirst = sort_key (\<lambda>s. - vs_CreationTimestamp s)\<rparr>"

end
