(* ===== verification/Go_Float.thy ===== *)
theory Go_Float
  imports Go_Prelude Complex_Main
begin

text \<open>
  \<open>float64\<close> as the auto-grow decision uses it: a value is a rational, an infinity or NaN, and every
  operation computes exactly and rounds to the nearest multiple of the unit in the last place, ties to
  even (IEEE 754 binary64). The sign of zero is not kept: nothing here can observe it.
\<close>

datatype float64 = Fin rat | PosInf | NegInf | NaN

section \<open>Rounding\<close>

fun bitLen :: "nat \<Rightarrow> nat" where
  "bitLen n = (if n = 0 then 0 else Suc (bitLen (n div 2)))"

declare bitLen.simps [simp del]

definition pow2 :: "int \<Rightarrow> rat" where
  "pow2 e = (if e \<ge> 0 then 2 ^ nat e else 1 / 2 ^ nat (- e))"

text \<open>The exponent of a positive rational: the largest \<open>e\<close> with \<open>2^e \<le> x\<close>.\<close>

definition ilog2 :: "rat \<Rightarrow> int" where
  "ilog2 x =
     (let (n, d) = quotient_of x; e = int (bitLen (nat n)) - int (bitLen (nat d)) in
      if pow2 e \<le> x then e else e - 1)"

text \<open>Nearest integer, ties to even.\<close>

definition roundEven :: "rat \<Rightarrow> int" where
  "roundEven x =
     (let f = \<lfloor>x\<rfloor>; r = x - of_int f in
      if r < 1 / 2 then f else if r > 1 / 2 then f + 1 else if even f then f else f + 1)"

definition roundFloat :: "rat \<Rightarrow> float64" where
  "roundFloat x =
     (if x = 0 then Fin 0
      else
        let e = max (ilog2 \<bar>x\<bar>) (- 1022); ulp = pow2 (e - 52); v = of_int (roundEven (x / ulp)) * ulp in
        if \<bar>v\<bar> \<ge> pow2 1024 then (if x > 0 then PosInf else NegInf) else Fin v)"

section \<open>Operations\<close>

definition floatOfInt :: "int \<Rightarrow> float64" where
  "floatOfInt i = roundFloat (of_int i)"

fun negative :: "float64 \<Rightarrow> bool" where
  "negative (Fin x) = (x < 0)"
| "negative NegInf = True"
| "negative _ = False"

fun isZero :: "float64 \<Rightarrow> bool" where
  "isZero (Fin x) = (x = 0)"
| "isZero _ = False"

definition infOf :: "bool \<Rightarrow> float64" where
  "infOf neg = (if neg then NegInf else PosInf)"

fun floatMul :: "float64 \<Rightarrow> float64 \<Rightarrow> float64" where
  "floatMul NaN _ = NaN"
| "floatMul _ NaN = NaN"
| "floatMul (Fin x) (Fin y) = roundFloat (x * y)"
| "floatMul a b = (if isZero a \<or> isZero b then NaN else infOf (negative a \<noteq> negative b))"

text \<open>Division by a zero: the code divides by a nonzero total only, so the sign of the zero is moot.\<close>

fun floatDiv :: "float64 \<Rightarrow> float64 \<Rightarrow> float64" where
  "floatDiv NaN _ = NaN"
| "floatDiv _ NaN = NaN"
| "floatDiv (Fin x) (Fin y) = (if y = 0 then (if x = 0 then NaN else infOf (x < 0)) else roundFloat (x / y))"
| "floatDiv (Fin x) b = Fin 0"
| "floatDiv a (Fin y) = infOf (negative a \<noteq> (y < 0))"
| "floatDiv a b = NaN"

fun floatLess :: "float64 \<Rightarrow> float64 \<Rightarrow> bool" where
  "floatLess (Fin x) (Fin y) = (x < y)"
| "floatLess NegInf (Fin _) = True"
| "floatLess NegInf PosInf = True"
| "floatLess (Fin _) PosInf = True"
| "floatLess _ _ = False"

fun floatLe :: "float64 \<Rightarrow> float64 \<Rightarrow> bool" where
  "floatLe NaN _ = False"
| "floatLe _ NaN = False"
| "floatLe a b = (floatLess a b \<or> a = b)"

fun floatCeil :: "float64 \<Rightarrow> float64" where
  "floatCeil (Fin x) = Fin (of_int \<lceil>x\<rceil>)"
| "floatCeil a = a"

text \<open>\<open>int32(x)\<close>: truncation toward zero. Out of range, and for infinities and NaN, Go leaves the result to
  the implementation; \<open>impl\<close> stands for it.\<close>

definition truncRat :: "rat \<Rightarrow> int" where
  "truncRat x = (if x \<ge> 0 then \<lfloor>x\<rfloor> else \<lceil>x\<rceil>)"

fun int32OfFloat :: "(float64 \<Rightarrow> int) \<Rightarrow> float64 \<Rightarrow> int" where
  "int32OfFloat impl (Fin x) =
     (if - (2 ^ 31) \<le> truncRat x \<and> truncRat x < 2 ^ 31 then truncRat x else impl (Fin x))"
| "int32OfFloat impl a = impl a"

section \<open>Integers are exact\<close>

lemma bitLen_0: "bitLen 0 = 0"
  by (subst bitLen.simps) simp

lemma bitLen_1: "bitLen (Suc 0) = 1"
  by (subst bitLen.simps) (simp add: bitLen_0)

lemma bitLen_bounds: "0 < n \<Longrightarrow> 2 ^ (bitLen n - 1) \<le> n \<and> n < 2 ^ bitLen n \<and> 0 < bitLen n"
proof (induction n rule: bitLen.induct)
  case (1 n)
  show ?case
  proof (cases "n = 1")
    case True
    then show ?thesis by (simp add: bitLen_1)
  next
    case False
    with "1.prems" have h: "0 < n div 2" "n \<noteq> 0" by auto
    then have ih: "2 ^ (bitLen (n div 2) - 1) \<le> n div 2" "n div 2 < 2 ^ bitLen (n div 2)" "0 < bitLen (n div 2)"
      using "1.IH" by auto
    have b: "bitLen n = Suc (bitLen (n div 2))" using h(2) by (subst bitLen.simps) simp
    from ih(3) obtain k where k: "bitLen (n div 2) = Suc k" by (cases "bitLen (n div 2)") auto
    from ih(1,2) show ?thesis unfolding b k by (simp, linarith)
  qed
qed

lemma pow2_pos: "0 < pow2 e"
  by (simp add: pow2_def)

lemma ilog2_nat:
  assumes "0 < n" shows "ilog2 (of_nat n) = int (bitLen n) - 1"
proof -
  have q: "quotient_of (of_nat n) = (int n, 1)" using quotient_of_int [of "int n"] by simp

  have e: "pow2 (int (bitLen n) - 1) = 2 ^ (bitLen n - 1)"
    using bitLen_bounds [OF assms] by (simp add: pow2_def nat_diff_distrib)
  have "(2 ^ (bitLen n - 1) :: rat) \<le> of_nat n"
    using bitLen_bounds [OF assms] by (metis of_nat_le_iff of_nat_numeral of_nat_power)
  then have "pow2 (int (bitLen n) - 1) \<le> of_nat n" by (simp add: e)
  moreover have "ilog2 (of_nat n) = (let e = int (bitLen n) - 1 in if pow2 e \<le> of_nat n then e else e - 1)"
    by (simp add: ilog2_def q bitLen_1)
  ultimately show ?thesis by simp
qed

lemma roundEven_int: "roundEven (of_int i) = i"
  by (simp add: roundEven_def)

lemma pow2_mult_int: "e \<le> 0 \<Longrightarrow> of_int i / pow2 e = (of_int (i * 2 ^ nat (- e)) :: rat)"
  by (simp add: pow2_def)

text \<open>Every integer of at most 53 bits is a float.\<close>

lemma floatOfInt_exact:
  assumes "\<bar>i\<bar> < 2 ^ 53" shows "floatOfInt i = Fin (of_int i)"
proof (cases "i = 0")
  case True
  then show ?thesis by (simp add: floatOfInt_def roundFloat_def)
next
  case False
  define n where "n = nat \<bar>i\<bar>"
  have n: "0 < n" "n < 2 ^ 53" "\<bar>of_int i\<bar> = (of_nat n :: rat)" using False assms by (simp_all add: n_def)
  have "bitLen n \<le> 53"
  proof (rule ccontr)
    assume "\<not> bitLen n \<le> 53"
    then have "(2 :: nat) ^ 53 \<le> 2 ^ (bitLen n - 1)" by (intro power_increasing) auto
    with bitLen_bounds [OF n(1)] n(2) show False by linarith
  qed
  moreover have "1 \<le> bitLen n" using bitLen_bounds [OF n(1)] by simp
  ultimately have e: "max (ilog2 \<bar>of_int i\<bar>) (- 1022) - 52 \<le> 0" by (simp add: n(3) ilog2_nat n(1))
  let ?u = "pow2 (max (ilog2 \<bar>of_int i\<bar>) (- 1022) - 52)"
  have v: "of_int (roundEven (of_int i / ?u)) * ?u = of_int i"
    unfolding pow2_mult_int [OF e] roundEven_int using e by (simp add: pow2_def)
  have "(of_nat n :: rat) < 2 ^ 53" using n(2) by (metis of_nat_less_iff of_nat_numeral of_nat_power)
  also have "(2 :: rat) ^ 53 < 2 ^ 1024" by simp
  finally have "\<not> \<bar>of_int i\<bar> \<ge> pow2 1024" by (simp add: pow2_def n(3))
  then show ?thesis using False by (simp add: floatOfInt_def roundFloat_def Let_def v)
qed

end
