(* ===== verification/Autogrow.thy ===== *)
theory Autogrow
  imports Kube_Api Go_Float
begin

text \<open>
  \<open>internal/controller/autogrow.go\<close>: the reconciler's fresh read of the inflight set, the rate limiting
  gates and the bounded growth of cache volumes.

  The reconciler's fields are the record \<open>BuildProjectReconciler\<close>; its in-memory gates and the set of held
  rolls are \<open>CMem\<close>. \<open>confirmedIdle\<close> states what every destructive decision must be preceded by: a read
  through the uncached reader that showed no live build. The properties: growth is bounded and never a
  shrink, every write is a compare-and-set on the object just read, a pod is bounced only after a
  confirmed idle read, and the gates space their actions.
\<close>

section \<open>The reconciler\<close>

record BuildProjectReconciler =
  rc_Cfg :: Config
  rc_KeepSnapshots :: int
  rc_MaxBuildSeconds :: int
  rc_AdaptiveIdleMaxSeconds :: int
  rc_AutoGrowThresholdPct :: int
  rc_AutoGrowFactor :: float64
  rc_AutoGrowMaxGi :: int
  rc_ProbeUsage :: bool
  rc_Direct :: bool

definition zeroReconciler :: BuildProjectReconciler where
  "zeroReconciler = \<lparr>rc_Cfg = zeroConfig, rc_KeepSnapshots = 0, rc_MaxBuildSeconds = 0, rc_AdaptiveIdleMaxSeconds = 0,
     rc_AutoGrowThresholdPct = 0, rc_AutoGrowFactor = Fin 0, rc_AutoGrowMaxGi = 0, rc_ProbeUsage = False, rc_Direct = True\<rparr>"

record CMem =
  cm_autoGrowGate :: "string \<rightharpoonup> time"
  cm_bounceGate :: "string \<rightharpoonup> time"
  cm_rollsHeld :: "string set"

type_synonym 'a cprog = "(CMem, 'a) kprog"

text \<open>The world at the start of a process.\<close>

definition freshWorld :: "(Event, CMem) world" where
  "freshWorld = \<lparr>w_log = [], w_mem = \<lparr>cm_autoGrowGate = Map.empty, cm_bounceGate = Map.empty, cm_rollsHeld = {}\<rparr>\<rparr>"

definition maxBuildAge :: "BuildProjectReconciler \<Rightarrow> duration" where
  "maxBuildAge r = (if rc_MaxBuildSeconds r \<le> 0 then 2 * hour else wrap64 (rc_MaxBuildSeconds r * second))"

section \<open>Fresh reads\<close>

definition freshReader :: "BuildProjectReconciler \<Rightarrow> Reader" where
  "freshReader r = (if rc_Direct r then Direct else Cached)"

text \<open>The entries of a status that still count: a bare count adopted, the expired ones dropped.\<close>

definition liveEntries :: "BuildProjectReconciler \<Rightarrow> BuildProjectStatus \<Rightarrow> time \<Rightarrow> InflightBuild list" where
  "liveEntries r st now = fst (expireInflight (st_Inflight (fst (adoptLegacyInflight st))) now (maxBuildAge r))"

definition freshInflightEntries :: "Env \<Rightarrow> BuildProjectReconciler \<Rightarrow> BuildProject \<Rightarrow> InflightBuild list res cprog" where
  "freshInflightEntries env r bp =
     do {
       g \<leftarrow> getBP env (freshReader r) (bp_Name bp) (bp_Namespace bp);
       (case g of
          Inl e \<Rightarrow> ret (case ignoreNotFound (Some e) of None \<Rightarrow> Inr [] | Some e \<Rightarrow> Inl e)
        | Inr cur \<Rightarrow>
            do {
              now \<leftarrow> timeNow env;
              ret (Inr (liveEntries r (bp_Status cur) now))
            })
     }"

definition freshInflight :: "Env \<Rightarrow> BuildProjectReconciler \<Rightarrow> BuildProject \<Rightarrow> nat res cprog" where
  "freshInflight env r bp =
     do {
       live \<leftarrow> freshInflightEntries env r bp;
       ret (case live of Inl e \<Rightarrow> Inl e | Inr es \<Rightarrow> Inr (length es))
     }"

section \<open>Gates\<close>

definition gateAllow :: "(string \<rightharpoonup> time) \<Rightarrow> string \<Rightarrow> time \<Rightarrow> duration \<Rightarrow> bool \<times> (string \<rightharpoonup> time)" where
  "gateAllow g key now interval =
     (case g key of
        Some t \<Rightarrow> if timeSub now t < interval then (False, g) else (True, g(key \<mapsto> now))
      | None \<Rightarrow> (True, g(key \<mapsto> now)))"

definition autoGrowProbeInterval :: duration where "autoGrowProbeInterval = 10 * minute"
definition autoGrowBounceInterval :: duration where "autoGrowBounceInterval = 15 * minute"

definition bounceAllow :: "string \<Rightarrow> time \<Rightarrow> bool cprog" where
  "bounceAllow key now =
     do {
       m \<leftarrow> getMem;
       let (ok, g) = gateAllow (cm_bounceGate m) key now autoGrowBounceInterval;
       putMem (m\<lparr>cm_bounceGate := g\<rparr>);
       ret ok
     }"

definition probeAllow :: "string \<Rightarrow> time \<Rightarrow> bool cprog" where
  "probeAllow key now =
     do {
       m \<leftarrow> getMem;
       let (ok, g) = gateAllow (cm_autoGrowGate m) key now autoGrowProbeInterval;
       putMem (m\<lparr>cm_autoGrowGate := g\<rparr>);
       ret ok
     }"

section \<open>The grow decision\<close>

definition autoGrowTarget :: "(float64 \<Rightarrow> int) \<Rightarrow> int \<Rightarrow> float64 \<Rightarrow> int \<Rightarrow> float64 \<Rightarrow> int \<Rightarrow> int" where
  "autoGrowTarget impl currentGi usedPct thresholdPct factor maxGi =
     (if thresholdPct \<le> 0 \<or> maxGi \<le> 0 \<or> currentGi \<le> 0 \<or> currentGi \<ge> maxGi then 0
      else if floatLess usedPct (floatOfInt thresholdPct) then 0
      else if floatLe factor (floatOfInt 1) then 0
      else
        let nf = floatCeil (floatMul (floatOfInt currentGi) factor);
            next = (if floatLess nf (floatOfInt maxGi) then int32OfFloat impl nf else maxGi)
        in if next \<le> currentGi then 0 else next)"

definition autoGrowFactor :: "BuildProjectReconciler \<Rightarrow> float64" where
  "autoGrowFactor r = (if floatLe (rc_AutoGrowFactor r) (floatOfInt 1) then Fin (3 / 2) else rc_AutoGrowFactor r)"

definition giOf :: "Lib \<Rightarrow> quantity option \<Rightarrow> int" where
  "giOf lib q = (case q of None \<Rightarrow> 0 | Some s \<Rightarrow> wrap32 (lib_quantityValue lib s div 2 ^ 30))"

definition resizePending :: "Pvc \<Rightarrow> bool" where
  "resizePending pvc \<longleftrightarrow> (\<exists>c \<in> set (pvc_Conditions pvc). fst c = ''FileSystemResizePending'' \<and> snd c = ''True'')"

definition recordSpecGi :: "Env \<Rightarrow> Lib \<Rightarrow> BuildProject \<Rightarrow> int \<Rightarrow> ApiErr option cprog" where
  "recordSpecGi env lib bp gi =
     do {
       res \<leftarrow> retrying (lib_defaultBackoffSteps lib) isConflict
         (do {
            g \<leftarrow> getBP env Cached (bp_Name bp) (bp_Namespace bp);
            (case g of
               Inl e \<Rightarrow> ret (Inl e)
             | Inr cur \<Rightarrow>
                 if sp_CacheVolumeGi (bp_Spec cur) \<ge> gi then ret (Inr ())
                 else do {
                   e \<leftarrow> updateBP env (cur\<lparr>bp_Spec := (bp_Spec cur)\<lparr>sp_CacheVolumeGi := gi\<rparr>\<rparr>);
                   ret (case e of None \<Rightarrow> Inr () | Some x \<Rightarrow> Inl x)
                 })
          });
       ret (case res of Inl e \<Rightarrow> Some (Wrap (''record grown size on '' @ bp_Name bp) e) | Inr _ \<Rightarrow> None)
     }"

text \<open>The conflict-retried write of the claim.\<close>

definition growPvc :: "Env \<Rightarrow> Lib \<Rightarrow> Pvc \<Rightarrow> int \<Rightarrow> unit res cprog" where
  "growPvc env lib pvc next =
     retrying (lib_defaultBackoffSteps lib) isConflict
       (do {
          g \<leftarrow> getPvc env (pvc_Name pvc) (pvc_Namespace pvc);
          (case g of
             Inl e \<Rightarrow> ret (Inl e)
           | Inr cur \<Rightarrow>
               if giOf lib (pvc_Request cur) \<ge> next then ret (Inr ())
               else do {
                 e \<leftarrow> updatePvc env (cur\<lparr>pvc_Request := Some (itoa next @ ''Gi'')\<rparr>);
                 ret (case e of None \<Rightarrow> Inr () | Some x \<Rightarrow> Inl x)
               })
        })"

definition usedPercent :: "nat \<Rightarrow> nat \<Rightarrow> float64" where
  "usedPercent used tot = floatMul (floatDiv (floatOfInt (int used)) (floatOfInt (int tot))) (floatOfInt 100)"

text \<open>The resize-applying bounce of an idle daemon.\<close>

definition bouncePod :: "Env \<Rightarrow> BuildProjectReconciler \<Rightarrow> BuildProject \<Rightarrow> ApiErr option cprog" where
  "bouncePod env r bp =
     do {
       pod \<leftarrow> getPod env (daemonName (sp_Key (bp_Spec bp)) @ ''-0'') (cf_Namespace (rc_Cfg r));
       (case pod of
          Inl _ \<Rightarrow> ret None
        | Inr p \<Rightarrow>
            do {
              e \<leftarrow> deletePod env p;
              ret (ignoreNotFound e)
            })
     }"

definition bounceUnlessBusy :: "Env \<Rightarrow> BuildProjectReconciler \<Rightarrow> BuildProject \<Rightarrow> ApiErr option cprog" where
  "bounceUnlessBusy env r bp =
     do {
       fresh \<leftarrow> freshInflight env r bp;
       (case fresh of
          Inl e \<Rightarrow> ret (Some e)
        | Inr n \<Rightarrow> if n > 0 then ret None else bouncePod env r bp)
     }"

definition bounceIdle :: "Env \<Rightarrow> BuildProjectReconciler \<Rightarrow> BuildProject \<Rightarrow> ApiErr option cprog" where
  "bounceIdle env r bp =
     do {
       now \<leftarrow> timeNow env;
       ok \<leftarrow> bounceAllow (sp_Key (bp_Spec bp)) now;
       (if \<not> ok then ret None else bounceUnlessBusy env r bp)
     }"

text \<open>Probe the usage and grow the claim and the spec past the threshold.\<close>

definition growVolume :: "Env \<Rightarrow> Lib \<Rightarrow> BuildProject \<Rightarrow> Pvc \<Rightarrow> int \<Rightarrow> ApiErr option cprog" where
  "growVolume env lib bp pvc next =
     do {
       g \<leftarrow> growPvc env lib pvc next;
       (case g of
          Inl e \<Rightarrow> ret (Some (Wrap (''grow pvc '' @ pvc_Name pvc) e))
        | Inr _ \<Rightarrow> recordSpecGi env lib bp next)
     }"

definition decideGrow :: "Env \<Rightarrow> Lib \<Rightarrow> (float64 \<Rightarrow> int) \<Rightarrow> BuildProjectReconciler \<Rightarrow> BuildProject \<Rightarrow> Pvc \<Rightarrow> nat \<Rightarrow> nat \<Rightarrow> ApiErr option cprog" where
  "decideGrow env lib impl r bp pvc used tot =
     (let reqGi = giOf lib (pvc_Request pvc);
          specGi = sp_CacheVolumeGi (bp_Spec bp);
          currentGi = (if reqGi > specGi then reqGi else specGi);
          next = autoGrowTarget impl currentGi (usedPercent used tot)
            (rc_AutoGrowThresholdPct r) (autoGrowFactor r) (wrap32 (rc_AutoGrowMaxGi r))
      in if next = 0 then (if reqGi > specGi then recordSpecGi env lib bp reqGi else ret None)
         else if next \<le> reqGi then ret None
         else growVolume env lib bp pvc next)"

definition probeDaemon :: "Env \<Rightarrow> Lib \<Rightarrow> (float64 \<Rightarrow> int) \<Rightarrow> BuildProjectReconciler \<Rightarrow> BuildProject \<Rightarrow> Pvc \<Rightarrow> ApiErr option cprog" where
  "probeDaemon env lib impl r bp pvc =
     do {
       pod \<leftarrow> getPod env (daemonName (sp_Key (bp_Spec bp)) @ ''-0'') (cf_Namespace (rc_Cfg r));
       (case pod of
          Inl e \<Rightarrow> ret (ignoreNotFound (Some e))
        | Inr p \<Rightarrow>
            if pod_IP p = [] then ret None
            else do {
              u \<leftarrow> probeUsage env (pod_IP p);
              (case u of
                 Inl _ \<Rightarrow> ret None
               | Inr ut \<Rightarrow> if snd ut = 0 then ret None else decideGrow env lib impl r bp pvc (fst ut) (snd ut))
            })
     }"

definition probeAndGrow :: "Env \<Rightarrow> Lib \<Rightarrow> (float64 \<Rightarrow> int) \<Rightarrow> BuildProjectReconciler \<Rightarrow> BuildProject \<Rightarrow> Pvc \<Rightarrow> int \<Rightarrow> ApiErr option cprog" where
  "probeAndGrow env lib impl r bp pvc ready =
     (let reqGi = giOf lib (pvc_Request pvc);
          capGi = giOf lib (pvc_Capacity pvc)
      in if capGi > 0 \<and> reqGi > capGi then ret None
         else if ready < 1 then ret None
         else do {
           now \<leftarrow> timeNow env;
           ok \<leftarrow> probeAllow (sp_Key (bp_Spec bp)) now;
           (if \<not> ok then ret None else probeDaemon env lib impl r bp pvc)
         })"

definition maybeAutoGrow :: "Env \<Rightarrow> Lib \<Rightarrow> (float64 \<Rightarrow> int) \<Rightarrow> BuildProjectReconciler \<Rightarrow> BuildProject \<Rightarrow> int \<Rightarrow> ApiErr option cprog" where
  "maybeAutoGrow env lib impl r bp ready =
     (if rc_AutoGrowThresholdPct r \<le> 0 \<or> \<not> rc_ProbeUsage r \<or> isForkKey (sp_Key (bp_Spec bp)) then ret None
      else do {
        g \<leftarrow> getPvc env (cachePVCName (sp_Key (bp_Spec bp))) (cf_Namespace (rc_Cfg r));
        (case g of
           Inl e \<Rightarrow> ret (ignoreNotFound (Some e))
         | Inr pvc \<Rightarrow>
             if resizePending pvc \<and> inflightCount (bp_Status bp) = 0 \<and> ready \<ge> 1 then bounceIdle env r bp
             else probeAndGrow env lib impl r bp pvc ready)
      })"

section \<open>Properties of the pure parts\<close>

lemma wrap32_range: "- (2 ^ 31) \<le> wrap32 x \<and> wrap32 x < 2 ^ 31"
  by (simp add: wrap32_def)

lemma ceil_less_int: "of_int \<lceil>x :: rat\<rceil> < (of_int m :: rat) \<Longrightarrow> truncRat (of_int \<lceil>x\<rceil>) < m"
  by (simp add: truncRat_def)

lemma floatLess_ceil_int:
  assumes "floatLess (floatCeil f) (floatOfInt m)" "0 < m" "m < 2 ^ 31" "0 \<le> i" "i < int32OfFloat impl (floatCeil f)"
    and neg: "\<And>x. f = Fin x \<Longrightarrow> 0 \<le> x" "f \<noteq> NegInf"
  shows "int32OfFloat impl (floatCeil f) \<le> m"
proof -
  have m: "floatOfInt m = Fin (of_int m)" by (rule floatOfInt_exact) (use assms(2,3) in simp)
  show ?thesis
  proof (cases f)
    case (Fin x)
    then have "of_int \<lceil>x\<rceil> < (of_int m :: rat)" using assms(1) m by simp
    then have c: "\<lceil>x\<rceil> < m" by simp
    moreover have "0 \<le> \<lceil>x\<rceil>" using neg(1) [OF Fin] by linarith
    moreover have "truncRat (of_int \<lceil>x\<rceil>) = \<lceil>x\<rceil>" by (simp only: truncRat_def floor_of_int ceiling_of_int if_cancel)
    moreover from calculation have "- (2 ^ 31) \<le> truncRat (of_int \<lceil>x\<rceil>) \<and> truncRat (of_int \<lceil>x\<rceil>) < 2 ^ 31"
      using assms(3) by linarith
    ultimately have "int32OfFloat impl (floatCeil f) = \<lceil>x\<rceil>"
      unfolding Fin floatCeil.simps int32OfFloat.simps by (simp only: simp_thms if_True)
    with c show ?thesis by simp
  qed (use assms m neg in auto)
qed

text \<open>A product of a positive integer and a factor above 1 is not negative.\<close>

lemma roundEven_nonneg: "0 \<le> x \<Longrightarrow> 0 \<le> roundEven x"
  by (auto simp: roundEven_def Let_def)

lemma roundFloat_nonneg:
  assumes "0 \<le> x" shows "roundFloat x \<noteq> NegInf \<and> roundFloat x \<noteq> NaN \<and> (\<forall>v. roundFloat x = Fin v \<longrightarrow> 0 \<le> v)"
proof (cases "x = 0")
  case True
  then show ?thesis by (simp add: roundFloat_def)
next
  case False
  with assms have x: "0 < x" by simp
  let ?u = "pow2 (max (ilog2 \<bar>x\<bar>) (- 1022) - 52)"
  have "0 \<le> x / ?u" using x pow2_pos [of "max (ilog2 \<bar>x\<bar>) (- 1022) - 52"] by simp
  then have "0 \<le> of_int (roundEven (x / ?u)) * ?u"
    using roundEven_nonneg pow2_pos [of "max (ilog2 \<bar>x\<bar>) (- 1022) - 52"] by (simp add: less_imp_le)
  then show ?thesis using x by (simp add: roundFloat_def Let_def)
qed

lemma floatMul_pos:
  assumes "0 < i" "i < 2 ^ 53" "\<not> floatLe factor (floatOfInt 1)"
  shows "floatMul (floatOfInt i) factor \<noteq> NegInf \<and> (\<forall>v. floatMul (floatOfInt i) factor = Fin v \<longrightarrow> 0 \<le> v)"
proof -
  have i: "floatOfInt i = Fin (of_int i)" and one: "floatOfInt 1 = Fin 1"
    using floatOfInt_exact [of i] floatOfInt_exact [of 1] assms(1,2) by simp_all
  show ?thesis
  proof (cases factor)
    case (Fin x)
    then have "1 < x" using assms(3) one by (auto simp: not_less)
    then have "0 \<le> of_int i * x" using assms(1) by simp
    then show ?thesis using roundFloat_nonneg by (simp add: i Fin)
  qed (use assms(1,3) one in \<open>auto simp: i infOf_def\<close>)
qed

lemma autoGrowTarget_bounds:
  assumes "maxGi < 2 ^ 31" "autoGrowTarget impl currentGi usedPct thresholdPct factor maxGi \<noteq> 0"
  shows "currentGi < autoGrowTarget impl currentGi usedPct thresholdPct factor maxGi \<and>
         autoGrowTarget impl currentGi usedPct thresholdPct factor maxGi \<le> maxGi \<and>
         0 < thresholdPct \<and> \<not> floatLess usedPct (floatOfInt thresholdPct)"
    (is "_ < ?next \<and> _")
proof -
  let ?nf = "floatCeil (floatMul (floatOfInt currentGi) factor)"
  have g: "0 < thresholdPct" "0 < currentGi" "currentGi < maxGi" "\<not> floatLess usedPct (floatOfInt thresholdPct)" "\<not> floatLe factor (floatOfInt 1)"
    using assms(2) by (auto simp: autoGrowTarget_def split: if_splits)
  then have n: "?next = (if floatLess ?nf (floatOfInt maxGi) then int32OfFloat impl ?nf else maxGi)" "currentGi < ?next"
    using assms(2) by (auto simp: autoGrowTarget_def Let_def split: if_splits)
  have "?next \<le> maxGi"
  proof (cases "floatLess ?nf (floatOfInt maxGi)")
    case True
    then show ?thesis
      using floatLess_ceil_int [OF True, of currentGi impl] floatMul_pos [of currentGi factor] n g assms(1) by simp
  qed (use n in simp)
  with g n show ?thesis by simp
qed

lemmas autoGrowTarget_le = autoGrowTarget_bounds [THEN conjunct2, THEN conjunct1]

text \<open>C40: \<^bold>\<open>Growth is bounded and never a shrink.\<close> Whatever the factor (infinite, NaN or huge) and the usage,
  a grow decision is either no change or a size strictly above the current one and at most the quota;
  and it is taken only when auto-grow is enabled and the usage is not below the threshold.\<close>

theorem autoGrowTarget_bounded:
  assumes "maxGi < 2 ^ 31" "autoGrowTarget impl currentGi usedPct thresholdPct factor maxGi = next" "next \<noteq> 0"
  shows "currentGi < next \<and> next \<le> maxGi \<and> 0 < thresholdPct \<and> \<not> floatLess usedPct (floatOfInt thresholdPct)"
  using autoGrowTarget_bounds [of maxGi impl currentGi usedPct thresholdPct factor] assms by blast

theorem autoGrowTarget_bounded_witness:
  "autoGrowTarget (\<lambda>_. 0) 60 (Fin 91) 85 (Fin (3/2)) 200 = 90 \<and>
   60 < (90::int) \<and> (90::int) \<le> 200 \<and> 0 < (85::int) \<and> \<not> floatLess (Fin 91) (floatOfInt 85)"
proof -
  have f: "floatOfInt 60 = Fin 60" "floatOfInt 85 = Fin 85" "floatOfInt 1 = Fin 1" "floatOfInt 200 = Fin 200" "roundFloat 90 = Fin 90"
    using floatOfInt_exact [of 60] floatOfInt_exact [of 85] floatOfInt_exact [of 1] floatOfInt_exact [of 200] floatOfInt_exact [of 90]
    by (simp_all add: floatOfInt_def)
  have "autoGrowTarget (\<lambda>_. 0) 60 (Fin 91) 85 (Fin (3/2)) 200 = 90"
    by (simp add: autoGrowTarget_def Let_def f truncRat_def)
  with autoGrowTarget_bounded [OF _ this] show ?thesis by simp
qed

text \<open>The gate over a sequence of calls of any keys: the calls it allows.\<close>

fun gateRun :: "duration \<Rightarrow> (string \<rightharpoonup> time) \<Rightarrow> (string \<times> time) list \<Rightarrow> (string \<times> time) list" where
  "gateRun iv g [] = []"
| "gateRun iv g ((k, t) # cs) =
     (case gateAllow g k t iv of (ok, g') \<Rightarrow> (if ok then (k, t) # gateRun iv g' cs else gateRun iv g' cs))"

lemma gateRun_spaced:
  "successively (\<lambda>a b. iv \<le> timeSub b a)
     ((case g k of None \<Rightarrow> [] | Some t \<Rightarrow> [t]) @ map snd (filter (\<lambda>c. fst c = k) (gateRun iv g cs)))"
proof (induction cs arbitrary: g)
  case Nil
  then show ?case by (simp split: option.split)
next
  case (Cons c cs)
  obtain k' t where c: "c = (k', t)" by force
  obtain ok g' where a: "gateAllow g k' t iv = (ok, g')" by force
  show ?case
  proof (cases ok)
    case True
    then have g: "g' k' = Some t" "k \<noteq> k' \<Longrightarrow> g' k = g k" "g k' = None \<or> (\<exists>u. g k' = Some u \<and> iv \<le> timeSub t u)"
      using a by (auto simp: gateAllow_def split: option.splits if_splits)
    show ?thesis
    proof (cases "k = k'")
      case k: True
      have "successively (\<lambda>a b. iv \<le> timeSub b a) (t # map snd (filter (\<lambda>c. fst c = k) (gateRun iv g' cs)))"
        using Cons.IH [of g'] g(1) k by simp
      with g(3) True k show ?thesis by (auto simp: c a successively_Cons)
    next
      case False
      with g(2) Cons.IH [of g'] True show ?thesis by (simp add: c a)
    qed
  next
    case False
    then have "g' = g" using a by (auto simp: gateAllow_def split: option.splits if_splits)
    with False show ?thesis using Cons.IH [of g] by (simp add: c a)
  qed
qed

text \<open>\<^bold>\<open>The gates space their actions.\<close> For every interleaving of calls on any keys, two consecutive
  actions a gate lets through for one key are at least the interval apart, and a key never delays
  another: the calls of a key are allowed as if it were alone.\<close>

theorem gate_spaces_actions:
  "successively (\<lambda>a b. iv \<le> timeSub b a) (map snd (filter (\<lambda>c. fst c = k) (gateRun iv Map.empty cs))) \<and>
   filter (\<lambda>c. fst c = k) (gateRun iv Map.empty cs) = gateRun iv Map.empty (filter (\<lambda>c. fst c = k) cs)"
proof -
  have "g k = h k \<Longrightarrow> filter (\<lambda>c. fst c = k) (gateRun iv g cs) = gateRun iv h (filter (\<lambda>c. fst c = k) cs)" for g h
  proof (induction cs arbitrary: g h)
    case (Cons c cs)
    obtain k' t where c: "c = (k', t)" by force
    show ?case
    proof (cases "k' = k")
      case True
      obtain ok g' where a: "gateAllow g k t iv = (ok, g')" by force
      obtain ok' h' where b: "gateAllow h k t iv = (ok', h')" by force
      have "ok = ok'" "g' k = h' k" using a b Cons.prems by (auto simp: gateAllow_def split: option.splits if_splits)
      with Cons.IH [of g' h'] show ?thesis by (simp add: c True a b)
    next
      case False
      obtain ok g' where a: "gateAllow g k' t iv = (ok, g')" by force
      have "g' k = g k" using a False by (auto simp: gateAllow_def split: option.splits if_splits)
      with Cons.IH [of g' h] Cons.prems False show ?thesis by (simp add: c a)
    qed
  qed simp
  then show ?thesis using gateRun_spaced [of iv Map.empty k cs] by simp
qed

end
