(* ===== verification/Go_Time.thy ===== *)
theory Go_Time
  imports Go_Prelude "HOL-Library.Monad_Syntax"
begin

text \<open>
  \<open>Time.UTC().Format(time.RFC3339)\<close> and \<open>time.Parse(time.RFC3339, s)\<close>, through which the controller keeps
  the moment a roll was first held on the StatefulSet. The calendar is the proleptic Gregorian one of
  the \<open>time\<close> package; the parser accepts what Go's does (a fraction of a second after the seconds, a
  one-digit hour, a numeric zone). The round trip loses the fraction of a second and nothing else.
\<close>

section \<open>The calendar\<close>

definition isLeap :: "int \<Rightarrow> bool" where
  "isLeap y \<longleftrightarrow> y mod 4 = 0 \<and> (y mod 100 \<noteq> 0 \<or> y mod 400 = 0)"

definition monthLengths :: "int \<Rightarrow> nat list" where
  "monthLengths y = [31, if isLeap y then 29 else 28, 31, 30, 31, 30, 31, 31, 30, 31, 30, 31]"

text \<open>Days from 1970-01-01 to January 1 of a year.\<close>

definition daysBeforeYear :: "int \<Rightarrow> int" where
  "daysBeforeYear y = 365 * (y - 1) + (y - 1) div 4 - (y - 1) div 100 + (y - 1) div 400 - 719162"

text \<open>Year and day of the year (from 0) of a day number, by whole 400-, 100-, 4- and 1-year cycles.\<close>

definition yearDay :: "int \<Rightarrow> int \<times> int" where
  "yearDay day =
     (let d = day + 719162;
          n400 = d div 146097; d = d mod 146097;
          n100 = min 3 (d div 36524); d = d - n100 * 36524;
          n4 = d div 1461; d = d mod 1461;
          n1 = min 3 (d div 365); d = d - n1 * 365
      in (400 * n400 + 100 * n100 + 4 * n4 + n1 + 1, d))"

fun monthDay :: "nat list \<Rightarrow> nat \<Rightarrow> nat \<Rightarrow> nat \<times> nat" where
  "monthDay [] m d = (m, d + 1)"
| "monthDay (len # lens) m d = (if d < len then (m, d + 1) else monthDay lens (m + 1) (d - len))"

definition dayNumber :: "int \<Rightarrow> nat \<Rightarrow> nat \<Rightarrow> int" where
  "dayNumber y m d = daysBeforeYear y + int (sum_list (take (m - 1) (monthLengths y))) + int d - 1"

section \<open>Format\<close>

definition appendInt :: "nat \<Rightarrow> int \<Rightarrow> string" where
  "appendInt width x =
     (let ds = decimal (nat \<bar>x\<bar>) in
      (if x < 0 then ''-'' else []) @ replicate (width - length ds) CHR ''0'' @ ds)"

definition formatRFC3339 :: "time \<Rightarrow> string" where
  "formatRFC3339 t =
     (let secs = t div 1000000000; day = secs div 86400; sod = secs mod 86400;
          (y, yd) = yearDay day; (m, d) = monthDay (monthLengths y) 1 (nat yd)
      in appendInt 4 y @ ''-'' @ appendInt 2 (int m) @ ''-'' @ appendInt 2 (int d) @ ''T'' @
         appendInt 2 (sod div 3600) @ '':'' @ appendInt 2 (sod mod 3600 div 60) @ '':'' @ appendInt 2 (sod mod 60) @ ''Z'')"

section \<open>Parse\<close>

definition isDigit :: "char \<Rightarrow> bool" where
  "isDigit c \<longleftrightarrow> c \<in> set digitChars"

definition digitVal :: "char \<Rightarrow> nat" where
  "digitVal c = (case indexByte digitChars c of None \<Rightarrow> 0 | Some i \<Rightarrow> i)"

definition digitsVal :: "string \<Rightarrow> nat" where
  "digitsVal s = foldl (\<lambda>acc c. 10 * acc + digitVal c) 0 s"

text \<open>Exactly \<open>n\<close> digits at the front, with the rest.\<close>

definition takeNum :: "nat \<Rightarrow> string \<Rightarrow> (nat \<times> string) option" where
  "takeNum n s =
     (if length s \<ge> n \<and> list_all isDigit (take n s) then Some (digitsVal (take n s), drop n s) else None)"

text \<open>The hour accepts one digit or two.\<close>

definition takeHour :: "string \<Rightarrow> (nat \<times> string) option" where
  "takeHour s = (case takeNum 2 s of Some r \<Rightarrow> Some r | None \<Rightarrow> takeNum 1 s)"

fun expectChar :: "char \<Rightarrow> string \<Rightarrow> string option" where
  "expectChar c [] = None"
| "expectChar c (x # xs) = (if x = c then Some xs else None)"

text \<open>An optional fraction: a comma or period and digits, of which nine count.\<close>

definition takeFraction :: "string \<Rightarrow> nat \<times> string" where
  "takeFraction s =
     (case s of
        p # c # cs \<Rightarrow>
          if (p = CHR ''.'' \<or> p = CHR '','') \<and> isDigit c then
            let ds = takeWhile isDigit (c # cs); kept = take 9 ds
            in (digitsVal kept * 10 ^ (9 - length kept), drop (length ds) (c # cs))
          else (0, s)
      | _ \<Rightarrow> (0, s))"

definition takeZone :: "string \<Rightarrow> (int \<times> string) option" where
  "takeZone s =
     (case s of
        [] \<Rightarrow> None
      | c # cs \<Rightarrow>
          if c = CHR ''Z'' then Some (0, cs)
          else
            do {
              (h, s1) \<leftarrow> takeNum 2 cs;
              s2 \<leftarrow> expectChar CHR '':'' s1;
              (m, s3) \<leftarrow> takeNum 2 s2;
              if h > 24 \<or> m > 60 then None
              else if c = CHR ''+'' then Some (int ((h * 60 + m) * 60), s3)
              else if c = CHR ''-'' then Some (- int ((h * 60 + m) * 60), s3)
              else None
            })"

definition parseRFC3339 :: "string \<Rightarrow> time option" where
  "parseRFC3339 s =
     do {
       (y, s) \<leftarrow> takeNum 4 s;
       s \<leftarrow> expectChar CHR ''-'' s;
       (m, s) \<leftarrow> takeNum 2 s;
       s \<leftarrow> expectChar CHR ''-'' s;
       (d, s) \<leftarrow> takeNum 2 s;
       s \<leftarrow> expectChar CHR ''T'' s;
       (h, s) \<leftarrow> takeHour s;
       s \<leftarrow> expectChar CHR '':'' s;
       (mi, s) \<leftarrow> takeNum 2 s;
       s \<leftarrow> expectChar CHR '':'' s;
       (se, s) \<leftarrow> takeNum 2 s;
       let (ns, s) = takeFraction s;
       (off, s) \<leftarrow> takeZone s;
       if s \<noteq> [] \<or> m < 1 \<or> m > 12 \<or> h \<ge> 24 \<or> mi \<ge> 60 \<or> se \<ge> 60 \<or> d < 1 \<or>
          d > monthLengths (int y) ! (m - 1) then None
       else Some ((dayNumber (int y) m d * 86400 + int (h * 3600 + mi * 60 + se) - off) * 1000000000 + int ns)
     }"

section \<open>The calendar is exact\<close>

lemma yearDay_exact:
  assumes "yearDay day = (y, yd)"
  shows "daysBeforeYear y + yd = day \<and> 0 \<le> yd \<and> yd < int (sum_list (monthLengths y))"
proof -
  define d where "d = day + 719162"
  define n where "n = d div 146097"
  define r where "r = d mod 146097"
  define c where "c = min 3 (r div 36524)"
  define r1 where "r1 = r - c * 36524"
  define q where "q = r1 div 1461"
  define r2 where "r2 = r1 mod 1461"
  define a where "a = min 3 (r2 div 365)"
  have "yearDay day = (400 * n + 100 * c + 4 * q + a + 1, r2 - a * 365)"
    by (simp only: yearDay_def Let_def d_def n_def r_def c_def r1_def q_def r2_def a_def)
  with assms have y: "y = 400 * n + 100 * c + 4 * q + a + 1" and yd: "yd = r2 - a * 365" by simp_all
  have r: "0 \<le> r" "r \<le> 146096" "d = 146097 * n + r" by (simp_all add: r_def n_def)
  have k: "36524 * (r div 36524) \<le> r" "r < 36524 * (r div 36524) + 36524" "0 \<le> r div 36524"
    using mult_div_mod_eq [of 36524 r] pos_mod_bound [of 36524 r] pos_mod_sign [of 36524 r] r(1)
    by (simp_all add: pos_imp_zdiv_nonneg_iff del: pos_mod_bound pos_mod_sign)
  have c: "0 \<le> c" "c \<le> 3" "0 \<le> r1" "r1 \<le> 36524" "r1 = 36524 \<Longrightarrow> c = 3"
    unfolding c_def r1_def using r(1,2) k by (simp_all add: min_def split: if_splits)
  have q: "0 \<le> q" "q \<le> 24" "0 \<le> r2" "r2 \<le> 1460" "r1 = 1461 * q + r2"
  proof -
    show e: "r1 = 1461 * q + r2" and "0 \<le> r2" and b: "r2 \<le> 1460" by (simp_all add: q_def r2_def)
    show "0 \<le> q" using c(3) by (simp add: q_def pos_imp_zdiv_nonneg_iff)
    show "q \<le> 24" using e c(4) \<open>0 \<le> r2\<close> by linarith
  qed
  have k2: "365 * (r2 div 365) \<le> r2" "r2 < 365 * (r2 div 365) + 365" "0 \<le> r2 div 365"
    using mult_div_mod_eq [of 365 r2] pos_mod_bound [of 365 r2] pos_mod_sign [of 365 r2] q(3)
    by (simp_all add: pos_imp_zdiv_nonneg_iff del: pos_mod_bound pos_mod_sign)
  have a: "0 \<le> a" "a \<le> 3" "0 \<le> yd" "yd \<le> 365" "yd = 365 \<Longrightarrow> a = 3"
    unfolding yd a_def using q(3,4) k2 by (simp_all add: min_def split: if_splits)
  have div: "(y - 1) div 4 = 100 * n + 25 * c + q" "(y - 1) div 100 = 4 * n + c" "(y - 1) div 400 = n"
    using int_div_pos_eq [of "y - 1" 4 "100 * n + 25 * c + q" a] int_div_pos_eq [of "y - 1" 100 "4 * n + c" "4 * q + a"]
      int_div_pos_eq [of "y - 1" 400 n "100 * c + 4 * q + a"] a(1,2) q(1,2) c(1,2)
    by (simp_all add: y)
  have "daysBeforeYear y + yd = day"
    unfolding daysBeforeYear_def div using r(3) q(5) by (simp add: y yd d_def r1_def algebra_simps)
  moreover have "yd < int (sum_list (monthLengths y))"
  proof (cases "yd = 365")
    case True
    have "r1 = 1461 * q + 1460" using True a(5) q(5) yd by simp
    moreover have "y mod 4 = 0" unfolding y a(5) [OF True] by presburger
    moreover have "y mod 100 \<noteq> 0 \<or> q = 24"
      using int_mod_pos_eq [of y 100 "4 * n + c" "4 * q + 4"] q(1,2) by (cases "q < 24") (auto simp: y a(5) [OF True])
    moreover have "q = 24 \<Longrightarrow> c = 3 \<Longrightarrow> y mod 400 = 0"
      using int_mod_pos_eq [of y 400 "n + 1" 0] by (simp add: y a(5) [OF True])
    ultimately have "isLeap y" using c(4,5) unfolding isLeap_def by auto
    with True show ?thesis by (simp add: monthLengths_def)
  next
    case False
    with a(4) show ?thesis by (simp add: monthLengths_def)
  qed
  ultimately show ?thesis using a(3) by simp
qed

lemma monthDay_exact:
  "monthDay lens m d = (m', d') \<Longrightarrow> d < sum_list lens \<Longrightarrow>
   \<exists>i < length lens. m' = m + i \<and> 1 \<le> d' \<and> d' \<le> lens ! i \<and> sum_list (take i lens) + d' = d + 1"
proof (induction lens arbitrary: m d)
  case (Cons len lens)
  show ?case
  proof (cases "d < len")
    case True
    with Cons.prems show ?thesis by (intro exI [of _ 0]) auto
  next
    case False
    then have "monthDay lens (m + 1) (d - len) = (m', d')" "d - len < sum_list lens" using Cons.prems by auto
    from Cons.IH [OF this] obtain i where
      "i < length lens" "m' = m + 1 + i" "1 \<le> d'" "d' \<le> lens ! i" "sum_list (take i lens) + d' = d - len + 1"
      by blast
    with False show ?thesis by (intro exI [of _ "Suc i"]) auto
  qed
qed simp

section \<open>Numbers of fixed width\<close>

lemma digitVal_digit: "n < 10 \<Longrightarrow> digitVal (digitChars ! n) = n"
proof -
  assume "n < 10"
  then have "n \<in> set [0..<10]" by simp
  moreover have "\<forall>k \<in> set [0..<10]. digitVal (digitChars ! k) = k" by code_simp
  ultimately show ?thesis by blast
qed

lemma digitsVal_snoc: "digitsVal (s @ [c]) = 10 * digitsVal s + digitVal c"
  by (simp add: digitsVal_def)

lemma digitsVal_decimal: "digitsVal (decimal n) = n"
proof (induction n rule: decimal.induct)
  case (1 n)
  show ?case
  proof (cases "n < 10")
    case True
    then show ?thesis by (simp add: decimal_small digitsVal_def digitVal_digit)
  next
    case False
    with 1 show ?thesis by (simp add: decimal_big digitsVal_snoc digitVal_digit)
  qed
qed

lemma length_decimal: "n < 10 ^ k \<Longrightarrow> 0 < k \<Longrightarrow> length (decimal n) \<le> k"
proof (induction n arbitrary: k rule: decimal.induct)
  case (1 n)
  show ?case
  proof (cases "n < 10")
    case True
    with 1 show ?thesis by (simp add: decimal_small)
  next
    case False
    then obtain j where j: "k = Suc j" "0 < j" using "1.prems" by (cases k; cases "k - 1") auto
    then have "n div 10 < 10 ^ j" using "1.prems" by (simp add: less_mult_imp_div_less mult.commute)
    with 1 False j show ?thesis by (simp add: decimal_big)
  qed
qed

lemma digitsVal_zeros: "digitsVal (replicate k CHR ''0'' @ s) = digitsVal s"
proof -
  have "digitVal CHR ''0'' = 0" by code_simp
  then have "foldl (\<lambda>acc c. 10 * acc + digitVal c) 0 (replicate k CHR ''0'') = 0" by (induction k) simp_all
  then show ?thesis by (simp add: digitsVal_def)
qed

lemma takeNum_appendInt:
  assumes "n < 10 ^ k" "0 < k"
  shows "takeNum k (appendInt k (int n) @ rest) = Some (n, rest)"
proof -
  have len: "length (appendInt k (int n)) = k"
    using length_decimal [OF assms] by (simp add: appendInt_def Let_def)
  moreover have "list_all isDigit (appendInt k (int n))"
  proof -
    have "CHR ''0'' \<in> set digitChars" by code_simp
    then show ?thesis using decimal_digits [of n] by (auto simp: appendInt_def Let_def isDigit_def list_all_iff)
  qed
  moreover have "digitsVal (appendInt k (int n)) = n"
    by (simp add: appendInt_def Let_def digitsVal_zeros digitsVal_decimal)
  ultimately show ?thesis by (simp add: takeNum_def)
qed

lemma parse_layout:
  assumes "y < 10000" "m < 100" "d < 100" "h < 100" "mi < 100" "se < 100"
  shows "parseRFC3339 (appendInt 4 (int y) @ ''-'' @ appendInt 2 (int m) @ ''-'' @ appendInt 2 (int d) @ ''T'' @
     appendInt 2 (int h) @ '':'' @ appendInt 2 (int mi) @ '':'' @ appendInt 2 (int se) @ ''Z'') =
     (if m < 1 \<or> m > 12 \<or> h \<ge> 24 \<or> mi \<ge> 60 \<or> se \<ge> 60 \<or> d < 1 \<or> d > monthLengths (int y) ! (m - 1) then None
      else Some ((dayNumber (int y) m d * 86400 + int (h * 3600 + mi * 60 + se)) * 1000000000))"
proof -
  have t4: "takeNum 4 (appendInt 4 (int y) @ rest) = Some (y, rest)" for rest
    by (rule takeNum_appendInt) (use assms in simp_all)
  have t2: "n < 100 \<Longrightarrow> takeNum 2 (appendInt 2 (int n) @ rest) = Some (n, rest)" for n rest
    by (rule takeNum_appendInt) simp_all
  show ?thesis
    unfolding parseRFC3339_def takeHour_def takeFraction_def takeZone_def
    by (simp add: t4 t2 assms del: of_nat_add of_nat_mult)
qed

section \<open>Round trip\<close>

text \<open>Parsing what was formatted gives the time back to the second, for years 0 to 9999.\<close>

theorem parse_format_RFC3339:
  assumes "fst (yearDay (t div 1000000000 div 86400)) \<in> {0..9999}"
  shows "parseRFC3339 (formatRFC3339 t) = Some (t div 1000000000 * 1000000000)"
proof -
  define secs where "secs = t div 1000000000"
  define sod where "sod = nat (secs mod 86400)"
  obtain y yd where yd: "yearDay (secs div 86400) = (y, yd)" by force
  obtain m d where md: "monthDay (monthLengths y) 1 (nat yd) = (m, d)" by force
  have e: "daysBeforeYear y + yd = secs div 86400" "0 \<le> yd" "yd < int (sum_list (monthLengths y))"
    using yearDay_exact [OF yd] by simp_all
  then have "nat yd < sum_list (monthLengths y)" by linarith
  with monthDay_exact [OF md] obtain i where
    i: "i < length (monthLengths y)" "m = 1 + i" "1 \<le> d" "d \<le> monthLengths y ! i" "sum_list (take i (monthLengths y)) + d = nat yd + 1"
    by blast
  have i12: "i < 12" using i(1) by (simp add: monthLengths_def)
  have "\<forall>x \<in> set (monthLengths y). x \<le> 31" by (simp add: monthLengths_def)
  with i(1,4) have d31: "d \<le> 31" by (meson le_trans nth_mem)
  define ny where "ny = nat y"
  have "0 \<le> y" "y \<le> 9999" using assms yd by (simp_all add: secs_def [symmetric])
  then have y4: "y = int ny" "ny < 10 ^ 4" by (simp_all add: ny_def)
  have day: "dayNumber y m d = secs div 86400" using i e(1,2) by (simp add: dayNumber_def)
  have s: "secs mod 86400 = int sod" "sod < 86400" by (simp_all add: sod_def)
  have hms: "int sod div 3600 = int (sod div 3600)" "int sod mod 3600 div 60 = int (sod mod 3600 div 60)" "int sod mod 60 = int (sod mod 60)"
    by (simp_all add: zdiv_int zmod_int)
  have "formatRFC3339 t = appendInt 4 (int ny) @ ''-'' @ appendInt 2 (int m) @ ''-'' @ appendInt 2 (int d) @ ''T'' @
     appendInt 2 (int (sod div 3600)) @ '':'' @ appendInt 2 (int (sod mod 3600 div 60)) @ '':'' @ appendInt 2 (int (sod mod 60)) @ ''Z''"
    using md y4(1) by (simp add: formatRFC3339_def Let_def secs_def [symmetric] yd s(1) hms)
  moreover have "ny < 10000" "m < 100" "d < 100" "sod div 3600 < 24" "sod mod 3600 div 60 < 60" "sod mod 60 < 60"
    using y4(2) i(2) i12 d31 s(2) by (auto simp: less_mult_imp_div_less)
  moreover have "\<not> m < 1" "\<not> m > 12" "\<not> d < 1" "\<not> d > monthLengths (int ny) ! (m - 1)"
    using i i12 y4(1) by auto
  ultimately have "parseRFC3339 (formatRFC3339 t) =
    Some ((dayNumber (int ny) m d * 86400 + int (sod div 3600 * 3600 + sod mod 3600 div 60 * 60 + sod mod 60)) * 1000000000)"
    using parse_layout [of ny m d "sod div 3600" "sod mod 3600 div 60" "sod mod 60"] by (simp only:) simp
  moreover have "sod div 3600 * 3600 + sod mod 3600 div 60 * 60 + sod mod 60 = sod"
  proof -
    have "sod mod 60 = sod mod 3600 mod 60" by (simp add: mod_mod_cancel)
    then show ?thesis by (metis add.assoc div_mult_mod_eq)
  qed
  moreover have "secs div 86400 * 86400 + int sod = secs" using s(1) by (metis div_mult_mod_eq)
  ultimately show ?thesis using day y4(1) by (simp add: secs_def [symmetric])
qed

end
