(* ===== verification/Controller.thy ===== *)
theory Controller
  imports Autogrow Go_Time
begin

text \<open>
  \<open>internal/controller/buildproject_controller.go\<close>: the reconciler. One definition per method, in the
  order Reconcile composes them; the pure decisions (replicas, idle window, requeue, phase) are
  functions, the methods that talk to the API server are programs over the log of \<open>Kube_Api\<close>.

  \<open>ctrl.Result\<close> is its \<open>RequeueAfter\<close> (0 when unset). Metrics and log lines have no effect on the program
  and are left out. The clone loops count an \<open>int32\<close> up to \<open>Fanout\<close>; the model is the loop for every
  \<open>Fanout\<close> below the largest \<open>int32\<close>, where the counter of the code wraps.
\<close>

section \<open>The elasticity decision\<close>

definition adaptiveIdleMax :: "BuildProjectReconciler \<Rightarrow> duration" where
  "adaptiveIdleMax r =
     (if rc_AdaptiveIdleMaxSeconds r \<le> 0 then 0 else wrap64 (rc_AdaptiveIdleMaxSeconds r * second))"

definition effectiveIdle :: "BuildProject \<Rightarrow> time \<Rightarrow> duration \<Rightarrow> duration" where
  "effectiveIdle bp now adaptiveMax =
     (let base = wrap64 (sp_IdleTimeoutSec (bp_Spec bp) * second) in
      if adaptiveMax \<le> 0 \<or> base \<le> 0 \<or> base \<ge> adaptiveMax \<or> isForkKey (sp_Key (bp_Spec bp)) then base
      else
        let n = buildsInWindow (st_RecentBuildTimes (bp_Status bp)) now in
        if n \<le> 1 then base
        else
          let eff = wrap64 (base * int n) in
          if eff > adaptiveMax then adaptiveMax else eff)"

definition desiredReplicas :: "BuildProject \<Rightarrow> InflightBuild list \<Rightarrow> time \<Rightarrow> duration \<Rightarrow> int" where
  "desiredReplicas bp liveInflight now adaptiveMax =
     (if sp_Tier (bp_Spec bp) = TierHot then 1
      else if length liveInflight > 0 then 1
      else
        let idle = effectiveIdle bp now adaptiveMax in
        (case st_LastBuildTime (bp_Status bp) of
           None \<Rightarrow> 0
         | Some t \<Rightarrow> if idle > 0 \<and> timeSub now t < idle then 1 else 0))"

definition idleRecheckInterval :: "BuildProject \<Rightarrow> time \<Rightarrow> duration \<Rightarrow> duration" where
  "idleRecheckInterval bp now adaptiveMax =
     (let eff = effectiveIdle bp now adaptiveMax;
          iv = divTrunc eff 6;
          iv = (case st_LastBuildTime (bp_Status bp) of
                  None \<Rightarrow> iv
                | Some t \<Rightarrow>
                    let remaining = wrap64 (wrap64 (eff - timeSub now t) + 5 * second)
                    in if remaining < iv then remaining else iv)
      in if iv < 30 * second then 30 * second else iv)"

definition phaseFrom :: "int \<Rightarrow> int \<Rightarrow> string" where
  "phaseFrom desired ready = (if desired = 0 then ''Idle'' else if ready \<ge> 1 then ''Warm'' else ''Scaling'')"

definition boolToCond :: "bool \<Rightarrow> string" where
  "boolToCond b = (if b then ''True'' else ''False'')"

definition forkReapGrace :: duration where "forkReapGrace = 90 * second"
definition scalingRecheckInterval :: duration where "scalingRecheckInterval = 30 * second"
definition minBuildGrace :: duration where "minBuildGrace = hour"
definition drainRecheckInterval :: duration where "drainRecheckInterval = 30 * second"

definition rollHeldSinceAnnotation :: string where
  "rollHeldSinceAnnotation = ''buildkit-operator.socialgouv.github.io/roll-held-since''"
definition templateHashAnnotation :: string where
  "templateHashAnnotation = ''buildkit-operator.socialgouv.github.io/template-hash''"
definition cloneOfLabel :: string where
  "cloneOfLabel = ''buildkit-operator.socialgouv.github.io/clone-of''"

section \<open>Held rolls\<close>

definition heldSetSet :: "string set \<Rightarrow> string \<Rightarrow> bool \<Rightarrow> string set" where
  "heldSetSet keys key held = (if held then insert key keys else keys - {key})"

definition rollsHeldSet :: "string \<Rightarrow> bool \<Rightarrow> unit cprog" where
  "rollsHeldSet key held =
     do {
       m \<leftarrow> getMem;
       putMem (m\<lparr>cm_rollsHeld := heldSetSet (cm_rollsHeld m) key held\<rparr>)
     }"

section \<open>Wedged pods\<close>

definition blockedReasons :: "string list" where
  "blockedReasons = [''CrashLoopBackOff'', ''ImagePullBackOff'', ''ErrImagePull'',
     ''CreateContainerError'', ''CreateContainerConfigError'', ''InvalidImageName'']"

fun containersFailure :: "ContainerStatus list \<Rightarrow> string" where
  "containersFailure [] = []"
| "containersFailure (cs # rest) =
     (case cs_Waiting cs of
        Some reason \<Rightarrow>
          if reason \<in> set blockedReasons then cs_Name cs @ '': '' @ reason
          else if cs_LastTerminated cs = Some ''OOMKilled'' then cs_Name cs @ '': OOMKilled''
          else containersFailure rest
      | None \<Rightarrow>
          if cs_LastTerminated cs = Some ''OOMKilled'' then cs_Name cs @ '': OOMKilled''
          else containersFailure rest)"

fun podsFailure :: "Pod list \<Rightarrow> string" where
  "podsFailure [] = []"
| "podsFailure (p # ps) =
     (if pod_Phase p = ''Failed'' then ''pod '' @ pod_Name p @ '' phase=Failed''
      else
        let f = containersFailure (pod_ContainerStatuses p) in
        if f \<noteq> [] then f else podsFailure ps)"

definition daemonFailure :: "Env \<Rightarrow> BuildProjectReconciler \<Rightarrow> string \<Rightarrow> string cprog" where
  "daemonFailure env r key =
     do {
       ps \<leftarrow> listPod env (cf_Namespace (rc_Cfg r)) key;
       ret (case ps of Inl _ \<Rightarrow> [] | Inr items \<Rightarrow> podsFailure items)
     }"

section \<open>Service, disruption budget, fork reaping\<close>

definition ensureService :: "Env \<Rightarrow> Lib \<Rightarrow> BuildProjectReconciler \<Rightarrow> BuildProject \<Rightarrow> ApiErr option cprog" where
  "ensureService env lib r bp =
     (let want = ServiceOf bp (rc_Cfg r) in
      case lib_setControllerRef lib bp (sv_Name want) (sv_Namespace want) of
        Some e \<Rightarrow> ret (Some e)
      | None \<Rightarrow>
          let want = want\<lparr>sv_Owner := Some (bp_Name bp)\<rparr> in
          do {
            g \<leftarrow> getSvc env (sv_Name want) (sv_Namespace want);
            (case g of
               Inl e \<Rightarrow> if isNotFound e then createSvc env want else ret (Some e)
             | Inr existing \<Rightarrow>
                 if sv_Type existing = sv_Type want \<and> sv_Ports existing = sv_Ports want \<and>
                    sv_Selector existing = sv_Selector want
                 then ret None
                 else updateSvc env (existing\<lparr>sv_Type := sv_Type want, sv_Ports := sv_Ports want, sv_Selector := sv_Selector want\<rparr>))
          })"

definition ensurePDB :: "Env \<Rightarrow> Lib \<Rightarrow> BuildProjectReconciler \<Rightarrow> BuildProject \<Rightarrow> bool \<Rightarrow> ApiErr option cprog" where
  "ensurePDB env lib r bp serving =
     do {
       g \<leftarrow> getPDB env (daemonName (sp_Key (bp_Spec bp))) (cf_Namespace (rc_Cfg r));
       (case PodDisruptionBudgetOf bp (rc_Cfg r) serving of
          None \<Rightarrow>
            (case g of
               Inl e \<Rightarrow> ret (ignoreNotFound (Some e))
             | Inr existing \<Rightarrow>
                 do {
                   e \<leftarrow> deletePDB env existing;
                   ret (ignoreNotFound e)
                 })
        | Some want \<Rightarrow>
            (case lib_setControllerRef lib bp (pd_Name want) (pd_Namespace want) of
               Some e \<Rightarrow> ret (Some e)
             | None \<Rightarrow>
                 let want = want\<lparr>pd_Owner := Some (bp_Name bp)\<rparr> in
                 (case g of
                    Inl e \<Rightarrow> if isNotFound e then createPDB env want else ret (Some e)
                  | Inr existing \<Rightarrow>
                      if pd_MinAvailable existing = pd_MinAvailable want \<and> pd_Selector existing = pd_Selector want \<and>
                         pd_Owner existing \<noteq> None
                      then ret None
                      else updatePDB env (existing\<lparr>pd_MinAvailable := pd_MinAvailable want,
                             pd_Selector := pd_Selector want, pd_Owner := pd_Owner want\<rparr>))))
     }"

definition reapFork :: "Env \<Rightarrow> BuildProjectReconciler \<Rightarrow> BuildProject \<Rightarrow> ApiErr option cprog" where
  "reapFork env r bp =
     do {
       g \<leftarrow> getPvc env (cachePVCName (sp_Key (bp_Spec bp))) (cf_Namespace (rc_Cfg r));
       stop \<leftarrow> (case g of
          Inr pvc \<Rightarrow>
            do {
              e \<leftarrow> deletePvc env pvc;
              ret (ignoreNotFound e)
            }
        | Inl e \<Rightarrow> ret (ignoreNotFound (Some e)));
       (case stop of
          Some e \<Rightarrow> ret (Some e)
        | None \<Rightarrow>
            do {
              e \<leftarrow> deleteBP env bp;
              ret (ignoreNotFound e)
            })
     }"

section \<open>The StatefulSet\<close>

definition templateHash :: "Lib \<Rightarrow> PodTemplate \<Rightarrow> string" where
  "templateHash lib t = hex_encode (take 8 (sha256 (lib_marshalTemplate lib t)))"

text \<open>\<open>holdRoll\<close> answers whether the roll is held, and the StatefulSet with its stamp.\<close>

definition holdRoll :: "Env \<Rightarrow> BuildProjectReconciler \<Rightarrow> BuildProject \<Rightarrow> StatefulSet \<Rightarrow> InflightBuild list \<Rightarrow> (bool \<times> StatefulSet) cprog" where
  "holdRoll env r bp sts liveInflight =
     do {
       reason \<leftarrow> daemonFailure env r (sp_Key (bp_Spec bp));
       if reason \<noteq> [] then ret (False, sts)
       else do {
         (since, sts) \<leftarrow>
           (case parseRFC3339 (labelOf (ss_Annotations sts) rollHeldSinceAnnotation) of
              Some t \<Rightarrow> ret (t, sts)
            | None \<Rightarrow>
                do {
                  now \<leftarrow> timeNow env;
                  ret (now, sts\<lparr>ss_Annotations := fmupd rollHeldSinceAnnotation (formatRFC3339 now) (ss_Annotations sts)\<rparr>)
                });
         t1 \<leftarrow> timeNow env;
         let youngest = timeSub t1 (ib_Since (last liveInflight));
         t2 \<leftarrow> timeNow env;
         let heldFor = timeSub t2 since;
         if youngest > minBuildGrace \<or> heldFor > maxBuildAge r
         then ret (False, sts\<lparr>ss_Annotations := fmdrop rollHeldSinceAnnotation (ss_Annotations sts)\<rparr>)
         else ret (True, sts)
       }
     }"

text \<open>Whether to roll, and the StatefulSet after the hold's bookkeeping: \<open>(held, templateChanged, existing)\<close>.\<close>

definition decideRoll :: "Env \<Rightarrow> BuildProjectReconciler \<Rightarrow> BuildProject \<Rightarrow> bool \<Rightarrow> StatefulSet \<Rightarrow> InflightBuild list \<Rightarrow> (bool \<times> bool \<times> StatefulSet) res cprog" where
  "decideRoll env r bp templateChanged existing liveInflight =
     (if \<not> templateChanged then ret (Inr (False, False, existing))
      else do {
        live \<leftarrow> (if length liveInflight = 0
                  then do {
                    f \<leftarrow> freshInflightEntries env r bp;
                    ret (case f of
                           Inl e \<Rightarrow> Inl (Wrap (''re-read inflight before rolling '' @ sp_Key (bp_Spec bp)) e)
                         | Inr fresh \<Rightarrow> Inr (if length fresh > 0 then fresh else liveInflight))
                  }
                  else ret (Inr liveInflight));
        (case live of
           Inl e \<Rightarrow> ret (Inl e)
         | Inr liveInflight \<Rightarrow>
             if length liveInflight > 0 then
               do {
                 (held, existing) \<leftarrow> holdRoll env r bp existing liveInflight;
                 ret (Inr (held, \<not> held, existing))
               }
             else ret (Inr (False, True, existing)))
      })"

definition ensureStatefulSet :: "Env \<Rightarrow> Lib \<Rightarrow> BuildProjectReconciler \<Rightarrow> BuildProject \<Rightarrow> int \<Rightarrow> InflightBuild list \<Rightarrow> bool res cprog" where
  "ensureStatefulSet env lib r bp desired liveInflight =
     (let want = (StatefulSetOf bp (rc_Cfg r))\<lparr>ss_Replicas := Some desired\<rparr>;
          hash = templateHash lib (ss_Template want);
          want = want\<lparr>ss_Annotations := fmupd templateHashAnnotation hash (ss_Annotations want)\<rparr>
      in case lib_setControllerRef lib bp (ss_Name want) (ss_Namespace want) of
           Some e \<Rightarrow> ret (Inl e)
         | None \<Rightarrow>
             let want = want\<lparr>ss_Owner := Some (bp_Name bp)\<rparr> in
             do {
               g \<leftarrow> getSts env (ss_Name want) (ss_Namespace want);
               (case g of
                  Inl e \<Rightarrow>
                    if isNotFound e then
                      do {
                        c \<leftarrow> createSts env want;
                        ret (case c of None \<Rightarrow> Inr False | Some e \<Rightarrow> Inl e)
                      }
                    else ret (Inl e)
                | Inr base \<Rightarrow>
                    let old = (case ss_Replicas base of None \<Rightarrow> 1 | Some n \<Rightarrow> n);
                        templateChanged = (labelOf (ss_Annotations base) templateHashAnnotation \<noteq> hash);
                        heldSince = labelOf (ss_Annotations base) rollHeldSinceAnnotation
                    in do {
                      d \<leftarrow> decideRoll env r bp templateChanged base liveInflight;
                      (case d of
                         Inl e \<Rightarrow> ret (Inl e)
                       | Inr (held, templateChanged, existing) \<Rightarrow>
                           let existing = (if held then existing
                                 else existing\<lparr>ss_Annotations := fmdrop rollHeldSinceAnnotation (ss_Annotations existing)\<rparr>)
                           in if old = desired \<and> \<not> templateChanged \<and>
                                 labelOf (ss_Annotations existing) rollHeldSinceAnnotation = heldSince
                              then ret (Inr held)
                              else
                                let existing = existing\<lparr>ss_Replicas := Some desired\<rparr>;
                                    existing = (if templateChanged
                                      then existing\<lparr>ss_Template := ss_Template want,
                                             ss_Annotations := fmupd templateHashAnnotation hash (ss_Annotations existing)\<rparr>
                                      else existing)
                                in do {
                                  e \<leftarrow> patchSts env base existing;
                                  ret (case e of None \<Rightarrow> Inr held | Some e \<Rightarrow> Inl e)
                                })
                    })
             })"

section \<open>Snapshots\<close>

text \<open>\<open>newestSnapshot\<close>: the first of the latest ones.\<close>

fun newestFrom :: "VolumeSnapshot option \<Rightarrow> VolumeSnapshot list \<Rightarrow> VolumeSnapshot option" where
  "newestFrom newest [] = newest"
| "newestFrom newest (s # ss) =
     (case newest of
        None \<Rightarrow> newestFrom (Some s) ss
      | Some n \<Rightarrow> newestFrom (if vs_CreationTimestamp s > vs_CreationTimestamp n then Some s else Some n) ss)"

definition newestSnapshot :: "VolumeSnapshot list \<Rightarrow> VolumeSnapshot option" where
  "newestSnapshot items = newestFrom None items"

definition pruneSnapshots :: "Env \<Rightarrow> Lib \<Rightarrow> BuildProjectReconciler \<Rightarrow> VolumeSnapshot list \<Rightarrow> unit cprog" where
  "pruneSnapshots env lib r items =
     (let keep = (if rc_KeepSnapshots r \<le> 0 then 3 else nat (rc_KeepSnapshots r)) in
      if length items \<le> keep then ret ()
      else do {
        _ \<leftarrow> forEach (drop keep (lib_sortNewestFirst lib items))
              (\<lambda>s. do { _ \<leftarrow> deleteSnap env s; ret (None :: ApiErr option) });
        ret ()
      })"

text \<open>\<open>maybeSnapshot\<close> answers the time to the next snapshot, the error and the project, whose status it updates.
  \<open>takeSnapshot\<close> is its part from the choice of the name on.\<close>

definition takeSnapshot :: "Env \<Rightarrow> Lib \<Rightarrow> BuildProjectReconciler \<Rightarrow> BuildProject \<Rightarrow> duration \<Rightarrow> VolumeSnapshot list \<Rightarrow> (duration \<times> ApiErr option \<times> BuildProject) cprog" where
  "takeSnapshot env lib r bp cadence items =
     do {
       now \<leftarrow> timeNow env;
       let name = ''snap-'' @ sp_Key (bp_Spec bp) @ ''-'' @ itoa now;
       (case lib_setControllerRef lib bp name (cf_Namespace (rc_Cfg r)) of
          Some e \<Rightarrow> ret (cadence, Some e, bp)
        | None \<Rightarrow>
            do {
              c \<leftarrow> createSnap env name (cachePVCName (sp_Key (bp_Spec bp))) (cf_SnapshotClass (rc_Cfg r));
              (case c of
                 Inl e \<Rightarrow> ret (cadence, Some e, bp)
               | Inr snap \<Rightarrow>
                   do {
                     let bp' = bp\<lparr>bp_Status := (bp_Status bp)\<lparr>st_LastSnapshot := name\<rparr>\<rparr>;
                     p \<leftarrow> patchBPStatus env bp bp';
                     pruneSnapshots env lib r (items @ [snap]);
                     ret (cadence, None, (case p of Inl _ \<Rightarrow> bp' | Inr stored \<Rightarrow> stored))
                   })
            })
     }"

definition maybeSnapshot :: "Env \<Rightarrow> Lib \<Rightarrow> BuildProjectReconciler \<Rightarrow> BuildProject \<Rightarrow> (duration \<times> ApiErr option \<times> BuildProject) cprog" where
  "maybeSnapshot env lib r bp =
     (if sp_SnapshotEverySec (bp_Spec bp) \<le> 0 \<or> cf_SnapshotClass (rc_Cfg r) = [] then ret (0, None, bp)
      else
        let cadence = wrap64 (sp_SnapshotEverySec (bp_Spec bp) * second) in
        do {
          g \<leftarrow> getPvc env (cachePVCName (sp_Key (bp_Spec bp))) (cf_Namespace (rc_Cfg r));
          (case g of
             Inl e \<Rightarrow> ret (cadence, ignoreNotFound (Some e), bp)
           | Inr pvc \<Rightarrow>
               do {
                 ss \<leftarrow> listSnap env (cf_Namespace (rc_Cfg r)) (sp_Key (bp_Spec bp));
                 (case ss of
                    Inl e \<Rightarrow> ret (cadence, Some e, bp)
                  | Inr items \<Rightarrow>
                      (case newestSnapshot items of
                         None \<Rightarrow> takeSnapshot env lib r bp cadence items
                       | Some latest \<Rightarrow>
                           do {
                             now \<leftarrow> timeNow env;
                             let age = timeSub now (vs_CreationTimestamp latest);
                             (if age < cadence then ret (wrap64 (cadence - age), None, bp)
                              else takeSnapshot env lib r bp cadence items)
                           }))
               })
        })"

section \<open>Fan-out\<close>

definition cloneIndexes :: "int \<Rightarrow> int list" where
  "cloneIndexes fanout = [1..fanout]"

text \<open>One turn of the prune loop on a clone that is not wanted: whether it was left in place because it is
  busy. The loop carries \<open>deferred\<close>.\<close>

definition pruneClone :: "Env \<Rightarrow> BuildProjectReconciler \<Rightarrow> BuildProject \<Rightarrow> bool res cprog" where
  "pruneClone env r clone =
     do {
       live \<leftarrow> freshInflightEntries env r clone;
       (case live of
          Inl e \<Rightarrow> ret (Inl (Wrap (''re-read inflight before pruning clone '' @ bp_Name clone) e))
        | Inr es \<Rightarrow>
            if length es > 0 then ret (Inr True)
            else do {
              e \<leftarrow> deleteBP env clone;
              ret (case ignoreNotFound e of Some e \<Rightarrow> Inl e | None \<Rightarrow> Inr False)
            })
     }"

fun pruneClones :: "Env \<Rightarrow> BuildProjectReconciler \<Rightarrow> string list \<Rightarrow> BuildProject list \<Rightarrow> bool \<Rightarrow> (bool \<times> ApiErr option) cprog" where
  "pruneClones env r want [] deferred = ret (deferred, None)"
| "pruneClones env r want (clone # rest) deferred =
     (if bp_Name clone \<in> set want then pruneClones env r want rest deferred
      else do {
        p \<leftarrow> pruneClone env r clone;
        (case p of
           Inl e \<Rightarrow> ret (deferred, Some e)
         | Inr busy \<Rightarrow> pruneClones env r want rest (deferred \<or> busy))
      })"

definition ensureClone :: "Env \<Rightarrow> Lib \<Rightarrow> BuildProjectReconciler \<Rightarrow> BuildProject \<Rightarrow> int \<Rightarrow> ApiErr option cprog" where
  "ensureClone env lib r bp i =
     (let ckey = cloneKey (sp_Key (bp_Spec bp)) i in
      do {
        g \<leftarrow> getBP env Cached ckey (cf_Namespace (rc_Cfg r));
        (case g of
           Inr _ \<Rightarrow> ret None
         | Inl e \<Rightarrow>
             if \<not> isNotFound e then ret (Some e)
             else
               let clone = (bareProject ckey)\<lparr>bp_Namespace := cf_Namespace (rc_Cfg r),
                     bp_Labels := [(projectKeyLabel, sp_Key (bp_Spec bp)), (cloneOfLabel, sp_Key (bp_Spec bp))],
                     bp_Spec := deriveChild (bp_Spec bp) (st_LastSnapshot (bp_Status bp)) CloneChild ckey\<rparr>
               in (case lib_setControllerRef lib bp ckey (cf_Namespace (rc_Cfg r)) of
                     Some e \<Rightarrow> ret (Some e)
                   | None \<Rightarrow>
                       do {
                         c \<leftarrow> createBP env (clone\<lparr>bp_Owner := Some (bp_Name bp)\<rparr>);
                         ret (case c of Inl e \<Rightarrow> Some e | Inr _ \<Rightarrow> None)
                       }))
      })"

definition ensureClones :: "Env \<Rightarrow> Lib \<Rightarrow> BuildProjectReconciler \<Rightarrow> BuildProject \<Rightarrow> ApiErr option cprog" where
  "ensureClones env lib r bp =
     (if sp_Fanout (bp_Spec bp) \<le> 0 \<or> st_LastSnapshot (bp_Status bp) = [] then ret None
      else forEach (cloneIndexes (sp_Fanout (bp_Spec bp))) (ensureClone env lib r bp))"

definition reconcileFanout :: "Env \<Rightarrow> Lib \<Rightarrow> BuildProjectReconciler \<Rightarrow> BuildProject \<Rightarrow> (bool \<times> ApiErr option) cprog" where
  "reconcileFanout env lib r bp =
     (let want = map (cloneKey (sp_Key (bp_Spec bp))) (cloneIndexes (sp_Fanout (bp_Spec bp))) in
      do {
        cs \<leftarrow> listBP env (cf_Namespace (rc_Cfg r)) (Some (cloneOfLabel, sp_Key (bp_Spec bp)));
        (case cs of
           Inl e \<Rightarrow> ret (False, Some e)
         | Inr clones \<Rightarrow>
             do {
               (deferred, err) \<leftarrow> pruneClones env r want clones False;
               (case err of
                  Some e \<Rightarrow> ret (deferred, Some e)
                | None \<Rightarrow> do { e \<leftarrow> ensureClones env lib r bp; ret (deferred, e) })
             })
      })"

section \<open>Reconcile\<close>

text \<open>The status the pass writes, and whether it differs enough to be written.\<close>

definition newStatus :: "Lib \<Rightarrow> BuildProjectStatus \<Rightarrow> InflightBuild list \<Rightarrow> bool \<Rightarrow> int \<Rightarrow> string \<Rightarrow> string \<Rightarrow> string \<Rightarrow> BuildProjectStatus" where
  "newStatus lib st liveInflight rewrite ready newPhase newEndpoint condMsg =
     (let st = (if rewrite then setInflight liveInflight st else st) in
      st\<lparr>st_Replicas := ready, st_Endpoint := newEndpoint, st_Phase := newPhase,
         st_Conditions := lib_setStatusCondition lib (st_Conditions st)
           \<lparr>cd_Type = ''Ready'', cd_Status = boolToCond (ready \<ge> 1), cd_Reason = newPhase, cd_Message = condMsg\<rparr>\<rparr>)"

definition statusChanged :: "Lib \<Rightarrow> BuildProjectStatus \<Rightarrow> int \<Rightarrow> string \<Rightarrow> string \<Rightarrow> bool" where
  "statusChanged lib st ready newPhase newEndpoint \<longleftrightarrow>
     st_Replicas st \<noteq> ready \<or> st_Phase st \<noteq> newPhase \<or> st_Endpoint st \<noteq> newEndpoint \<or>
     (case lib_findStatusCondition lib (st_Conditions st) ''Ready'' of
        None \<Rightarrow> True
      | Some prev \<Rightarrow> cd_Status prev \<noteq> boolToCond (ready \<ge> 1) \<or> cd_Reason prev \<noteq> newPhase)"

text \<open>The soonest of a requeue and a candidate (0 is none).\<close>

definition sooner :: "duration \<Rightarrow> duration \<Rightarrow> duration" where
  "sooner requeue d = (if requeue = 0 \<or> d < requeue then d else requeue)"

text \<open>The candidates in the order of the code: idle re-check, not ready, next snapshot, expiry of the oldest
  build, pending prune, held roll (0 or less is none).\<close>

definition requeueOf :: "duration \<Rightarrow> bool \<Rightarrow> duration \<Rightarrow> duration \<Rightarrow> bool \<Rightarrow> bool \<Rightarrow> duration" where
  "requeueOf idle notReady snapAfter expiry prunePending rollHeld =
     (let q = idle;
          q = (if notReady then sooner q scalingRecheckInterval else q);
          q = (if snapAfter > 0 then sooner q snapAfter else q);
          q = (if expiry > 0 then sooner q expiry else q);
          q = (if prunePending then sooner q drainRecheckInterval else q);
          q = (if rollHeld then sooner q drainRecheckInterval else q)
      in if q > 0 then q else 0)"

definition requeueAfter :: "Env \<Rightarrow> BuildProjectReconciler \<Rightarrow> BuildProject \<Rightarrow> int \<Rightarrow> int \<Rightarrow> duration \<Rightarrow> InflightBuild list \<Rightarrow> bool \<Rightarrow> bool \<Rightarrow> duration cprog" where
  "requeueAfter env r bp desired ready snapAfter liveInflight prunePending rollHeld =
     do {
       idle \<leftarrow> (if desired = 1 \<and> sp_Tier (bp_Spec bp) \<noteq> TierHot
             then do { now \<leftarrow> timeNow env; ret (idleRecheckInterval bp now (adaptiveIdleMax r)) }
             else ret 0);
       expiry \<leftarrow> (case liveInflight of
          [] \<Rightarrow> ret 0
        | b # _ \<Rightarrow> do { now \<leftarrow> timeNow env; ret (timeSub (ib_Since b + maxBuildAge r) now) });
       ret (requeueOf idle (desired = 1 \<and> ready < 1) snapAfter expiry prunePending rollHeld)
     }"

text \<open>The pass once the daemon's size is decided, in three parts: converge the objects, reflect the daemon in
  the status, run the snapshot, fan-out and auto-grow loops and choose the requeue.\<close>

definition runLoops :: "Env \<Rightarrow> Lib \<Rightarrow> (float64 \<Rightarrow> int) \<Rightarrow> BuildProjectReconciler \<Rightarrow> BuildProject \<Rightarrow> int \<Rightarrow> int \<Rightarrow> InflightBuild list \<Rightarrow> bool \<Rightarrow> (duration \<times> ApiErr option) cprog" where
  "runLoops env lib impl r bp desired ready liveInflight rollHeld =
     do {
       (snapAfter, _, bp) \<leftarrow> maybeSnapshot env lib r bp;
       (prunePending, _) \<leftarrow> reconcileFanout env lib r bp;
       _ \<leftarrow> maybeAutoGrow env lib impl r bp ready;
       q \<leftarrow> requeueAfter env r bp desired ready snapAfter liveInflight prunePending rollHeld;
       ret (q, None)
     }"

text \<open>The phase with the wedged pods surfaced, and the message of the condition.\<close>

definition phaseAndMessage :: "Env \<Rightarrow> BuildProjectReconciler \<Rightarrow> string \<Rightarrow> int \<Rightarrow> int \<Rightarrow> (string \<times> string) cprog" where
  "phaseAndMessage env r key desired ready =
     (let newPhase = phaseFrom desired ready;
          condMsg = ''replicas desired='' @ itoa desired @ '' ready='' @ itoa ready
      in if newPhase = ''Scaling'' then
           do {
             reason \<leftarrow> daemonFailure env r key;
             ret (if reason \<noteq> [] then (''Failed'', ''daemon pod unhealthy: '' @ reason) else (newPhase, condMsg))
           }
         else ret (newPhase, condMsg))"

definition reflectStatus :: "Env \<Rightarrow> Lib \<Rightarrow> (float64 \<Rightarrow> int) \<Rightarrow> BuildProjectReconciler \<Rightarrow> BuildProject \<Rightarrow> int \<Rightarrow> InflightBuild list \<Rightarrow> nat \<Rightarrow> bool \<Rightarrow> bool \<Rightarrow> (duration \<times> ApiErr option) cprog" where
  "reflectStatus env lib impl r bp desired liveInflight expired adopted rollHeld =
     do {
       live \<leftarrow> getSts env (daemonName (sp_Key (bp_Spec bp))) (cf_Namespace (rc_Cfg r));
       let ready = (case live of Inl _ \<Rightarrow> 0 | Inr s \<Rightarrow> ss_ReadyReplicas s);
       pm \<leftarrow> phaseAndMessage env r (sp_Key (bp_Spec bp)) desired ready;
       let newEndpoint = endpoint (sp_Key (bp_Spec bp)) (cf_Namespace (rc_Cfg r)) (cf_Port (rc_Cfg r));
       let rewrite = (expired > 0 \<or> adopted \<or> st_InflightBuilds (bp_Status bp) \<noteq> int (length liveInflight));
       let changed = (statusChanged lib (bp_Status bp) ready (fst pm) newEndpoint \<or> rewrite);
       let bp = bp\<lparr>bp_Status := newStatus lib (bp_Status bp) liveInflight rewrite ready (fst pm) newEndpoint (snd pm)\<rparr>;
       upd \<leftarrow> (if changed then updateBPStatus env bp else ret (Inr bp));
       (case upd of
          Inl e \<Rightarrow> ret (0, ignoreNotFound (Some e))
        | Inr bp \<Rightarrow> runLoops env lib impl r bp desired ready liveInflight rollHeld)
     }"

definition convergeDaemon :: "Env \<Rightarrow> Lib \<Rightarrow> (float64 \<Rightarrow> int) \<Rightarrow> BuildProjectReconciler \<Rightarrow> BuildProject \<Rightarrow> int \<Rightarrow> InflightBuild list \<Rightarrow> nat \<Rightarrow> bool \<Rightarrow> (duration \<times> ApiErr option) cprog" where
  "convergeDaemon env lib impl r bp desired liveInflight expired adopted =
     do {
       se \<leftarrow> ensureService env lib r bp;
       (case se of
          Some e \<Rightarrow> ret (0, Some (Wrap ''ensure service'' e))
        | None \<Rightarrow>
            do {
              _ \<leftarrow> ensurePDB env lib r bp (length liveInflight > 0);
              sts \<leftarrow> ensureStatefulSet env lib r bp desired liveInflight;
              (case sts of
                 Inl e \<Rightarrow> ret (0, Some (Wrap ''ensure statefulset'' e))
               | Inr rollHeld \<Rightarrow>
                   do {
                     rollsHeldSet (sp_Key (bp_Spec bp)) rollHeld;
                     reflectStatus env lib impl r bp desired liveInflight expired adopted rollHeld
                   })
            })
     }"

text \<open>The two ends of a pass: an idle fork past its grace period is reaped, everything else converges.\<close>

definition takeDownOrConverge :: "Env \<Rightarrow> Lib \<Rightarrow> (float64 \<Rightarrow> int) \<Rightarrow> BuildProjectReconciler \<Rightarrow> BuildProject \<Rightarrow> int \<Rightarrow> InflightBuild list \<Rightarrow> nat \<Rightarrow> bool \<Rightarrow> (duration \<times> ApiErr option) cprog" where
  "takeDownOrConverge env lib impl r bp desired liveInflight expired adopted =
     (if isForkKey (sp_Key (bp_Spec bp)) \<and> desired = 0 then
        do {
          now \<leftarrow> timeNow env;
          let age = timeSub now (bp_CreationTimestamp bp);
          (if age < forkReapGrace then ret (wrap64 (forkReapGrace - age), None)
           else do {
             e \<leftarrow> reapFork env r bp;
             ret (0, e)
           })
        }
      else convergeDaemon env lib impl r bp desired liveInflight expired adopted)"

definition Reconcile :: "Env \<Rightarrow> Lib \<Rightarrow> (float64 \<Rightarrow> int) \<Rightarrow> BuildProjectReconciler \<Rightarrow> string \<Rightarrow> string \<Rightarrow> (duration \<times> ApiErr option) cprog" where
  "Reconcile env lib impl r name ns =
     do {
       g \<leftarrow> getBP env Cached name ns;
       (case g of
          Inl e \<Rightarrow> ret (0, ignoreNotFound (Some e))
        | Inr bp \<Rightarrow>
            do {
              let bp = applyDefaults bp;
              let (st, adopted) = adoptLegacyInflight (bp_Status bp);
              let bp = bp\<lparr>bp_Status := st\<rparr>;
              t1 \<leftarrow> timeNow env;
              let (liveInflight, expired) = expireInflight (st_Inflight st) t1 (maxBuildAge r);
              t2 \<leftarrow> timeNow env;
              let desired = desiredReplicas bp liveInflight t2 (adaptiveIdleMax r);
              (if desired = 0 then
                 do {
                   fresh \<leftarrow> freshInflightEntries env r bp;
                   (case fresh of
                      Inl e \<Rightarrow> ret (0, Some (Wrap ''re-read inflight before taking the daemon down'' e))
                    | Inr es \<Rightarrow>
                        if length es > 0 then takeDownOrConverge env lib impl r bp 1 es expired adopted
                        else takeDownOrConverge env lib impl r bp desired liveInflight expired adopted)
                 }
               else takeDownOrConverge env lib impl r bp desired liveInflight expired adopted)
            })
     }"

section \<open>Properties of the decisions\<close>

lemma effectiveIdle_exact:
  assumes "0 \<le> sp_IdleTimeoutSec (bp_Spec bp)" "sp_IdleTimeoutSec (bp_Spec bp) \<le> 307445734"
    and "length (st_RecentBuildTimes (bp_Status bp)) \<le> RecentBuildTimesCap"
    and "base = sp_IdleTimeoutSec (bp_Spec bp) * second" "n = buildsInWindow (st_RecentBuildTimes (bp_Status bp)) now"
  shows "effectiveIdle bp now adaptiveMax =
           (if base < adaptiveMax \<and> \<not> isForkKey (sp_Key (bp_Spec bp)) then min adaptiveMax (base * int (max 1 n)) else base)"
proof -
  have b: "0 \<le> base" "base \<le> 307445734000000000" using assms(1,2,4) by (simp_all add: second_def)
  have n: "n \<le> 30" using assms(3,5) length_filter_le [of "\<lambda>t. timeSub now t \<le> AdaptiveWindow" "st_RecentBuildTimes (bp_Status bp)"]
    by (simp add: buildsInWindow_def RecentBuildTimesCap_def del: length_filter_le)
  have small: "0 \<le> x \<Longrightarrow> x \<le> 9223372020000000000 \<Longrightarrow> wrap64 x = x" for x :: int by (simp add: wrap64_id)
  have "base * int n \<le> 307445734000000000 * 30" using b n by (intro mult_mono) auto
  moreover have "0 \<le> base * int n" using b by simp
  ultimately have w: "wrap64 (base * int n) = base * int n" using small [of "base * int n"] by simp
  have w': "wrap64 base = base" using b small [of base] by simp
  show ?thesis
    unfolding effectiveIdle_def Let_def assms(4) [symmetric] assms(5) [symmetric] w w'
    using b by (auto simp: min_def max_def)
qed

text \<open>\<^bold>\<open>The idle window.\<close> Below ten years of idle timeout nothing overflows: with adaptivity on, a project
  that is not a fork gets its timeout multiplied by the builds of the last 24 hours, capped at the
  operator's maximum; a fork, a timeout at or above the cap, and adaptivity off keep the timeout as it
  is. The window is never shorter than the timeout and never longer than the cap or the timeout.\<close>

theorem effectiveIdle_window:
  assumes "0 \<le> sp_IdleTimeoutSec (bp_Spec bp)" "sp_IdleTimeoutSec (bp_Spec bp) \<le> 307445734"
    and "length (st_RecentBuildTimes (bp_Status bp)) \<le> RecentBuildTimesCap"
    and "base = sp_IdleTimeoutSec (bp_Spec bp) * second" "n = buildsInWindow (st_RecentBuildTimes (bp_Status bp)) now"
  shows "effectiveIdle bp now adaptiveMax =
           (if base < adaptiveMax \<and> \<not> isForkKey (sp_Key (bp_Spec bp)) then min adaptiveMax (base * int (max 1 n)) else base) \<and>
         base \<le> effectiveIdle bp now adaptiveMax \<and> effectiveIdle bp now adaptiveMax \<le> max base adaptiveMax"
proof -
  have "0 \<le> base" using assms(1,4) by (simp add: second_def)
  then have "base * 1 \<le> base * int (max 1 n)" by (intro mult_left_mono) auto
  then show ?thesis unfolding effectiveIdle_exact [OF assms] by (auto simp: min_def max_def)
qed

theorem effectiveIdle_window_witness:
  "effectiveIdle ((bareProject ''p1'')\<lparr>bp_Spec := zeroSpec\<lparr>sp_Key := ''p1'', sp_IdleTimeoutSec := 900\<rparr>,
     bp_Status := zeroStatus\<lparr>st_RecentBuildTimes := [1, 2, 3]\<rparr>\<rparr>) 5 (2 * hour) = 2700 * second"
  using effectiveIdle_window [of "(bareProject ''p1'')\<lparr>bp_Spec := zeroSpec\<lparr>sp_Key := ''p1'', sp_IdleTimeoutSec := 900\<rparr>,
     bp_Status := zeroStatus\<lparr>st_RecentBuildTimes := [1, 2, 3]\<rparr>\<rparr>" "900 * second" 3 5 "2 * hour"]
  by (simp add: bareProject_def zeroSpec_def zeroStatus_def RecentBuildTimesCap_def buildsInWindow_def timeSub_def
      AdaptiveWindow_def duration_consts isForkKey_def hasPrefix_def)

text \<open>\<^bold>\<open>When a daemon runs.\<close> The decision is 0 or 1. It is 1 exactly for a hot project, while a build is
  live, or within the idle window of the last build; so a project with a live build is never sized to
  zero, and one that is idle past its window and not hot always is.\<close>

theorem desiredReplicas_exact:
  "desiredReplicas bp live now amax =
     (if sp_Tier (bp_Spec bp) = TierHot \<or> length live > 0 \<or>
         (\<exists>t. st_LastBuildTime (bp_Status bp) = Some t \<and> 0 < effectiveIdle bp now amax \<and> timeSub now t < effectiveIdle bp now amax)
      then 1 else 0)"
  by (auto simp: desiredReplicas_def Let_def split: option.split)

lemma idleRecheckInterval_bounds:
  "30 * second \<le> idleRecheckInterval bp now amax \<and>
   idleRecheckInterval bp now amax \<le> max (30 * second) (divTrunc (effectiveIdle bp now amax) 6) \<and>
   (\<forall>t. st_LastBuildTime (bp_Status bp) = Some t \<longrightarrow>
      idleRecheckInterval bp now amax \<le> max (30 * second) (wrap64 (wrap64 (effectiveIdle bp now amax - timeSub now t) + 5 * second)))"
  by (auto simp: idleRecheckInterval_def Let_def split: option.split)

lemma sooner_pos: "0 \<le> q \<Longrightarrow> 0 < d \<Longrightarrow> 0 < sooner q d"
  by (simp add: sooner_def)

lemma sooner_le: "0 < d \<Longrightarrow> sooner q d \<le> d"
  by (simp add: sooner_def)

lemma sooner_mono: "0 < q \<Longrightarrow> sooner q d \<le> q"
  by (simp add: sooner_def)

lemma requeueOf_pos:
  assumes "0 \<le> idle" "idle > 0 \<or> notReady \<or> snapAfter > 0 \<or> expiry > 0 \<or> prunePending \<or> rollHeld"
  shows "0 < requeueOf idle notReady snapAfter expiry prunePending rollHeld"
proof -
  have c: "0 < scalingRecheckInterval" "0 < drainRecheckInterval"
    by (simp_all add: scalingRecheckInterval_def drainRecheckInterval_def second_def)
  have s: "0 \<le> q \<Longrightarrow> 0 < d \<Longrightarrow> 0 < (if b then sooner q d else q) \<longleftrightarrow> b \<or> 0 < q"
    "0 \<le> q \<Longrightarrow> (b \<Longrightarrow> 0 < d) \<Longrightarrow> 0 \<le> (if b then sooner q d else q)" for q d b
    by (auto simp: sooner_def)
  have s': "0 \<le> q \<Longrightarrow> 0 < (if d > 0 then sooner q d else q) \<longleftrightarrow> 0 < d \<or> 0 < q" for q d by (auto simp: sooner_def)
  show ?thesis unfolding requeueOf_def Let_def using assms c by (auto simp: s s')
qed

lemma requeueOf_le:
  "(0 < idle \<longrightarrow> requeueOf idle notReady snapAfter expiry prunePending rollHeld \<le> idle) \<and>
   (notReady \<or> prunePending \<or> rollHeld \<longrightarrow> 0 \<le> idle \<longrightarrow> requeueOf idle notReady snapAfter expiry prunePending rollHeld \<le> 30 * second) \<and>
   (0 < snapAfter \<longrightarrow> 0 \<le> idle \<longrightarrow> requeueOf idle notReady snapAfter expiry prunePending rollHeld \<le> snapAfter) \<and>
   (0 < expiry \<longrightarrow> 0 \<le> idle \<longrightarrow> requeueOf idle notReady snapAfter expiry prunePending rollHeld \<le> expiry)"
proof -
  have c: "scalingRecheckInterval = 30 * second" "drainRecheckInterval = 30 * second" "0 < second"
    by (simp_all add: scalingRecheckInterval_def drainRecheckInterval_def second_def)
  have t: "0 < q \<Longrightarrow> q \<le> x \<Longrightarrow> 0 < d \<Longrightarrow> 0 < sooner q d \<and> sooner q d \<le> x" "0 \<le> q \<Longrightarrow> 0 < d \<Longrightarrow> 0 < sooner q d \<and> sooner q d \<le> d" for q d x
    by (auto simp: sooner_def)
  show ?thesis unfolding requeueOf_def Let_def c using c(3)
    by (intro conjI impI; cases notReady; cases prunePending; cases rollHeld; cases "0 < snapAfter"; cases "0 < expiry")
       (simp_all add: sooner_def)
qed

text \<open>C17: \<^bold>\<open>A held roll is bounded.\<close> When a roll is held, the pods are not wedged, the youngest build has run for at
  most an hour and the moment stamped at the first hold is at most the maximal build age ago; the hold
  leaves that stamp as it is, so repeated passes cannot extend it. A roll that goes ahead has one of
  the three reasons.\<close>

theorem holdRoll_bounded:
  assumes "run_state (holdRoll env r bp sts live) w = ((held, sts'), w')"
    and stamp: "labelOf (ss_Annotations sts) rollHeldSinceAnnotation = formatRFC3339 t0"
    and year: "fst (yearDay (t0 div 1000000000 div 86400)) \<in> {0..9999}"
  shows "(held \<longrightarrow> sts' = sts \<and> (\<exists>t1 t2 rest. w_log w' = ENow t2 # ENow t1 # rest \<and>
            timeSub t1 (ib_Since (last live)) \<le> minBuildGrace \<and>
            timeSub t2 (t0 div 1000000000 * 1000000000) \<le> maxBuildAge r)) \<and>
         (\<not> held \<longrightarrow> (\<exists>ps. EListPod (cf_Namespace (rc_Cfg r)) (sp_Key (bp_Spec bp)) (Inr ps) \<in> set (w_log w') \<and> podsFailure ps \<noteq> []) \<or>
            (\<exists>t1 t2 rest. w_log w' = ENow t2 # ENow t1 # rest \<and>
              (timeSub t1 (ib_Since (last live)) > minBuildGrace \<or>
               timeSub t2 (t0 div 1000000000 * 1000000000) > maxBuildAge r)))"
proof -
  have "wp (holdRoll env r bp sts live) (\<lambda>(held, sts') w'.
      (held \<longrightarrow> sts' = sts \<and> (\<exists>t1 t2 rest. w_log w' = ENow t2 # ENow t1 # rest \<and>
            timeSub t1 (ib_Since (last live)) \<le> minBuildGrace \<and>
            timeSub t2 (t0 div 1000000000 * 1000000000) \<le> maxBuildAge r)) \<and>
      (\<not> held \<longrightarrow> (\<exists>ps. EListPod (cf_Namespace (rc_Cfg r)) (sp_Key (bp_Spec bp)) (Inr ps) \<in> set (w_log w') \<and> podsFailure ps \<noteq> []) \<or>
            (\<exists>t1 t2 rest. w_log w' = ENow t2 # ENow t1 # rest \<and>
              (timeSub t1 (ib_Since (last live)) > minBuildGrace \<or>
               timeSub t2 (t0 div 1000000000 * 1000000000) > maxBuildAge r)))) w"
    unfolding holdRoll_def daemonFailure_def listPod_def wp_rules stamp parse_format_RFC3339 [OF year] option.case
    by (auto simp: wp_rules Let_def not_less split: sum.splits)
  then show ?thesis using assms(1) by (simp add: wp_run)
qed

definition heldSts :: StatefulSet where
  "heldSts = (StatefulSetOf (bareProject ''p1'') zeroConfig)\<lparr>ss_Annotations := fmap_of_list [(rollHeldSinceAnnotation, formatRFC3339 0)]\<rparr>"

theorem holdRoll_bounded_witness:
  "snd (fst (run_state (holdRoll (emptyEnv (5 * minute)) zeroReconciler (bareProject ''p1'') heldSts [\<lparr>ib_ID = ''x'', ib_Since = 0\<rparr>]) freshWorld)) = heldSts"
proof -
  let ?X = "run_state (holdRoll (emptyEnv (5 * minute)) zeroReconciler (bareProject ''p1'') heldSts [\<lparr>ib_ID = ''x'', ib_Since = 0\<rparr>]) freshWorld"
  have "yearDay 0 = (1970, 0)" by code_simp
  then have year: "fst (yearDay (0 div 1000000000 div 86400)) \<in> {0..9999}" by simp
  have stamp: "labelOf (ss_Annotations heldSts) rollHeldSinceAnnotation = formatRFC3339 0" by (simp add: heldSts_def)
  have "fst (fst ?X)"
    using parse_format_RFC3339 [OF year]
    by (simp add: holdRoll_def daemonFailure_def listPod_def timeNow_def call_def emptyEnv_def stamp Let_def
        timeSub_def minBuildGrace_def maxBuildAge_def zeroReconciler_def duration_consts)
  moreover obtain h s w where X: "?X = ((h, s), w)" by (metis surj_pair)
  ultimately show ?thesis using holdRoll_bounded [OF X stamp year] by (simp only: X fst_conv snd_conv)
qed

end
