(* ===== verification/Controller_Safety.thy ===== *)
theory Controller_Safety
  imports Controller
begin

text \<open>
  The contract of the reconciler towards running builds, as a policy on its log, and the proof that every
  run of \<open>Reconcile\<close> follows it against every API server. \<open>policy\<close> says, for each kind of call that can
  sever a build or overwrite somebody else's data, what must be in the log before it:

  \<^item> a daemon is sized to zero, a project or a fork's cache is deleted and a pod is bounced only after a read
    through the uncached reader that showed no live build (\<open>confirmedIdle\<close>);
  \<^item> a pod template is replaced only then, or when a hold was refused for one of its three reasons;
  \<^item> a claim and a spec are written only as a growth of the object read immediately before;
  \<^item> a status write leaves the fields of the routing API as they were read, and carries the builds it read or
    the live ones among them.
\<close>

section \<open>What the log shows\<close>

definition idleReadAt :: "BuildProjectReconciler \<Rightarrow> string \<Rightarrow> string \<Rightarrow> Event \<Rightarrow> elog \<Rightarrow> bool" where
  "idleReadAt r n ns e past =
     (case e of
        EGetBP rd n' ns' res \<Rightarrow>
          rd = freshReader r \<and> n' = n \<and> ns' = ns \<and> (case res of Inl err \<Rightarrow> isNotFound err | Inr _ \<Rightarrow> False)
      | ENow t \<Rightarrow>
          (case past of
             [] \<Rightarrow> False
           | g # _ \<Rightarrow>
               (case g of
                  EGetBP rd n' ns' res \<Rightarrow>
                    rd = freshReader r \<and> n' = n \<and> ns' = ns \<and>
                    (case res of Inl _ \<Rightarrow> False | Inr cur \<Rightarrow> liveEntries r (bp_Status cur) t = [])
                | _ \<Rightarrow> False))
      | _ \<Rightarrow> False)"

text \<open>Somewhere in the log, a fresh read of the project found no live build (or no project).\<close>

primrec confirmedIdle :: "BuildProjectReconciler \<Rightarrow> string \<Rightarrow> string \<Rightarrow> elog \<Rightarrow> bool" where
  "confirmedIdle r n ns [] = False"
| "confirmedIdle r n ns (e # l) = (idleReadAt r n ns e l \<or> confirmedIdle r n ns l)"

text \<open>The objects an event shows.\<close>

definition shownBPs :: "Event \<Rightarrow> BuildProject list" where
  "shownBPs e =
     (case e of
        EGetBP _ _ _ (Inr b) \<Rightarrow> [b]
      | EListBP _ _ (Inr bs) \<Rightarrow> bs
      | EUpdateBPStatus _ (Inr b) \<Rightarrow> [b]
      | EPatchBPStatus _ _ (Inr b) \<Rightarrow> [b]
      | _ \<Rightarrow> [])"

text \<open>The server returned a project of that name, namespace and key.\<close>

definition knownProject :: "string \<Rightarrow> string \<Rightarrow> string \<Rightarrow> elog \<Rightarrow> bool" where
  "knownProject n ns key l \<longleftrightarrow>
     (\<exists>e \<in> set l. \<exists>b \<in> set (shownBPs e). bp_Name b = n \<and> bp_Namespace b = ns \<and> sp_Key (bp_Spec b) = key)"

text \<open>The live builds a decision was taken on were read from the project.\<close>

definition liveSeen :: "BuildProjectReconciler \<Rightarrow> string \<Rightarrow> string \<Rightarrow> InflightBuild list \<Rightarrow> elog \<Rightarrow> bool" where
  "liveSeen r n ns live l \<longleftrightarrow>
     (\<exists>rd n' ns' cur t. EGetBP rd n' ns' (Inr cur) \<in> set l \<and> (n' = n \<and> ns' = ns \<or> bp_Name cur = n \<and> bp_Namespace cur = ns) \<and>
        ENow t \<in> set l \<and> live = liveEntries r (bp_Status cur) t)"

text \<open>The three reasons to roll through live builds.\<close>

definition rollForced :: "BuildProjectReconciler \<Rightarrow> string \<Rightarrow> string \<Rightarrow> string \<Rightarrow> StatefulSet \<Rightarrow> elog \<Rightarrow> bool" where
  "rollForced r n ns key base l \<longleftrightarrow>
     (\<exists>ps. EListPod (cf_Namespace (rc_Cfg r)) key (Inr ps) \<in> set l \<and> podsFailure ps \<noteq> []) \<or>
     (\<exists>live t. liveSeen r n ns live l \<and> live \<noteq> [] \<and> ENow t \<in> set l \<and> timeSub t (ib_Since (last live)) > minBuildGrace) \<or>
     (\<exists>since t. (parseRFC3339 (labelOf (ss_Annotations base) rollHeldSinceAnnotation) = Some since \<or> ENow since \<in> set l) \<and>
        ENow t \<in> set l \<and> timeSub t since > maxBuildAge r)"

section \<open>The policy\<close>

definition okPatch :: "BuildProjectReconciler \<Rightarrow> StatefulSet \<Rightarrow> StatefulSet \<Rightarrow> elog \<Rightarrow> bool" where
  "okPatch r base new l \<longleftrightarrow>
     (\<exists>n ns key. knownProject n ns key l \<and> EGetSts (daemonName key) (cf_Namespace (rc_Cfg r)) (Inr base) \<in> set l \<and>
        (ss_Replicas new = Some 0 \<longrightarrow> confirmedIdle r n ns l) \<and>
        (ss_Template new \<noteq> ss_Template base \<longrightarrow> confirmedIdle r n ns l \<or> rollForced r n ns key base l)) \<and>
     ss_Name new = ss_Name base \<and> ss_Selector new = ss_Selector base \<and>
     ss_VolumeClaimTemplates new = ss_VolumeClaimTemplates base \<and> ss_PvcRetention new = ss_PvcRetention base"

definition okDeleteBP :: "BuildProjectReconciler \<Rightarrow> BuildProject \<Rightarrow> elog \<Rightarrow> bool" where
  "okDeleteBP r b l \<longleftrightarrow>
     confirmedIdle r (bp_Name b) (bp_Namespace b) l \<and>
     (isForkKey (sp_Key (bp_Spec b)) \<and> (\<exists>t. ENow t \<in> set l \<and> timeSub t (bp_CreationTimestamp b) \<ge> forkReapGrace) \<or>
      (\<exists>key cs. EListBP (cf_Namespace (rc_Cfg r)) (Some (cloneOfLabel, key)) (Inr cs) \<in> set l \<and> b \<in> set cs))"

definition okDeletePvc :: "BuildProjectReconciler \<Rightarrow> Pvc \<Rightarrow> elog \<Rightarrow> bool" where
  "okDeletePvc r p l \<longleftrightarrow>
     (\<exists>n ns key. knownProject n ns key l \<and> isForkKey key \<and> confirmedIdle r n ns l \<and>
        EGetPvc (cachePVCName key) (cf_Namespace (rc_Cfg r)) (Inr p) \<in> set l)"

definition okDeletePod :: "BuildProjectReconciler \<Rightarrow> Pod \<Rightarrow> elog \<Rightarrow> bool" where
  "okDeletePod r p l \<longleftrightarrow>
     (\<exists>n ns key. knownProject n ns key l \<and> confirmedIdle r n ns l \<and>
        EGetPod (daemonName key @ ''-0'') (cf_Namespace (rc_Cfg r)) (Inr p) \<in> set l)"

definition okUpdatePvc :: "Lib \<Rightarrow> BuildProjectReconciler \<Rightarrow> Pvc \<Rightarrow> elog \<Rightarrow> bool" where
  "okUpdatePvc lib r p l \<longleftrightarrow>
     (\<exists>n ns cur rest gi. l = EGetPvc n ns (Inr cur) # rest \<and> p = cur\<lparr>pvc_Request := Some (itoa gi @ ''Gi'')\<rparr> \<and>
        giOf lib (pvc_Request cur) < gi \<and> gi \<le> wrap32 (rc_AutoGrowMaxGi r))"

definition okUpdateBP :: "BuildProject \<Rightarrow> elog \<Rightarrow> bool" where
  "okUpdateBP b l \<longleftrightarrow>
     (\<exists>n ns cur rest gi. l = EGetBP Cached n ns (Inr cur) # rest \<and>
        b = cur\<lparr>bp_Spec := (bp_Spec cur)\<lparr>sp_CacheVolumeGi := gi\<rparr>\<rparr> \<and> sp_CacheVolumeGi (bp_Spec cur) < gi)"

text \<open>The live builds of a project read as \<open>b0\<close>: those of \<open>b0\<close>, or those an uncached read after it showed.\<close>

definition liveRead :: "BuildProjectReconciler \<Rightarrow> BuildProject \<Rightarrow> InflightBuild list \<Rightarrow> elog \<Rightarrow> bool" where
  "liveRead r b0 live l \<longleftrightarrow>
     (\<exists>t. ENow t \<in> set l \<and> live = liveEntries r (bp_Status b0) t) \<or>
     (\<exists>later past cur t n ns. l = later @ EGetBP (freshReader r) (bp_Name b0) (bp_Namespace b0) (Inr cur) # past \<and>
        EGetBP Cached n ns (Inr b0) \<in> set past \<and> ENow t \<in> set l \<and> live = liveEntries r (bp_Status cur) t)"

text \<open>The builds a status carries: those of the object it was computed from, or its live ones.\<close>

definition carriesEntries :: "BuildProjectReconciler \<Rightarrow> BuildProject \<Rightarrow> BuildProject \<Rightarrow> elog \<Rightarrow> bool" where
  "carriesEntries r b b0 l \<longleftrightarrow>
     st_Inflight (bp_Status b) = st_Inflight (fst (adoptLegacyInflight (bp_Status b0))) \<or>
     (\<exists>live. liveRead r b0 live l \<and> st_Inflight (bp_Status b) = capInflight live)"

text \<open>A status patch carries the name of a snapshot and nothing else.\<close>

definition okPatchStatus :: "BuildProject \<Rightarrow> BuildProject \<Rightarrow> bool" where
  "okPatchStatus base b \<longleftrightarrow> (\<exists>snap. b = base\<lparr>bp_Status := (bp_Status base)\<lparr>st_LastSnapshot := snap\<rparr>\<rparr>)"

definition okUpdateStatus :: "BuildProjectReconciler \<Rightarrow> BuildProject \<Rightarrow> elog \<Rightarrow> bool" where
  "okUpdateStatus r b l \<longleftrightarrow>
     (\<exists>n ns b0. EGetBP Cached n ns (Inr b0) \<in> set l \<and> bp_Name b = bp_Name b0 \<and> bp_Namespace b = bp_Namespace b0 \<and>
        bp_ResourceVersion b = bp_ResourceVersion b0 \<and> carriesEntries r b b0 l \<and>
        st_LastBuildTime (bp_Status b) = st_LastBuildTime (bp_Status b0) \<and>
        st_RecentBuildTimes (bp_Status b) = st_RecentBuildTimes (bp_Status b0) \<and>
        st_LastCacheExportGrant (bp_Status b) = st_LastCacheExportGrant (bp_Status b0) \<and>
        st_LastSnapshot (bp_Status b) = st_LastSnapshot (bp_Status b0))"

definition policy :: "Lib \<Rightarrow> BuildProjectReconciler \<Rightarrow> Event \<Rightarrow> elog \<Rightarrow> bool" where
  "policy lib r e l =
     (case e of
        EPatchSts base new _ \<Rightarrow> okPatch r base new l
      | EDeleteBP b _ \<Rightarrow> okDeleteBP r b l
      | EDeletePvc p _ \<Rightarrow> okDeletePvc r p l
      | EDeletePod p _ \<Rightarrow> okDeletePod r p l
      | EUpdatePvc p _ \<Rightarrow> okUpdatePvc lib r p l
      | EUpdateBP b _ \<Rightarrow> okUpdateBP b l
      | EUpdateBPStatus b _ \<Rightarrow> okUpdateStatus r b l
      | EPatchBPStatus base b _ \<Rightarrow> okPatchStatus base b
      | _ \<Rightarrow> True)"

lemma okPatchStatus_snap: "okPatchStatus x (x\<lparr>bp_Status := (bp_Status x)\<lparr>st_LastSnapshot := y\<rparr>\<rparr>)"
  by (auto simp: okPatchStatus_def)

lemma policy_simps [simp]:
  "policy lib r (ENow t) l" "policy lib r (EGetBP rd n ns x1) l" "policy lib r (EListBP ns sel x2) l"
  "policy lib r (ECreateBP b x3) l" "policy lib r (EPatchBPStatus b b' x4) l = okPatchStatus b b'"
  "policy lib r (EGetSvc n ns x5) l" "policy lib r (ECreateSvc sv x6) l" "policy lib r (EUpdateSvc sv x6) l"
  "policy lib r (EGetPDB n ns x7) l" "policy lib r (ECreatePDB pd x6) l" "policy lib r (EUpdatePDB pd x6) l" "policy lib r (EDeletePDB pd x6) l"
  "policy lib r (EGetSts n ns x8) l" "policy lib r (ECreateSts st x6) l" "policy lib r (EGetPvc n ns x9) l" "policy lib r (EListPvc ns x10) l"
  "policy lib r (EGetPod n ns x11) l" "policy lib r (EListPod ns n x12) l" "policy lib r (EListSnap ns n x13) l"
  "policy lib r (ECreateSnap n ns cl x14) l" "policy lib r (EDeleteSnap sn x6) l" "policy lib r (EProbeUsage n x15) l" "policy lib r (ESleep d x16) l"
  "policy lib r (EPatchSts base new x6) l = okPatch r base new l" "policy lib r (EDeleteBP b x6) l = okDeleteBP r b l"
  "policy lib r (EDeletePvc p x6) l = okDeletePvc r p l" "policy lib r (EDeletePod po x6) l = okDeletePod r po l"
  "policy lib r (EUpdatePvc p x6) l = okUpdatePvc lib r p l" "policy lib r (EUpdateBP b x6) l = okUpdateBP b l"
  "policy lib r (EUpdateBPStatus b x3) l = okUpdateStatus r b l"
  by (simp_all add: policy_def)

section \<open>Evidence survives\<close>

lemma confirmedIdle_append: "confirmedIdle r n ns l \<Longrightarrow> confirmedIdle r n ns (new @ l)"
  by (induction new) auto

lemma confirmedIdle_Cons: "confirmedIdle r n ns l \<Longrightarrow> confirmedIdle r n ns (e # l)"
  by simp

lemma knownProject_append: "knownProject n ns key l \<Longrightarrow> knownProject n ns key (new @ l)"
  by (auto simp: knownProject_def)

lemma knownProject_Cons: "knownProject n ns key l \<Longrightarrow> knownProject n ns key (e # l)"
  by (auto simp: knownProject_def)

lemma liveSeen_append: "liveSeen r n ns live l \<Longrightarrow> liveSeen r n ns live (new @ l)"
  unfolding liveSeen_def by (auto; blast)

lemma shownBPs_simps [simp]:
  "shownBPs (EGetBP rd n ns (Inr b)) = [b]" "shownBPs (EListBP ns sel (Inr bs)) = bs"
  "shownBPs (EUpdateBPStatus b' (Inr b)) = [b]" "shownBPs (EPatchBPStatus b1 b2 (Inr b)) = [b]"
  by (simp_all add: shownBPs_def)

lemma idleReadAt_simps:
  "idleReadAt r n ns (EGetBP (freshReader r) n ns (Inl err)) l = isNotFound err"
  "idleReadAt r n ns (ENow t) (EGetBP (freshReader r) n ns (Inr cur) # l) = (liveEntries r (bp_Status cur) t = [])"
  by (simp_all add: idleReadAt_def)

section \<open>The methods follow the policy\<close>

definition good :: "Lib \<Rightarrow> BuildProjectReconciler \<Rightarrow> (Event, CMem) world \<Rightarrow> bool" where
  "good lib r w \<longleftrightarrow> log_ok (policy lib r) (w_log w)"

definition ext :: "(Event, CMem) world \<Rightarrow> (Event, CMem) world \<Rightarrow> bool" where
  "ext w w' \<longleftrightarrow> (\<exists>new. w_log w' = new @ w_log w)"

lemma good_Cons: "good lib r (w\<lparr>w_log := e # l\<rparr>) \<longleftrightarrow> policy lib r e l \<and> good lib r (w\<lparr>w_log := l\<rparr>)"
  by (simp add: good_def)

lemma ext_refl [simp]: "ext w w"
  by (simp add: ext_def)

lemma ext_trans: "ext w w' \<Longrightarrow> ext w' w'' \<Longrightarrow> ext w w''"
  by (force simp: ext_def)

lemma ext_log [simp]: "ext w (w\<lparr>w_log := e # w_log w\<rparr>)" "ext w (w\<lparr>w_log := e # e' # w_log w\<rparr>)"
  by (auto simp: ext_def)

lemma ext_step: "ext w w' \<Longrightarrow> ext w (w'\<lparr>w_log := e # w_log w'\<rparr>)"
  by (auto simp: ext_def)

lemma ext_Cons: "ext w (w'\<lparr>w_log := l\<rparr>) \<Longrightarrow> ext w (w'\<lparr>w_log := e # l\<rparr>)"
  by (auto simp: ext_def)

lemma ext_idle: "ext w w' \<Longrightarrow> confirmedIdle r n ns (w_log w) \<Longrightarrow> confirmedIdle r n ns (w_log w')"
  by (auto simp: ext_def confirmedIdle_append)

lemma ext_known: "ext w w' \<Longrightarrow> knownProject n ns key (w_log w) \<Longrightarrow> knownProject n ns key (w_log w')"
  by (auto simp: ext_def knownProject_append)

lemma ext_live: "ext w w' \<Longrightarrow> liveSeen r n ns live (w_log w) \<Longrightarrow> liveSeen r n ns live (w_log w')"
  by (auto simp: ext_def liveSeen_append)

lemma ext_in: "ext w w' \<Longrightarrow> e \<in> set (w_log w) \<Longrightarrow> e \<in> set (w_log w')"
  by (auto simp: ext_def)

lemmas ext_facts = ext_idle ext_known ext_live ext_in

lemma wp_benign_good:
  assumes "emits (\<lambda>e. \<forall>h. policy lib r e h) m" "good lib r w"
  shows "wp m (\<lambda>_ w'. good lib r w' \<and> ext w w') w"
  using wp_benign [OF assms(1), of w] assms(2) by (simp add: good_def ext_def)

lemma wp_fresh:
  assumes "good lib r w"
  shows "wp (freshInflightEntries env r bp) (\<lambda>a w'. good lib r w' \<and> ext w w' \<and>
     (a = Inr [] \<longrightarrow> confirmedIdle r (bp_Name bp) (bp_Namespace bp) (w_log w')) \<and>
     (\<forall>es. a = Inr es \<longrightarrow> es \<noteq> [] \<longrightarrow> liveSeen r (bp_Name bp) (bp_Namespace bp) es (w_log w') \<and>
        (\<exists>t cur. w_log w' = ENow t # EGetBP (freshReader r) (bp_Name bp) (bp_Namespace bp) (Inr cur) # w_log w \<and> es = liveEntries r (bp_Status cur) t))) w"
proof (cases "ev_getBP env (w_log w) (freshReader r) (bp_Name bp) (bp_Namespace bp)")
  case (Inl e)
  then show ?thesis
    using assms unfolding freshInflightEntries_def
    by (simp add: wp_rules good_def idleReadAt_simps ignoreNotFound_def)
next
  case (Inr cur)
  then show ?thesis
    using assms unfolding freshInflightEntries_def
    by (auto simp: wp_rules good_def idleReadAt_simps liveSeen_def; blast)
qed

lemma benign_daemonFailure: "emits (\<lambda>e. \<forall>h. policy lib r e h) (daemonFailure env r' key)"
  unfolding daemonFailure_def by (intro emits_rules) simp_all

lemma benign_ensureService: "emits (\<lambda>e. \<forall>h. policy lib r e h) (ensureService env lib' r' bp)"
  unfolding ensureService_def by (intro emits_rules) simp_all

lemma benign_ensurePDB: "emits (\<lambda>e. \<forall>h. policy lib r e h) (ensurePDB env lib' r' bp s)"
  unfolding ensurePDB_def by (intro emits_rules) simp_all

lemma benign_rollsHeldSet: "emits (\<lambda>e. \<forall>h. policy lib r e h) (rollsHeldSet key b)"
  unfolding rollsHeldSet_def by (intro emits_rules)

lemma benign_pruneSnapshots: "emits (\<lambda>e. \<forall>h. policy lib r e h) (pruneSnapshots env lib' r' items)"
  unfolding pruneSnapshots_def by (intro emits_rules) simp_all

lemma benign_ensureClone: "emits (\<lambda>e. \<forall>h. policy lib r e h) (ensureClone env lib' r' bp i)"
  unfolding ensureClone_def by (intro emits_rules) simp_all

lemma benign_requeueAfter: "emits (\<lambda>e. \<forall>h. policy lib r e h) (requeueAfter env r' bp d rd sa live p h)"
  unfolding requeueAfter_def by (cases live) (auto intro!: emits_rules)

lemmas benign_rules = benign_daemonFailure benign_ensureService benign_ensurePDB benign_rollsHeldSet
  benign_pruneSnapshots benign_ensureClone benign_requeueAfter

text \<open>\<open>holdRoll\<close> touches the annotations only, and lets a roll through for one of the three reasons.\<close>

lemma liveSeen_Cons: "liveSeen r n ns live l \<Longrightarrow> liveSeen r n ns live (e # l)"
  using liveSeen_append [of r n ns live l "[e]"] by simp

lemma rollForced_old:
  assumes "liveSeen r n ns live l" "live \<noteq> []" "ENow t1 \<in> set l" "ENow t2 \<in> set l"
    and "parseRFC3339 (labelOf (ss_Annotations sts) rollHeldSinceAnnotation) = Some since \<or> ENow since \<in> set l"
    and "minBuildGrace < timeSub t1 (ib_Since (last live)) \<or> maxBuildAge r < timeSub t2 since"
  shows "rollForced r n ns key sts l"
  using assms unfolding rollForced_def by blast

lemma wp_holdRoll:
  assumes "good lib r w" "liveSeen r n ns live (w_log w)" "live \<noteq> []" "key = sp_Key (bp_Spec bp)"
  shows "wp (holdRoll env r bp sts live) (\<lambda>(held, sts') w'. good lib r w' \<and> ext w w' \<and>
     (\<exists>ann. sts' = sts\<lparr>ss_Annotations := ann\<rparr>) \<and> (\<not> held \<longrightarrow> rollForced r n ns key sts (w_log w'))) w"
proof -
  define stamp where "stamp = labelOf (ss_Annotations sts) rollHeldSinceAnnotation"
  have same: "\<exists>ann. sts = sts\<lparr>ss_Annotations := ann\<rparr>" by (intro exI [of _ "ss_Annotations sts"]) simp
  have wedged: "rollForced r n ns key sts (EListPod (cf_Namespace (rc_Cfg r)) key ps # w_log w)"
    if "(case ps of Inl _ \<Rightarrow> [] | Inr items \<Rightarrow> podsFailure items) \<noteq> []" for ps
    using that by (auto simp: rollForced_def split: sum.splits)
  have forcedN: "rollForced r n ns key sts (ENow c # ENow b # ENow a # e # w_log w)"
    if "minBuildGrace < timeSub b (ib_Since (last live)) \<or> maxBuildAge r < timeSub c a" for a b c e
    by (rule rollForced_old [where live = live and ?t1.0 = b and ?t2.0 = c and since = a]) (use that assms(2,3) in \<open>simp_all add: liveSeen_Cons\<close>)
  have forcedS: "rollForced r n ns key sts (ENow c # ENow b # e # w_log w)"
    if "parseRFC3339 stamp = Some a" "minBuildGrace < timeSub b (ib_Since (last live)) \<or> maxBuildAge r < timeSub c a" for a b c e
    by (rule rollForced_old [where live = live and ?t1.0 = b and ?t2.0 = c and since = a]) (use that assms(2,3) in \<open>simp_all add: liveSeen_Cons stamp_def\<close>)
  show ?thesis
  proof (cases "parseRFC3339 stamp")
    case None
    show ?thesis
      unfolding holdRoll_def daemonFailure_def listPod_def wp_rules assms(4) [symmetric] stamp_def [symmetric] None option.case
      using assms(1) same wedged by (auto simp: wp_rules Let_def good_def ext_def forcedN)
  next
    case (Some since)
    show ?thesis
      unfolding holdRoll_def daemonFailure_def listPod_def wp_rules assms(4) [symmetric] stamp_def [symmetric] Some option.case
      using assms(1) same wedged by (auto simp: wp_rules Let_def good_def ext_def forcedS [OF Some])
  qed
qed

lemma same_ann [simp]: "\<exists>ann. s = s\<lparr>ss_Annotations := ann\<rparr>"
  by (intro exI [of _ "ss_Annotations s"]) simp

lemma wp_decideRoll:
  assumes g: "good lib r w" and key: "key = sp_Key (bp_Spec bp)"
    and live: "live = [] \<or> liveSeen r (bp_Name bp) (bp_Namespace bp) live (w_log w)"
  shows "wp (decideRoll env r bp changed base live) (\<lambda>a w'. good lib r w' \<and> ext w w' \<and>
     (\<forall>held ch sts. a = Inr (held, ch, sts) \<longrightarrow> (\<exists>ann. sts = base\<lparr>ss_Annotations := ann\<rparr>) \<and>
        (ch \<longrightarrow> confirmedIdle r (bp_Name bp) (bp_Namespace bp) (w_log w') \<or>
               rollForced r (bp_Name bp) (bp_Namespace bp) key base (w_log w')))) w"
    (is "wp _ ?Q w")
proof (cases changed)
  case False
  then show ?thesis using g unfolding decideRoll_def
    by (auto simp: wp_rules)
next
  case True
  have hold: "wp (holdRoll env r bp base l) (\<lambda>a w''. case a of (held, sts) \<Rightarrow> ?Q (Inr (held, \<not> held, sts)) w'') w'"
    if "good lib r w'" "ext w w'" "liveSeen r (bp_Name bp) (bp_Namespace bp) l (w_log w')" "l \<noteq> []" for l w'
    by (rule wp_mono [OF wp_holdRoll [OF that(1,3,4) key]]) (use ext_trans [OF that(2)] in auto)
  show ?thesis
  proof (cases "live = []")
    case e: True
    show ?thesis unfolding decideRoll_def wp_rules using True e
      apply (simp add: wp_rules)
      apply (rule wp_mono [OF wp_fresh [OF g]])
      subgoal for a w'
        using hold [of w'] by (cases a) (auto simp: wp_rules)
      done
  next
    case ne: False
    with live have "liveSeen r (bp_Name bp) (bp_Namespace bp) live (w_log w)" by blast
    from hold [OF g ext_refl this ne] show ?thesis unfolding decideRoll_def wp_rules using True ne
      by (simp add: wp_rules)
  qed
qed

lemma wp_ensureStatefulSet:
  assumes g: "good lib r w" and kn: "knownProject (bp_Name bp) (bp_Namespace bp) (sp_Key (bp_Spec bp)) (w_log w)"
    and zero: "desired = 0 \<Longrightarrow> confirmedIdle r (bp_Name bp) (bp_Namespace bp) (w_log w)"
    and live: "live = [] \<or> liveSeen r (bp_Name bp) (bp_Namespace bp) live (w_log w)"
  shows "wp (ensureStatefulSet env lib' r bp desired live) (\<lambda>_ w'. good lib r w' \<and> ext w w') w"
proof (cases "lib_setControllerRef lib' bp (daemonName (sp_Key (bp_Spec bp))) (cf_Namespace (rc_Cfg r))")
  case (Some e)
  then show ?thesis using g by (simp add: ensureStatefulSet_def Let_def wp_rules)
next
  case None
  let ?key = "sp_Key (bp_Spec bp)"
  let ?ge = "\<lambda>x. EGetSts (daemonName ?key) (cf_Namespace (rc_Cfg r)) x"
  let ?res = "ev_getSts env (w_log w) (daemonName ?key) (cf_Namespace (rc_Cfg r))"
  let ?w1 = "w\<lparr>w_log := ?ge ?res # w_log w\<rparr>"
  have g1: "good lib r ?w1" and x1: "ext w ?w1" using g by (simp_all add: good_def)
  have patch: "good lib r (w'\<lparr>w_log := EPatchSts base new e # w_log w'\<rparr>) \<and> ext w (w'\<lparr>w_log := EPatchSts base new e # w_log w'\<rparr>)"
    if "?res = Inr base" "good lib r w'" "ext ?w1 w'"
      "ss_Template new = ss_Template base \<or> confirmedIdle r (bp_Name bp) (bp_Namespace bp) (w_log w') \<or>
         rollForced r (bp_Name bp) (bp_Namespace bp) ?key base (w_log w')"
      "ss_Replicas new = Some desired" "ss_Name new = ss_Name base" "ss_Selector new = ss_Selector base"
      "ss_VolumeClaimTemplates new = ss_VolumeClaimTemplates base" "ss_PvcRetention new = ss_PvcRetention base"
    for base new w' e
  proof -
    have x: "ext w w'" using ext_trans [OF x1 that(3)] .
    have "?ge (Inr base) \<in> set (w_log w')" using ext_in [OF that(3)] that(1) by auto
    with that x ext_known [OF x kn] ext_idle [OF x zero] have "okPatch r base new (w_log w')"
      unfolding okPatch_def by fastforce
    then show ?thesis using that(2) ext_trans [OF x, of "w'\<lparr>w_log := EPatchSts base new e # w_log w'\<rparr>"] by (simp add: good_def)
  qed
  show ?thesis
  proof (cases ?res)
    case (Inl e)
    then show ?thesis using None g1 x1 unfolding ensureStatefulSet_def
      by (simp add: Let_def wp_rules createSts_def good_def ext_def)
  next
    case (Inr base)
    have live1: "live = [] \<or> liveSeen r (bp_Name bp) (bp_Namespace bp) live (w_log ?w1)"
      using live ext_live [OF x1] by blast
    show ?thesis unfolding ensureStatefulSet_def
      apply (simp add: Let_def wp_rules None Inr)
      apply (rule wp_mono [OF wp_decideRoll [OF g1 refl live1, unfolded Inr]])
      subgoal for a w'
        using ext_trans [OF x1, unfolded Inr] patch [OF Inr, of w', unfolded Inr]
        by (cases a) (auto simp: wp_rules patchSts_def Let_def split: prod.splits)
      done
  qed
qed

lemma wp_reapFork:
  assumes g: "good lib r w" and kn: "knownProject (bp_Name bp) (bp_Namespace bp) (sp_Key (bp_Spec bp)) (w_log w)"
    and idle: "confirmedIdle r (bp_Name bp) (bp_Namespace bp) (w_log w)" and fork: "isForkKey (sp_Key (bp_Spec bp))"
    and aged: "ENow t \<in> set (w_log w)" "forkReapGrace \<le> timeSub t (bp_CreationTimestamp bp)"
  shows "wp (reapFork env r bp) (\<lambda>_ w'. good lib r w' \<and> ext w w') w"
proof -
  have del: "okDeleteBP r bp (new @ w_log w)" for new
    using confirmedIdle_append [OF idle] fork aged by (auto simp: okDeleteBP_def)
  have pvc: "okDeletePvc r p (EGetPvc (cachePVCName (sp_Key (bp_Spec bp))) (cf_Namespace (rc_Cfg r)) (Inr p) # w_log w)" for p
    unfolding okDeletePvc_def using knownProject_Cons [OF kn] confirmedIdle_Cons [OF idle] fork by fastforce
  show ?thesis unfolding reapFork_def
    using g pvc del [of "[_]"] del [of "[_, _]"]
    by (auto simp: wp_rules deletePvc_def deleteBP_def good_def ext_def split: sum.split option.split)
qed

text \<open>\<open>reached w\<close>: a world reached from \<open>w\<close> with a justified log. It is what every method preserves.\<close>

definition reached :: "Lib \<Rightarrow> BuildProjectReconciler \<Rightarrow> (Event, CMem) world \<Rightarrow> (Event, CMem) world \<Rightarrow> bool" where
  "reached lib r w w' \<longleftrightarrow> good lib r w' \<and> ext w w'"

lemma reached_refl: "good lib r w \<Longrightarrow> reached lib r w w"
  by (simp add: reached_def)

lemma wp_from: "reached lib r w w' \<Longrightarrow> (good lib r w' \<Longrightarrow> wp m (\<lambda>a w''. good lib r w'' \<and> ext w' w'' \<and> R a w'') w') \<Longrightarrow> wp m (\<lambda>a w''. reached lib r w w'' \<and> R a w'') w'"
  by (rule wp_mono [of m "\<lambda>a w''. good lib r w'' \<and> ext w' w'' \<and> R a w''"]) (auto simp: reached_def intro: ext_trans)

lemma wp_from': "reached lib r w w' \<Longrightarrow> (good lib r w' \<Longrightarrow> wp m (\<lambda>_ w''. good lib r w'' \<and> ext w' w'') w') \<Longrightarrow> wp m (\<lambda>_. reached lib r w) w'"
  by (rule wp_mono [of m "\<lambda>_ w''. good lib r w'' \<and> ext w' w''"]) (auto simp: reached_def intro: ext_trans)

lemma wp_reached_benign: "reached lib r w w' \<Longrightarrow> emits (\<lambda>e. \<forall>h. policy lib r e h) m \<Longrightarrow> wp m (\<lambda>_. reached lib r w) w'"
  by (rule wp_from') (auto intro: wp_benign_good)

lemma wp_reached: "good lib r w \<Longrightarrow> (reached lib r w w \<Longrightarrow> wp m (\<lambda>_. reached lib r w) w) \<Longrightarrow> wp m (\<lambda>_ w'. good lib r w' \<and> ext w w') w"
  by (rule wp_mono [of m "\<lambda>_. reached lib r w"]) (auto simp: reached_def)

lemma benign_bounceAllow: "emits (\<lambda>e. \<forall>h. policy lib r e h) (bounceAllow key now)"
  unfolding bounceAllow_def by (intro emits_rules)

lemma benign_probeAllow: "emits (\<lambda>e. \<forall>h. policy lib r e h) (probeAllow key now)"
  unfolding probeAllow_def by (intro emits_rules)

lemma wp_freshInflight:
  assumes "reached lib r w w'"
  shows "wp (freshInflight env r bp) (\<lambda>a w''. reached lib r w w'' \<and>
     (a = Inr 0 \<longrightarrow> confirmedIdle r (bp_Name bp) (bp_Namespace bp) (w_log w''))) w'"
proof (rule wp_from [OF assms])
  assume g: "good lib r w'"
  show "wp (freshInflight env r bp) (\<lambda>a w''. good lib r w'' \<and> ext w' w'' \<and>
     (a = Inr 0 \<longrightarrow> confirmedIdle r (bp_Name bp) (bp_Namespace bp) (w_log w''))) w'"
    unfolding freshInflight_def by (rule wp_bindI [OF wp_fresh [OF g]]) (auto simp: wp_rules split: sum.splits)
qed

lemma wp_bounceIdle:
  assumes g: "good lib r w" and kn: "knownProject (bp_Name bp) (bp_Namespace bp) (sp_Key (bp_Spec bp)) (w_log w)"
  shows "wp (bounceIdle env r bp) (\<lambda>_ w'. good lib r w' \<and> ext w w') w"
proof (rule wp_reached [OF g])
  assume i: "reached lib r w w"
  have pod: "wp (bouncePod env r bp) (\<lambda>_. reached lib r w) w'"
    if "reached lib r w w'" "confirmedIdle r (bp_Name bp) (bp_Namespace bp) (w_log w')" for w'
  proof -
    have "ext w w'" using that(1) by (simp add: reached_def)
    then have "okDeletePod r p (EGetPod (daemonName (sp_Key (bp_Spec bp)) @ ''-0'') (cf_Namespace (rc_Cfg r)) (Inr p) # w_log w')" for p
      unfolding okDeletePod_def using knownProject_Cons [OF ext_known [OF _ kn]] confirmedIdle_Cons [OF that(2)] by fastforce
    then show ?thesis using that(1) unfolding bouncePod_def
      by (auto simp: wp_rules deletePod_def reached_def good_def ext_def split: sum.split)
  qed
  have busy: "wp (bounceUnlessBusy env r bp) (\<lambda>_. reached lib r w) w'" if "reached lib r w w'" for w'
    unfolding bounceUnlessBusy_def
    by (rule wp_bindI [OF wp_freshInflight [OF that]]) (auto simp: wp_rules pod split: sum.split)
  have now: "emits (\<lambda>e. \<forall>h. policy lib r e h) (timeNow env)" by (intro emits_rules) simp
  show "wp (bounceIdle env r bp) (\<lambda>_. reached lib r w) w"
    unfolding bounceIdle_def
    by (rule wp_bindI [OF wp_reached_benign [OF i now]], rule wp_bindI [OF wp_reached_benign [OF _ benign_bounceAllow]])
       (auto simp: wp_rules busy)
qed

lemma wp_growPvc:
  assumes g: "good lib r w" and gi: "gi \<le> wrap32 (rc_AutoGrowMaxGi r)"
  shows "wp (growPvc env lib pvc gi) (\<lambda>_ w'. good lib r w' \<and> ext w w') w"
  unfolding growPvc_def
proof (rule wp_retrying)
  fix w' :: "(Event, CMem) world"
  assume i: "good lib r w' \<and> ext w w'"
  have upd: "okUpdatePvc lib r (cur\<lparr>pvc_Request := Some (itoa gi @ ''Gi'')\<rparr>) (EGetPvc n ns (Inr cur) # l)"
    if "\<not> gi \<le> giOf lib (pvc_Request cur)" for cur n ns l
    using that gi unfolding okUpdatePvc_def by fastforce
  show "wp (do {
          g \<leftarrow> getPvc env (pvc_Name pvc) (pvc_Namespace pvc);
          (case g of
             Inl e \<Rightarrow> ret (Inl e)
           | Inr cur \<Rightarrow>
               if giOf lib (pvc_Request cur) \<ge> gi then ret (Inr ())
               else do {
                 e \<leftarrow> updatePvc env (cur\<lparr>pvc_Request := Some (itoa gi @ ''Gi'')\<rparr>);
                 ret (case e of None \<Rightarrow> Inr () | Some x \<Rightarrow> Inl x)
               })
        }) (\<lambda>_ w''. good lib r w'' \<and> ext w w'') w'"
    using i upd by (auto simp: wp_rules updatePvc_def good_def ext_def split: sum.split)
qed (use g in simp)

lemma wp_recordSpecGi:
  assumes g: "good lib r w"
  shows "wp (recordSpecGi env lib' bp gi) (\<lambda>_ w'. good lib r w' \<and> ext w w') w"
  unfolding recordSpecGi_def wp_rules
proof (rule wp_retrying)
  fix w' :: "(Event, CMem) world"
  assume i: "good lib r w' \<and> ext w w'"
  have upd: "okUpdateBP (cur\<lparr>bp_Spec := (bp_Spec cur)\<lparr>sp_CacheVolumeGi := gi\<rparr>\<rparr>) (EGetBP Cached n ns (Inr cur) # l)"
    if "\<not> gi \<le> sp_CacheVolumeGi (bp_Spec cur)" for cur n ns l
    using that unfolding okUpdateBP_def by fastforce
  show "wp (do {
            g \<leftarrow> getBP env Cached (bp_Name bp) (bp_Namespace bp);
            (case g of
               Inl e \<Rightarrow> ret (Inl e)
             | Inr cur \<Rightarrow>
                 if sp_CacheVolumeGi (bp_Spec cur) \<ge> gi then ret (Inr ())
                 else do {
                   e \<leftarrow> updateBP env (cur\<lparr>bp_Spec := (bp_Spec cur)\<lparr>sp_CacheVolumeGi := gi\<rparr>\<rparr>);
                   ret (case e of None \<Rightarrow> Inr () | Some x \<Rightarrow> Inl x)
                 })
          }) (\<lambda>_ w''. good lib r w'' \<and> ext w w'') w'"
    using i upd by (auto simp: wp_rules updateBP_def good_def ext_def split: sum.split)
qed (use g in simp)

lemma wp_maybeAutoGrow:
  assumes i: "reached lib r w w" and kn: "knownProject (bp_Name bp) (bp_Namespace bp) (sp_Key (bp_Spec bp)) (w_log w)"
  shows "wp (maybeAutoGrow env lib impl r bp ready) (\<lambda>_. reached lib r w) w"
proof -
  have rec: "wp (recordSpecGi env lib bp gi) (\<lambda>_. reached lib r w) w'" if "reached lib r w w'" for w' gi
    by (rule wp_from' [OF that wp_recordSpecGi])
  have gv: "wp (growVolume env lib bp pvc gi) (\<lambda>_. reached lib r w) w'"
    if "reached lib r w w'" "gi \<le> wrap32 (rc_AutoGrowMaxGi r)" for w' gi pvc
    unfolding growVolume_def
    by (rule wp_bindI [OF wp_from' [OF that(1) wp_growPvc [OF _ that(2)]]]) (auto simp: wp_rules rec split: sum.split)
  have dg: "wp (decideGrow env lib impl r bp pvc u t) (\<lambda>_. reached lib r w) w'" if "reached lib r w w'" for w' pvc u t
  proof -
    have "autoGrowTarget impl c pct thr f (wrap32 (rc_AutoGrowMaxGi r)) \<le> wrap32 (rc_AutoGrowMaxGi r)"
      if "autoGrowTarget impl c pct thr f (wrap32 (rc_AutoGrowMaxGi r)) \<noteq> 0" for c pct thr f
      using autoGrowTarget_le [OF _ that] wrap32_range by simp
    then show ?thesis unfolding decideGrow_def Let_def using that by (auto simp: wp_rules rec gv)
  qed
  have pd: "wp (probeDaemon env lib impl r bp pvc) (\<lambda>_. reached lib r w) w'" if i: "reached lib r w w'" for w' pvc
  proof -
    have p: "reached lib r w (w'\<lparr>w_log := EProbeUsage ip x # EGetPod n ns y # w_log w'\<rparr>)" for ip x n ns y
      using i by (auto simp: reached_def good_def ext_def)
    show ?thesis unfolding probeDaemon_def using i
      by (auto simp: wp_rules probeUsage_def dg p split: sum.split) (auto simp: reached_def good_def ext_def)
  qed
  have now: "emits (\<lambda>e. \<forall>h. policy lib r e h) (timeNow env)" by (intro emits_rules) simp
  have pg: "wp (probeAndGrow env lib impl r bp pvc ready) (\<lambda>_. reached lib r w) w'" if "reached lib r w w'" for w' pvc
  proof -
    have "wp (do { now \<leftarrow> timeNow env; ok \<leftarrow> probeAllow (sp_Key (bp_Spec bp)) now; if \<not> ok then ret None else probeDaemon env lib impl r bp pvc })
      (\<lambda>_. reached lib r w) w'"
      by (rule wp_bindI [OF wp_reached_benign [OF that now]], rule wp_bindI [OF wp_reached_benign [OF _ benign_probeAllow]])
         (auto simp: wp_rules pd)
    then show ?thesis unfolding probeAndGrow_def Let_def using that by (auto simp: wp_rules)
  qed
  have bi: "wp (bounceIdle env r bp) (\<lambda>_. reached lib r w) w'" if "reached lib r w w'" for w'
    using wp_from' [OF that wp_bounceIdle [of lib r w' bp env]] kn that ext_known by (auto simp: reached_def)
  have pv: "reached lib r w (w\<lparr>w_log := EGetPvc n ns x # w_log w\<rparr>)" for n ns x
    using i by (auto simp: reached_def good_def)
  show ?thesis unfolding maybeAutoGrow_def using i pv
    by (auto simp: wp_rules bi pg split: sum.split)
qed

lemma wp_pruneClone:
  assumes i: "reached lib r w w'" and cs: "EListBP (cf_Namespace (rc_Cfg r)) (Some (cloneOfLabel, key)) (Inr cs) \<in> set (w_log w')" "c \<in> set cs"
  shows "wp (pruneClone env r c) (\<lambda>_ w''. reached lib r w w'' \<and> ext w' w'') w'"
proof -
  have g: "good lib r w'" using i by (simp add: reached_def)
  have d: "wp (deleteBP env c) (\<lambda>_ w3. reached lib r w w3 \<and> ext w' w3) w''"
    if "good lib r w''" "ext w' w''" "confirmedIdle r (bp_Name c) (bp_Namespace c) (w_log w'')" for w''
  proof -
    have "okDeleteBP r c (w_log w'')" using that(3) ext_in [OF that(2) cs(1)] cs(2) by (auto simp: okDeleteBP_def)
    then show ?thesis using that i by (auto simp: deleteBP_def wp_rules reached_def good_def ext_step intro: ext_trans)
  qed
  show ?thesis
    unfolding pruneClone_def
    apply (rule wp_bindI [OF wp_fresh [OF g]])
    subgoal for a w''
      using d [of w''] i by (cases a) (auto simp: wp_rules reached_def intro: ext_trans)
    done
qed

lemma wp_pruneClones:
  assumes "reached lib r w w'" "EListBP (cf_Namespace (rc_Cfg r)) (Some (cloneOfLabel, key)) (Inr cs) \<in> set (w_log w')" "set clones \<subseteq> set cs"
  shows "wp (pruneClones env r want clones deferred) (\<lambda>_. reached lib r w) w'"
  using assms
proof (induction clones arbitrary: w' deferred)
  case Nil
  then show ?case by (simp add: wp_rules)
next
  case (Cons c rest)
  have "wp (pruneClone env r c) (\<lambda>_ w''. reached lib r w w'' \<and> ext w' w'') w'"
    by (rule wp_pruneClone) (use Cons.prems in auto)
  then have "wp (pruneClone env r c \<bind> f) (\<lambda>_. reached lib r w) w'"
    if "\<And>a w''. reached lib r w w'' \<Longrightarrow> ext w' w'' \<Longrightarrow> wp (f a) (\<lambda>_. reached lib r w) w''" for f :: "bool res \<Rightarrow> (bool \<times> ApiErr option) cprog"
    by (rule wp_bindI) (use that in blast)
  then show ?case using Cons ext_in by (auto simp: wp_rules split: sum.split)
qed

lemma wp_ensureClones: "reached lib r w w' \<Longrightarrow> wp (ensureClones env lib' r bp) (\<lambda>_. reached lib r w) w'"
  unfolding ensureClones_def wp_rules
  by (auto intro!: wp_forEach intro: wp_reached_benign benign_ensureClone)

lemma wp_reconcileFanout:
  assumes i: "reached lib r w w'"
  shows "wp (reconcileFanout env lib' r bp) (\<lambda>_. reached lib r w) w'"
proof -
  have l: "reached lib r w (w'\<lparr>w_log := EListBP ns s x # w_log w'\<rparr>)" for ns s x using i by (auto simp: reached_def good_def ext_step)
  have pr: "wp (pruneClones env r want cs False \<bind> f) (\<lambda>_. reached lib r w) (w'\<lparr>w_log := EListBP (cf_Namespace (rc_Cfg r)) (Some (cloneOfLabel, k)) (Inr cs) # w_log w'\<rparr>)"
    if "\<And>a w''. reached lib r w w'' \<Longrightarrow> wp (f a) (\<lambda>_. reached lib r w) w''" for want cs k and f :: "bool \<times> ApiErr option \<Rightarrow> (bool \<times> ApiErr option) cprog"
    by (rule wp_bindI [OF wp_pruneClones [OF l]]) (use that in auto)
  show ?thesis unfolding reconcileFanout_def listBP_def Let_def
    by (subst wp_bind, subst wp_call, cases "ev_listBP env (w_log w') (cf_Namespace (rc_Cfg r)) (Some (cloneOfLabel, sp_Key (bp_Spec bp)))")
       (auto simp: wp_rules l simp del: wp_bind intro!: pr wp_bindI [OF wp_ensureClones] split: option.split prod.split)
qed

text \<open>\<open>knownBP\<close>: the server returned a project with the name, namespace and key of \<open>bp\<close>.\<close>

definition knownBP :: "BuildProject \<Rightarrow> (Event, CMem) world \<Rightarrow> bool" where
  "knownBP bp w \<longleftrightarrow> knownProject (bp_Name bp) (bp_Namespace bp) (sp_Key (bp_Spec bp)) (w_log w)"

lemma knownBP_ext: "ext w w' \<Longrightarrow> knownBP bp w \<Longrightarrow> knownBP bp w'"
  unfolding knownBP_def by (rule ext_known)

lemma knownBP_shown: "b \<in> set (shownBPs e) \<Longrightarrow> knownBP b (w\<lparr>w_log := e # l\<rparr>)"
  by (auto simp: knownBP_def knownProject_def)

lemma wp_pruneSnapshots_known:
  assumes "good lib r w" "ext w0 w" "knownBP bp w"
  shows "wp (pruneSnapshots env lib' r' items) (\<lambda>_ w'. good lib r w' \<and> ext w0 w' \<and> knownBP bp w') w"
  by (rule wp_mono [OF wp_benign_good [OF benign_pruneSnapshots assms(1)]])
     (use assms in \<open>auto intro: ext_trans knownBP_ext\<close>)

lemma wp_takeSnapshot:
  assumes g: "good lib r w'" "ext w w'" and kn: "knownBP bp w'"
  shows "wp (takeSnapshot env lib' r' bp cad items) (\<lambda>a w''. good lib r w'' \<and> ext w w'' \<and> knownBP (snd (snd a)) w'') w'"
proof -
  have known: "knownBP (bp\<lparr>bp_Status := st\<rparr>) (w'\<lparr>w_log := e # e' # e'' # w_log w'\<rparr>)" "knownBP bp (w'\<lparr>w_log := e'' # w_log w'\<rparr>)"
    "knownBP bp (w'\<lparr>w_log := e' # e'' # w_log w'\<rparr>)" for st e e' e''
    using kn by (simp_all add: knownBP_def knownProject_Cons)
  have good3: "good lib r (w'\<lparr>w_log := e # e' # e'' # w_log w'\<rparr>)" "ext w (w'\<lparr>w_log := e # e' # e'' # w_log w'\<rparr>)"
    if "\<forall>h. policy lib r e h" "\<forall>h. policy lib r e' h" "\<forall>h. policy lib r e'' h" for e e' e''
    using g that by (auto simp: good_def ext_def)
  have pr: "wp (pruneSnapshots env lib' r' its) (\<lambda>_ w''. good lib r w'' \<and> ext w w'' \<and> knownBP (case p of Inl _ \<Rightarrow> bp\<lparr>bp_Status := st\<rparr> | Inr b \<Rightarrow> b) w'')
      (w'\<lparr>w_log := EPatchBPStatus x (x\<lparr>bp_Status := (bp_Status x)\<lparr>st_LastSnapshot := y\<rparr>\<rparr>) p # ECreateSnap a b c d # ENow t # w_log w'\<rparr>)" for its p st x y a b c d t
    by (rule wp_pruneSnapshots_known) (auto simp: good3 okPatchStatus_snap known knownBP_shown split: sum.split)
  let ?n = "''snap-'' @ sp_Key (bp_Spec bp) @ ''-'' @ itoa (ev_now env (w_log w'))"
  show ?thesis
  proof (cases "lib_setControllerRef lib' bp ?n (cf_Namespace (rc_Cfg r'))")
    case None
    show ?thesis
    proof (cases "ev_createSnap env (ENow (ev_now env (w_log w')) # w_log w') ?n (cachePVCName (sp_Key (bp_Spec bp))) (cf_SnapshotClass (rc_Cfg r'))")
      case (Inl e)
      then show ?thesis using None g known unfolding takeSnapshot_def createSnap_def
        by (simp add: wp_rules Let_def good_Cons ext_Cons)
    next
      case (Inr snap)
      then show ?thesis using None unfolding takeSnapshot_def createSnap_def patchBPStatus_def
        by (simp add: wp_rules Let_def pr)
    qed
  next
    case (Some e)
    then show ?thesis using g known unfolding takeSnapshot_def by (simp add: wp_rules Let_def good_Cons ext_Cons)
  qed
qed

lemma wp_maybeSnapshot:
  assumes g: "good lib r w" and kn: "knownBP bp w"
  shows "wp (maybeSnapshot env lib' r' bp) (\<lambda>a w'. good lib r w' \<and> ext w w' \<and> knownBP (snd (snd a)) w') w"
proof -
  have k: "knownBP bp (w\<lparr>w_log := e # w_log w\<rparr>)" "knownBP bp (w\<lparr>w_log := e # e' # w_log w\<rparr>)" "knownBP bp (w\<lparr>w_log := e # e' # e'' # w_log w\<rparr>)" for e e' e''
    using kn by (simp_all add: knownBP_def knownProject_Cons)
  have x: "ext w (w\<lparr>w_log := e # e' # e'' # w_log w\<rparr>)" for e e' e'' by (auto simp: ext_def)
  have ts: "wp (takeSnapshot env lib' r' bp cad items) (\<lambda>a w''. good lib r w'' \<and> ext w w'' \<and> knownBP (snd (snd a)) w'') w'"
    if "good lib r w'" "ext w w'" "knownBP bp w'" for cad items w'
    by (rule wp_takeSnapshot [OF that])
  show ?thesis unfolding maybeSnapshot_def listSnap_def
    using g kn k x by (auto simp: wp_rules Let_def good_Cons ts split: sum.split option.split)
qed

lemma wp_runLoops:
  assumes i: "reached lib r w w'" and kn: "knownBP bp w'"
  shows "wp (runLoops env lib impl r bp desired ready live held) (\<lambda>_. reached lib r w) w'"
proof -
  have ag: "wp (maybeAutoGrow env lib impl r b ready) (\<lambda>_. reached lib r w) w''" if "reached lib r w w''" "knownBP b w''" for b w''
    by (rule wp_mono [OF wp_maybeAutoGrow [of lib r w'' b]]) (use that in \<open>auto simp: reached_def knownBP_def intro: ext_trans\<close>)
  have fo: "wp (reconcileFanout env lib r b) (\<lambda>_ w3. reached lib r w w3 \<and> knownBP b w3) w''" if "reached lib r w w''" "knownBP b w''" for b w''
    by (rule wp_mono [OF wp_reconcileFanout [of lib r w'' w'']]) (use that in \<open>auto simp: reached_def intro: ext_trans knownBP_ext\<close>)
  have sn: "wp (maybeSnapshot env lib r bp) (\<lambda>a w''. reached lib r w w'' \<and> knownBP (snd (snd a)) w'') w'"
    by (rule wp_mono [OF wp_maybeSnapshot [OF _ kn]]) (use i in \<open>auto simp: reached_def intro: ext_trans\<close>)
  have rq: "wp (requeueAfter env r b desired ready sa live pp held \<bind> (\<lambda>q. ret (q, None))) (\<lambda>_. reached lib r w) w''" if "reached lib r w w''" for b sa pp w''
    by (rule wp_bindI [OF wp_reached_benign [OF that benign_requeueAfter]]) (simp add: wp_rules)
  show ?thesis unfolding runLoops_def
    by (rule wp_bindI [OF sn]) (auto split!: prod.split intro!: wp_bindI [OF fo] wp_bindI [OF ag] rq)
qed

lemma benign_phaseAndMessage: "emits (\<lambda>e. \<forall>h. policy lib r e h) (phaseAndMessage env r' key d rd)"
  unfolding phaseAndMessage_def by (intro emits_rules benign_daemonFailure)

text \<open>The status a pass writes keeps the fields of the routing API.\<close>

lemma newStatus_keeps:
  "st_LastBuildTime (newStatus lib st live rw rd ph ep msg) = st_LastBuildTime st"
  "st_RecentBuildTimes (newStatus lib st live rw rd ph ep msg) = st_RecentBuildTimes st"
  "st_LastCacheExportGrant (newStatus lib st live rw rd ph ep msg) = st_LastCacheExportGrant st"
  "st_LastSnapshot (newStatus lib st live rw rd ph ep msg) = st_LastSnapshot st"
  by (simp_all add: newStatus_def Let_def setInflight_def)

text \<open>\<open>owned r bp live\<close>: what the pass knows of the project it works on and of its live builds.\<close>

definition owned :: "BuildProjectReconciler \<Rightarrow> BuildProject \<Rightarrow> InflightBuild list \<Rightarrow> (Event, CMem) world \<Rightarrow> bool" where
  "owned r bp live w \<longleftrightarrow> knownBP bp w \<and>
     (\<exists>n ns b0. EGetBP Cached n ns (Inr b0) \<in> set (w_log w) \<and> bp_Name bp = bp_Name b0 \<and> bp_Namespace bp = bp_Namespace b0 \<and>
        bp_ResourceVersion bp = bp_ResourceVersion b0 \<and> bp_Status bp = fst (adoptLegacyInflight (bp_Status b0)) \<and> liveRead r b0 live (w_log w))"

lemma liveRead_append: "liveRead r b0 live l \<Longrightarrow> liveRead r b0 live (new @ l)"
  unfolding liveRead_def by (elim disjE exE conjE) (fastforce simp: append_assoc [symmetric] simp del: append_assoc)+

lemma owned_ext: "ext w w' \<Longrightarrow> owned r bp live w \<Longrightarrow> owned r bp live w'"
  unfolding owned_def using knownBP_ext by (fastforce simp: ext_def liveRead_append)

lemma owned_known: "owned r bp live w \<Longrightarrow> knownBP bp w"
  by (simp add: owned_def)

lemma adoptLegacy_keeps:
  "st_LastBuildTime (fst (adoptLegacyInflight st)) = st_LastBuildTime st"
  "st_RecentBuildTimes (fst (adoptLegacyInflight st)) = st_RecentBuildTimes st"
  "st_LastCacheExportGrant (fst (adoptLegacyInflight st)) = st_LastCacheExportGrant st"
  "st_LastSnapshot (fst (adoptLegacyInflight st)) = st_LastSnapshot st"
  by (simp_all add: adoptLegacyInflight_def setInflight_def Let_def split: option.split)

lemma okUpdateStatus_newStatus:
  assumes "owned r bp live w"
  shows "okUpdateStatus r (bp\<lparr>bp_Status := newStatus lib (bp_Status bp) live rw rd ph ep msg\<rparr>) (w_log w)"
proof -
  have "st_Inflight (newStatus lib (bp_Status bp) live rw rd ph ep msg) = (if rw then capInflight live else st_Inflight (bp_Status bp))"
    by (simp add: newStatus_def Let_def setInflight_def)
  then show ?thesis using assms unfolding owned_def okUpdateStatus_def carriesEntries_def
    by (elim exE conjE) (rule exI conjI | assumption | auto simp: newStatus_keeps adoptLegacy_keeps)+
qed

lemma wp_owned_benign:
  assumes "reached lib r w w'" "owned r bp live w'" "emits (\<lambda>e. \<forall>h. policy lib r e h) m"
  shows "wp m (\<lambda>_ w''. reached lib r w w'' \<and> owned r bp live w'' \<and> ext w' w'') w'"
  by (rule wp_mono [OF wp_benign_good [OF assms(3), of w']])
     (use assms in \<open>auto simp: reached_def intro: ext_trans owned_ext\<close>)

lemma wp_reflectStatus:
  assumes i: "reached lib r w w'" and o: "owned r bp live w'"
  shows "wp (reflectStatus env lib impl r bp desired live expired adopted held) (\<lambda>_. reached lib r w) w'"
proof -
  have sts: "emits (\<lambda>e. \<forall>h. policy lib r e h) (getSts env n ns)" for n ns by (intro emits_rules) simp
  have upd: "wp (updateBPStatus env b) (\<lambda>a w3. reached lib r w w3 \<and> (\<forall>b'. a = Inr b' \<longrightarrow> knownBP b' w3)) w''"
    if "reached lib r w w''" "okUpdateStatus r b (w_log w'')" for b w''
    using that unfolding updateBPStatus_def
    by (auto simp: wp_rules reached_def good_Cons ext_Cons knownBP_shown)
  have same: "wp (ret (Inr b)) (\<lambda>a w3. reached lib r w w3 \<and> (\<forall>b'. a = Inr b' \<longrightarrow> knownBP b' w3)) w''"
    if "reached lib r w w''" "knownBP b w''" for b w'' using that by (simp add: wp_rules)
  have loops: "wp (runLoops env lib impl r b desired ready live held) (\<lambda>_. reached lib r w) w''"
    if "reached lib r w w''" "knownBP b w''" for b w'' ready by (rule wp_runLoops [OF that])
  have st: "knownBP (bp\<lparr>bp_Status := s\<rparr>) w'' = knownBP bp w''" for s w'' by (simp add: knownBP_def)
  have fin: "wp (do { upd \<leftarrow> (if c then updateBPStatus env b else ret (Inr b));
       (case upd of Inl e \<Rightarrow> ret (0, ignoreNotFound (Some e)) | Inr bp \<Rightarrow> runLoops env lib impl r bp desired ready live held) }) (\<lambda>_. reached lib r w) w''"
    if "reached lib r w w''" "knownBP b w''" "okUpdateStatus r b (w_log w'')" for c b ready w''
    by (rule wp_bindI [where R = "\<lambda>a w3. reached lib r w w3 \<and> (\<forall>b'. a = Inr b' \<longrightarrow> knownBP b' w3)"])
       (use that upd same in \<open>auto simp: wp_rules intro!: loops split: sum.split\<close>)
  show ?thesis unfolding reflectStatus_def
    apply (rule wp_bindI [OF wp_owned_benign [OF i o sts]], unfold Let_def)
    apply (rule wp_bindI [OF wp_owned_benign [of lib r w _ bp live, OF _ _ benign_phaseAndMessage]])
      apply (simp_all only: split_paired_all)
    apply (rule fin)
      apply (simp_all add: st owned_def)
    apply (rule okUpdateStatus_newStatus, simp add: owned_def)
    done
qed

lemma wp_convergeDaemon:
  assumes i: "reached lib r w w'" and o: "owned r bp live w'"
    and zero: "desired = 0 \<Longrightarrow> confirmedIdle r (bp_Name bp) (bp_Namespace bp) (w_log w')"
    and live: "liveSeen r (bp_Name bp) (bp_Namespace bp) live (w_log w')"
  shows "wp (convergeDaemon env lib impl r bp desired live expired adopted) (\<lambda>_. reached lib r w) w'"
proof -
  have rs: "wp (reflectStatus env lib impl r bp desired live expired adopted held) (\<lambda>_. reached lib r w) w''"
    if "reached lib r w w''" "owned r bp live w''" "ext w' w''" for held w'' by (rule wp_reflectStatus [OF that(1,2)])
  have ss: "wp (ensureStatefulSet env lib r bp desired live) (\<lambda>_ w3. reached lib r w w3 \<and> owned r bp live w3 \<and> ext w' w3) w''"
    if "reached lib r w w''" "owned r bp live w''" "ext w' w''" for w''
    by (rule wp_mono [OF wp_ensureStatefulSet [of lib r w'' bp]])
       (use that zero live ext_idle [OF that(3)] ext_live [OF that(3)] in
         \<open>auto simp: reached_def knownBP_def [symmetric] intro: ext_trans owned_ext owned_known\<close>)
  have roll: "wp (rollsHeldSet k b \<bind> (\<lambda>_. reflectStatus env lib impl r bp desired live expired adopted held)) (\<lambda>_. reached lib r w) w''"
    if "reached lib r w w''" "owned r bp live w''" "ext w' w''" for k b held w''
    by (rule wp_bindI [OF wp_owned_benign [OF that(1,2) benign_rollsHeldSet]]) (use that(3) in \<open>auto intro: rs ext_trans\<close>)
  have pdb: "wp (do { _ \<leftarrow> ensurePDB env lib r bp b; sts \<leftarrow> ensureStatefulSet env lib r bp desired live;
      (case sts of Inl e \<Rightarrow> ret (0, Some (Wrap ''ensure statefulset'' e))
       | Inr rollHeld \<Rightarrow> do { rollsHeldSet (sp_Key (bp_Spec bp)) rollHeld; reflectStatus env lib impl r bp desired live expired adopted rollHeld }) })
      (\<lambda>_. reached lib r w) w''" if "reached lib r w w''" "owned r bp live w''" "ext w' w''" for b w''
    by (rule wp_bindI [OF wp_owned_benign [OF that(1,2) benign_ensurePDB]], rule wp_bindI [OF ss])
       (use that(3) in \<open>auto simp: wp_rules split: sum.split intro: ext_trans roll [unfolded wp_rules]\<close>)
  show ?thesis unfolding convergeDaemon_def
    by (rule wp_bindI [OF wp_owned_benign [OF i o benign_ensureService]]) (auto simp: wp_return split: option.split intro!: pdb)
qed

lemma wp_takeDownOrConverge:
  assumes i: "reached lib r w w'" and o: "owned r bp live w'"
    and zero: "desired = 0 \<Longrightarrow> confirmedIdle r (bp_Name bp) (bp_Namespace bp) (w_log w')"
    and live: "liveSeen r (bp_Name bp) (bp_Namespace bp) live (w_log w')"
  shows "wp (takeDownOrConverge env lib impl r bp desired live expired adopted) (\<lambda>_. reached lib r w) w'"
proof -
  have reap: "wp (do { e \<leftarrow> reapFork env r bp; ret (0::int, e) }) (\<lambda>_. reached lib r w) w''"
    if "reached lib r w w''" "ext w' w''" "isForkKey (sp_Key (bp_Spec bp))" "desired = 0" "ENow t \<in> set (w_log w'')"
       "forkReapGrace \<le> timeSub t (bp_CreationTimestamp bp)" for w'' t
  proof (rule wp_bindI [OF wp_from' [OF that(1)]])
    assume g: "good lib r w''"
    have "knownBP bp w''" using o knownBP_ext [OF that(2)] by (simp add: owned_def)
    then show "wp (reapFork env r bp) (\<lambda>_ w3. good lib r w3 \<and> ext w'' w3) w''"
      using wp_reapFork [OF g _ ext_idle [OF that(2) zero [OF that(4)]] that(3,5,6)] by (simp add: knownBP_def)
  qed (simp add: wp_rules)
  have now: "reached lib r w (w'\<lparr>w_log := ENow t # w_log w'\<rparr>)" for t using i by (auto simp: reached_def good_def ext_step)
  have reap_now: "wp (do { e \<leftarrow> reapFork env r bp; ret (0::int, e) }) (\<lambda>_. reached lib r w) (w'\<lparr>w_log := ENow t # w_log w'\<rparr>)"
    if "isForkKey (sp_Key (bp_Spec bp))" "desired = 0" "forkReapGrace \<le> timeSub t (bp_CreationTimestamp bp)" for t
    by (rule reap [OF now _ that(1,2) _ that(3)]) simp_all
  show ?thesis unfolding takeDownOrConverge_def
    using now [of "ev_now env (w_log w')"] wp_convergeDaemon [OF i o zero live] reap_now
    by (simp add: wp_timeNow wp_bind [of "timeNow env"] Let_def wp_if wp_return not_less)
qed

text \<open>The project as the pass works on it: the defaults applied, a legacy count adopted.\<close>

lemma owned_read:
  assumes "EGetBP Cached n ns (Inr b) \<in> set (w_log w)" "liveRead r b live (w_log w)"
  shows "owned r ((applyDefaults b)\<lparr>bp_Status := fst (adoptLegacyInflight (bp_Status b))\<rparr>) live w"
proof -
  have "knownProject (bp_Name b) (bp_Namespace b) (sp_Key (bp_Spec b)) (w_log w)"
    unfolding knownProject_def by (rule bexI [OF _ assms(1)]) simp
  then show ?thesis using assms unfolding owned_def knownBP_def by auto
qed

lemma wp_Reconcile:
  assumes g: "good lib r w"
  shows "wp (Reconcile env lib impl r name ns) (\<lambda>_. reached lib r w) w"
proof (cases "ev_getBP env (w_log w) Cached name ns")
  case (Inl e)
  then show ?thesis using g by (simp add: Reconcile_def wp_rules reached_def good_Cons good_def [symmetric])
next
  case (Inr b)
  define bp where "bp = (applyDefaults b)\<lparr>bp_Status := fst (adoptLegacyInflight (bp_Status b))\<rparr>"
  define t1 where "t1 = ev_now env (EGetBP Cached name ns (Inr b) # w_log w)"
  define t2 where "t2 = ev_now env (ENow t1 # EGetBP Cached name ns (Inr b) # w_log w)"
  define w3 where "w3 = w\<lparr>w_log := ENow t2 # ENow t1 # EGetBP Cached name ns (Inr b) # w_log w\<rparr>"
  define live where "live = liveEntries r (bp_Status b) t1"
  have i: "reached lib r w w3" using g by (auto simp: reached_def w3_def good_def ext_def)
  have b: "EGetBP Cached name ns (Inr b) \<in> set (w_log w')" if "ext w3 w'" for w' using ext_in [OF that] by (simp add: w3_def)
  have lr: "liveRead r b live (w_log w')" if "ext w3 w'" for w'
    unfolding liveRead_def live_def using ext_in [OF that, of "ENow t1"] by (auto simp: w3_def)
  have lv: "liveSeen r (bp_Name bp) (bp_Namespace bp) live (w_log w3)"
    unfolding liveSeen_def live_def w3_def bp_def by fastforce
  have fresh: "liveRead r b es (ENow t # EGetBP (freshReader r) (bp_Name bp) (bp_Namespace bp) (Inr cur) # w_log w3)"
    if "es = liveEntries r (bp_Status cur) t" for es t cur
    unfolding liveRead_def using that b [OF ext_refl]
    by (intro disjI2 exI [of _ "[ENow t]"] exI [of _ "w_log w3"] exI [of _ cur] exI [of _ t] exI [of _ name] exI [of _ ns]) (simp add: bp_def)
  have tc: "wp (takeDownOrConverge env lib impl r bp d l x a) (\<lambda>_. reached lib r w) w'"
    if "reached lib r w w'" "ext w3 w'" "d = 0 \<Longrightarrow> confirmedIdle r (bp_Name bp) (bp_Namespace bp) (w_log w')"
      "liveSeen r (bp_Name bp) (bp_Namespace bp) l (w_log w')" "liveRead r b l (w_log w')" for d l x a w'
    by (rule wp_takeDownOrConverge [OF that(1) owned_read [OF b [OF that(2)] that(5), folded bp_def] that(3,4)])
  have g3: "good lib r w3" using i by (simp add: reached_def)
  have from3: "reached lib r w w'" if "good lib r w'" "ext w3 w'" for w' using that i by (auto simp: reached_def intro: ext_trans)
  have fr: "wp (do { fresh \<leftarrow> freshInflightEntries env r bp;
      (case fresh of Inl e \<Rightarrow> ret (0, Some (Wrap m e))
       | Inr es \<Rightarrow> if length es > 0 then takeDownOrConverge env lib impl r bp 1 es x a else takeDownOrConverge env lib impl r bp d live x a) })
      (\<lambda>_. reached lib r w) w3" for m d x a
    apply (rule wp_bindI [OF wp_fresh [OF g3]])
    subgoal for res w'
      using from3 [of w'] ext_live [of w3 w', OF _ lv] lr [of w'] fresh by (cases res) (auto simp: wp_return intro!: tc)
    done
  have body: "wp (if d = 0 then do { fresh \<leftarrow> freshInflightEntries env r bp;
      (case fresh of Inl e \<Rightarrow> ret (0, Some (Wrap m e))
       | Inr es \<Rightarrow> if length es > 0 then takeDownOrConverge env lib impl r bp 1 es x a else takeDownOrConverge env lib impl r bp d live x a) }
      else takeDownOrConverge env lib impl r bp d live x a) (\<lambda>_. reached lib r w) w3" for m d x a
    using fr tc [OF i] lv lr by simp
  have logs: "w_log (w\<lparr>w_log := l, w_log := l'\<rparr>) = l'" "w_log (w\<lparr>w_log := l\<rparr>) = l" "w\<lparr>w_log := l, w_log := l'\<rparr> = w\<lparr>w_log := l'\<rparr>"
    "bp_Status (b'\<lparr>bp_Status := st\<rparr>) = st" for l l' b' st by simp_all
  show ?thesis
    unfolding Reconcile_def wp_bind [of "getBP env Cached name ns"] wp_bind [of "timeNow env"] wp_getBP wp_timeNow Inr sum.case Let_def
      case_prod_beta logs bp_applyDefaults t1_def [symmetric] t2_def [symmetric] w3_def [symmetric]
      bp_def [symmetric] liveEntries_def [symmetric] live_def [symmetric]
    by (rule body)
qed

text \<open>C1: \<^bold>\<open>A pass never severs a live build.\<close> Whatever the API server answers and whatever the process
  remembers, every event of a run of \<open>Reconcile\<close> is justified by the events before it. A daemon is
  sized to zero, a fork or a clone deleted, a fork's cache deleted and a pod bounced only after a read
  through the uncached reader that showed no live build; a pod template is replaced only then or for
  one of the three reasons a hold is refused; a claim is only ever grown, from the object just read
  and within the operator's maximum; the spec's volume size only raised; and a status write leaves the
  fields of the routing API as they were read and drops no build but those past their window.\<close>

theorem reconcile_follows_policy:
  "log_ok (policy lib r) (w_log (snd (run_state (Reconcile env lib impl r name ns) \<lparr>w_log = [], w_mem = m\<rparr>)))"
  using wp_Reconcile [of lib r "\<lparr>w_log = [], w_mem = m\<rparr>" env impl name ns] by (simp add: wp_run reached_def good_def)

end
