(* ===== verification/Requeue.thy ===== *)
theory Requeue
  imports Controller
begin

text \<open>
  When the next pass comes (the requeue block of \<open>Reconcile\<close>, \<open>internal/controller/buildproject_controller.go\<close>).
  Nothing watches a held roll, a busy surplus clone, a daemon that is coming up, an entry that is about
  to expire or a snapshot that is about to be due: the pass has to ask for its own return. The section
  reads off the log of a pass what it left pending, and \<open>requeue_attends\<close> shows that whatever is pending
  is met by the requeue the pass answers.
\<close>

section \<open>What a pass left pending, read off its log\<close>

text \<open>The project in hand: the one read first, with its defaults, until a status write or patch answers with the
  stored object.\<close>

fun handProject :: "elog \<Rightarrow> BuildProject" where
  "handProject [] = bareProject []"
| "handProject (e # l) =
     (case e of
        EUpdateBPStatus _ (Inr b) \<Rightarrow> b
      | EPatchBPStatus _ _ (Inr b) \<Rightarrow> b
      | EGetBP _ _ _ (Inr b) \<Rightarrow> if l = [] then applyDefaults b else handProject l
      | _ \<Rightarrow> handProject l)"

text \<open>The ready replicas of the daemon as last read; a failed read counts as none.\<close>

fun lastReady :: "elog \<Rightarrow> int" where
  "lastReady [] = 0"
| "lastReady (e # l) = (case e of EGetSts _ _ x \<Rightarrow> (case x of Inl _ \<Rightarrow> 0 | Inr s \<Rightarrow> ss_ReadyReplicas s) | _ \<Rightarrow> lastReady l)"

text \<open>The live builds on which the pass decided that the daemon stays up, if it did: those of the project as
  first read when they (or the tier, or the idle window) size it to one, else those of the fresh read.\<close>

definition upBuilds :: "BuildProjectReconciler \<Rightarrow> elog \<Rightarrow> InflightBuild list option" where
  "upBuilds r l =
     (case rev l of
        EGetBP _ _ _ (Inr b) # ENow t1 # ENow t2 # rest \<Rightarrow>
          let bp = (applyDefaults b)\<lparr>bp_Status := fst (adoptLegacyInflight (bp_Status b))\<rparr>;
              live = liveEntries r (bp_Status b) t1
          in if desiredReplicas bp live t2 (adaptiveIdleMax r) \<noteq> 0 then Some live
             else (case rest of
                     EGetBP _ _ _ (Inr cur) # ENow t3 # _ \<Rightarrow>
                       if liveEntries r (bp_Status cur) t3 = [] then None else Some (liveEntries r (bp_Status cur) t3)
                   | _ \<Rightarrow> None)
      | _ \<Rightarrow> None)"

text \<open>The time to the next snapshot, where snapshots are configured: the rest of the cadence when the pass found
  one younger than that, else the whole cadence.\<close>

definition nextSnapshot :: "BuildProjectReconciler \<Rightarrow> BuildProjectSpec \<Rightarrow> elog \<Rightarrow> duration option" where
  "nextSnapshot r spec snap =
     (if sp_SnapshotEverySec spec \<le> 0 \<or> cf_SnapshotClass (rc_Cfg r) = [] then None
      else
        let cadence = wrap64 (sp_SnapshotEverySec spec * second) in
        (case rev snap of
           EGetPvc _ _ (Inr _) # EListSnap _ _ (Inr items) # ENow t # _ \<Rightarrow>
             (case newestSnapshot items of
                None \<Rightarrow> Some cadence
              | Some latest \<Rightarrow>
                  let age = timeSub t (vs_CreationTimestamp latest) in
                  Some (if age < cadence then wrap64 (cadence - age) else cadence))
         | _ \<Rightarrow> Some cadence))"

text \<open>A surplus clone was left in place: the clones were listed, each surplus one could be read and deleted as
  far as that was tried, and one of them was not deleted.\<close>

definition surplus :: "BuildProjectSpec \<Rightarrow> BuildProject \<Rightarrow> bool" where
  "surplus spec c \<longleftrightarrow> bp_Name c \<notin> set (map (cloneKey (sp_Key spec)) (cloneIndexes (sp_Fanout spec)))"

definition prunedCleanly :: "BuildProject \<Rightarrow> elog \<Rightarrow> bool" where
  "prunedCleanly c l \<longleftrightarrow>
     list_all (\<lambda>e. case e of
        EGetBP _ n _ (Inl err) \<Rightarrow> n \<noteq> bp_Name c \<or> isNotFound err
      | EDeleteBP d (Some err) \<Rightarrow> d \<noteq> c \<or> isNotFound err
      | _ \<Rightarrow> True) l"

definition deletedIn :: "BuildProject \<Rightarrow> elog \<Rightarrow> bool" where
  "deletedIn c l \<longleftrightarrow> list_ex (\<lambda>e. case e of EDeleteBP d _ \<Rightarrow> d = c | _ \<Rightarrow> False) l"

definition cloneLeft :: "BuildProjectSpec \<Rightarrow> BuildProject list res \<Rightarrow> elog \<Rightarrow> bool" where
  "cloneLeft spec listed l =
     (case listed of
        Inl _ \<Rightarrow> False
      | Inr cs \<Rightarrow> list_ex (\<lambda>c. surplus spec c \<and> \<not> deletedIn c l) cs \<and> list_all (\<lambda>c. surplus spec c \<longrightarrow> prunedCleanly c l) cs)"

abbreviation comesWithin :: "duration \<Rightarrow> duration \<Rightarrow> bool" where
  "comesWithin q d \<equiv> 0 < q \<and> q \<le> d"

text \<open>A pass that reached its loops with the log \<open>pre\<close> and ended with the log \<open>l\<close> asks for its return within \<open>q\<close>.
  What it left pending is met: a held roll and a surplus clone left in place within the drain
  interval; the next snapshot when it is due; and, when the daemon stays up, a daemon that is not ready
  within the scaling interval, the idle window of a project that is not hot within its re-check
  interval, and the oldest live build no later than its expiry.\<close>

definition attended :: "BuildProjectReconciler \<Rightarrow> bool \<Rightarrow> InflightBuild list option \<Rightarrow> int \<Rightarrow> elog \<Rightarrow> elog \<Rightarrow> duration \<Rightarrow> bool" where
  "attended r held up ready pre l q \<longleftrightarrow>
     (\<exists>later listed snap.
        l = later @ EListBP (cf_Namespace (rc_Cfg r)) (Some (cloneOfLabel, sp_Key (bp_Spec (handProject (snap @ pre))))) listed # snap @ pre \<and>
        (held \<longrightarrow> comesWithin q drainRecheckInterval) \<and>
        (cloneLeft (bp_Spec (handProject (snap @ pre))) listed later \<longrightarrow> comesWithin q drainRecheckInterval) \<and>
        (\<forall>d. nextSnapshot r (bp_Spec (handProject pre)) snap = Some d \<longrightarrow> 0 < d \<longrightarrow> comesWithin q d) \<and>
        (\<forall>live. up = Some live \<longrightarrow>
           (ready < 1 \<longrightarrow> comesWithin q scalingRecheckInterval) \<and>
           (sp_Tier (bp_Spec (handProject (snap @ pre))) \<noteq> TierHot \<longrightarrow>
              (\<exists>now. ENow now \<in> set later \<and> comesWithin q (idleRecheckInterval (handProject (snap @ pre)) now (adaptiveIdleMax r)))) \<and>
           (live \<noteq> [] \<longrightarrow> (\<exists>now rest. later = ENow now # rest \<and>
              (0 < timeSub (ib_Since (hd live) + maxBuildAge r) now \<longrightarrow> comesWithin q (timeSub (ib_Since (hd live) + maxBuildAge r) now))))))"

section \<open>The project in hand\<close>

definition inHand :: "elog \<Rightarrow> BuildProject \<Rightarrow> bool" where
  "inHand l bp \<longleftrightarrow> l \<noteq> [] \<and> bp_Spec (handProject l) = bp_Spec bp \<and>
     st_LastBuildTime (bp_Status (handProject l)) = st_LastBuildTime (bp_Status bp) \<and>
     st_RecentBuildTimes (bp_Status (handProject l)) = st_RecentBuildTimes (bp_Status bp)"

text \<open>Events that neither answer a status write nor list clones.\<close>

definition quiet :: "Event \<Rightarrow> bool" where
  "quiet e = (case e of EListBP _ _ _ \<Rightarrow> False | EUpdateBPStatus _ _ \<Rightarrow> False | EPatchBPStatus _ _ _ \<Rightarrow> False | _ \<Rightarrow> True)"

definition listsClones :: "Event \<Rightarrow> bool" where
  "listsClones e = (case e of EListBP _ _ _ \<Rightarrow> True | _ \<Rightarrow> False)"

lemma quiet_not_listed: "list_all quiet l \<Longrightarrow> \<not> list_ex listsClones l"
  by (induction l) (auto simp: quiet_def listsClones_def split: Event.splits)

lemma handProject_quiet: "quiet e \<Longrightarrow> l \<noteq> [] \<Longrightarrow> handProject (e # l) = handProject l"
  by (auto simp: quiet_def split: Event.splits sum.splits)

lemma inHand_quiet: "inHand l bp \<Longrightarrow> list_all quiet new \<Longrightarrow> inHand (new @ l) bp"
proof (induction new)
  case (Cons e new)
  then have "inHand (new @ l) bp" "quiet e" by simp_all
  then show ?case using handProject_quiet [of e "new @ l"] by (simp add: inHand_def del: handProject.simps)
qed simp

lemma inHand_idle:
  assumes "inHand l bp"
  shows "idleRecheckInterval (handProject l) now amax = idleRecheckInterval bp now amax"
proof -
  have e: "bp_Spec (handProject l) = bp_Spec bp" "st_LastBuildTime (bp_Status (handProject l)) = st_LastBuildTime (bp_Status bp)"
    "st_RecentBuildTimes (bp_Status (handProject l)) = st_RecentBuildTimes (bp_Status bp)" using assms by (simp_all add: inHand_def)
  show ?thesis unfolding idleRecheckInterval_def effectiveIdle_def e ..
qed

lemma quiet_simps [simp]:
  "quiet (ENow t)" "quiet (EGetBP rd n ns x)" "quiet (EGetPvc n ns y)" "quiet (EListSnap ns k z)" "quiet (EGetSts n ns s)" "quiet (EListPod ns k p)"
  "quiet (ECreateSnap n pvc cls c)" "quiet (EDeleteSnap sn d)"
  by (simp_all add: quiet_def)

section \<open>The loops\<close>

lemma quiet_pruneSnapshots: "emits quiet (pruneSnapshots env lib r items)"
  unfolding pruneSnapshots_def by (intro emits_rules) simp_all

lemma wp_takeSnapshot_pending:
  assumes "inHand (w_log w) bp"
  shows "wp (takeSnapshot env lib r bp cadence items) (\<lambda>(d, _, bp') w'. d = cadence \<and>
    (\<exists>new. w_log w' = new @ ENow (ev_now env (w_log w)) # w_log w) \<and> inHand (w_log w') bp') w"
proof -
  have q: "quiet e \<Longrightarrow> quiet e' \<Longrightarrow> inHand (e # e' # w_log w) bp" "quiet e \<Longrightarrow> inHand (e # w_log w) bp" for e e'
    using inHand_quiet [OF assms, of "[e, e']"] inHand_quiet [OF assms, of "[e]"] by simp_all
  have fin: "wp (pruneSnapshots env lib r is) (\<lambda>_ w'. (\<exists>new. w_log w' = new @ e # w_log w) \<and> inHand (w_log w') b) w1"
    if "w_log w1 = pre @ e # w_log w" "inHand (w_log w1) b" for w1 e b pre "is"
  proof -
    have "wp (pruneSnapshots env lib r is) (\<lambda>_ w'. \<exists>new. w_log w' = new @ w_log w1 \<and> (\<forall>e \<in> set new. quiet e)) w1"
      using quiet_pruneSnapshots unfolding emits_def by blast
    then show ?thesis
      by (rule wp_mono) (use that in \<open>auto simp: list_all_iff intro!: inHand_quiet\<close>)
  qed
  have hb: "inHand (EPatchBPStatus x y (Inl e) # l) b" if "inHand l b" for x y e l b using that by (simp add: inHand_def)
  have hs: "inHand (EPatchBPStatus x y (Inr b) # l) b" for x y b l by (simp add: inHand_def)
  have h2: "inHand l (bp\<lparr>bp_Status := (bp_Status bp)\<lparr>st_LastSnapshot := n\<rparr>\<rparr>) \<longleftrightarrow> inHand l bp" for l n by (simp add: inHand_def)
  show ?thesis
    unfolding takeSnapshot_def createSnap_def patchBPStatus_def Let_def
    using q by (auto simp: wp_rules split: option.split sum.split
        intro!: fin [of _ "[_, _]"] hs hb simp: h2)
qed

lemma wp_maybeSnapshot_pending:
  assumes "inHand (w_log w) bp"
  shows "wp (maybeSnapshot env lib r bp) (\<lambda>(d, _, bp') w'. \<exists>snap. w_log w' = snap @ w_log w \<and> inHand (w_log w') bp' \<and>
    d = (case nextSnapshot r (bp_Spec bp) snap of None \<Rightarrow> 0 | Some d \<Rightarrow> d)) w"
proof (cases "sp_SnapshotEverySec (bp_Spec bp) \<le> 0 \<or> cf_SnapshotClass (rc_Cfg r) = []")
  case True
  then show ?thesis using assms by (simp add: maybeSnapshot_def wp_rules nextSnapshot_def)
next
  case False
  let ?c = "wrap64 (sp_SnapshotEverySec (bp_Spec bp) * second)" and ?n = "cachePVCName (sp_Key (bp_Spec bp))" and ?ns = "cf_Namespace (rc_Cfg r)"
  let ?key = "sp_Key (bp_Spec bp)"
  let ?Q = "\<lambda>(d, _, bp') w'. \<exists>snap. w_log w' = snap @ w_log w \<and> inHand (w_log w') bp' \<and>
    d = (case nextSnapshot r (bp_Spec bp) snap of None \<Rightarrow> 0 | Some d \<Rightarrow> d)"
  have h: "inHand (new @ w_log w) bp" if "list_all quiet new" for new by (rule inHand_quiet [OF assms that])
  have nx: "nextSnapshot r (bp_Spec bp) snap =
      (case rev snap of
           EGetPvc _ _ (Inr _) # EListSnap _ _ (Inr items) # ENow t # _ \<Rightarrow>
             (case newestSnapshot items of
                None \<Rightarrow> Some ?c
              | Some latest \<Rightarrow>
                  Some (if timeSub t (vs_CreationTimestamp latest) < ?c then wrap64 (?c - timeSub t (vs_CreationTimestamp latest)) else ?c))
         | _ \<Rightarrow> Some ?c)" for snap
    using False unfolding nextSnapshot_def Let_def by simp
  have took: "wp (takeSnapshot env lib r bp ?c items) ?Q w1"
    if "w_log w1 = pre @ w_log w" "list_all quiet pre"
      "\<And>new t. t = ev_now env (w_log w1) \<Longrightarrow> nextSnapshot r (bp_Spec bp) (new @ ENow t # pre) = Some ?c" for w1 pre items
  proof (rule wp_mono [OF wp_takeSnapshot_pending])
    show "inHand (w_log w1) bp" using that h by simp
    fix a and w2 :: "(Event, CMem) world"
    assume a: "(\<lambda>(d, _, bp') w'. d = ?c \<and> (\<exists>new. w_log w' = new @ ENow (ev_now env (w_log w1)) # w_log w1) \<and> inHand (w_log w') bp') a w2"
    then show "?Q a w2" using that by fastforce
  qed
  show ?thesis
  proof (cases "ev_getPvc env (w_log w) ?n ?ns")
    case (Inl e)
    then show ?thesis using False h [of "[_]"] by (auto simp: maybeSnapshot_def wp_rules Let_def nx intro!: exI [of _ "[_]"])
  next
    case pvc: (Inr pvc)
    let ?p = "EGetPvc ?n ?ns (Inr pvc)"
    show ?thesis
    proof (cases "ev_listSnap env (?p # w_log w) ?ns ?key")
      case (Inl e)
      then show ?thesis using False pvc h [of "[_, _]"] by (auto simp: maybeSnapshot_def listSnap_def wp_rules Let_def nx intro!: exI [of _ "[_, _]"])
    next
      case (Inr items)
      let ?l = "EListSnap ?ns ?key (Inr items)"
      show ?thesis
      proof (cases "newestSnapshot items")
        case None
        have "wp (takeSnapshot env lib r bp ?c items) ?Q (w\<lparr>w_log := [?l, ?p] @ w_log w\<rparr>)"
          by (rule took) (auto simp: nx None)
        then show ?thesis using False pvc Inr None by (simp add: maybeSnapshot_def listSnap_def wp_rules Let_def)
      next
        case (Some latest)
        let ?t = "ev_now env (?l # ?p # w_log w)"
        have tk: "wp (takeSnapshot env lib r bp ?c items) ?Q (w\<lparr>w_log := [ENow ?t, ?l, ?p] @ w_log w\<rparr>)" if "\<not> timeSub ?t (vs_CreationTimestamp latest) < ?c"
          by (rule took) (use that in \<open>auto simp: nx Some\<close>)
        show ?thesis using False pvc Inr Some h [of "[_, _, _]"] tk
          by (auto simp: maybeSnapshot_def listSnap_def wp_rules Let_def nx intro!: exI [of _ "[_, _, _]"])
      qed
    qed
  qed
qed

text \<open>The prune loop answers that it deferred a clone whenever a surplus one is left standing.\<close>

lemma wp_pruneClone_pending:
  "wp (pruneClone env r c) (\<lambda>p w'. \<exists>new. w_log w' = new @ w_log w \<and> (prunedCleanly c new \<longrightarrow> p = Inr True \<or> p = Inr False \<and> deletedIn c new)) w"
  unfolding pruneClone_def freshInflightEntries_def deleteBP_def
  by (auto simp: wp_rules prunedCleanly_def deletedIn_def ignoreNotFound_def split: sum.split option.split)

lemma pruned_append [simp]:
  "prunedCleanly c (a @ b) \<longleftrightarrow> prunedCleanly c a \<and> prunedCleanly c b" "deletedIn c (a @ b) \<longleftrightarrow> deletedIn c a \<or> deletedIn c b"
  by (simp_all add: prunedCleanly_def deletedIn_def)

lemma wp_pruneClones_pending:
  "wp (pruneClones env r want cs deferred) (\<lambda>(d, _) w'. \<exists>new. w_log w' = new @ w_log w \<and> (deferred \<longrightarrow> d) \<and>
     ((\<exists>c \<in> set cs. bp_Name c \<notin> set want \<and> \<not> deletedIn c new) \<and> (\<forall>c \<in> set cs. bp_Name c \<notin> set want \<longrightarrow> prunedCleanly c new) \<longrightarrow> d)) w"
proof (induction cs arbitrary: w deferred)
  case (Cons c cs)
  show ?case
  proof (cases "bp_Name c \<in> set want")
    case True
    then show ?thesis using Cons.IH [of deferred w] by (simp cong: conj_cong)
  next
    case False
    have "wp (pruneClone env r c \<bind> case_sum (\<lambda>e. ret (deferred, Some e)) (\<lambda>busy. pruneClones env r want cs (deferred \<or> busy)))
      (\<lambda>(d, _) w'. \<exists>new. w_log w' = new @ w_log w \<and> (deferred \<longrightarrow> d) \<and>
       ((\<exists>c' \<in> set (c # cs). bp_Name c' \<notin> set want \<and> \<not> deletedIn c' new) \<and> (\<forall>c' \<in> set (c # cs). bp_Name c' \<notin> set want \<longrightarrow> prunedCleanly c' new) \<longrightarrow> d)) w"
    proof (rule wp_bindI [OF wp_pruneClone_pending])
      fix p :: "bool res" and w1 :: "(Event, CMem) world"
      assume "\<exists>new. w_log w1 = new @ w_log w \<and> (prunedCleanly c new \<longrightarrow> p = Inr True \<or> p = Inr False \<and> deletedIn c new)"
      then obtain new where n: "w_log w1 = new @ w_log w" "prunedCleanly c new \<longrightarrow> p = Inr True \<or> p = Inr False \<and> deletedIn c new" by blast
      show "wp (case_sum (\<lambda>e. ret (deferred, Some e)) (\<lambda>busy. pruneClones env r want cs (deferred \<or> busy)) p)
       (\<lambda>(d, _) w'. \<exists>new. w_log w' = new @ w_log w \<and> (deferred \<longrightarrow> d) \<and>
         ((\<exists>c' \<in> set (c # cs). bp_Name c' \<notin> set want \<and> \<not> deletedIn c' new) \<and> (\<forall>c' \<in> set (c # cs). bp_Name c' \<notin> set want \<longrightarrow> prunedCleanly c' new) \<longrightarrow> d)) w1"
      proof (cases p)
        case (Inl e)
        then show ?thesis using n False by (auto simp: wp_rules)
      next
        case (Inr busy)
        show ?thesis unfolding Inr sum.case
          by (rule wp_mono [OF Cons.IH]) (use n Inr False in \<open>auto simp: case_prod_beta\<close>)
      qed
    qed
    then show ?thesis using False by simp
  qed
qed (simp add: wp_rules)

lemma cloneLeft_mono: "cloneLeft spec x (a @ b) \<Longrightarrow> cloneLeft spec x b"
  by (auto simp: cloneLeft_def list_ex_iff list_all_iff split: sum.splits)

lemma wp_emits: "emits E m \<Longrightarrow> wp m (\<lambda>_ w'. \<exists>new. w_log w' = new @ w_log w) w"
  unfolding emits_def by (fastforce elim: wp_mono)

lemma wp_reconcileFanout_pending:
  fixes w :: "(Event, CMem) world"
  shows "wp (reconcileFanout env lib r bp) (\<lambda>(d, _) w'. \<exists>later x.
     w_log w' = later @ EListBP (cf_Namespace (rc_Cfg r)) (Some (cloneOfLabel, sp_Key (bp_Spec bp))) x # w_log w \<and>
     (cloneLeft (bp_Spec bp) x later \<longrightarrow> d)) w"
proof -
  let ?want = "map (cloneKey (sp_Key (bp_Spec bp))) (cloneIndexes (sp_Fanout (bp_Spec bp)))"
  let ?e = "EListBP (cf_Namespace (rc_Cfg r)) (Some (cloneOfLabel, sp_Key (bp_Spec bp)))"
  have ec: "emits (\<lambda>_. True) (ensureClones env lib r bp)" unfolding ensureClones_def ensureClone_def by (intro emits_rules) simp_all
  have pr: "wp (pruneClones env r ?want cs False \<bind> (\<lambda>(deferred, err). case err of Some e \<Rightarrow> ret (deferred, Some e) | None \<Rightarrow> do { e \<leftarrow> ensureClones env lib r bp; ret (deferred, e) }))
      (\<lambda>(d, _) w'. \<exists>later x. w_log w' = later @ ?e x # w_log w \<and> (cloneLeft (bp_Spec bp) x later \<longrightarrow> d)) (w\<lparr>w_log := ?e (Inr cs) # w_log w\<rparr>)" for cs
  proof (rule wp_bindI [OF wp_pruneClones_pending])
    fix a :: "bool \<times> ApiErr option" and w1 :: "(Event, CMem) world"
    assume "(\<lambda>(d, _) w'. \<exists>new. w_log w' = new @ w_log (w\<lparr>w_log := ?e (Inr cs) # w_log w\<rparr>) \<and> (False \<longrightarrow> d) \<and>
     ((\<exists>c \<in> set cs. bp_Name c \<notin> set ?want \<and> \<not> deletedIn c new) \<and> (\<forall>c \<in> set cs. bp_Name c \<notin> set ?want \<longrightarrow> prunedCleanly c new) \<longrightarrow> d)) a w1"
    then obtain d err new where a: "a = (d, err)" "w_log w1 = new @ ?e (Inr cs) # w_log w" "cloneLeft (bp_Spec bp) (Inr cs) new \<longrightarrow> d"
      by (cases a) (auto simp: cloneLeft_def surplus_def list_ex_iff list_all_iff)
    show "wp ((\<lambda>(deferred, err). case err of Some e \<Rightarrow> ret (deferred, Some e) | None \<Rightarrow> do { e \<leftarrow> ensureClones env lib r bp; ret (deferred, e) }) a)
      (\<lambda>(d, _) w'. \<exists>later x. w_log w' = later @ ?e x # w_log w \<and> (cloneLeft (bp_Spec bp) x later \<longrightarrow> d)) w1"
    proof (cases err)
      case None
      have "wp (ensureClones env lib r bp) (\<lambda>_ w'. \<exists>later x. w_log w' = later @ ?e x # w_log w \<and> (cloneLeft (bp_Spec bp) x later \<longrightarrow> d)) w1"
      proof (rule wp_mono [OF wp_emits [OF ec]])
        fix b and w2 :: "(Event, CMem) world"
        assume "\<exists>new. w_log w2 = new @ w_log w1"
        then obtain more where "w_log w2 = (more @ new) @ ?e (Inr cs) # w_log w" using a(2) by auto
        then show "\<exists>later x. w_log w2 = later @ ?e x # w_log w \<and> (cloneLeft (bp_Spec bp) x later \<longrightarrow> d)"
          using a(3) cloneLeft_mono by blast
      qed
      then show ?thesis using None a by (simp add: wp_rules)
    qed (use a in \<open>auto simp: wp_rules\<close>)
  qed
  show ?thesis
  proof (cases "ev_listBP env (w_log w) (cf_Namespace (rc_Cfg r)) (Some (cloneOfLabel, sp_Key (bp_Spec bp)))")
    case (Inl e)
    then show ?thesis by (auto simp: reconcileFanout_def listBP_def wp_rules Let_def cloneLeft_def)
  next
    case (Inr cs)
    then show ?thesis using pr [of cs] unfolding reconcileFanout_def listBP_def Let_def
      by (subst wp_bind) (simp add: wp_call del: wp_bind)
  qed
qed

lemma wp_requeueAfter:
  fixes w :: "(Event, CMem) world"
  shows "wp (requeueAfter env r bp desired ready snapAfter live prunePending rollHeld) (\<lambda>q w'. \<exists>new idle expiry. w_log w' = new @ w_log w \<and>
     q = requeueOf idle (desired = 1 \<and> ready < 1) snapAfter expiry prunePending rollHeld \<and> 0 \<le> idle \<and>
     (desired = 1 \<and> sp_Tier (bp_Spec bp) \<noteq> TierHot \<longrightarrow> (\<exists>now. ENow now \<in> set new \<and> idle = idleRecheckInterval bp now (adaptiveIdleMax r) \<and> 0 < idle)) \<and>
     (live \<noteq> [] \<longrightarrow> (\<exists>now rest. new = ENow now # rest \<and> expiry = timeSub (ib_Since (hd live) + maxBuildAge r) now))) w"
proof -
  have i: "0 < idleRecheckInterval bp t a" for t a using idleRecheckInterval_bounds [of bp t a] by (simp add: second_def)
  note i' = i [THEN less_imp_le]
  show ?thesis unfolding requeueAfter_def wp_rules
    apply (cases live)
     apply (auto simp: wp_rules i i')
    apply (rule exI [of _ "idleRecheckInterval bp (ev_now env (w_log w)) (adaptiveIdleMax r)"])
    apply (auto simp: i i')
    done
qed

lemma quiet_any: "emits (\<lambda>_. True) (maybeAutoGrow env lib impl r bp ready)"
  unfolding maybeAutoGrow_def bounceIdle_def bounceUnlessBusy_def freshInflight_def freshInflightEntries_def bouncePod_def probeAndGrow_def probeDaemon_def
    decideGrow_def growVolume_def growPvc_def recordSpecGi_def bounceAllow_def probeAllow_def
  by (intro emits_rules) simp_all

lemma attendedI:
  assumes l: "l = (new @ between) @ EListBP (cf_Namespace (rc_Cfg r)) (Some (cloneOfLabel, sp_Key (bp_Spec bp'))) listed # snap @ pre"
    and hand: "inHand pre bp" "inHand (snap @ pre) bp'"
    and up: "case up of None \<Rightarrow> desired \<noteq> 1 | Some live' \<Rightarrow> desired = 1 \<and> live = live'"
    and q: "q = requeueOf idle (desired = 1 \<and> ready < 1) (case nextSnapshot r (bp_Spec bp) snap of None \<Rightarrow> 0 | Some d \<Rightarrow> d) expiry prunePending held" "0 \<le> idle"
    and idle: "desired = 1 \<and> sp_Tier (bp_Spec bp') \<noteq> TierHot \<longrightarrow> (\<exists>now. ENow now \<in> set new \<and> idle = idleRecheckInterval bp' now (adaptiveIdleMax r) \<and> 0 < idle)"
    and live: "live \<noteq> [] \<longrightarrow> (\<exists>now rest. new = ENow now # rest \<and> expiry = timeSub (ib_Since (hd live) + maxBuildAge r) now)"
    and left: "cloneLeft (bp_Spec bp') listed between \<longrightarrow> prunePending"
  shows "attended r held up ready pre l q"
proof -
  let ?d = "case nextSnapshot r (bp_Spec bp) snap of None \<Rightarrow> 0 | Some d \<Rightarrow> d"
  have h: "bp_Spec (handProject (snap @ pre)) = bp_Spec bp'" "bp_Spec (handProject pre) = bp_Spec bp" using hand by (simp_all add: inHand_def)
  note pos = requeueOf_pos [of idle "desired = 1 \<and> ready < 1" ?d expiry prunePending held, folded q(1), OF q(2)]
    and le = requeueOf_le [of idle "desired = 1 \<and> ready < 1" ?d expiry prunePending held, folded q(1)]
  have c: "scalingRecheckInterval = 30 * second" "drainRecheckInterval = 30 * second"
    by (simp_all add: scalingRecheckInterval_def drainRecheckInterval_def)
  have drain: "prunePending \<or> held \<Longrightarrow> comesWithin q drainRecheckInterval" using pos le q(2) unfolding c by blast
  have clone: "cloneLeft (bp_Spec bp') listed (new @ between) \<longrightarrow> comesWithin q drainRecheckInterval"
    using left cloneLeft_mono [of "bp_Spec bp'" listed new between] drain by blast
  have snp: "nextSnapshot r (bp_Spec bp) snap = Some d \<longrightarrow> 0 < d \<longrightarrow> comesWithin q d" for d using pos le q(2) by auto
  have ups: "(ready < 1 \<longrightarrow> comesWithin q scalingRecheckInterval) \<and>
      (sp_Tier (bp_Spec bp') \<noteq> TierHot \<longrightarrow>
         (\<exists>now. ENow now \<in> set (new @ between) \<and> comesWithin q (idleRecheckInterval (handProject (snap @ pre)) now (adaptiveIdleMax r)))) \<and>
      (live' \<noteq> [] \<longrightarrow> (\<exists>now rest. new @ between = ENow now # rest \<and>
         (0 < timeSub (ib_Since (hd live') + maxBuildAge r) now \<longrightarrow> comesWithin q (timeSub (ib_Since (hd live') + maxBuildAge r) now))))"
    if "up = Some live'" for live'
  proof -
    have d: "desired = 1" "live' = live" using up that by simp_all
    show ?thesis
    proof (intro conjI impI)
      assume "ready < 1"
      then show "0 < q" "q \<le> scalingRecheckInterval" using pos le q(2) d(1) unfolding c by blast+
    next
      assume "sp_Tier (bp_Spec bp') \<noteq> TierHot"
      then obtain now where "ENow now \<in> set new" "idle = idleRecheckInterval bp' now (adaptiveIdleMax r)" "0 < idle" using idle d(1) by blast
      then show "\<exists>now. ENow now \<in> set (new @ between) \<and> comesWithin q (idleRecheckInterval (handProject (snap @ pre)) now (adaptiveIdleMax r))"
        using pos le unfolding inHand_idle [OF hand(2)] by auto
    next
      assume "live' \<noteq> []"
      then show "\<exists>now rest. new @ between = ENow now # rest \<and>
         (0 < timeSub (ib_Since (hd live') + maxBuildAge r) now \<longrightarrow> comesWithin q (timeSub (ib_Since (hd live') + maxBuildAge r) now))"
        using live pos le q(2) unfolding d(2) by auto
    qed
  qed
  show ?thesis unfolding attended_def
    by (rule exI [of _ "new @ between"], rule exI [of _ listed], rule exI [of _ snap], unfold h)
       (use l drain clone snp ups in blast)
qed


lemma runLoops_attends:
  fixes w :: "(Event, CMem) world"
  assumes hand: "inHand (w_log w) bp" and up: "case up of None \<Rightarrow> desired \<noteq> 1 | Some live' \<Rightarrow> desired = 1 \<and> live = live'"
  shows "wp (runLoops env lib impl r bp desired ready live held) (\<lambda>(q, e) w'. e = None \<and> attended r held up ready (w_log w) (w_log w') q) w"
  unfolding runLoops_def
  apply (rule wp_bindI [OF wp_maybeSnapshot_pending [OF hand]], clarsimp)
  subgoal for bp' w1 snap
    apply (rule wp_bindI [OF wp_reconcileFanout_pending], clarsimp)
    subgoal for prunePending w2 later listed
      apply (rule wp_bindI [OF wp_emits [OF quiet_any]], clarsimp)
      subgoal for w3 between
        apply (rule wp_bindI [OF wp_requeueAfter], clarsimp simp: wp_rules)
        subgoal for w4 new idle expiry
          by (rule attendedI [where between = "between @ later" and new = new and bp' = bp' and snap = snap and listed = listed, OF _ hand _ up refl])
             (use cloneLeft_mono [of "bp_Spec bp'" listed between later] in auto)
        done
      done
    done
  done

section \<open>The pass\<close>

lemma keeps_held_call: "keeps (\<lambda>w. cm_rollsHeld (w_mem w) = H) (call f ev)"
  by (simp add: keeps_def wp_rules)

lemma keeps_held_gates:
  "keeps (\<lambda>w. cm_rollsHeld (w_mem w) = H) (bounceAllow k t)" "keeps (\<lambda>w. cm_rollsHeld (w_mem w) = H) (probeAllow k t)"
  by (simp_all add: keeps_def bounceAllow_def probeAllow_def wp_rules Let_def case_prod_beta)

lemma keeps_held_pruneClones: "keeps (\<lambda>w. cm_rollsHeld (w_mem w) = H) (pruneClones env r want cs deferred)"
  by (induction cs arbitrary: deferred)
     (auto simp: pruneClone_def freshInflightEntries_def kube_calls intro!: keeps_rules keeps_held_call)

lemma keeps_held_runLoops: "keeps (\<lambda>w. cm_rollsHeld (w_mem w) = H) (runLoops env lib impl r bp desired ready live held)"
  unfolding runLoops_def maybeSnapshot_def takeSnapshot_def pruneSnapshots_def reconcileFanout_def ensureClones_def ensureClone_def
    maybeAutoGrow_def bounceIdle_def bounceUnlessBusy_def freshInflight_def freshInflightEntries_def bouncePod_def probeAndGrow_def probeDaemon_def
    decideGrow_def growVolume_def growPvc_def recordSpecGi_def requeueAfter_def kube_calls
  by (intro keeps_rules keeps_held_call keeps_held_gates keeps_held_pruneClones allI | cases live; simp)+

definition passEnds :: "BuildProjectReconciler \<Rightarrow> string \<Rightarrow> InflightBuild list option \<Rightarrow> elog \<Rightarrow> duration \<times> ApiErr option \<Rightarrow> (Event, CMem) world \<Rightarrow> bool" where
  "passEnds r key up l0 a w' \<longleftrightarrow> snd a = None \<longrightarrow> list_ex listsClones (w_log w') \<longrightarrow>
     (\<exists>new. attended r (key \<in> cm_rollsHeld (w_mem w')) up (lastReady (new @ l0)) (new @ l0) (w_log w') (fst a))"

lemma passEnds_quiet: "\<not> list_ex listsClones (w_log w') \<Longrightarrow> passEnds r key up l0 a w'"
  by (simp add: passEnds_def)

lemma wp_phaseAndMessage:
  "wp (phaseAndMessage env r key d rd) (\<lambda>_ w'. w_mem w' = w_mem w \<and>
     (\<exists>pods. w_log w' = pods @ w_log w \<and> (pods = [] \<or> (\<exists>ns k x. pods = [EListPod ns k x])))) w"
  by (auto simp: phaseAndMessage_def daemonFailure_def listPod_def wp_rules Let_def)

lemma reflectStatus_attends:
  fixes w :: "(Event, CMem) world"
  assumes hand: "inHand (w_log w) bp" and up: "case up of None \<Rightarrow> desired \<noteq> 1 | Some live' \<Rightarrow> desired = 1 \<and> live = live'"
    and quiet: "\<not> list_ex listsClones (w_log w)" and held: "key \<in> cm_rollsHeld (w_mem w) \<longleftrightarrow> rollHeld"
  shows "wp (reflectStatus env lib impl r bp desired live expired adopted rollHeld) (passEnds r key up (w_log w)) w"
proof -
  let ?s = "ev_getSts env (w_log w) (daemonName (sp_Key (bp_Spec bp))) (cf_Namespace (rc_Cfg r))"
  let ?ready = "case ?s of Inl _ \<Rightarrow> 0 | Inr s \<Rightarrow> ss_ReadyReplicas s"
  let ?g = "EGetSts (daemonName (sp_Key (bp_Spec bp))) (cf_Namespace (rc_Cfg r)) ?s"
  have loops: "wp (runLoops env lib impl r b desired ?ready live rollHeld) (passEnds r key up (w_log w)) w1"
    if "inHand (w_log w1) b" "w_log w1 = new @ w_log w" "lastReady (w_log w1) = ?ready" "w_mem w1 = w_mem w" for b w1 new
  proof -
    have "wp (runLoops env lib impl r b desired ?ready live rollHeld) (\<lambda>_ w'. cm_rollsHeld (w_mem w') = cm_rollsHeld (w_mem w)) w1"
      using keepsD [OF keeps_held_runLoops [of "cm_rollsHeld (w_mem w)"]] that(4) by simp
    from wp_conj [OF this runLoops_attends [OF that(1) up, of env lib impl r ?ready rollHeld]] show ?thesis
      by (rule wp_mono) (use that held in \<open>auto simp: passEnds_def intro!: exI [of _ new]\<close>)
  qed
  have st: "inHand l (bp\<lparr>bp_Status := newStatus lib (bp_Status bp) live rw rd ph ep msg\<rparr>) \<longleftrightarrow> inHand l bp" for l rw rd ph ep msg
    by (simp add: inHand_def newStatus_def setInflight_def Let_def)
  have after: "wp ((if c then updateBPStatus env b else ret (Inr b)) \<bind> case_sum (\<lambda>e. ret (0, ignoreNotFound (Some e))) (\<lambda>bp. runLoops env lib impl r bp desired ?ready live rollHeld))
      (passEnds r key up (w_log w)) w1"
    if "inHand (w_log w1) b" "w_log w1 = pods @ ?g # w_log w" "pods = [] \<or> (\<exists>ns k x. pods = [EListPod ns k x])" "w_mem w1 = w_mem w" for c b w1 pods
  proof -
    have r1: "lastReady (w_log w1) = ?ready" using that(2,3) by auto
    have up1: "inHand (EUpdateBPStatus b (Inr b') # w_log w1) b'" for b' by (simp add: inHand_def)
    have q: "\<not> list_ex listsClones (w_log w1)" using that(2,3) quiet by (auto simp: listsClones_def)
    have same: "wp (runLoops env lib impl r b desired ?ready live rollHeld) (passEnds r key up (w_log w)) w1"
      by (rule loops [where new = "pods @ [?g]"]) (use that r1 in simp_all)
    have stored: "wp (runLoops env lib impl r b' desired ?ready live rollHeld) (passEnds r key up (w_log w)) (w1\<lparr>w_log := EUpdateBPStatus b (Inr b') # w_log w1\<rparr>)" for b'
      by (rule loops [where new = "EUpdateBPStatus b (Inr b') # pods @ [?g]"]) (use that r1 up1 in simp_all)
    show ?thesis
    proof (cases "c \<and> (\<exists>e. ev_updateBPStatus env (w_log w1) b = Inl e)")
      case True
      then show ?thesis using q by (auto simp: updateBPStatus_def wp_rules listsClones_def intro!: passEnds_quiet)
    next
      case False
      then show ?thesis using same stored by (cases "ev_updateBPStatus env (w_log w1) b") (auto simp: updateBPStatus_def wp_rules)
    qed
  qed
  have h: "inHand (pods @ ?g # w_log w) bp" if "list_all quiet pods" for pods using inHand_quiet [OF hand, of "pods @ [?g]"] that by simp
  show ?thesis
    unfolding reflectStatus_def Let_def
    apply (subst wp_bind, subst wp_getSts)
    apply (rule wp_bindI [OF wp_phaseAndMessage])
    subgoal for pm w2
      apply (elim conjE exE)
      subgoal for pods by (rule after [where pods = pods]) (use h [of pods] in \<open>auto simp: st\<close>)
      done
    done
qed

lemma passEnds_ext: "passEnds r key up (new @ l0) a w' \<Longrightarrow> passEnds r key up l0 a w'"
  unfolding passEnds_def by (metis append_assoc)

lemma quiet_kube [simp]:
  "quiet (EGetSvc n ns a)" "quiet (ECreateSvc sv e)" "quiet (EUpdateSvc sv e)" "quiet (EGetPDB n ns b)" "quiet (ECreatePDB pd e)" "quiet (EUpdatePDB pd e)"
  "quiet (EDeletePDB pd e)" "quiet (ECreateSts st e)" "quiet (EPatchSts st st' e)" "quiet (EDeletePvc pv e)" "quiet (EDeleteBP b' e)"
  by (simp_all add: quiet_def)

lemma quiet_parts:
  "emits quiet (freshInflightEntries env r bp)" "emits quiet (ensureService env lib r bp)" "emits quiet (ensurePDB env lib r bp s)" "emits quiet (reapFork env r bp)"
  unfolding freshInflightEntries_def ensureService_def ensurePDB_def reapFork_def by (intro emits_rules; simp)+

lemma quiet_ensureStatefulSet: "emits quiet (ensureStatefulSet env lib r bp desired live)"
  unfolding ensureStatefulSet_def decideRoll_def holdRoll_def daemonFailure_def Let_def by (intro emits_rules quiet_parts) simp_all

lemma wp_quiet: "emits quiet m \<Longrightarrow> wp m (\<lambda>_ w'. \<exists>new. w_log w' = new @ w_log w \<and> list_all quiet new) w"
  unfolding emits_def list_all_iff by blast

lemma convergeDaemon_attends:
  fixes w :: "(Event, CMem) world"
  assumes hand: "inHand (w_log w) bp" and up: "case up of None \<Rightarrow> desired \<noteq> 1 | Some live' \<Rightarrow> desired = 1 \<and> live = live'"
    and quiet: "\<not> list_ex listsClones (w_log w)"
  shows "wp (convergeDaemon env lib impl r bp desired live expired adopted) (passEnds r (sp_Key (bp_Spec bp)) up (w_log w)) w"
proof -
  let ?key = "sp_Key (bp_Spec bp)"
  have q: "\<not> list_ex listsClones (new @ w_log w)" if "list_all quiet new" for new using that quiet quiet_not_listed by simp
  have refl: "wp (rollsHeldSet ?key rollHeld \<bind> (\<lambda>_. reflectStatus env lib impl r bp desired live expired adopted rollHeld)) (passEnds r ?key up (w_log w)) w1"
    if n: "w_log w1 = new @ w_log w" "list_all quiet new" for w1 new rollHeld
  proof -
    let ?w = "w1\<lparr>w_mem := (w_mem w1)\<lparr>cm_rollsHeld := heldSetSet (cm_rollsHeld (w_mem w1)) ?key rollHeld\<rparr>\<rparr>"
    have "wp (reflectStatus env lib impl r bp desired live expired adopted rollHeld) (passEnds r ?key up (w_log ?w)) ?w"
      by (rule reflectStatus_attends [OF _ up]) (use n q inHand_quiet [OF hand] in \<open>auto simp: heldSetSet_def\<close>)
    then have "wp (reflectStatus env lib impl r bp desired live expired adopted rollHeld) (passEnds r ?key up (w_log w)) ?w"
      by (rule wp_mono) (use n in \<open>auto intro: passEnds_ext\<close>)
    then show ?thesis by (simp add: rollsHeldSet_def wp_rules)
  qed
  show ?thesis unfolding convergeDaemon_def
    apply (rule wp_bindI [OF wp_quiet [OF quiet_parts(2)]])
    subgoal for se w1
      apply (cases se)
      subgoal
        apply simp
        apply (rule wp_bindI [OF wp_quiet [OF quiet_parts(3)]])
        apply (rule wp_bindI [OF wp_quiet [OF quiet_ensureStatefulSet]])
        subgoal for pdb w2 sts w3
          by (cases sts) (auto simp: wp_return passEnds_def intro!: refl)
        done
      subgoal by (auto simp: wp_return passEnds_def)
      done
    done
qed

lemma takeDownOrConverge_attends:
  fixes w :: "(Event, CMem) world"
  assumes hand: "inHand (w_log w) bp" and up: "case up of None \<Rightarrow> desired \<noteq> 1 | Some live' \<Rightarrow> desired = 1 \<and> live = live'"
    and quiet: "\<not> list_ex listsClones (w_log w)"
  shows "wp (takeDownOrConverge env lib impl r bp desired live expired adopted) (passEnds r (sp_Key (bp_Spec bp)) up (w_log w)) w"
proof -
  have reap: "wp (reapFork env r bp) (\<lambda>a. passEnds r (sp_Key (bp_Spec bp)) up (w_log w) (0, a)) (w\<lparr>w_log := ENow t # w_log w\<rparr>)" for t
    by (rule wp_mono [OF wp_quiet [OF quiet_parts(4)]]) (use quiet quiet_not_listed in \<open>auto simp: listsClones_def intro!: passEnds_quiet\<close>)
  show ?thesis
    using convergeDaemon_attends [OF assms] reap quiet
    by (auto simp: takeDownOrConverge_def wp_rules Let_def listsClones_def intro!: passEnds_quiet)
qed

section \<open>The property\<close>

lemma adopt_times:
  "st_LastBuildTime (fst (adoptLegacyInflight st)) = st_LastBuildTime st" "st_RecentBuildTimes (fst (adoptLegacyInflight st)) = st_RecentBuildTimes st"
  by (simp_all add: adoptLegacyInflight_def setInflight_def Let_def split: option.split)

lemma Reconcile_attends:
  fixes m :: CMem
  shows "wp (Reconcile env lib impl r name ns) (\<lambda>(q, e) w'. e = None \<and> list_ex listsClones (w_log w') \<longrightarrow>
     (\<exists>pre b. last pre = EGetBP Cached name ns (Inr b) \<and>
        attended r (sp_Key (bp_Spec b) \<in> cm_rollsHeld (w_mem w')) (upBuilds r pre) (lastReady pre) pre (w_log w') q)) \<lparr>w_log = [], w_mem = m\<rparr>"
    (is "wp _ ?Q ?w")
proof (cases "ev_getBP env [] Cached name ns")
  case (Inl e)
  then show ?thesis by (simp add: Reconcile_def wp_rules listsClones_def)
next
  case (Inr b)
  let ?g = "EGetBP Cached name ns (Inr b)"
  define t1 where "t1 = ev_now env [?g]"
  define t2 where "t2 = ev_now env [ENow t1, ?g]"
  let ?l = "[ENow t2, ENow t1, ?g]"
  define bp where "bp = (applyDefaults b)\<lparr>bp_Status := fst (adoptLegacyInflight (bp_Status b))\<rparr>"
  define live where "live = liveEntries r (bp_Status b) t1"
  define desired where "desired = desiredReplicas bp live t2 (adaptiveIdleMax r)"
  have key: "sp_Key (bp_Spec bp) = sp_Key (bp_Spec b)" by (simp add: bp_def applyDefaults_def specDefaults_def)
  have d: "desired \<noteq> 0 \<Longrightarrow> desired = 1" unfolding desired_def desiredReplicas_def by (auto simp: Let_def split: option.splits if_splits)
  have hand: "inHand ?l bp" by (simp add: inHand_def bp_def applyDefaults_def adopt_times)
  have fin: "wp (takeDownOrConverge env lib impl r bp ds lv (snd (expireInflight (st_Inflight (fst (adoptLegacyInflight (bp_Status b)))) t1 (maxBuildAge r)))
       (snd (adoptLegacyInflight (bp_Status b)))) ?Q w1"
    if n: "w_log w1 = new @ ?l" "list_all quiet new" "\<And>later. upBuilds r (later @ new @ ?l) = up" "case up of None \<Rightarrow> ds \<noteq> 1 | Some live' \<Rightarrow> ds = 1 \<and> lv = live'" for w1 ds lv new up
  proof (rule wp_mono [OF takeDownOrConverge_attends [OF _ n(4)]])
    show "inHand (w_log w1) bp" using n(1,2) inHand_quiet [OF hand] by simp
    show "\<not> list_ex listsClones (w_log w1)" using n(1,2) quiet_not_listed by (auto simp: listsClones_def)
    fix a and w2 :: "(Event, CMem) world"
    assume p: "passEnds r (sp_Key (bp_Spec bp)) up (w_log w1) a w2"
    show "?Q a w2"
    proof (clarsimp simp: case_prod_beta)
      assume "snd a = None" "list_ex listsClones (w_log w2)"
      then obtain later where "attended r (sp_Key (bp_Spec b) \<in> cm_rollsHeld (w_mem w2)) (upBuilds r (later @ new @ ?l)) (lastReady (later @ new @ ?l)) (later @ new @ ?l) (w_log w2) (fst a)"
        using p n(1,3) key by (auto simp: passEnds_def)
      moreover have "last (later @ new @ ?l) = ?g" by simp
      ultimately show "\<exists>pre b. last pre = EGetBP Cached name ns (Inr b) \<and>
        attended r (sp_Key (bp_Spec b) \<in> cm_rollsHeld (w_mem w2)) (upBuilds r pre) (lastReady pre) pre (w_log w2) (fst a)" by blast
    qed
  qed
  let ?ex = "snd (expireInflight (st_Inflight (fst (adoptLegacyInflight (bp_Status b)))) t1 (maxBuildAge r))" and ?ad = "snd (adoptLegacyInflight (bp_Status b))"
  have st: "bp_Status (applyDefaults b) = bp_Status b" by (simp add: applyDefaults_def)
  have ups: "upBuilds r (later @ ?l) = Some live" if "desired \<noteq> 0" for later
    using that unfolding upBuilds_def desired_def live_def bp_def by simp
  have run: "wp (Reconcile env lib impl r name ns) ?Q ?w =
      wp (if desired = 0 then
            do {
              fresh \<leftarrow> freshInflightEntries env r bp;
              (case fresh of
                 Inl e \<Rightarrow> ret (0, Some (Wrap ''re-read inflight before taking the daemon down'' e))
               | Inr es \<Rightarrow>
                   if length es > 0 then takeDownOrConverge env lib impl r bp 1 es ?ex ?ad
                   else takeDownOrConverge env lib impl r bp desired live ?ex ?ad)
            }
          else takeDownOrConverge env lib impl r bp desired live ?ex ?ad) ?Q \<lparr>w_log = ?l, w_mem = m\<rparr>"
    unfolding Reconcile_def Let_def case_prod_beta wp_bind wp_getBP wp_timeNow world.simps world.update_convs Inr sum.case st
      desired_def live_def liveEntries_def bp_def t2_def t1_def ..
  show ?thesis
  proof (cases "desired = 0")
    case False
    then show ?thesis unfolding run using fin [of "\<lparr>w_log = ?l, w_mem = m\<rparr>" "[]" "Some live" 1 live] ups d by simp
  next
    case True
    let ?n = "bp_Name bp" and ?ns = "bp_Namespace bp"
    show ?thesis
    proof (cases "ev_getBP env ?l (freshReader r) ?n ?ns")
      case (Inl e)
      let ?w1 = "\<lparr>w_log = [EGetBP (freshReader r) ?n ?ns (Inl e)] @ ?l, w_mem = m\<rparr>"
      have u: "upBuilds r (later @ [EGetBP (freshReader r) ?n ?ns (Inl e)] @ ?l) = None" for later
        using True unfolding upBuilds_def desired_def live_def bp_def by simp
      have "wp (takeDownOrConverge env lib impl r bp desired live ?ex ?ad) ?Q ?w1"
        by (rule fin [OF _ _ u]) (use True in simp_all)
      then show ?thesis unfolding run using True Inl by (simp add: freshInflightEntries_def wp_rules ignoreNotFound_def)
    next
      case (Inr cur)
      let ?f = "EGetBP (freshReader r) ?n ?ns (Inr cur)"
      let ?t = "ev_now env (?f # ?l)"
      let ?es = "liveEntries r (bp_Status cur) ?t"
      let ?w1 = "\<lparr>w_log = [ENow ?t, ?f] @ ?l, w_mem = m\<rparr>"
      have u: "upBuilds r (later @ [ENow ?t, ?f] @ ?l) = (if ?es = [] then None else Some ?es)" for later
        using True unfolding upBuilds_def desired_def live_def bp_def by simp
      have "wp (if length ?es > 0 then takeDownOrConverge env lib impl r bp 1 ?es ?ex ?ad else takeDownOrConverge env lib impl r bp desired live ?ex ?ad) ?Q ?w1"
      proof (cases "?es = []")
        case em: True
        have "wp (takeDownOrConverge env lib impl r bp desired live ?ex ?ad) ?Q ?w1"
          by (rule fin [OF _ _ u]) (use True em in simp_all)
        then show ?thesis using em by simp
      next
        case False
        have "wp (takeDownOrConverge env lib impl r bp 1 ?es ?ex ?ad) ?Q ?w1"
          by (rule fin [OF _ _ u]) (use False in simp_all)
        then show ?thesis using False by simp
      qed
      then show ?thesis unfolding run using True Inr by (simp add: freshInflightEntries_def wp_rules split: if_splits)
    qed
  qed
qed


text \<open>A hot project with hourly snapshots whose last one is twenty minutes old, and whose daemon becomes ready as
  soon as its StatefulSet is created: the pass comes back in forty minutes, for the snapshot.\<close>

definition snappedProject :: BuildProject where
  "snappedProject = (bareProject ''p1'')\<lparr>bp_Spec := zeroSpec\<lparr>sp_Key := ''p1'', sp_Tier := TierHot, sp_SnapshotEverySec := 3600\<rparr>\<rparr>"

definition anyPvc :: Pvc where
  "anyPvc = \<lparr>pvc_Name = [], pvc_Namespace = [], pvc_Request = None, pvc_Capacity = None, pvc_Conditions = [], pvc_CreationTimestamp = 0, pvc_DeletionTimestamp = None\<rparr>"

definition readySts :: "StatefulSet \<Rightarrow> StatefulSet" where
  "readySts s = s\<lparr>ss_ReadyReplicas := 1\<rparr>"

definition snappedEnv :: Env where
  "snappedEnv = (emptyEnv (20 * minute))\<lparr>
     ev_getBP := \<lambda>_ _ _ _. Inr snappedProject,
     ev_getSts := \<lambda>l _ _. (case l of ECreateSts s None # _ \<Rightarrow> Inr (readySts s) | _ \<Rightarrow> Inl NotFound),
     ev_getPvc := \<lambda>_ _ _. Inr anyPvc,
     ev_listSnap := \<lambda>_ _ _. Inr [\<lparr>vs_Name = ''s1'', vs_CreationTimestamp = 0\<rparr>]\<rparr>"

definition snappingReconciler :: BuildProjectReconciler where
  "snappingReconciler = zeroReconciler\<lparr>rc_Cfg := zeroConfig\<lparr>cf_SnapshotClass := ''csi''\<rparr>\<rparr>"

lemma snapped_env:
  "ev_now snappedEnv = (\<lambda>_. 20 * minute)" "ev_getBP snappedEnv = (\<lambda>_ _ _ _. Inr snappedProject)"
  "ev_getSts snappedEnv = (\<lambda>l _ _. (case l of ECreateSts s None # _ \<Rightarrow> Inr (readySts s) | _ \<Rightarrow> Inl NotFound))"
  "ev_getPvc snappedEnv = (\<lambda>_ _ _. Inr anyPvc)" "ev_listSnap snappedEnv = (\<lambda>_ _ _. Inr [\<lparr>vs_Name = ''s1'', vs_CreationTimestamp = 0\<rparr>])"
  "ev_getSvc snappedEnv = (\<lambda>_ _ _. Inl NotFound)" "ev_createSvc snappedEnv = (\<lambda>_ _. None)" "ev_getPDB snappedEnv = (\<lambda>_ _ _. Inl NotFound)"
  "ev_createSts snappedEnv = (\<lambda>_ _. None)" "ev_listBP snappedEnv = (\<lambda>_ _ _. Inr [])" "ev_updateBPStatus snappedEnv = (\<lambda>_ b. Inr b)"
  by (simp_all add: snappedEnv_def emptyEnv_def)

lemma snapped_project:
  "sp_Key (bp_Spec (applyDefaults snappedProject)) = ''p1''" "sp_Tier (bp_Spec (applyDefaults snappedProject)) = TierHot"
  "sp_SnapshotEverySec (bp_Spec (applyDefaults snappedProject)) = 3600" "bp_Status (applyDefaults snappedProject) = zeroStatus"
  "sp_Fanout (bp_Spec (applyDefaults snappedProject)) = 0" "bp_Status snappedProject = zeroStatus" "sp_Key (bp_Spec snappedProject) = ''p1''"
  by (simp_all add: snappedProject_def applyDefaults_def bareProject_def specDefaults_def zeroSpec_def TierHot_def)

lemma snapped_run:
  "wp (Reconcile snappedEnv plainLib (\<lambda>_. 0) snappingReconciler ''p1'' [])
    (\<lambda>(q, e) w'. q = 40 * minute \<and> e = None \<and> list_ex listsClones (w_log w')) freshWorld"
proof -
  have r: "maxBuildAge snappingReconciler = 2 * hour" "cf_SnapshotClass (rc_Cfg snappingReconciler) = ''csi''" "rc_AutoGrowThresholdPct snappingReconciler = 0"
    by (simp_all add: snappingReconciler_def maxBuildAge_def zeroReconciler_def)
  have z: "adoptLegacyInflight zeroStatus = (zeroStatus, False)" "expireInflight [] t d = ([], 0)" "st_Inflight zeroStatus = []" "st_InflightBuilds zeroStatus = 0" for t d
    by (simp_all add: adoptLegacyInflight_def zeroStatus_def expireInflight_def)
  show ?thesis
    unfolding Reconcile_def 
    apply (simp add: wp_rules Let_def snapped_env snapped_project z r desiredReplicas_def freshWorld_def takeDownOrConverge_def convergeDaemon_def
       isForkKey_def hasPrefix_def ensureService_def ensurePDB_def ensureStatefulSet_def kube_calls plainLib_def isNotFound_def PodDisruptionBudgetOf_def ignoreNotFound_def
       rollsHeldSet_def reflectStatus_def phaseAndMessage_def readySts_def phaseFrom_def)
    apply (simp add: runLoops_def maybeSnapshot_def reconcileFanout_def cloneIndexes_def ensureClones_def maybeAutoGrow_def requeueAfter_def requeueOf_def sooner_def
      wp_rules Let_def snapped_env snapped_project r kube_calls newestSnapshot_def timeSub_def wrap64_def duration_consts listsClones_def)
    done
qed

end
