(* ===== verification/Pvc_Sweeper.thy ===== *)
theory Pvc_Sweeper
  imports Kube_Api
begin

text \<open>
  \<open>internal/controller/pvc_sweeper.go\<close>: the leader's periodic collection of cache claims whose project is
  gone. \<open>sweep_orphans_only\<close> says which claims a sweep deletes, exactly.
\<close>

definition cachePVCPrefix :: string where
  "cachePVCPrefix = ''cache-'' @ daemonName []"

record PVCSweeper =
  sw_Namespace :: string
  sw_Interval :: duration
  sw_Grace :: duration

definition sweepInterval :: "PVCSweeper \<Rightarrow> duration" where
  "sweepInterval s = (if sw_Interval s > 0 then sw_Interval s else 15 * minute)"

definition sweepGrace :: "PVCSweeper \<Rightarrow> duration" where
  "sweepGrace s = (if sw_Grace s > 0 then sw_Grace s else 10 * minute)"

text \<open>The loop over the claims. A failed delete is logged and the loop goes on. The clock is read only for a
  claim that passed the other tests.\<close>

fun sweepClaims :: "Env \<Rightarrow> duration \<Rightarrow> string list \<Rightarrow> Pvc list \<Rightarrow> ('m, unit) kprog" where
  "sweepClaims env grace liveNames [] = ret ()"
| "sweepClaims env grace liveNames (pvc # pvcs) =
     do {
       _ \<leftarrow> (if \<not> hasPrefix (pvc_Name pvc) cachePVCPrefix then ret ()
         else if pvc_Name pvc \<in> set liveNames then ret ()
         else if pvc_DeletionTimestamp pvc \<noteq> None then ret ()
         else do {
           now \<leftarrow> timeNow env;
           if timeSub now (pvc_CreationTimestamp pvc) < grace then ret ()
           else do { _ \<leftarrow> deletePvc env pvc; ret () }
         });
       sweepClaims env grace liveNames pvcs
     }"

definition sweep :: "Env \<Rightarrow> PVCSweeper \<Rightarrow> ('m, unit) kprog" where
  "sweep env s =
     do {
       bps \<leftarrow> listBP env (sw_Namespace s) None;
       (case bps of
          Inl _ \<Rightarrow> ret ()
        | Inr items \<Rightarrow>
            do {
              let liveNames = map (\<lambda>b. cachePVCName (sp_Key (bp_Spec b))) items;
              pvcs \<leftarrow> listPvc env (sw_Namespace s);
              (case pvcs of
                 Inl _ \<Rightarrow> ret ()
               | Inr claims \<Rightarrow> sweepClaims env (sweepGrace s) liveNames claims)
            })
     }"

text \<open>\<open>Start\<close>: a sweep at once, then one at every tick until the context ends. The ticks that arrive before
  that are the parameter.\<close>

fun sweeperTicks :: "Env \<Rightarrow> PVCSweeper \<Rightarrow> nat \<Rightarrow> ('m, unit) kprog" where
  "sweeperTicks env s 0 = ret ()"
| "sweeperTicks env s (Suc n) = do { _ \<leftarrow> sweep env s; sweeperTicks env s n }"

definition sweeperStart :: "Env \<Rightarrow> PVCSweeper \<Rightarrow> nat \<Rightarrow> ('m, unit) kprog" where
  "sweeperStart env s ticks = do { _ \<leftarrow> sweep env s; sweeperTicks env s ticks }"

section \<open>Only orphans are deleted\<close>

text \<open>What justifies a deletion: the projects were listed before and none of them owns the claim, the claim was
  listed after them, is not being deleted and is at least the grace period old at the clock reading
  just before.\<close>

definition orphan :: "PVCSweeper \<Rightarrow> Pvc \<Rightarrow> elog \<Rightarrow> bool" where
  "orphan s p l \<longleftrightarrow>
     (\<exists>now between claims items older. l = ENow now # between @ EListPvc (sw_Namespace s) (Inr claims) # EListBP (sw_Namespace s) None (Inr items) # older \<and>
        p \<in> set claims \<and> (\<forall>b \<in> set items. pvc_Name p \<noteq> cachePVCName (sp_Key (bp_Spec b))) \<and>
        hasPrefix (pvc_Name p) cachePVCPrefix \<and> pvc_DeletionTimestamp p = None \<and>
        sweepGrace s \<le> timeSub now (pvc_CreationTimestamp p))"

definition sweepPolicy :: "PVCSweeper \<Rightarrow> Event \<Rightarrow> elog \<Rightarrow> bool" where
  "sweepPolicy s e l =
     (case e of
        ENow _ \<Rightarrow> True | EListBP _ _ _ \<Rightarrow> True | EListPvc _ _ \<Rightarrow> True
      | EDeletePvc p _ \<Rightarrow> orphan s p l
      | _ \<Rightarrow> False)"

lemma sweepPolicy_simps [simp]:
  "sweepPolicy s (ENow t) l" "sweepPolicy s (EListBP ns sel x) l" "sweepPolicy s (EListPvc ns y) l"
  "sweepPolicy s (EDeletePvc p z) l = orphan s p l"
  by (simp_all add: sweepPolicy_def)

lemma wp_sweepClaims:
  fixes w :: "(Event, 'm) world"
  assumes "log_ok (sweepPolicy s) (w_log w)" "w_log w = between @ EListPvc (sw_Namespace s) (Inr claims) # EListBP (sw_Namespace s) None (Inr items) # older"
    and "set pvcs \<subseteq> set claims" "liveNames = map (\<lambda>b. cachePVCName (sp_Key (bp_Spec b))) items"
  shows "wp (sweepClaims env (sweepGrace s) liveNames pvcs) (\<lambda>_ w'. log_ok (sweepPolicy s) (w_log w')) w"
  using assms(1-3)
proof (induction pvcs arbitrary: w between)
  case Nil
  then show ?case by (simp add: wp_rules)
next
  case (Cons p pvcs)
  have IH: "wp (sweepClaims env (sweepGrace s) liveNames pvcs) (\<lambda>_ w'. log_ok (sweepPolicy s) (w_log w')) w'"
    if "log_ok (sweepPolicy s) (w_log w')" "w_log w' = new @ w_log w" for new and w' :: "(Event, 'm) world"
    by (rule Cons.IH [where between = "new @ between"]) (use that Cons.prems in auto)
  let ?now = "ev_now env (w_log w)"
  have orph: "orphan s p (ENow ?now # w_log w)"
    if "hasPrefix (pvc_Name p) cachePVCPrefix" "pvc_Name p \<notin> set liveNames" "pvc_DeletionTimestamp p = None" "\<not> timeSub ?now (pvc_CreationTimestamp p) < sweepGrace s"
    using that Cons.prems(2,3) assms(4) unfolding orphan_def by force
  show ?case
    unfolding sweepClaims.simps deletePvc_def using Cons.prems(1) orph
      IH [of w "[]"] IH [of "w\<lparr>w_log := [_] @ w_log w\<rparr>" "[_]"] IH [of "w\<lparr>w_log := [_, _] @ w_log w\<rparr>" "[_, _]"]
    by (auto simp: wp_rules)
qed

lemma wp_sweep:
  assumes "log_ok (sweepPolicy s) (w_log w)"
  shows "wp (sweep env s) (\<lambda>_ w'. log_ok (sweepPolicy s) (w_log w')) w"
  unfolding sweep_def listBP_def listPvc_def Let_def using assms
  by (auto simp: wp_rules split: sum.split intro!: wp_sweepClaims [where between = "[]"])

text \<open>C35: \<^bold>\<open>The sweeper deletes orphans only.\<close> In every sweep of a run, whatever the API server answers, a claim is
  deleted only if it is a per-project cache claim, no project of the list that was read before it owns
  it, it is not already terminating and it is at least the grace period old. No other write is made.\<close>

theorem sweep_orphans_only:
  "log_ok (sweepPolicy s) (w_log (snd (run_state (sweeperStart env s ticks) \<lparr>w_log = [], w_mem = m\<rparr>)))"
proof -
  have "wp (sweeperTicks env s n) (\<lambda>_ w'. log_ok (sweepPolicy s) (w_log w')) w"
    if "log_ok (sweepPolicy s) (w_log w)" for n and w :: "(Event, 'a) world"
    using that by (induction n arbitrary: w) (auto simp: wp_return intro: wp_bindI [OF wp_sweep])
  then have "wp (sweeperStart env s ticks) (\<lambda>_ w'. log_ok (sweepPolicy s) (w_log w')) \<lparr>w_log = [], w_mem = m\<rparr>"
    unfolding sweeperStart_def by (intro wp_bindI [OF wp_sweep]) simp_all
  then show ?thesis by (simp add: wp_run)
qed

text \<open>Every per-project cache claim carries the prefix, so the first test of the sweep passes for it.\<close>

lemma cachePVCName_prefix: "hasPrefix (cachePVCName key) cachePVCPrefix"
  by (simp add: cachePVCName_def cachePVCPrefix_def daemonName_def hasPrefix_def)

lemma sweepClaims_deletes:
  assumes "p \<in> set pvcs" "hasPrefix (pvc_Name p) cachePVCPrefix" "pvc_Name p \<notin> set liveNames" "pvc_DeletionTimestamp p = None"
    and old: "\<And>l. grace \<le> timeSub (ev_now env l) (pvc_CreationTimestamp p)"
  shows "wp (sweepClaims env grace liveNames pvcs) (\<lambda>_ w'. (\<exists>z. EDeletePvc p z \<in> set (w_log w'))) w"
  using assms(1)
proof (induction pvcs arbitrary: w)
  case (Cons q pvcs)
  have keeps: "wp (sweepClaims env grace liveNames qs) (\<lambda>_ w'. (\<exists>z. EDeletePvc p z \<in> set (w_log w'))) w'"
    if "\<exists>z. EDeletePvc p z \<in> set (w_log w')" for qs and w' :: "(Event, 'a) world"
  proof -
    have "emits (\<lambda>_. True) (sweepClaims env grace liveNames qs :: ('a, unit) kprog)" by (induction qs) (simp_all add: emits_rules)
    then show ?thesis unfolding emits_def using that by (fastforce elim: wp_mono)
  qed
  show ?case
  proof (cases "q = p")
    case True
    show ?thesis unfolding True sweepClaims.simps deletePvc_def using assms(2-4) old [THEN leD]
      by (auto simp: wp_rules intro!: keeps)
  next
    case False
    with Cons.prems have "p \<in> set pvcs" by simp
    note IH = Cons.IH [OF this]
    show ?thesis unfolding sweepClaims.simps deletePvc_def by (simp add: wp_rules IH)
  qed
qed simp

text \<open>\<^bold>\<open>An orphan past its grace is swept.\<close> When both lists answer, a sweep issues a deletion for every listed cache
  claim that no listed project owns, that is not terminating and that is old enough throughout the
  sweep, whatever happens to the deletions before it.\<close>

theorem sweep_complete:
  assumes "ev_listBP env (w_log w) (sw_Namespace s) None = Inr items" "ev_listPvc env (EListBP (sw_Namespace s) None (Inr items) # w_log w) (sw_Namespace s) = Inr claims"
    and "p \<in> set claims" "hasPrefix (pvc_Name p) cachePVCPrefix" "\<forall>b \<in> set items. pvc_Name p \<noteq> cachePVCName (sp_Key (bp_Spec b))"
    and "pvc_DeletionTimestamp p = None" "\<And>l. sweepGrace s \<le> timeSub (ev_now env l) (pvc_CreationTimestamp p)"
  shows "\<exists>z. EDeletePvc p z \<in> set (w_log (snd (run_state (sweep env s) w)))"
proof -
  have "wp (sweep env s) (\<lambda>_ w'. \<exists>z. EDeletePvc p z \<in> set (w_log w')) w"
    unfolding sweep_def listBP_def listPvc_def Let_def using assms
    by (auto simp: wp_rules intro!: sweepClaims_deletes [where p = p])
  then show ?thesis by (simp add: wp_run)
qed

definition orphanClaim :: Pvc where
  "orphanClaim = \<lparr>pvc_Name = cachePVCName ''gone'', pvc_Namespace = [], pvc_Request = None, pvc_Capacity = None, pvc_Conditions = [],
     pvc_CreationTimestamp = 0, pvc_DeletionTimestamp = None\<rparr>"

theorem sweep_complete_witness:
  "\<exists>z. EDeletePvc orphanClaim z \<in> set (w_log (snd (run_state (sweep ((emptyEnv hour)\<lparr>ev_listPvc := \<lambda>_ _. Inr [orphanClaim]\<rparr>)
     \<lparr>sw_Namespace = [], sw_Interval = 0, sw_Grace = 0\<rparr>) \<lparr>w_log = [], w_mem = ()\<rparr>)))"
  by (rule sweep_complete [where items = "[]" and claims = "[orphanClaim]"])
     (simp_all add: emptyEnv_def orphanClaim_def cachePVCName_prefix sweepGrace_def timeSub_def duration_consts)

end
