(* ===== verification/K8s_Provisioner.thy ===== *)
theory K8s_Provisioner
  imports Kube_Api
begin

text \<open>
  \<open>internal/provisioner/k8s/k8s.go\<close>: the provisioner behind the routing API on Kubernetes. Its methods
  run on every replica at once, so each one is a program against an arbitrary API server, and the
  theorems speak about the writes it issues: which object they were computed from, which fields they
  touch, and when nothing is written at all.

  \<open>retry.OnError\<close> with \<open>statusBackoff\<close> is \<^const>\<open>retrying\<close> with 8 steps; the pauses between attempts have
  no effect on the objects and are left out. The polling loop of \<open>WaitReady\<close> takes fuel, and
  \<open>waitReady_returns\<close> shows how much is enough once the clock runs.
\<close>

section \<open>The provisioner\<close>

record K8sProvisioner =
  kp_namespace :: string
  kp_port :: int
  kp_wait :: duration
  kp_gatewayHost :: string
  kp_gatewayPort :: int
  kp_defaultStorageClass :: string
  kp_maxBuild :: duration

definition newK8s :: "Config \<Rightarrow> duration \<Rightarrow> string \<Rightarrow> int \<Rightarrow> duration \<Rightarrow> K8sProvisioner" where
  "newK8s cfg wait gatewayHost gatewayPort maxBuild =
     \<lparr>kp_namespace = cf_Namespace cfg, kp_port = cf_Port cfg, kp_wait = wait, kp_gatewayHost = gatewayHost,
      kp_gatewayPort = gatewayPort, kp_defaultStorageClass = cf_DefaultStorageClass cfg, kp_maxBuild = maxBuild\<rparr>"

section \<open>Ensure\<close>

definition ensureBuildProject :: "Env \<Rightarrow> K8sProvisioner \<Rightarrow> BuildProjectSpec \<Rightarrow> ('m, ApiErr option) kprog" where
  "ensureBuildProject env p spec =
     do {
       g \<leftarrow> getBP env Cached (sp_Key spec) (kp_namespace p);
       (case g of
          Inr _ \<Rightarrow> ret None
        | Inl err \<Rightarrow>
            if \<not> isNotFound err then ret (Some err)
            else do {
              let spec = (if sp_StorageClass spec = [] then spec\<lparr>sp_StorageClass := kp_defaultStorageClass p\<rparr> else spec);
              c \<leftarrow> createBP env ((bareProject (sp_Key spec))\<lparr>bp_Namespace := kp_namespace p, bp_Spec := spec\<rparr>);
              (case c of
                 Inl e \<Rightarrow> ret (if isAlreadyExists e then None else Some e)
               | Inr created \<Rightarrow>
                   do {
                     now \<leftarrow> timeNow env;
                     _ \<leftarrow> updateBPStatus env (created\<lparr>bp_Status := (bp_Status created)\<lparr>st_LastBuildTime := Some now\<rparr>\<rparr>);
                     ret None
                   })
            })
     }"

definition k8s_Ensure :: "Env \<Rightarrow> K8sProvisioner \<Rightarrow> BuildProjectSpec \<Rightarrow> bool \<Rightarrow> ('m, ApiErr option) kprog" where
  "k8s_Ensure env p spec untrusted =
     (if untrusted then
        do {
          let canonical = sp_Key spec;
          g \<leftarrow> getBP env Cached canonical (kp_namespace p);
          let (seed, spec) = (case g of Inl _ \<Rightarrow> ([], spec) | Inr canon \<Rightarrow> (st_LastSnapshot (bp_Status canon), bp_Spec canon));
          ensureBuildProject env p (deriveChild spec seed ForkChild (forkKey canonical))
        }
      else ensureBuildProject env p spec)"

section \<open>Readiness and address\<close>

definition daemonServing :: "StatefulSet \<Rightarrow> bool" where
  "daemonServing sts \<longleftrightarrow>
     ss_ObservedGeneration sts \<ge> ss_Generation sts \<and> ss_ReadyReplicas sts \<ge> 1 \<and> ss_UpdatedReplicas sts \<ge> 1 \<and>
     ss_CurrentRevision sts = ss_UpdateRevision sts"

definition k8s_Ready :: "Env \<Rightarrow> K8sProvisioner \<Rightarrow> string \<Rightarrow> ('m, bool) kprog" where
  "k8s_Ready env p key =
     do {
       g \<leftarrow> getSts env (daemonName key) (kp_namespace p);
       ret (case g of Inl _ \<Rightarrow> False | Inr sts \<Rightarrow> daemonServing sts)
     }"

definition k8s_Endpoint :: "K8sProvisioner \<Rightarrow> string \<Rightarrow> string" where
  "k8s_Endpoint p key =
     (if kp_gatewayHost p \<noteq> [] then
        endpointHost (daemonName key @ ''.'' @ kp_gatewayHost p) (if kp_gatewayPort p > 0 then kp_gatewayPort p else kp_port p)
      else endpoint key (kp_namespace p) (kp_port p))"

text \<open>One iteration of the polling loop (\<^const>\<open>None\<close>: go round again), and the loop. The outer
  \<^const>\<open>None\<close> is a loop that has not returned when the fuel is used up.\<close>

definition waitOnce :: "Env \<Rightarrow> K8sProvisioner \<Rightarrow> string \<Rightarrow> time \<Rightarrow> ('m, string option option) kprog" where
  "waitOnce env p key deadline =
     do {
       g \<leftarrow> getSts env (daemonName key) (kp_namespace p);
       if (case g of Inl _ \<Rightarrow> False | Inr sts \<Rightarrow> daemonServing sts) then ret (Some None)
       else do {
         now \<leftarrow> timeNow env;
         if now > deadline then ret (Some (Some ''timed out waiting for Ready replica''))
         else do {
           c \<leftarrow> sleepFor env (2 * second);
           ret (case c of Some e \<Rightarrow> Some (Some e) | None \<Rightarrow> None)
         }
       }
     }"

fun waitLoop :: "nat \<Rightarrow> Env \<Rightarrow> K8sProvisioner \<Rightarrow> string \<Rightarrow> time \<Rightarrow> ('m, string option option) kprog" where
  "waitLoop 0 env p key deadline = ret None"
| "waitLoop (Suc fuel) env p key deadline =
     do {
       r \<leftarrow> waitOnce env p key deadline;
       (case r of None \<Rightarrow> waitLoop fuel env p key deadline | Some e \<Rightarrow> ret (Some e))
     }"

definition k8s_WaitReady :: "nat \<Rightarrow> Env \<Rightarrow> K8sProvisioner \<Rightarrow> string \<Rightarrow> ('m, string option option) kprog" where
  "k8s_WaitReady fuel env p key = do { now \<leftarrow> timeNow env; waitLoop fuel env p key (now + kp_wait p) }"

section \<open>Status writes\<close>

definition retriableStatusErr :: "ApiErr \<Rightarrow> bool" where
  "retriableStatusErr e \<longleftrightarrow> isConflict e \<or> isNotFound e"

definition statusBackoffSteps :: nat where "statusBackoffSteps = 8"

definition k8s_live :: "K8sProvisioner \<Rightarrow> BuildProjectStatus \<Rightarrow> time \<Rightarrow> BuildProjectStatus \<times> InflightBuild list" where
  "k8s_live p st now =
     (let (st, _) = adoptLegacyInflight st in
      (st, if kp_maxBuild p \<le> 0 then st_Inflight st else fst (expireInflight (st_Inflight st) now (kp_maxBuild p))))"

text \<open>One attempt of \<open>touchStatus\<close>: the result is whether the mutation applied.\<close>

definition touchOnce :: "Env \<Rightarrow> K8sProvisioner \<Rightarrow> string \<Rightarrow> (BuildProjectStatus \<Rightarrow> time \<Rightarrow> BuildProjectStatus \<times> bool) \<Rightarrow> ('m, bool res) kprog" where
  "touchOnce env p key mutate =
     do {
       g \<leftarrow> getBP env Cached key (kp_namespace p);
       (case g of
          Inl e \<Rightarrow> ret (Inl e)
        | Inr bp \<Rightarrow>
            do {
              now \<leftarrow> timeNow env;
              let (st, applied) = mutate (bp_Status bp) now;
              if \<not> applied then ret (Inr False)
              else do {
                u \<leftarrow> updateBPStatus env (bp\<lparr>bp_Status := st\<lparr>st_LastBuildTime := Some now\<rparr>\<rparr>);
                ret (case u of Inl e \<Rightarrow> Inl e | Inr _ \<Rightarrow> Inr True)
              }
            })
     }"

definition touchStatus :: "Env \<Rightarrow> K8sProvisioner \<Rightarrow> string \<Rightarrow> bool \<Rightarrow> (BuildProjectStatus \<Rightarrow> time \<Rightarrow> BuildProjectStatus \<times> bool) \<Rightarrow> ('m, bool) kprog" where
  "touchStatus env p key retryMissing mutate =
     do {
       r \<leftarrow> retrying statusBackoffSteps (if retryMissing then retriableStatusErr else isConflict) (touchOnce env p key mutate);
       ret (case r of Inl _ \<Rightarrow> False | Inr applied \<Rightarrow> applied)
     }"

definition startMutation :: "K8sProvisioner \<Rightarrow> string \<Rightarrow> string \<Rightarrow> BuildProjectStatus \<Rightarrow> time \<Rightarrow> BuildProjectStatus \<times> bool" where
  "startMutation p key bid st now =
     (let (st, entries) = k8s_live p st now;
          st = setInflight (startInflight entries bid now) st
      in (if \<not> isForkKey key then st\<lparr>st_RecentBuildTimes := recordBuildTime (st_RecentBuildTimes st) now\<rparr> else st, True))"

definition k8s_StartInflight :: "Env \<Rightarrow> K8sProvisioner \<Rightarrow> string \<Rightarrow> string \<Rightarrow> ('m, unit) kprog" where
  "k8s_StartInflight env p key bid = do { _ \<leftarrow> touchStatus env p key True (startMutation p key bid); ret () }"

definition endMutation :: "K8sProvisioner \<Rightarrow> string \<Rightarrow> BuildProjectStatus \<Rightarrow> time \<Rightarrow> BuildProjectStatus \<times> bool" where
  "endMutation p bid st now =
     (let (st, entries) = k8s_live p st now;
          (rest, found) = endInflightBefore entries bid (now + wrap64 (- kp_maxBuild p))
      in if \<not> found then (st, False) else (setInflight rest st, True))"

definition k8s_EndInflight :: "Env \<Rightarrow> K8sProvisioner \<Rightarrow> string \<Rightarrow> string \<Rightarrow> ('m, bool) kprog" where
  "k8s_EndInflight env p key bid = touchStatus env p key False (endMutation p bid)"

definition k8s_Touch :: "Env \<Rightarrow> K8sProvisioner \<Rightarrow> string \<Rightarrow> ('m, unit) kprog" where
  "k8s_Touch env p key = do { _ \<leftarrow> touchStatus env p key True (\<lambda>st now. (st, True)); ret () }"

definition k8s_ProjectRepo :: "Env \<Rightarrow> K8sProvisioner \<Rightarrow> string \<Rightarrow> ('m, (string \<times> bool) res) kprog" where
  "k8s_ProjectRepo env p key =
     do {
       g \<leftarrow> getBP env Cached key (kp_namespace p);
       ret (case g of
              Inl e \<Rightarrow> if isNotFound e then Inr ([], False) else Inl e
            | Inr bp \<Rightarrow> Inr (sp_Repo (bp_Spec bp), True))
     }"

section \<open>The cache decision\<close>

text \<open>One attempt to take the export grant of the window; the result is whether it was granted.\<close>

definition grantOnce :: "Env \<Rightarrow> K8sProvisioner \<Rightarrow> string \<Rightarrow> duration \<Rightarrow> ('m, bool res) kprog" where
  "grantOnce env p key exportInterval =
     do {
       g \<leftarrow> getBP env Cached key (kp_namespace p);
       (case g of
          Inl e \<Rightarrow> ret (Inl e)
        | Inr cur \<Rightarrow>
            do {
              let cur = applyDefaults cur;
              if sp_S3CachePolicy (bp_Spec cur) \<noteq> S3CacheCadence then ret (Inr (sp_S3CachePolicy (bp_Spec cur) = S3CacheAlways))
              else do {
                taken \<leftarrow> (case st_LastCacheExportGrant (bp_Status cur) of
                   None \<Rightarrow> ret False
                 | Some t \<Rightarrow> do { now \<leftarrow> timeNow env; ret (timeSub now t < exportInterval) });
                if taken then ret (Inr False)
                else do {
                  now \<leftarrow> timeNow env;
                  u \<leftarrow> updateBPStatus env (cur\<lparr>bp_Status := (bp_Status cur)\<lparr>st_LastCacheExportGrant := Some now\<rparr>\<rparr>);
                  ret (case u of Inl e \<Rightarrow> Inl e | Inr _ \<Rightarrow> Inr True)
                }
              }
            })
     }"

definition k8s_S3CacheDecision :: "Env \<Rightarrow> K8sProvisioner \<Rightarrow> string \<Rightarrow> duration \<Rightarrow> bool \<Rightarrow> ('m, bool \<times> bool) kprog" where
  "k8s_S3CacheDecision env p key exportInterval grantExport =
     do {
       g \<leftarrow> retrying statusBackoffSteps isNotFound (getBP env Cached key (kp_namespace p));
       (case g of
          Inl _ \<Rightarrow> ret (True, True)
        | Inr bp \<Rightarrow>
            do {
              let policy = sp_S3CachePolicy (bp_Spec (applyDefaults bp));
              if policy = S3CacheNever then ret (False, False)
              else if policy = S3CacheAlways then ret (True, True)
              else if \<not> grantExport \<or> exportInterval \<le> 0 then ret (True, exportInterval \<le> 0 \<and> grantExport)
              else do {
                r \<leftarrow> retrying statusBackoffSteps retriableStatusErr (grantOnce env p key exportInterval);
                ret (case r of Inl _ \<Rightarrow> (True, False) | Inr granted \<Rightarrow> (True, granted))
              }
            })
     }"

section \<open>What Ensure creates\<close>

text \<open>The object \<open>Ensure\<close> is to create, given how the canonical project was answered (\<open>read\<close>, asked for by an
  untrusted build only): the request's spec, or the fork spec derived from the live canonical project
  and its last snapshot, from the request without a snapshot only when the canonical project could
  not be read.\<close>

definition wantedProject :: "K8sProvisioner \<Rightarrow> BuildProjectSpec \<Rightarrow> BuildProject res option \<Rightarrow> BuildProject" where
  "wantedProject p spec read =
     (let s = (case read of
                 None \<Rightarrow> spec
               | Some (Inl _) \<Rightarrow> deriveChild spec [] ForkChild (forkKey (sp_Key spec))
               | Some (Inr canon) \<Rightarrow> deriveChild (bp_Spec canon) (st_LastSnapshot (bp_Status canon)) ForkChild (forkKey (sp_Key spec)))
      in (bareProject (sp_Key s))\<lparr>bp_Namespace := kp_namespace p,
           bp_Spec := s\<lparr>sp_StorageClass := if sp_StorageClass s = [] then kp_defaultStorageClass p else sp_StorageClass s\<rparr>\<rparr>)"

text \<open>Justified events of \<open>Ensure\<close>: an untrusted build reads the canonical project first; an object is
  created only right after a read that did not find it, and it is the wanted one; only that object's
  status is written; nothing else is.\<close>

definition canonicalReads :: "K8sProvisioner \<Rightarrow> BuildProjectSpec \<Rightarrow> BuildProject res option \<Rightarrow> elog" where
  "canonicalReads p spec read = (case read of None \<Rightarrow> [] | Some x \<Rightarrow> [EGetBP Cached (sp_Key spec) (kp_namespace p) x])"

definition ensurePolicy :: "K8sProvisioner \<Rightarrow> BuildProjectSpec \<Rightarrow> bool \<Rightarrow> Event \<Rightarrow> elog \<Rightarrow> bool" where
  "ensurePolicy p spec untrusted e l =
     (case e of
        ENow _ \<Rightarrow> True
      | EGetBP _ _ _ _ \<Rightarrow> True
      | ECreateBP b _ \<Rightarrow>
          \<exists>read err. (read \<noteq> None) = untrusted \<and> isNotFound err \<and> b = wantedProject p spec read \<and>
            l = EGetBP Cached (bp_Name b) (kp_namespace p) (Inl err) # canonicalReads p spec read
      | EUpdateBPStatus b _ \<Rightarrow>
          \<exists>now c created rest. l = ENow now # ECreateBP c (Inr created) # rest \<and>
            b = created\<lparr>bp_Status := (bp_Status created)\<lparr>st_LastBuildTime := Some now\<rparr>\<rparr>
      | _ \<Rightarrow> False)"

text \<open>The project is there: it was read, it was created, or somebody else had created it.\<close>

definition projectSeen :: "string \<Rightarrow> string \<Rightarrow> Event \<Rightarrow> bool" where
  "projectSeen ns key e =
     (case e of
        EGetBP _ n ns' (Inr _) \<Rightarrow> n = key \<and> ns' = ns
      | ECreateBP b r \<Rightarrow> bp_Name b = key \<and> bp_Namespace b = ns \<and> (case r of Inr _ \<Rightarrow> True | Inl e \<Rightarrow> isAlreadyExists e)
      | _ \<Rightarrow> False)"

lemma ensurePolicy_simps [simp]:
  "ensurePolicy p spec u (ENow t) l" "ensurePolicy p spec u (EGetBP rd n ns x) l"
  "ensurePolicy p spec u (EUpdateBPStatus (created\<lparr>bp_Status := (bp_Status created)\<lparr>st_LastBuildTime := Some now\<rparr>\<rparr>) y) (ENow now # ECreateBP c (Inr created) # rest)"
  unfolding ensurePolicy_def by auto

lemma projectSeen_simps [simp]:
  "\<not> projectSeen ns k (ENow t)" "projectSeen ns k (EGetBP rd n ns' (Inr b)) \<longleftrightarrow> n = k \<and> ns' = ns" "\<not> projectSeen ns k (EGetBP rd n ns' (Inl e))"
  "projectSeen ns k (ECreateBP c (Inr b)) \<longleftrightarrow> bp_Name c = k \<and> bp_Namespace c = ns"
  "projectSeen ns k (ECreateBP c (Inl e)) \<longleftrightarrow> bp_Name c = k \<and> bp_Namespace c = ns \<and> isAlreadyExists e"
  "\<not> projectSeen ns k (EUpdateBPStatus c y)"
  unfolding projectSeen_def by auto

text \<open>What \<open>ensureBuildProject\<close> makes of a spec, given what was read before.\<close>

lemma wp_ensureBuildProject:
  fixes s :: BuildProjectSpec and p :: K8sProvisioner
  defines "b \<equiv> (bareProject (sp_Key s))\<lparr>bp_Namespace := kp_namespace p,
      bp_Spec := s\<lparr>sp_StorageClass := if sp_StorageClass s = [] then kp_defaultStorageClass p else sp_StorageClass s\<rparr>\<rparr>"
  assumes read: "b = wantedProject p spec read" "(read \<noteq> None) = u" "w_log w = canonicalReads p spec read"
    and seen: "list_all (\<lambda>e. \<not> projectSeen (kp_namespace p) (sp_Key s) e) (w_log w)"
  shows "wp (ensureBuildProject env p s) (\<lambda>r w'. log_ok (ensurePolicy p spec u) (w_log w') \<and>
    (r = None \<longleftrightarrow> list_ex (projectSeen (kp_namespace p) (sp_Key s)) (w_log w'))) w"
proof -
  have ok: "log_ok (ensurePolicy p spec u) (w_log w)" unfolding read(3) canonicalReads_def by (cases read) simp_all
  have b: "(bareProject (sp_Key s))\<lparr>bp_Namespace := kp_namespace p,
      bp_Spec := if sp_StorageClass s = [] then s\<lparr>sp_StorageClass := kp_defaultStorageClass p\<rparr> else s\<rparr> = b" unfolding b_def by simp
  have n: "bp_Name b = sp_Key s" "bp_Namespace b = kp_namespace p" unfolding b_def by (simp_all add: bareProject_def)
  have c: "ensurePolicy p spec u (ECreateBP b x) (EGetBP Cached (sp_Key s) (kp_namespace p) (Inl err) # w_log w)" if "isNotFound err" for err x
    unfolding ensurePolicy_def using that read n(1) by auto
  have k: "sp_Key (if sp_StorageClass s = [] then s\<lparr>sp_StorageClass := kp_defaultStorageClass p\<rparr> else s) = sp_Key s" by simp
  have none: "\<not> list_ex (projectSeen (kp_namespace p) (sp_Key s)) (w_log w)" using seen by (auto simp: list_all_iff list_ex_iff)
  show ?thesis
  proof (cases "ev_getBP env (w_log w) Cached (sp_Key s) (kp_namespace p)")
    case (Inl err)
    show ?thesis
    proof (cases "isNotFound err")
      case True
      show ?thesis
        unfolding ensureBuildProject_def createBP_def updateBPStatus_def Let_def k b
        using Inl True ok c [OF True] none n by (simp add: wp_rules split: sum.split)
    qed (use Inl ok none in \<open>simp add: ensureBuildProject_def wp_rules\<close>)
  qed (use ok in \<open>simp add: ensureBuildProject_def wp_rules\<close>)
qed

text \<open>C13: \<^bold>\<open>Ensure creates its own project and nothing else.\<close> \<open>Ensure\<close> writes only right after a read that did not
  find the project. A trusted build creates the project of its key with the requested spec; an
  untrusted one creates the fork of that key, never the canonical project: it reads the canonical
  project first and the fork's spec is the fork policy's, derived from that live project and its last
  snapshot (from the request, without a snapshot, only if the read failed). The storage class is the
  operator's default where the spec has none. The only other write stamps the object just created,
  and \<open>Ensure\<close> succeeds exactly when the project was read, created, or found to exist already.\<close>

theorem ensure_creates_only:
  "case run_state (k8s_Ensure env p spec untrusted) \<lparr>w_log = [], w_mem = m\<rparr> of (r, w') \<Rightarrow>
     log_ok (ensurePolicy p spec untrusted) (w_log w') \<and>
     (r = None \<longleftrightarrow> list_ex (projectSeen (kp_namespace p) (if untrusted then forkKey (sp_Key spec) else sp_Key spec)) (w_log w'))"
proof -
  have "wp (k8s_Ensure env p spec untrusted) (\<lambda>r w'. log_ok (ensurePolicy p spec untrusted) (w_log w') \<and>
     (r = None \<longleftrightarrow> list_ex (projectSeen (kp_namespace p) (if untrusted then forkKey (sp_Key spec) else sp_Key spec)) (w_log w'))) \<lparr>w_log = [], w_mem = m\<rparr>"
  proof (cases untrusted)
    case False
    then show ?thesis unfolding k8s_Ensure_def
      using wp_ensureBuildProject [where s = spec and p = p and read = None and spec = spec and u = False and w = "\<lparr>w_log = [], w_mem = m\<rparr>"]
      by (simp add: wantedProject_def canonicalReads_def)
  next
    case True
    have f: "forkKey (sp_Key spec) \<noteq> sp_Key spec" by (simp add: forkKey_def)
    show ?thesis unfolding k8s_Ensure_def using True f
      apply (simp add: wp_rules Let_def case_prod_beta del: wp_rules(1))
      apply (cases "ev_getBP env [] Cached (sp_Key spec) (kp_namespace p)")
      subgoal for err
        using wp_ensureBuildProject [where s = "deriveChild spec [] ForkChild (forkKey (sp_Key spec))" and p = p and read = "Some (Inl err)" and spec = spec and u = True
            and w = "\<lparr>w_log = [EGetBP Cached (sp_Key spec) (kp_namespace p) (Inl err)], w_mem = m\<rparr>"]
        by (simp add: wantedProject_def canonicalReads_def Let_def)
      subgoal for c
        using wp_ensureBuildProject [where s = "deriveChild (bp_Spec c) (st_LastSnapshot (bp_Status c)) ForkChild (forkKey (sp_Key spec))" and p = p
            and read = "Some (Inr c)" and spec = spec and u = True
            and w = "\<lparr>w_log = [EGetBP Cached (sp_Key spec) (kp_namespace p) (Inr c)], w_mem = m\<rparr>"]
        by (simp add: wantedProject_def canonicalReads_def Let_def)
      done
  qed
  then show ?thesis by (simp add: wp_run case_prod_beta)
qed

definition zeroK8s :: K8sProvisioner where
  "zeroK8s = newK8s zeroConfig 0 [] 0 0"

text \<open>A fork is born from the stored canonical project: its snapshot, its security profile, the operator's storage
  class.\<close>

definition canonProject :: BuildProject where
  "canonProject = (bareProject ''p1'')\<lparr>bp_Spec := zeroSpec\<lparr>sp_Key := ''p1'', sp_Repo := ''github.com/o/r''\<rparr>, bp_Status := zeroStatus\<lparr>st_LastSnapshot := ''snap-3''\<rparr>\<rparr>"

definition canonOnly :: "time \<Rightarrow> Env" where
  "canonOnly t = (emptyEnv t)\<lparr>ev_getBP := \<lambda>_ _ n _. if n = ''p1'' then Inr canonProject else Inl NotFound\<rparr>"

theorem ensure_creates_only_witness:
  "case run_state (k8s_Ensure (canonOnly 7) zeroK8s (zeroSpec\<lparr>sp_Key := ''p1''\<rparr>) True) \<lparr>w_log = [], w_mem = ()\<rparr> of (r, w') \<Rightarrow>
     r = None \<and> log_ok (ensurePolicy zeroK8s (zeroSpec\<lparr>sp_Key := ''p1''\<rparr>) True) (w_log w') \<and>
     (\<exists>b. ECreateBP b (Inr b) \<in> set (w_log w') \<and> bp_Name b = forkKey ''p1'' \<and> sp_RestoreFromSnapshot (bp_Spec b) = ''snap-3'')"
proof -
  let ?X = "run_state (k8s_Ensure (canonOnly 7) zeroK8s (zeroSpec\<lparr>sp_Key := ''p1''\<rparr>) True) \<lparr>w_log = [], w_mem = ()\<rparr>"
  let ?s = "deriveChild (bp_Spec canonProject) ''snap-3'' ForkChild (forkKey ''p1'')"
  have f: "forkKey ''p1'' \<noteq> ''p1''" "st_LastSnapshot (bp_Status canonProject) = ''snap-3''" by (simp_all add: forkKey_def canonProject_def)
  have s: "bp_Name (bareProject k) = k" "sp_RestoreFromSnapshot ?s = ''snap-3''" for k by (simp_all add: bareProject_def deriveChild_def)
  have "\<exists>b. ECreateBP b (Inr b) \<in> set (w_log (snd ?X)) \<and> bp_Name b = forkKey ''p1'' \<and> sp_RestoreFromSnapshot (bp_Spec b) = ''snap-3''" "fst ?X = None"
    using f by (simp_all add: k8s_Ensure_def ensureBuildProject_def getBP_def timeNow_def createBP_def updateBPStatus_def call_def canonOnly_def emptyEnv_def Let_def s isNotFound_def)
  with ensure_creates_only [where env = "canonOnly 7" and p = zeroK8s and spec = "zeroSpec\<lparr>sp_Key := ''p1''\<rparr>" and untrusted = True and m = "()"] show ?thesis by (simp add: case_prod_beta)
qed

section \<open>What a status write is computed from\<close>

text \<open>The status writes of a log that the server accepted, newest first.\<close>

definition acceptedOf :: "Event \<Rightarrow> BuildProject list" where
  "acceptedOf e = (case e of EUpdateBPStatus b (Inr _) \<Rightarrow> [b] | _ \<Rightarrow> [])"

definition acceptedWrites :: "elog \<Rightarrow> BuildProject list" where
  "acceptedWrites l = concat (map acceptedOf l)"

text \<open>The only events of a status operation: reads, clock readings and status updates.\<close>

definition statusEvent :: "Event \<Rightarrow> bool" where
  "statusEvent e = (case e of ENow _ \<Rightarrow> True | EGetBP _ _ _ _ \<Rightarrow> True | EUpdateBPStatus _ _ \<Rightarrow> True | _ \<Rightarrow> False)"

lemma accepted_simps [simp]:
  "acceptedWrites [] = []" "acceptedWrites (ENow t # l) = acceptedWrites l" "acceptedWrites (EGetBP rd n ns x # l) = acceptedWrites l"
  "acceptedWrites (EUpdateBPStatus b (Inl e) # l) = acceptedWrites l" "acceptedWrites (EUpdateBPStatus b (Inr b') # l) = b # acceptedWrites l"
  by (simp_all add: acceptedWrites_def acceptedOf_def)

lemma statusEvent_simps [simp]: "statusEvent (ENow t)" "statusEvent (EGetBP rd n ns x)" "statusEvent (EUpdateBPStatus b y)"
  by (simp_all add: statusEvent_def)

text \<open>The outcome of a retried status operation: reads and failed writes, ended by at most one accepted
  write, computed by the mutation from the object read just before it.\<close>

definition touched :: "K8sProvisioner \<Rightarrow> string \<Rightarrow> (BuildProjectStatus \<Rightarrow> time \<Rightarrow> BuildProjectStatus \<times> bool) \<Rightarrow> bool \<Rightarrow> elog \<Rightarrow> bool" where
  "touched p key mutate applied new \<longleftrightarrow> list_all statusEvent new \<and>
     (if applied then
        \<exists>cur now st b' older. mutate (bp_Status cur) now = (st, True) \<and> acceptedWrites older = [] \<and>
          new = EUpdateBPStatus (cur\<lparr>bp_Status := st\<lparr>st_LastBuildTime := Some now\<rparr>\<rparr>) (Inr b') # ENow now #
                EGetBP Cached key (kp_namespace p) (Inr cur) # older
      else acceptedWrites new = [])"

lemma wp_touchStatus:
  fixes w :: "(Event, 'm) world"
  shows "wp (touchStatus env p key rm mutate) (\<lambda>applied w'. \<exists>new. w_log w' = new @ w_log w \<and> touched p key mutate applied new) w"
proof -
  define I where "I = (\<lambda>w' :: (Event, 'm) world. \<exists>new. w_log w' = new @ w_log w \<and> list_all statusEvent new \<and> acceptedWrites new = [])"
  have once: "wp (touchOnce env p key mutate) (\<lambda>r w''. (\<exists>new. w_log w'' = new @ w_log w \<and> touched p key mutate (case r of Inl _ \<Rightarrow> False | Inr a \<Rightarrow> a) new) \<and>
      (case r of Inl _ \<Rightarrow> I w'' | Inr _ \<Rightarrow> True)) w'" if i: "I w'" for w'
  proof -
    from i obtain new where n: "w_log w' = new @ w_log w" "list_all statusEvent new" "acceptedWrites new = []" unfolding I_def by blast
    show ?thesis
    proof (cases "ev_getBP env (new @ w_log w) Cached key (kp_namespace p)")
      case (Inl e)
      then show ?thesis using n unfolding touchOnce_def I_def
        by (auto simp: wp_rules touched_def intro!: exI [of _ "EGetBP _ _ _ _ # new"])
    next
      case (Inr cur)
      define now where "now = ev_now env (EGetBP Cached key (kp_namespace p) (Inr cur) # new @ w_log w)"
      obtain st ap where m: "mutate (bp_Status cur) now = (st, ap)" by force
      define b where "b = cur\<lparr>bp_Status := st\<lparr>st_LastBuildTime := Some now\<rparr>\<rparr>"
      show ?thesis
      proof (cases ap)
        case False
        then show ?thesis using n Inr m unfolding touchOnce_def
          by (auto simp: wp_rules touched_def now_def [symmetric] intro!: exI [of _ "ENow _ # EGetBP _ _ _ _ # new"])
      next
        case True
        show ?thesis
        proof (cases "ev_updateBPStatus env (ENow now # EGetBP Cached key (kp_namespace p) (Inr cur) # new @ w_log w) b")
          case (Inl e)
          then show ?thesis using n Inr m True unfolding touchOnce_def I_def updateBPStatus_def
            by (auto simp: wp_rules touched_def now_def [symmetric] b_def [symmetric]
                intro!: exI [of _ "EUpdateBPStatus _ _ # ENow _ # EGetBP _ _ _ _ # new"])
        next
          case (Inr b')
          then show ?thesis using n \<open>ev_getBP _ _ _ _ _ = Inr cur\<close> m True unfolding touchOnce_def updateBPStatus_def
            by (auto simp: wp_rules touched_def now_def [symmetric] b_def [symmetric]
                intro!: exI [of _ "EUpdateBPStatus _ _ # ENow _ # EGetBP _ _ _ _ # new"])
        qed
      qed
    qed
  qed
  have "I w" unfolding I_def by (rule exI [of _ "[]"]) simp
  then show ?thesis unfolding touchStatus_def
    by (intro wp_bindI [OF wp_retrying_post [OF _ once]]) (auto simp: wp_rules)
qed

text \<open>A write of the routing API: the object as read, with only the build's own fields changed.\<close>

definition routingWrite :: "BuildProject \<Rightarrow> time \<Rightarrow> BuildProject \<Rightarrow> bool" where
  "routingWrite cur now b \<longleftrightarrow>
     b = cur\<lparr>bp_Status := (bp_Status cur)\<lparr>st_LastBuildTime := Some now, st_Inflight := st_Inflight (bp_Status b),
       st_InflightBuilds := st_InflightBuilds (bp_Status b), st_RecentBuildTimes := st_RecentBuildTimes (bp_Status b)\<rparr>\<rparr>"

lemma adopt_only_inflight:
  "fst (adoptLegacyInflight st) = st\<lparr>st_Inflight := st_Inflight (fst (adoptLegacyInflight st)), st_InflightBuilds := st_InflightBuilds (fst (adoptLegacyInflight st))\<rparr>"
  by (simp add: adoptLegacyInflight_def setInflight_def Let_def split: option.split)

lemma fst_live: "fst (k8s_live p st now) = fst (adoptLegacyInflight st)"
  by (simp add: k8s_live_def Let_def case_prod_beta)

lemma startMutation_write:
  assumes "startMutation p key bid (bp_Status cur) now = (st, ap)" "b = cur\<lparr>bp_Status := st\<lparr>st_LastBuildTime := Some now\<rparr>\<rparr>"
  shows "ap \<and> routingWrite cur now b \<and> inflight_wf (bp_Status b) \<and>
    st_Inflight (bp_Status b) = startInflight (snd (k8s_live p (bp_Status cur) now)) bid now \<and>
    st_RecentBuildTimes (bp_Status b) = (if isForkKey key then st_RecentBuildTimes (bp_Status cur) else recordBuildTime (st_RecentBuildTimes (bp_Status cur)) now)"
proof -
  define L where "L = snd (k8s_live p (bp_Status cur) now)"
  define s0 where "s0 = fst (adoptLegacyInflight (bp_Status cur))"
  define bs where "bs = startInflight L bid now"
  have l: "k8s_live p (bp_Status cur) now = (s0, L)" by (metis L_def s0_def fst_live prod.collapse)
  have s0: "s0 = (bp_Status cur)\<lparr>st_Inflight := st_Inflight s0, st_InflightBuilds := st_InflightBuilds s0\<rparr>"
    unfolding s0_def by (rule adopt_only_inflight)
  have rt: "st_RecentBuildTimes s0 = st_RecentBuildTimes (bp_Status cur)" by (subst s0) simp
  have b: "capInflight bs = bs" unfolding bs_def startInflight_def by (rule capInflight_id) (simp add: length_capInflight)
  have st: "ap" "st = (if isForkKey key then setInflight bs s0 else (setInflight bs s0)\<lparr>st_RecentBuildTimes := recordBuildTime (st_RecentBuildTimes (setInflight bs s0)) now\<rparr>)"
    using assms(1) unfolding startMutation_def l bs_def by (auto simp: Let_def)
  have "routingWrite cur now b"
    unfolding routingWrite_def assms(2) st(2) setInflight_def Let_def by (cases "isForkKey key"; simp; subst s0; simp add: rt)
  then show ?thesis
    using st(1) setInflight_wf [of bs s0] b unfolding assms(2) st(2) L_def [symmetric] bs_def [symmetric] by (auto simp: inflight_wf_def rt)
qed

lemma endMutation_write:
  assumes "endMutation p bid (bp_Status cur) now = (st, True)" "b = cur\<lparr>bp_Status := st\<lparr>st_LastBuildTime := Some now\<rparr>\<rparr>"
    "L = snd (k8s_live p (bp_Status cur) now)"
  shows "routingWrite cur now b \<and> inflight_wf (bp_Status b) \<and> st_RecentBuildTimes (bp_Status b) = st_RecentBuildTimes (bp_Status cur) \<and>
    (\<exists>i < length L. st_Inflight (bp_Status b) = capInflight (take i L @ drop (Suc i) L) \<and> (bid \<noteq> [] \<longrightarrow> ib_ID (L ! i) = inflightID bid))"
proof -
  define s0 where "s0 = fst (adoptLegacyInflight (bp_Status cur))"
  have l: "k8s_live p (bp_Status cur) now = (s0, L)" by (metis assms(3) s0_def fst_live prod.collapse)
  have s0: "s0 = (bp_Status cur)\<lparr>st_Inflight := st_Inflight s0, st_InflightBuilds := st_InflightBuilds s0\<rparr>"
    unfolding s0_def by (rule adopt_only_inflight)
  have rt: "st_RecentBuildTimes s0 = st_RecentBuildTimes (bp_Status cur)" by (subst s0) simp
  define E where "E = endInflightBefore L bid (now + wrap64 (- kp_maxBuild p))"
  have e: "snd E" "st = setInflight (fst E) s0"
    using assms(1) unfolding endMutation_def l E_def by (auto simp: case_prod_beta Let_def split: if_splits)
  obtain i where i: "i < length L" "fst E = take i L @ drop (Suc i) L" "bid \<noteq> [] \<longrightarrow> ib_ID (L ! i) = inflightID bid"
    using endInflightAt_removed e(1) unfolding E_def endInflightBefore_def by blast
  have "routingWrite cur now b"
    unfolding routingWrite_def assms(2) e(2) setInflight_def Let_def by (simp; subst s0; simp add: rt)
  then show ?thesis using i setInflight_wf [of "fst E" s0] unfolding assms(2) e(2) by (auto simp: inflight_wf_def rt)
qed

text \<open>C12: \<^bold>\<open>A release is exact.\<close> \<open>EndInflight\<close> issues reads and status writes only. It reports a release exactly
  when one write was accepted, and then that write is the object read just before with one live
  entry taken out, the one the token names when there is a token; it changes no other field than the
  build's own. When it reports none, no write was accepted: the object is as it was.\<close>

theorem k8s_end_exact:
  assumes "run_state (k8s_EndInflight env p key bid) w = (released, w')"
  shows "\<exists>new. w_log w' = new @ w_log w \<and> list_all statusEvent new \<and>
    (if released then
       \<exists>cur now b L i. acceptedWrites new = [b] \<and> EGetBP Cached key (kp_namespace p) (Inr cur) \<in> set new \<and> routingWrite cur now b \<and>
         L = snd (k8s_live p (bp_Status cur) now) \<and> i < length L \<and>
         st_Inflight (bp_Status b) = capInflight (take i L @ drop (Suc i) L) \<and> (bid = [] \<or> ib_ID (L ! i) = inflightID bid)
     else acceptedWrites new = [])"
proof -
  have "wp (k8s_EndInflight env p key bid) (\<lambda>applied w'. \<exists>new. w_log w' = new @ w_log w \<and> touched p key (endMutation p bid) applied new) w"
    unfolding k8s_EndInflight_def by (rule wp_touchStatus)
  then obtain new where n: "w_log w' = new @ w_log w" "touched p key (endMutation p bid) released new"
    using assms by (auto simp: wp_run)
  show ?thesis
  proof (cases released)
    case False
    then show ?thesis using n unfolding touched_def by auto
  next
    case True
    then obtain cur now st b' older where t: "endMutation p bid (bp_Status cur) now = (st, True)" "acceptedWrites older = []" "list_all statusEvent new"
      "new = EUpdateBPStatus (cur\<lparr>bp_Status := st\<lparr>st_LastBuildTime := Some now\<rparr>\<rparr>) (Inr b') # ENow now # EGetBP Cached key (kp_namespace p) (Inr cur) # older"
      using n(2) unfolding touched_def by auto
    have "acceptedWrites new = [cur\<lparr>bp_Status := st\<lparr>st_LastBuildTime := Some now\<rparr>\<rparr>]" "EGetBP Cached key (kp_namespace p) (Inr cur) \<in> set new"
      using t by simp_all
    with endMutation_write [OF t(1) refl refl] n(1) t(3) True show ?thesis by (metis (no_types, lifting))
  qed
qed

text \<open>\<^bold>\<open>A routed build is registered.\<close> \<open>StartInflight\<close> has at most one write accepted; that write is the object
  just read with the live entries and the new build's entry appended, capped and counted correctly,
  the last build stamped, and the cadence ring fed unless the project is a fork; no other field
  changes. When the server answers, exactly one write is accepted.\<close>

theorem k8s_start_registers:
  assumes "run_state (k8s_StartInflight env p key bid) w = ((), w')"
  shows "\<exists>new. w_log w' = new @ w_log w \<and> list_all statusEvent new \<and> length (acceptedWrites new) \<le> 1 \<and>
    (\<forall>b \<in> set (acceptedWrites new). \<exists>cur now. EGetBP Cached key (kp_namespace p) (Inr cur) \<in> set new \<and> routingWrite cur now b \<and>
       inflight_wf (bp_Status b) \<and>
       st_Inflight (bp_Status b) = startInflight (snd (k8s_live p (bp_Status cur) now)) bid now \<and>
       st_RecentBuildTimes (bp_Status b) =
         (if isForkKey key then st_RecentBuildTimes (bp_Status cur) else recordBuildTime (st_RecentBuildTimes (bp_Status cur)) now)) \<and>
    ((\<forall>l. \<exists>b. ev_getBP env l Cached key (kp_namespace p) = Inr b) \<and> (\<forall>l b. \<exists>b'. ev_updateBPStatus env l b = Inr b') \<longrightarrow>
       length (acceptedWrites new) = 1)"
proof -
  have "wp (k8s_StartInflight env p key bid) (\<lambda>_ w'. \<exists>applied new. w_log w' = new @ w_log w \<and> touched p key (startMutation p key bid) applied new) w"
    unfolding k8s_StartInflight_def wp_rules by (rule wp_mono [OF wp_touchStatus]) blast
  then obtain applied new where n: "w_log w' = new @ w_log w" "touched p key (startMutation p key bid) applied new"
    using assms by (auto simp: wp_run)
  have answered: "length (acceptedWrites new) = 1"
    if a: "\<And>l. \<exists>b. ev_getBP env l Cached key (kp_namespace p) = Inr b" "\<And>l b. \<exists>b'. ev_updateBPStatus env l b = Inr b'"
  proof -
    obtain cur where cur: "ev_getBP env (w_log w) Cached key (kp_namespace p) = Inr cur" using a(1) by blast
    obtain st where st: "startMutation p key bid (bp_Status cur) (ev_now env (EGetBP Cached key (kp_namespace p) (Inr cur) # w_log w)) = (st, True)"
      using startMutation_write [of p key bid cur _ _ _] by (metis surj_pair)
    have "wp (touchOnce env p key (startMutation p key bid)) (\<lambda>r w'. r = Inr True \<and> (\<exists>b b' now. w_log w' = EUpdateBPStatus b (Inr b') # ENow now #
        EGetBP Cached key (kp_namespace p) (Inr cur) # w_log w)) w"
      unfolding touchOnce_def updateBPStatus_def using a(2) by (auto simp: wp_rules cur st Let_def split: sum.split) (metis Inl_Inr_False)
    then have "wp (k8s_StartInflight env p key bid) (\<lambda>_ w'. \<exists>b b' now. w_log w' = EUpdateBPStatus b (Inr b') # ENow now #
        EGetBP Cached key (kp_namespace p) (Inr cur) # w_log w) w"
      unfolding k8s_StartInflight_def touchStatus_def statusBackoffSteps_def eval_nat_numeral retrying.simps wp_rules
      by (rule wp_mono) (auto simp: wp_rules)
    then obtain b b' now where "w_log w' = EUpdateBPStatus b (Inr b') # ENow now # EGetBP Cached key (kp_namespace p) (Inr cur) # w_log w"
      using assms by (auto simp: wp_run)
    then have "new = [EUpdateBPStatus b (Inr b'), ENow now, EGetBP Cached key (kp_namespace p) (Inr cur)]" using n(1) by simp
    then show ?thesis by simp
  qed
  show ?thesis
  proof (cases applied)
    case False
    then show ?thesis using n answered unfolding touched_def by fastforce
  next
    case True
    then obtain cur now st b' older where t: "startMutation p key bid (bp_Status cur) now = (st, True)" "acceptedWrites older = []" "list_all statusEvent new"
      "new = EUpdateBPStatus (cur\<lparr>bp_Status := st\<lparr>st_LastBuildTime := Some now\<rparr>\<rparr>) (Inr b') # ENow now # EGetBP Cached key (kp_namespace p) (Inr cur) # older"
      using n(2) unfolding touched_def by auto
    define b where "b = cur\<lparr>bp_Status := st\<lparr>st_LastBuildTime := Some now\<rparr>\<rparr>"
    have "acceptedWrites new = [b]" "EGetBP Cached key (kp_namespace p) (Inr cur) \<in> set new" using t by (simp_all add: b_def)
    with startMutation_write [OF t(1) b_def] n(1) t(3) show ?thesis by (intro exI [of _ new]) auto
  qed
qed

definition oneProject :: "time \<Rightarrow> BuildProject \<Rightarrow> Env" where
  "oneProject t b = (emptyEnv t)\<lparr>ev_getBP := \<lambda>_ _ _ _. Inr b\<rparr>"

theorem k8s_start_registers_witness:
  "length (acceptedWrites (w_log (snd (run_state (k8s_StartInflight (oneProject 7 (bareProject ''p1'')) zeroK8s ''p1'' ''tok'') \<lparr>w_log = [], w_mem = ()\<rparr>)))) = 1"
proof -
  have "(\<forall>l. \<exists>b. ev_getBP (oneProject 7 (bareProject ''p1'')) l Cached ''p1'' (kp_namespace zeroK8s) = Inr b) \<and>
        (\<forall>l b. \<exists>b'. ev_updateBPStatus (oneProject 7 (bareProject ''p1'')) l b = Inr b')"
    by (simp add: oneProject_def emptyEnv_def)
  moreover obtain w' where "run_state (k8s_StartInflight (oneProject 7 (bareProject ''p1'')) zeroK8s ''p1'' ''tok'') \<lparr>w_log = [], w_mem = ()\<rparr> = ((), w')"
    by (metis old.unit.exhaust surj_pair)
  moreover note k8s_start_registers [OF this]
  ultimately show ?thesis by auto
qed

definition busyProject :: BuildProject where
  "busyProject = (bareProject ''p1'')\<lparr>bp_Status := zeroStatus\<lparr>st_Inflight := [\<lparr>ib_ID = ''x'', ib_Since = 3\<rparr>], st_InflightBuilds := 1\<rparr>\<rparr>"

theorem k8s_end_exact_witness:
  "fst (run_state (k8s_EndInflight (oneProject 7 busyProject) zeroK8s ''p1'' []) \<lparr>w_log = [], w_mem = ()\<rparr>) \<and>
   length (acceptedWrites (w_log (snd (run_state (k8s_EndInflight (oneProject 7 busyProject) zeroK8s ''p1'' []) \<lparr>w_log = [], w_mem = ()\<rparr>)))) = 1"
proof -
  let ?X = "run_state (k8s_EndInflight (oneProject 7 busyProject) zeroK8s ''p1'' []) \<lparr>w_log = [], w_mem = ()\<rparr>"
  have "fst ?X"
    by (simp add: k8s_EndInflight_def touchStatus_def statusBackoffSteps_def eval_nat_numeral touchOnce_def getBP_def timeNow_def updateBPStatus_def
        call_def oneProject_def emptyEnv_def busyProject_def bareProject_def zeroStatus_def endMutation_def k8s_live_def adoptLegacyInflight_def
        zeroK8s_def newK8s_def Let_def endInflightBefore_def endInflightAt_def wrap64_def)
  with k8s_end_exact [where env = "oneProject 7 busyProject" and p = zeroK8s and key = "''p1''" and bid = "[]" and w = "\<lparr>w_log = [], w_mem = ()\<rparr>", OF surjective_pairing]
  show ?thesis by auto
qed

section \<open>The export grant\<close>

text \<open>A grant of the export window: the object as read, its grant absent or at least the interval old at \<open>t1\<close>,
  stamped with \<open>t2\<close>.\<close>

definition grantWrite :: "duration \<Rightarrow> BuildProject \<Rightarrow> time \<Rightarrow> time \<Rightarrow> BuildProject \<Rightarrow> bool" where
  "grantWrite interval cur t1 t2 b \<longleftrightarrow>
     b = (applyDefaults cur)\<lparr>bp_Status := (bp_Status cur)\<lparr>st_LastCacheExportGrant := Some t2\<rparr>\<rparr> \<and>
     sp_S3CachePolicy (bp_Spec (applyDefaults cur)) = S3CacheCadence \<and>
     (\<forall>g. st_LastCacheExportGrant (bp_Status cur) = Some g \<longrightarrow> interval \<le> timeSub t1 g)"

text \<open>\<open>t2\<close> is \<open>t1\<close>, or was read off the clock after it.\<close>

definition ticked :: "time \<Rightarrow> time \<Rightarrow> elog \<Rightarrow> bool" where
  "ticked t1 t2 l \<longleftrightarrow> t1 = t2 \<or> (\<exists>later earlier. l = later @ ENow t2 # earlier \<and> ENow t1 \<in> set earlier)"

definition granted :: "K8sProvisioner \<Rightarrow> string \<Rightarrow> duration \<Rightarrow> bool res \<Rightarrow> elog \<Rightarrow> bool" where
  "granted p key interval r new \<longleftrightarrow> list_all statusEvent new \<and>
     (acceptedWrites new = [] \<and> (r = Inr True \<longrightarrow> (\<exists>cur. EGetBP Cached key (kp_namespace p) (Inr cur) \<in> set new \<and> sp_S3CachePolicy (bp_Spec (applyDefaults cur)) = S3CacheAlways)) \<or>
      (\<exists>cur t1 t2 b. r = Inr True \<and> acceptedWrites new = [b] \<and> EGetBP Cached key (kp_namespace p) (Inr cur) \<in> set new \<and>
         ENow t1 \<in> set new \<and> ENow t2 \<in> set new \<and> ticked t1 t2 new \<and> grantWrite interval cur t1 t2 b))"

lemma grantedI:
  "list_all statusEvent new \<Longrightarrow> acceptedWrites new = [b] \<Longrightarrow> EGetBP Cached key (kp_namespace p) (Inr cur) \<in> set new \<Longrightarrow>
   ENow t1 \<in> set new \<Longrightarrow> ENow t2 \<in> set new \<Longrightarrow> ticked t1 t2 new \<Longrightarrow> grantWrite interval cur t1 t2 b \<Longrightarrow> granted p key interval (Inr True) new"
  unfolding granted_def by blast

lemma granted_none: "list_all statusEvent new \<Longrightarrow> acceptedWrites new = [] \<Longrightarrow> r \<noteq> Inr True \<Longrightarrow> granted p key interval r new"
  unfolding granted_def by blast

lemma wp_grantOnce:
  assumes "list_all statusEvent new0" "acceptedWrites new0 = []" "w_log w' = new0 @ l"
  shows "wp (grantOnce env p key interval) (\<lambda>r w''. \<exists>new. w_log w'' = new @ l \<and> granted p key interval r new \<and> (case r of Inl _ \<Rightarrow> acceptedWrites new = [] | Inr _ \<Rightarrow> True)) w'"
proof -
  have ex: "(\<exists>new. e # new0 @ l = new @ l \<and> P new) \<longleftrightarrow> P (e # new0)" "(\<exists>new. e # e' # new0 @ l = new @ l \<and> P new) \<longleftrightarrow> P (e # e' # new0)"
    "(\<exists>new. e # e' # e'' # new0 @ l = new @ l \<and> P new) \<longleftrightarrow> P (e # e' # e'' # new0)" 
    "(\<exists>new. e # e' # e'' # e3 # new0 @ l = new @ l \<and> P new) \<longleftrightarrow> P (e # e' # e'' # e3 # new0)" for e e' e'' e3 P
    by (auto simp: append_eq_Cons_conv Cons_eq_append_conv)+
  show ?thesis
  proof (cases "ev_getBP env (new0 @ l) Cached key (kp_namespace p)")
    case (Inl e)
    then show ?thesis using assms by (simp add: grantOnce_def wp_rules ex granted_def)
  next
    case (Inr cur)
    show ?thesis
    proof (cases "sp_S3CachePolicy (bp_Spec (applyDefaults cur)) = S3CacheCadence")
      case False
      then show ?thesis using assms Inr by (auto simp: grantOnce_def wp_rules Let_def ex granted_def)
    next
      case c: True
      let ?g = "EGetBP Cached key (kp_namespace p) (Inr cur)"
      let ?b = "\<lambda>t. (applyDefaults cur)\<lparr>bp_Status := (bp_Status cur)\<lparr>st_LastCacheExportGrant := Some t\<rparr>\<rparr>"
      have wr: "granted p key interval (case u of Inl e \<Rightarrow> Inl e | Inr _ \<Rightarrow> Inr True) (EUpdateBPStatus (?b t2) u # ENow t2 # pre @ ?g # new0)"
        if "pre = [] \<or> pre = [ENow t1]" "pre = [] \<Longrightarrow> t1 = t2" "\<And>g. st_LastCacheExportGrant (bp_Status cur) = Some g \<Longrightarrow> interval \<le> timeSub t1 g" for u t1 t2 pre
      proof (cases u)
        case (Inl e)
        then show ?thesis using that assms(1,2) by (intro granted_none) auto
      next
        case (Inr b')
        have "ticked t1 t2 (EUpdateBPStatus (?b t2) (Inr b') # ENow t2 # pre @ ?g # new0)"
          using that(1,2) by (auto simp: ticked_def intro: exI [of _ "[EUpdateBPStatus (?b t2) (Inr b')]"])
        then show ?thesis unfolding Inr sum.case
          by (intro grantedI [where b = "?b t2" and cur = cur and ?t1.0 = t1 and ?t2.0 = t2]) (use that assms(1,2) c in \<open>auto simp: grantWrite_def\<close>)
      qed
      show ?thesis
      proof (cases "st_LastCacheExportGrant (bp_Status cur)")
        case None
        then show ?thesis using assms Inr c wr [of "[]"]
          by (auto simp: grantOnce_def wp_rules Let_def updateBPStatus_def ex split: sum.split)
      next
        case (Some g)
        then show ?thesis using assms Inr c wr [of "[ENow _]"]
          by (auto simp: grantOnce_def wp_rules Let_def updateBPStatus_def ex not_less granted_none split: sum.split)
      qed
    qed
  qed
qed

lemma wp_getBP_retry:
  fixes w :: "(Event, 'm) world"
  shows "wp (retrying n again (getBP env Cached key ns)) (\<lambda>r w'. \<exists>new. w_log w' = new @ w_log w \<and> list_all statusEvent new \<and> acceptedWrites new = [] \<and>
     (case r of Inl _ \<Rightarrow> list_all (\<lambda>e. \<exists>err. e = EGetBP Cached key ns (Inl err)) new | Inr bp \<Rightarrow> EGetBP Cached key ns (Inr bp) \<in> set new)) w"
proof (rule wp_retrying_post [where I = "\<lambda>w' :: (Event, 'm) world. \<exists>new. w_log w' = new @ w_log w \<and> list_all (\<lambda>e. \<exists>err. e = EGetBP Cached key ns (Inl err)) new"])
  show "\<exists>new. w_log w = new @ w_log w \<and> list_all (\<lambda>e. \<exists>err. e = EGetBP Cached key ns (Inl err)) new" by simp
  fix w' :: "(Event, 'm) world"
  assume "\<exists>new. w_log w' = new @ w_log w \<and> list_all (\<lambda>e. \<exists>err. e = EGetBP Cached key ns (Inl err)) new"
  then obtain new where n: "w_log w' = new @ w_log w" "list_all (\<lambda>e. \<exists>err. e = EGetBP Cached key ns (Inl err)) new" by blast
  have ev: "list_all statusEvent new" using n(2) by (auto simp: list_all_iff statusEvent_def)
  have ac: "acceptedWrites new = []" using n(2) by (auto simp: list_all_iff acceptedWrites_def acceptedOf_def)
  show "wp (getBP env Cached key ns) (\<lambda>r w''. (\<exists>new. w_log w'' = new @ w_log w \<and> list_all statusEvent new \<and> acceptedWrites new = [] \<and>
     (case r of Inl _ \<Rightarrow> list_all (\<lambda>e. \<exists>err. e = EGetBP Cached key ns (Inl err)) new | Inr bp \<Rightarrow> EGetBP Cached key ns (Inr bp) \<in> set new)) \<and>
     (case r of Inl _ \<Rightarrow> \<exists>new. w_log w'' = new @ w_log w \<and> list_all (\<lambda>e. \<exists>err. e = EGetBP Cached key ns (Inl err)) new | Inr _ \<Rightarrow> True)) w'"
    unfolding wp_getBP n(1)
    by (cases "ev_getBP env (new @ w_log w) Cached key ns") (use n(2) ev ac in \<open>auto intro!: exI [of _ "EGetBP _ _ _ _ # new"]\<close>)
qed

text \<open>\<^bold>\<open>An export is granted by a write, or not at all.\<close> Under a positive interval, a decision that writes has
  exactly one accepted write, a grant computed from the object it read, in whose window no grant had
  been given, and answers yes to import and export; a decision that grants without writing either
  read a project whose policy is to always export or could not read the project at all.\<close>

theorem s3_grant_exact:
  fixes w :: "(Event, 'm) world"
  assumes "run_state (k8s_S3CacheDecision env p key interval grantExport) w = ((imp, exp), w')" "0 < interval"
  shows "\<exists>new. w_log w' = new @ w_log w \<and> list_all statusEvent new \<and>
    (case acceptedWrites new of
       [] \<Rightarrow> \<not> exp \<or> list_all (\<lambda>e. \<exists>err. e = EGetBP Cached key (kp_namespace p) (Inl err)) new \<or>
         (\<exists>cur. EGetBP Cached key (kp_namespace p) (Inr cur) \<in> set new \<and> sp_S3CachePolicy (bp_Spec (applyDefaults cur)) = S3CacheAlways)
     | b # bs \<Rightarrow> bs = [] \<and> imp \<and> exp \<and> (\<exists>cur t1 t2. EGetBP Cached key (kp_namespace p) (Inr cur) \<in> set new \<and>
         ENow t1 \<in> set new \<and> ENow t2 \<in> set new \<and> ticked t1 t2 new \<and> grantWrite interval cur t1 t2 b))"
proof -
  define Q where "Q = (\<lambda>(imp, exp) new. list_all statusEvent new \<and>
    (case acceptedWrites new of
       [] \<Rightarrow> \<not> exp \<or> list_all (\<lambda>e. \<exists>err. e = EGetBP Cached key (kp_namespace p) (Inl err)) new \<or>
         (\<exists>cur. EGetBP Cached key (kp_namespace p) (Inr cur) \<in> set new \<and> sp_S3CachePolicy (bp_Spec (applyDefaults cur)) = S3CacheAlways)
     | b # bs \<Rightarrow> bs = [] \<and> imp \<and> exp \<and> (\<exists>cur t1 t2. EGetBP Cached key (kp_namespace p) (Inr cur) \<in> set new \<and>
         ENow t1 \<in> set new \<and> ENow t2 \<in> set new \<and> ticked t1 t2 new \<and> grantWrite interval cur t1 t2 b)))"
  have fin: "Q (case r of Inl _ \<Rightarrow> (True, False) | Inr g \<Rightarrow> (True, g)) new" if "granted p key interval r new" for r new
    using that unfolding granted_def Q_def by (cases r) (auto, blast)
  have grants: "wp (retrying statusBackoffSteps retriableStatusErr (grantOnce env p key interval)) (\<lambda>r w''. \<exists>new. w_log w'' = new @ w_log w \<and>
      Q (case r of Inl _ \<Rightarrow> (True, False) | Inr g \<Rightarrow> (True, g)) new) w1"
    if "w_log w1 = new @ w_log w" "list_all statusEvent new" "acceptedWrites new = []" for w1 :: "(Event, 'm) world" and new
  proof (rule wp_retrying_post [where I = "\<lambda>w''. \<exists>new. w_log w'' = new @ w_log w \<and> list_all statusEvent new \<and> acceptedWrites new = []"])
    fix w2 :: "(Event, 'm) world"
    assume "\<exists>new. w_log w2 = new @ w_log w \<and> list_all statusEvent new \<and> acceptedWrites new = []"
    then obtain new2 where n: "list_all statusEvent new2" "acceptedWrites new2 = []" "w_log w2 = new2 @ w_log w" by blast
    show "wp (grantOnce env p key interval) (\<lambda>r w''. (\<exists>new. w_log w'' = new @ w_log w \<and> Q (case r of Inl _ \<Rightarrow> (True, False) | Inr g \<Rightarrow> (True, g)) new) \<and>
        (case r of Inl _ \<Rightarrow> \<exists>new. w_log w'' = new @ w_log w \<and> list_all statusEvent new \<and> acceptedWrites new = [] | Inr _ \<Rightarrow> True)) w2"
    proof (rule wp_mono [OF wp_grantOnce [OF n]])
      fix r and w'' :: "(Event, 'm) world"
      assume "\<exists>new. w_log w'' = new @ w_log w \<and> granted p key interval r new \<and> (case r of Inl _ \<Rightarrow> acceptedWrites new = [] | Inr _ \<Rightarrow> True)"
      then obtain new3 where m: "w_log w'' = new3 @ w_log w" "granted p key interval r new3" "case r of Inl _ \<Rightarrow> acceptedWrites new3 = [] | Inr _ \<Rightarrow> True" by blast
      have "list_all statusEvent new3" using m(2) by (simp add: granted_def)
      with m fin [OF m(2)] show "(\<exists>new. w_log w'' = new @ w_log w \<and> Q (case r of Inl _ \<Rightarrow> (True, False) | Inr g \<Rightarrow> (True, g)) new) \<and>
        (case r of Inl _ \<Rightarrow> \<exists>new. w_log w'' = new @ w_log w \<and> list_all statusEvent new \<and> acceptedWrites new = [] | Inr _ \<Rightarrow> True)"
        by (cases r) auto
    qed
  qed (use that in blast)
  have never: "Q (a, False) new" if "list_all statusEvent new" "acceptedWrites new = []" for a new using that by (simp add: Q_def)
  have always: "Q (True, True) new"
    if "list_all statusEvent new" "acceptedWrites new = []" "EGetBP Cached key (kp_namespace p) (Inr cur) \<in> set new"
      "sp_S3CachePolicy (bp_Spec (applyDefaults cur)) = S3CacheAlways" for new cur using that by (auto simp: Q_def)
  have "wp (k8s_S3CacheDecision env p key interval grantExport) (\<lambda>a w'. \<exists>new. w_log w' = new @ w_log w \<and> Q a new) w"
    unfolding k8s_S3CacheDecision_def
    apply (rule wp_bindI [OF wp_getBP_retry])
    subgoal for r w1
      apply (cases r)
      subgoal by (auto simp: wp_rules Q_def)
      subgoal for bp using assms(2) by (auto simp: wp_rules Let_def never always intro!: grants)
      done
    done
  then show ?thesis using assms(1) by (simp add: wp_run Q_def)
qed

theorem s3_grant_exact_witness:
  "fst (run_state (k8s_S3CacheDecision (oneProject 7 (bareProject ''p1'')) zeroK8s ''p1'' hour True) \<lparr>w_log = [], w_mem = ()\<rparr>) = (True, True) \<and>
   length (acceptedWrites (w_log (snd (run_state (k8s_S3CacheDecision (oneProject 7 (bareProject ''p1'')) zeroK8s ''p1'' hour True) \<lparr>w_log = [], w_mem = ()\<rparr>)))) = 1"
proof -
  let ?X = "run_state (k8s_S3CacheDecision (oneProject 7 (bareProject ''p1'')) zeroK8s ''p1'' hour True) \<lparr>w_log = [], w_mem = ()\<rparr>"
  have c: "sp_S3CachePolicy (bp_Spec (applyDefaults (bareProject ''p1''))) = S3CacheCadence" "st_LastCacheExportGrant (bp_Status (bareProject ''p1'')) = None"
    by (simp_all add: applyDefaults_def bareProject_def specDefaults_def zeroSpec_def zeroStatus_def DefaultS3CachePolicy_def)
  have n: "S3CacheCadence \<noteq> S3CacheNever" "S3CacheCadence \<noteq> S3CacheAlways" "0 < hour" by (simp_all add: api_consts duration_consts)
  have r: "fst ?X = (True, True)" "\<exists>b b' l. w_log (snd ?X) = EUpdateBPStatus b (Inr b') # l" using n
    by (simp_all add: k8s_S3CacheDecision_def statusBackoffSteps_def eval_nat_numeral grantOnce_def getBP_def timeNow_def updateBPStatus_def
        call_def oneProject_def emptyEnv_def c Let_def)
  then obtain w' where X: "?X = ((True, True), w')" by (metis prod.collapse)
  from s3_grant_exact [OF X n(3)] r(2) X show ?thesis by (auto split: list.splits)
qed

text \<open>Every replica of buildd grants through the same stored object. A state is the list of versions ever
  stored, the exports answered with yes (with the grant stamp that was written for them, if any), both
  newest first, and whether a decision could not read the project at all. A step is one whole run of
  \<open>S3CacheDecision\<close> on some replica, seen at the moment of its write, or a write of somebody else that
  leaves the grant alone (the routing API's status writes and the reconciler's do). What the replica
  reads may be any version that was ever stored; the server accepts a status only over the version it
  has, and hands out a fresh resource version; the clock does not run backwards within the run.\<close>

definition servedEvent :: "BuildProject list \<Rightarrow> Event \<Rightarrow> elog \<Rightarrow> bool" where
  "servedEvent h e l =
     (case e of
        EGetBP _ _ _ (Inr b) \<Rightarrow> b \<in> set h
      | EUpdateBPStatus b (Inr b') \<Rightarrow> bp_ResourceVersion b = bp_ResourceVersion (hd h) \<and> bp_Status b' = bp_Status b \<and>
          bp_ResourceVersion b' \<notin> bp_ResourceVersion ` set h
      | ENow t \<Rightarrow> \<forall>t'. ENow t' \<in> set l \<longrightarrow> t' \<le> t
      | _ \<Rightarrow> True)"

definition storedOf :: "Event \<Rightarrow> BuildProject list" where
  "storedOf e = (case e of EUpdateBPStatus _ (Inr b') \<Rightarrow> [b'] | _ \<Rightarrow> [])"

definition readFound :: "Event \<Rightarrow> bool" where
  "readFound e = (case e of EGetBP _ _ _ (Inr _) \<Rightarrow> True | _ \<Rightarrow> False)"

definition exportOf :: "bool \<times> bool \<Rightarrow> elog \<Rightarrow> time option list" where
  "exportOf r l =
     (if snd r then [case acceptedWrites l of [] \<Rightarrow> None | b # _ \<Rightarrow> st_LastCacheExportGrant (bp_Status b)] else [])"

type_synonym exportState = "BuildProject list \<times> time option list \<times> bool"

inductive exportStep :: "K8sProvisioner \<Rightarrow> string \<Rightarrow> duration \<Rightarrow> exportState \<Rightarrow> exportState \<Rightarrow> bool" for p key interval where
  decide: "run_state (k8s_S3CacheDecision env p key interval grantExport) \<lparr>w_log = [], w_mem = ()\<rparr> = (r, w') \<Longrightarrow>
     log_ok (servedEvent h) (w_log w') \<Longrightarrow>
     exportStep p key interval (h, gs, lost)
       (concat (map storedOf (w_log w')) @ h, exportOf r (w_log w') @ gs, lost \<or> \<not> list_ex readFound (w_log w'))"
| other: "st_LastCacheExportGrant (bp_Status b') = st_LastCacheExportGrant (bp_Status stored) \<Longrightarrow>
     bp_ResourceVersion b' \<notin> bp_ResourceVersion ` set (stored # old) \<Longrightarrow>
     exportStep p key interval (stored # old, gs, lost) (b' # stored # old, gs, lost)"

abbreviation stamps :: "time option list \<Rightarrow> time list" where
  "stamps gs \<equiv> List.map_filter id gs"

abbreviation spaced :: "duration \<Rightarrow> time list \<Rightarrow> bool" where
  "spaced interval ts \<equiv> sorted_wrt (\<lambda>newer older. interval \<le> newer - older) ts"

abbreviation cadenceOnly :: "BuildProject list \<Rightarrow> bool" where
  "cadenceOnly h \<equiv> list_all (\<lambda>b. sp_S3CachePolicy (bp_Spec (applyDefaults b)) = S3CacheCadence) h"

definition exportInv :: "duration \<Rightarrow> exportState \<Rightarrow> bool" where
  "exportInv interval s \<longleftrightarrow> (case s of (h, gs, lost) \<Rightarrow> h \<noteq> [] \<and> distinct (map bp_ResourceVersion h) \<and>
     (stamps gs = [] \<or> st_LastCacheExportGrant (bp_Status (hd h)) = Some (hd (stamps gs))) \<and> spaced interval (stamps gs) \<and>
     (lost \<or> \<not> cadenceOnly h \<or> None \<notin> set gs))"

lemma timeSub_ge: "interval \<le> timeSub a b \<Longrightarrow> interval > - (2 ^ 63) \<Longrightarrow> interval \<le> a - b"
  by (auto simp: timeSub_def split: if_splits)

lemma served_set: "log_ok (servedEvent h) l \<Longrightarrow> e \<in> set l \<Longrightarrow> \<exists>earlier. servedEvent h e earlier"
  by (induction l) auto

lemma served_read: "log_ok (servedEvent h) l \<Longrightarrow> EGetBP rd n ns (Inr b) \<in> set l \<Longrightarrow> b \<in> set h"
  by (drule (1) served_set) (auto simp: servedEvent_def)

lemma served_ticked:
  assumes "log_ok (servedEvent h) l" "ticked t1 t2 l"
  shows "t1 \<le> t2"
  using assms(2) unfolding ticked_def
proof (elim disjE exE conjE)
  fix later earlier
  assume l: "l = later @ ENow t2 # earlier" "ENow t1 \<in> set earlier"
  then have "servedEvent h (ENow t2) earlier" using assms(1) unfolding log_ok_iff by blast
  then show "t1 \<le> t2" using l(2) by (simp add: servedEvent_def)
qed simp

lemma stored_none: "acceptedWrites l = [] \<Longrightarrow> concat (map storedOf l) = []"
  by (induction l) (auto simp: acceptedWrites_def acceptedOf_def storedOf_def split: Event.splits sum.splits)

lemma stored_one: "acceptedWrites l = [b] \<Longrightarrow> \<exists>b'. concat (map storedOf l) = [b'] \<and> EUpdateBPStatus b (Inr b') \<in> set l"
proof (induction l)
  case (Cons e l)
  show ?case
  proof (cases "acceptedOf e")
    case Nil
    then have "storedOf e = []" by (auto simp: acceptedOf_def storedOf_def split: Event.splits sum.splits)
    then show ?thesis using Cons Nil by (auto simp: acceptedWrites_def)
  next
    case (Cons c cs)
    then obtain b' where e: "e = EUpdateBPStatus b (Inr b')" using Cons.prems
      by (auto simp: acceptedWrites_def acceptedOf_def split: Event.splits sum.splits)
    then have "acceptedWrites l = []" using Cons.prems by simp
    then show ?thesis using e stored_none [of l] by (simp add: storedOf_def)
  qed
qed simp

text \<open>The one accepted write of a run was computed from the version the server had, and moves the stamp on by an
  interval.\<close>

lemma decide_stamps:
  assumes inv: "exportInv interval (h, gs, lost)" and served: "log_ok (servedEvent h) l" and "0 < interval"
    and w: "acceptedWrites l = [b]" "EGetBP Cached key ns (Inr cur) \<in> set l" "ticked t1 t2 l" "grantWrite interval cur t1 t2 b"
  shows "\<exists>b'. concat (map storedOf l) = [b'] \<and> bp_ResourceVersion b' \<notin> bp_ResourceVersion ` set h \<and>
    st_LastCacheExportGrant (bp_Status b') = Some t2 \<and> st_LastCacheExportGrant (bp_Status b) = Some t2 \<and> spaced interval (t2 # stamps gs)"
proof -
  obtain b' where b': "concat (map storedOf l) = [b']" "EUpdateBPStatus b (Inr b') \<in> set l" using stored_one [OF w(1)] by blast
  have sv: "bp_ResourceVersion b = bp_ResourceVersion (hd h)" "bp_Status b' = bp_Status b" "bp_ResourceVersion b' \<notin> bp_ResourceVersion ` set h"
    using served_set [OF served b'(2)] by (auto simp: servedEvent_def)
  have st: "st_LastCacheExportGrant (bp_Status b) = Some t2" "bp_ResourceVersion b = bp_ResourceVersion cur"
    using w(4) by (simp_all add: grantWrite_def applyDefaults_def)
  have h: "h \<noteq> []" "distinct (map bp_ResourceVersion h)" "spaced interval (stamps gs)"
    "stamps gs = [] \<or> st_LastCacheExportGrant (bp_Status (hd h)) = Some (hd (stamps gs))" using inv by (auto simp: exportInv_def)
  have cur: "cur = hd h"
    using served_read [OF served w(2)] h(1,2) sv(1) st(2) by (metis distinct_map hd_in_set inj_onD)
  have "interval \<le> t2 - t" if "stamps gs = t # ts" for t ts
  proof -
    have "interval \<le> timeSub t1 t" using that h(4) w(4) cur by (auto simp: grantWrite_def)
    then show ?thesis using timeSub_ge [of interval t1 t] served_ticked [OF served w(3)] assms(3) by auto
  qed
  then have "spaced interval (t2 # stamps gs)" using h(3) assms(3) by (cases "stamps gs") fastforce+
  then show ?thesis using b' sv st by auto
qed

lemma exportInv_step:
  assumes "exportStep p key interval s s'" "exportInv interval s" "0 < interval"
  shows "exportInv interval s'"
  using assms(1)
proof cases
  case (decide env ge r w' h gs lost)
  obtain imp exp where r: "r = (imp, exp)" by (cases r)
  note x = s3_grant_exact [OF decide(3) [unfolded r] assms(3), simplified]
  show ?thesis
  proof (cases "acceptedWrites (w_log w')")
    case Nil
    have "exp \<Longrightarrow> list_ex readFound (w_log w') \<Longrightarrow> \<not> cadenceOnly h"
    proof -
      assume e: "exp" "list_ex readFound (w_log w')"
      then have "\<not> list_all (\<lambda>e. \<exists>err. e = EGetBP Cached key (kp_namespace p) (Inl err)) (w_log w')"
        by (fastforce simp: list_all_iff list_ex_iff readFound_def)
      then obtain cur where cur: "EGetBP Cached key (kp_namespace p) (Inr cur) \<in> set (w_log w')" "sp_S3CachePolicy (bp_Spec (applyDefaults cur)) = S3CacheAlways"
        using x e(1) Nil by auto
      then have "cur \<in> set h" by (intro served_read [OF decide(4)])
      moreover have "S3CacheAlways \<noteq> S3CacheCadence" by (simp add: api_consts)
      ultimately show ?thesis using cur(2) by (auto simp: list_all_iff intro!: bexI [of _ cur])
    qed
    then show ?thesis using assms(2) Nil decide(1,2) stored_none [OF Nil] unfolding r
      by (auto simp: exportInv_def exportOf_def map_filter_simps)
  next
    case (Cons b bs)
    then obtain cur t1 t2 where g: "bs = []" "exp" "EGetBP Cached key (kp_namespace p) (Inr cur) \<in> set (w_log w')" "ticked t1 t2 (w_log w')" "grantWrite interval cur t1 t2 b"
      using x by auto
    obtain b' where b': "concat (map storedOf (w_log w')) = [b']" "bp_ResourceVersion b' \<notin> bp_ResourceVersion ` set h"
      "st_LastCacheExportGrant (bp_Status b') = Some t2" "st_LastCacheExportGrant (bp_Status b) = Some t2" "spaced interval (t2 # stamps gs)"
      using decide_stamps [OF assms(2) [unfolded decide(1)] decide(4) assms(3) Cons [unfolded g(1)] g(3-5)] by blast
    have s': "s' = (b' # h, Some t2 # gs, lost \<or> \<not> list_ex readFound (w_log w'))" using decide(2) b'(1,4) Cons g(1,2) r by (simp add: exportOf_def)
    show ?thesis using assms(2) b'(2,3,5) unfolding s' decide(1) by (auto simp: exportInv_def map_filter_simps)
  qed
next
  case (other b' stored old gs lost)
  then show ?thesis using assms(2) by (auto simp: exportInv_def)
qed

text \<open>C14: \<^bold>\<open>One export per window.\<close> However many replicas run \<open>S3CacheDecision\<close>, on however stale reads, any two
  exports granted by a stamp are at least the export interval apart. An export without a stamp is
  answered only where the policy of some stored version is not the cadence (\<open>always\<close>), or where a
  decision could not read the project at all (fail open): while every version is under the cadence
  policy and the project can be read, every export is a stamped one, so exports are an interval apart.\<close>

theorem one_export_per_window:
  assumes "(exportStep p key interval)\<^sup>*\<^sup>* ([b0], [], False) (h, gs, lost)" "0 < interval"
  shows "spaced interval (stamps gs) \<and> (lost \<or> \<not> cadenceOnly h \<or> None \<notin> set gs)"
proof -
  have "exportInv interval s'" if "(exportStep p key interval)\<^sup>*\<^sup>* s s'" "exportInv interval s" for s s'
    using that by (induction rule: rtranclp_induct) (auto intro: exportInv_step [OF _ _ assms(2)])
  moreover have "exportInv interval ([b0], [], False)" by (simp add: exportInv_def map_filter_simps)
  ultimately have "exportInv interval (h, gs, lost)" using assms(1) by blast
  then show ?thesis by (auto simp: exportInv_def)
qed

text \<open>Decisions at 9 and at 18 are granted.\<close>

definition grantedProject :: "nat \<Rightarrow> BuildProject" where
  "grantedProject v = (bareProject ''p1'')\<lparr>bp_ResourceVersion := replicate v CHR ''x'',
     bp_Status := zeroStatus\<lparr>st_LastCacheExportGrant := (if v = 0 then None else Some (9 * int v))\<rparr>\<rparr>"

definition grantingEnv :: "nat \<Rightarrow> time \<Rightarrow> Env" where
  "grantingEnv v t = (oneProject t (grantedProject v))\<lparr>ev_updateBPStatus := \<lambda>_ _. Inr (grantedProject (Suc v))\<rparr>"

lemma grantedProject_simps:
  "sp_S3CachePolicy (bp_Spec (applyDefaults (grantedProject v))) = S3CacheCadence"
  "bp_Status (applyDefaults (grantedProject v)) = bp_Status (grantedProject v)"
  "bp_ResourceVersion (applyDefaults (grantedProject v)) = bp_ResourceVersion (grantedProject v)"
  "st_LastCacheExportGrant (bp_Status (grantedProject v)) = (if v = 0 then None else Some (9 * int v))"
  "bp_ResourceVersion (grantedProject v) = replicate v CHR ''x''"
  "(bp_Status (grantedProject v))\<lparr>st_LastCacheExportGrant := Some (9 + 9 * int v)\<rparr> = bp_Status (grantedProject (Suc v))"
  by (simp_all add: grantedProject_def applyDefaults_def bareProject_def specDefaults_def zeroSpec_def DefaultS3CachePolicy_def zeroStatus_def)

lemma grantingStep:
  assumes "\<And>b. b \<in> set old \<Longrightarrow> length (bp_ResourceVersion b) < v"
  shows "exportStep zeroK8s ''p1'' 5 (grantedProject v # old, gs, False) (grantedProject (Suc v) # grantedProject v # old, Some (9 + 9 * int v) # gs, False)"
proof -
  let ?t = "9 + 9 * int v" and ?ns = "kp_namespace zeroK8s"
  let ?b = "(applyDefaults (grantedProject v))\<lparr>bp_Status := bp_Status (grantedProject (Suc v))\<rparr>"
  let ?l = "[EUpdateBPStatus ?b (Inr (grantedProject (Suc v))), ENow ?t] @ (if v = 0 then [] else [ENow ?t]) @
    [EGetBP Cached ''p1'' ?ns (Inr (grantedProject v)), EGetBP Cached ''p1'' ?ns (Inr (grantedProject v))]"
  have n: "S3CacheCadence \<noteq> S3CacheNever" "S3CacheCadence \<noteq> S3CacheAlways" by (simp_all add: api_consts)
  have X: "run_state (k8s_S3CacheDecision (grantingEnv v ?t) zeroK8s ''p1'' 5 True) \<lparr>w_log = [], w_mem = ()\<rparr> = ((True, True), \<lparr>w_log = ?l, w_mem = ()\<rparr>)"
    using n grantedProject_simps(6) [of 0] by (simp add: k8s_S3CacheDecision_def statusBackoffSteps_def eval_nat_numeral grantOnce_def getBP_def timeNow_def updateBPStatus_def
        call_def oneProject_def emptyEnv_def grantingEnv_def grantedProject_simps timeSub_def Let_def)
  have "log_ok (servedEvent (grantedProject v # old)) ?l"
    by (auto simp: servedEvent_def grantedProject_simps dest!: arg_cong [where f = length] dest: assms)
  from exportStep.decide [OF X, where h = "grantedProject v # old" and gs = gs and lost = False, unfolded world.simps, OF this] show ?thesis
    by (cases "v = 0") (simp_all add: storedOf_def exportOf_def grantedProject_simps readFound_def)
qed

theorem one_export_per_window_witness:
  "(exportStep zeroK8s ''p1'' 5)\<^sup>*\<^sup>* ([grantedProject 0], [], False) ([grantedProject 2, grantedProject 1, grantedProject 0], [Some 18, Some 9], False) \<and>
   spaced 5 (stamps [Some 18, Some 9])"
proof -
  have "exportStep zeroK8s ''p1'' 5 ([grantedProject 0], [], False) ([grantedProject 1, grantedProject 0], [Some 9], False)"
    using grantingStep [of "[]" 0 "[]"] by simp
  moreover have "exportStep zeroK8s ''p1'' 5 ([grantedProject 1, grantedProject 0], [Some 9], False) ([grantedProject 2, grantedProject 1, grantedProject 0], [Some 18, Some 9], False)"
    using grantingStep [of "[grantedProject 0]" 1 "[Some 9]"] by (simp add: grantedProject_simps eval_nat_numeral)
  ultimately have r: "(exportStep zeroK8s ''p1'' 5)\<^sup>*\<^sup>* ([grantedProject 0], [], False) ([grantedProject 2, grantedProject 1, grantedProject 0], [Some 18, Some 9], False)"
    by (meson converse_rtranclp_into_rtranclp rtranclp.rtrancl_refl)
  with one_export_per_window [OF r] show ?thesis by simp
qed

section \<open>Waiting ends\<close>

text \<open>The clock runs: what it shows after a pause of \<open>d\<close> is at least \<open>d\<close> later than anything it showed before.\<close>

definition clockRuns :: "Env \<Rightarrow> bool" where
  "clockRuns env \<longleftrightarrow> (\<forall>new d l t. ENow t \<in> set l \<longrightarrow> t + d \<le> ev_now env (new @ ESleep d None # l))"

definition servedAt :: "K8sProvisioner \<Rightarrow> string \<Rightarrow> elog \<Rightarrow> bool" where
  "servedAt p key l \<longleftrightarrow> (\<exists>sts rest. l = EGetSts (daemonName key) (kp_namespace p) (Inr sts) # rest \<and> daemonServing sts)"

lemma servedAt_get [simp]: "servedAt p key (EGetSts (daemonName key) (kp_namespace p) (Inr sts) # rest) \<longleftrightarrow> daemonServing sts"
  by (simp add: servedAt_def)

lemma waitLoop_returns:
  assumes clock: "clockRuns env" and w: "w_log w = ESleep (2 * second) None # l" "ENow t \<in> set l"
    and "deadline < t + int k * (2 * second)" "0 < k"
  shows "wp (waitLoop k env p key deadline) (\<lambda>r w'. \<exists>e. r = Some e \<and> (e = None \<longrightarrow> servedAt p key (w_log w'))) w"
  using assms(2-5)
proof (induction k arbitrary: w l t)
  case (Suc k)
  let ?g = "\<lambda>x. EGetSts (daemonName key) (kp_namespace p) x"
  have now: "t + 2 * second \<le> ev_now env (?g x # w_log w)" for x
    using clock Suc.prems(1,2) unfolding clockRuns_def by (metis append_Cons append_Nil)
  have next_round: "wp (waitLoop k env p key deadline) (\<lambda>r w'. \<exists>e. r = Some e \<and> (e = None \<longrightarrow> servedAt p key (w_log w')))
      (w\<lparr>w_log := ESleep (2 * second) None # ENow now' # ?g x # w_log w\<rparr>)"
    if "now' = ev_now env (?g x # w_log w)" "now' \<le> deadline" for x now'
  proof (rule Suc.IH)
    have a: "deadline < t + (int k * (2 * second) + 2 * second)" using Suc.prems(3) by (simp add: algebra_simps)
    show "deadline < now' + int k * (2 * second)" using a now [of x] that(1) by linarith
    show "0 < k" using a now [of x] that by (cases k) auto
  qed auto
  show ?case
    unfolding waitLoop.simps waitOnce_def sleepFor_def
    by (auto simp: wp_rules not_less next_round split: sum.split option.split)
qed simp

text \<open>C34: \<^bold>\<open>Waiting for a daemon ends.\<close> With a running clock, \<open>WaitReady\<close> returns after at most one poll every two
  seconds of its budget and two more, whatever the API server answers; it reports success only on a
  StatefulSet that serves the wanted revision.\<close>

theorem waitReady_returns:
  assumes "clockRuns env" "nat (kp_wait p div (2 * second)) + 2 \<le> fuel"
  shows "\<exists>e w'. run_state (k8s_WaitReady fuel env p key) w = (Some e, w') \<and> (e = None \<longrightarrow> servedAt p key (w_log w'))"
proof -
  have more: "wp (waitLoop (Suc n) env p key d) Q w1" if "wp (waitLoop n env p key d) Q w1" "\<And>w'. \<not> Q None w'" for n d Q w1 
    using that(1)
  proof (induction n arbitrary: w1)
    case 0
    then show ?case using that(2) by (simp add: wp_rules)
  next
    case (Suc n)
    show ?case using Suc.prems unfolding waitLoop.simps(2) [of "Suc n"] unfolding waitLoop.simps(2) [of n] wp_bind
      by (rule wp_mono) (auto simp: Suc.IH [unfolded waitLoop.simps(2) wp_bind] wp_rules simp del: waitLoop.simps split: option.splits)
  qed
  let ?Q = "\<lambda>r w'. \<exists>e. r = Some e \<and> (e = None \<longrightarrow> servedAt p key (w_log w'))"
  define k where "k = Suc (nat (kp_wait p div (2 * second)))"
  have k: "kp_wait p < int k * (2 * second)"
  proof -
    have "kp_wait p = 2 * second * (kp_wait p div (2 * second)) + kp_wait p mod (2 * second)" "kp_wait p mod (2 * second) < 2 * second"
      by (simp_all add: second_def)
    moreover have "2 * second * (kp_wait p div (2 * second)) \<le> 2 * second * int (nat (kp_wait p div (2 * second)))"
      by (intro mult_left_mono) (simp_all add: second_def)
    ultimately have "kp_wait p < 2 * second * int (nat (kp_wait p div (2 * second))) + 2 * second" by linarith
    then show ?thesis by (simp add: k_def algebra_simps)
  qed
  have loop: "wp (waitLoop (Suc k) env p key (t0 + kp_wait p)) ?Q w1" if "ENow t0 \<in> set (w_log w1)" for t0 and w1 :: "(Event, 'a) world"
  proof -
    have "wp (waitLoop k env p key (t0 + kp_wait p)) ?Q (w1\<lparr>w_log := ESleep (2 * second) None # l\<rparr>)" if "ENow t0 \<in> set l" for l
      by (rule waitLoop_returns [OF assms(1), where t = t0 and l = l]) (use that k in \<open>simp_all add: k_def\<close>)
    then show ?thesis unfolding waitLoop.simps(2) waitOnce_def sleepFor_def using that
      by (auto simp: wp_rules simp del: waitLoop.simps split: sum.split option.split)
  qed
  have enough: "wp (waitLoop (Suc k + n) env p key (t0 + kp_wait p)) ?Q w1" if "ENow t0 \<in> set (w_log w1)" for t0 n and w1 :: "(Event, 'a) world"
    using loop [OF that] by (induction n) (auto intro!: more simp del: waitLoop.simps)
  obtain n where n: "fuel = Suc k + n" using assms(2) le_Suc_ex [of "Suc k" fuel] by (auto simp: k_def)
  have "wp (k8s_WaitReady fuel env p key) ?Q w"
    unfolding k8s_WaitReady_def n wp_bind wp_timeNow by (rule enough) simp
  then show ?thesis by (auto simp: wp_def split: prod.splits)
qed

text \<open>A clock that runs, as a function of the log.\<close>

fun tickingClock :: "elog \<Rightarrow> time" where
  "tickingClock [] = 0"
| "tickingClock (ENow t # l) = max t (tickingClock l)"
| "tickingClock (ESleep d None # l) = tickingClock l + max d 0"
| "tickingClock (_ # l) = tickingClock l"

lemma tickingClock_mono: "tickingClock l \<le> tickingClock (new @ l)"
proof (induction new)
  case (Cons e new)
  then show ?case by (cases "(e # new @ l)" rule: tickingClock.cases) auto
qed simp

lemma tickingClock_ge: "ENow t \<in> set l \<Longrightarrow> t \<le> tickingClock l"
proof (induction l)
  case (Cons e l)
  then show ?case by (cases "(e # l)" rule: tickingClock.cases) auto
qed simp

lemma clockRuns_ticking: "clockRuns (env\<lparr>ev_now := tickingClock\<rparr>)"
  unfolding clockRuns_def
proof (intro allI impI)
  fix new d l t assume "ENow t \<in> set l"
  then have "t + d \<le> tickingClock (ESleep d None # l)" using tickingClock_ge by fastforce
  also have "\<dots> \<le> tickingClock (new @ ESleep d None # l)" by (rule tickingClock_mono)
  finally show "t + d \<le> ev_now (env\<lparr>ev_now := tickingClock\<rparr>) (new @ ESleep d None # l)" by simp
qed

theorem waitReady_returns_witness:
  "\<exists>e w'. run_state (k8s_WaitReady 152 ((emptyEnv 0)\<lparr>ev_now := tickingClock\<rparr>) (zeroK8s\<lparr>kp_wait := 300 * second\<rparr>) ''p1'') \<lparr>w_log = [], w_mem = ()\<rparr> = (Some e, w')"
proof -
  have "nat (kp_wait (zeroK8s\<lparr>kp_wait := 300 * second\<rparr>) div (2 * second)) + 2 \<le> 152" by (simp add: second_def)
  with waitReady_returns [OF clockRuns_ticking] show ?thesis by blast
qed

end
