(* ===== verification/Provisioner.thy ===== *)
theory Provisioner
  imports Effects Kube_Types
begin

text \<open>
  \<open>internal/provisioner/provisioner.go\<close>: the contract between the routing API and a backend. A \<open>Provisioner\<close> is a
  record of operations on a backend's state \<open>'s\<close>, so that the handlers are written once for every
  backend. \<open>tracing\<close> is the backend that answers arbitrarily and records the calls it gets: what holds
  of a handler over it, for all answers, holds whatever the backend does.

  The locale \<open>provisioner_contract\<close> states what the routing API relies on, over an abstraction of the
  state: \<open>held s key\<close> lists the identifiers of the builds registered for a key. \<open>Route_Contract\<close> proves
  the handlers against it; the two backends interpret it in \<open>Local_Contract\<close> and \<open>K8s_Contract\<close>.
\<close>

record 's Provisioner =
  pv_Ensure :: "BuildProjectSpec \<Rightarrow> bool \<Rightarrow> ('s, string option) state"
  pv_Ready :: "string \<Rightarrow> ('s, bool) state"
  pv_WaitReady :: "string \<Rightarrow> ('s, string option) state"
  pv_Endpoint :: "string \<Rightarrow> ('s, string) state"
  pv_StartInflight :: "string \<Rightarrow> string \<Rightarrow> ('s, unit) state"
  pv_EndInflight :: "string \<Rightarrow> string \<Rightarrow> ('s, bool) state"
  pv_Touch :: "string \<Rightarrow> ('s, unit) state"
  pv_ProjectRepo :: "string \<Rightarrow> ('s, string + string \<times> bool) state"
  pv_S3CacheDecision :: "string \<Rightarrow> duration \<Rightarrow> bool \<Rightarrow> ('s, bool \<times> bool) state"

section \<open>The tracing backend\<close>

datatype PCall =
    CEnsure BuildProjectSpec bool "string option"
  | CReady string bool
  | CWaitReady string "string option"
  | CEndpoint string string
  | CStart string string
  | CEnd string string bool
  | CTouch string
  | CRepo string "string + string \<times> bool"
  | CS3 string duration bool "bool \<times> bool"

record PAnswers =
  pa_Ensure :: "PCall list \<Rightarrow> BuildProjectSpec \<Rightarrow> bool \<Rightarrow> string option"
  pa_Ready :: "PCall list \<Rightarrow> string \<Rightarrow> bool"
  pa_WaitReady :: "PCall list \<Rightarrow> string \<Rightarrow> string option"
  pa_Endpoint :: "PCall list \<Rightarrow> string \<Rightarrow> string"
  pa_End :: "PCall list \<Rightarrow> string \<Rightarrow> string \<Rightarrow> bool"
  pa_Repo :: "PCall list \<Rightarrow> string \<Rightarrow> string + string \<times> bool"
  pa_S3 :: "PCall list \<Rightarrow> string \<Rightarrow> duration \<Rightarrow> bool \<Rightarrow> bool \<times> bool"

definition tracing :: "PAnswers \<Rightarrow> (PCall, unit) world Provisioner" where
  "tracing a = \<lparr>
     pv_Ensure = (\<lambda>spec u. call (\<lambda>l. pa_Ensure a l spec u) (CEnsure spec u)),
     pv_Ready = (\<lambda>k. call (\<lambda>l. pa_Ready a l k) (CReady k)),
     pv_WaitReady = (\<lambda>k. call (\<lambda>l. pa_WaitReady a l k) (CWaitReady k)),
     pv_Endpoint = (\<lambda>k. call (\<lambda>l. pa_Endpoint a l k) (CEndpoint k)),
     pv_StartInflight = (\<lambda>k i. call (\<lambda>_. ()) (\<lambda>_. CStart k i)),
     pv_EndInflight = (\<lambda>k i. call (\<lambda>l. pa_End a l k i) (CEnd k i)),
     pv_Touch = (\<lambda>k. call (\<lambda>_. ()) (\<lambda>_. CTouch k)),
     pv_ProjectRepo = (\<lambda>k. call (\<lambda>l. pa_Repo a l k) (CRepo k)),
     pv_S3CacheDecision = (\<lambda>k d g. call (\<lambda>l. pa_S3 a l k d g) (CS3 k d g))\<rparr>"

lemma wp_tracing [wp_rules]:
  "wp (pv_Ensure (tracing a) spec u) Q w = Q (pa_Ensure a (w_log w) spec u) (w\<lparr>w_log := CEnsure spec u (pa_Ensure a (w_log w) spec u) # w_log w\<rparr>)"
  "wp (pv_Ready (tracing a) k) Q2 w = Q2 (pa_Ready a (w_log w) k) (w\<lparr>w_log := CReady k (pa_Ready a (w_log w) k) # w_log w\<rparr>)"
  "wp (pv_WaitReady (tracing a) k) Q w = Q (pa_WaitReady a (w_log w) k) (w\<lparr>w_log := CWaitReady k (pa_WaitReady a (w_log w) k) # w_log w\<rparr>)"
  "wp (pv_Endpoint (tracing a) k) Q3 w = Q3 (pa_Endpoint a (w_log w) k) (w\<lparr>w_log := CEndpoint k (pa_Endpoint a (w_log w) k) # w_log w\<rparr>)"
  "wp (pv_StartInflight (tracing a) k i) Q4 w = Q4 () (w\<lparr>w_log := CStart k i # w_log w\<rparr>)"
  "wp (pv_EndInflight (tracing a) k i) Q2 w = Q2 (pa_End a (w_log w) k i) (w\<lparr>w_log := CEnd k i (pa_End a (w_log w) k i) # w_log w\<rparr>)"
  "wp (pv_Touch (tracing a) k) Q4 w = Q4 () (w\<lparr>w_log := CTouch k # w_log w\<rparr>)"
  "wp (pv_ProjectRepo (tracing a) k) Q5 w = Q5 (pa_Repo a (w_log w) k) (w\<lparr>w_log := CRepo k (pa_Repo a (w_log w) k) # w_log w\<rparr>)"
  "wp (pv_S3CacheDecision (tracing a) k d g) Q6 w = Q6 (pa_S3 a (w_log w) k d g) (w\<lparr>w_log := CS3 k d g (pa_S3 a (w_log w) k d g) # w_log w\<rparr>)"
  by (simp_all add: tracing_def wp_rules)

section \<open>The contract\<close>

text \<open>\<open>held s key\<close>: the identifiers registered for the key, a build's being \<^const>\<open>inflightID\<close> of its token; \<open>ok\<close>: the
  backend's invariant. Ensuring, reading, waiting and stamping never change what is registered; a
  start adds at most the build it is given; a release that reports one took out an entry, the one its
  token names when there is a token, and a release that reports none changed nothing.\<close>

locale provisioner_contract =
  fixes P :: "'s Provisioner" and ok :: "'s \<Rightarrow> bool" and held :: "'s \<Rightarrow> string \<Rightarrow> string list"
  assumes ensure_keeps: "ok s \<Longrightarrow> wp (pv_Ensure P spec u) (\<lambda>_ s'. ok s' \<and> held s' = held s) s"
    and ready_keeps: "ok s \<Longrightarrow> wp (pv_Ready P k) (\<lambda>_ s'. ok s' \<and> held s' = held s) s"
    and wait_keeps: "ok s \<Longrightarrow> wp (pv_WaitReady P k) (\<lambda>_ s'. ok s' \<and> held s' = held s) s"
    and endpoint_keeps: "ok s \<Longrightarrow> wp (pv_Endpoint P k) (\<lambda>_ s'. ok s' \<and> held s' = held s) s"
    and touch_keeps: "ok s \<Longrightarrow> wp (pv_Touch P k) (\<lambda>_ s'. ok s' \<and> held s' = held s) s"
    and repo_keeps: "ok s \<Longrightarrow> wp (pv_ProjectRepo P k) (\<lambda>_ s'. ok s' \<and> held s' = held s) s"
    and s3_keeps: "ok s \<Longrightarrow> wp (pv_S3CacheDecision P k d g) (\<lambda>_ s'. ok s' \<and> held s' = held s) s"
    and start_adds: "ok s \<Longrightarrow> wp (pv_StartInflight P k i) (\<lambda>_ s'. ok s' \<and> (\<forall>k'. k' \<noteq> k \<longrightarrow> held s' k' = held s k') \<and>
        mset (held s' k) \<subseteq># add_mset (inflightID i) (mset (held s k))) s"
    and end_exact: "ok s \<Longrightarrow> wp (pv_EndInflight P k i) (\<lambda>released s'. ok s' \<and> (\<forall>k'. k' \<noteq> k \<longrightarrow> held s' k' = held s k') \<and>
        (if released then mset (held s' k) \<subset># mset (held s k) \<and>
           (i \<noteq> [] \<longrightarrow> inflightID i \<in> set (held s k) \<and> mset (held s' k) \<subseteq># mset (held s k) - {#inflightID i#})
         else held s' = held s)) s"

text \<open>A backend whose bookkeeping cannot fail. \<open>has s key\<close>: the backend knows the project, which it does once it was
  ensured, the fork for an untrusted build. A start registers its build for a project it has, exactly it
  below the cap on the set of a project, and a release takes out exactly one entry unless there is none
  to take.\<close>

locale prompt_provisioner = provisioner_contract P ok held
  for P :: "'s Provisioner" and ok :: "'s \<Rightarrow> bool" and held :: "'s \<Rightarrow> string \<Rightarrow> string list" +
  fixes has :: "'s \<Rightarrow> string \<Rightarrow> bool"
  assumes ensure_makes: "ok s \<Longrightarrow> wp (pv_Ensure P spec u) (\<lambda>e s'. e = None \<longrightarrow> has s' (if u then forkKey (sp_Key spec) else sp_Key spec)) s"
    and start_registers: "ok s \<Longrightarrow> has s k \<Longrightarrow> wp (pv_StartInflight P k i) (\<lambda>_ s'. inflightID i \<in> set (held s' k) \<and>
        (length (held s k) < InflightCap \<longrightarrow> mset (held s' k) = add_mset (inflightID i) (mset (held s k)))) s"
    and end_finds: "ok s \<Longrightarrow> wp (pv_EndInflight P k i) (\<lambda>released s'.
        if released then \<exists>x \<in> set (held s k). (i \<noteq> [] \<longrightarrow> x = inflightID i) \<and> mset (held s' k) = mset (held s k) - {#x#}
        else if i = [] then held s k = [] else inflightID i \<notin> set (held s k)) s"

end
