(* ===== verification/Go_Path.thy ===== *)
theory Go_Path
  imports Go_Prelude
begin

text \<open>
  Go's \<open>path.Match\<close>, the shell-style patterns of the project defaults, on strings of single-byte
  characters (a \<open>?\<close> and a class of the library match one UTF-8 rune, which is one byte there).
  The functions follow the library's: a pattern is cut at its stars into chunks, a chunk is matched at one position, and after a failed
  match the rest of the pattern is still checked for syntax.

  \<open>pathMatch_error\<close>: whether a pattern is malformed does not depend on the name it is matched against.
\<close>

section \<open>Chunks\<close>

text \<open>\<open>getEsc\<close>: the next, possibly escaped character of a class; \<^const>\<open>None\<close> is \<open>ErrBadPattern\<close>.\<close>

fun getEsc :: "string \<Rightarrow> (char \<times> string) option" where
  "getEsc [] = None"
| "getEsc (c # cs) =
     (if c = CHR ''-'' \<or> c = CHR '']'' then None
      else if c = CHR 0x5C then
        (case cs of
           [] \<Rightarrow> None
         | d # ds \<Rightarrow> if ds = [] then None else Some (d, ds))
      else if cs = [] then None
      else Some (c, cs))"

lemma getEsc_shorter: "getEsc cs = Some (d, rest) \<Longrightarrow> length rest < length cs \<and> rest \<noteq> []"
  by (cases cs) (auto split: if_splits list.splits)

text \<open>The ranges of a class up to its closing bracket: the rest of the chunk and whether \<open>r\<close> lies in one.\<close>

function classRanges :: "string \<Rightarrow> char \<Rightarrow> nat \<Rightarrow> bool \<Rightarrow> (string \<times> bool) option" where
  "classRanges chunk r nrange matched =
     (if chunk \<noteq> [] \<and> hd chunk = CHR '']'' \<and> nrange > 0 then Some (tl chunk, matched)
      else
        (case getEsc chunk of
           None \<Rightarrow> None
         | Some (lo, chunk1) \<Rightarrow>
             (case (if hd chunk1 = CHR ''-'' then getEsc (tl chunk1) else Some (lo, chunk1)) of
                None \<Rightarrow> None
              | Some (hi, chunk2) \<Rightarrow>
                  classRanges chunk2 r (Suc nrange) (matched \<or> (of_char lo \<le> (of_char r :: nat) \<and> of_char r \<le> (of_char hi :: nat))))))"
  by auto

termination
  by (relation "measure (\<lambda>(c, _). length c)") (auto split: if_splits dest!: getEsc_shorter)

declare classRanges.simps [simp del]

text \<open>\<open>matchChunk\<close>: \<^const>\<open>None\<close> is a malformed chunk, \<open>Some None\<close> no match, \<open>Some (Some rest)\<close> the unmatched rest
  of the name.\<close>

lemma classRanges_shorter: "classRanges chunk r n m = Some (rest, b) \<Longrightarrow> length rest < length chunk"
proof (induction chunk r n m rule: classRanges.induct)
  case (1 chunk r n m)
  show ?case
  proof (cases "chunk \<noteq> [] \<and> hd chunk = CHR '']'' \<and> n > 0")
    case True
    then show ?thesis using "1.prems" by (cases chunk) (auto simp: classRanges.simps)
  next
    case False
    then show ?thesis using "1.prems" "1.IH" [OF False]
      by (subst (asm) classRanges.simps) (fastforce split: option.splits prod.splits if_splits dest!: getEsc_shorter)
  qed
qed

function matchChunk :: "string \<Rightarrow> string \<Rightarrow> bool \<Rightarrow> string option option" where
  "matchChunk [] s failed = Some (if failed then None else Some s)"
| "matchChunk (c # cs) s failed0 =
     (let failed = (failed0 \<or> s = []) in
      if c = CHR ''['' then
        (let r = (if failed then CHR 0x00 else hd s);
             s' = (if failed then s else tl s);
             negated = (cs \<noteq> [] \<and> hd cs = CHR 0x5E);
             body = (if negated then tl cs else cs)
         in case classRanges body r 0 False of
              None \<Rightarrow> None
            | Some (rest, matched) \<Rightarrow> matchChunk rest s' (failed \<or> matched = negated))
      else if c = CHR ''?'' then
        matchChunk cs (if failed then s else tl s) (failed \<or> hd s = CHR ''/'')
      else if c = CHR 0x5C then
        (case cs of
           [] \<Rightarrow> None
         | d # ds \<Rightarrow> matchChunk ds (if failed then s else tl s) (failed \<or> d \<noteq> hd s))
      else matchChunk cs (if failed then s else tl s) (failed \<or> c \<noteq> hd s))"
  by pat_completeness auto

termination
  by (relation "measure (\<lambda>(c, _). length c)") (auto split: if_splits dest!: classRanges_shorter)

declare matchChunk.simps(2) [simp del]

section \<open>Patterns\<close>

text \<open>\<open>scanChunk\<close>: whether the pattern starts with stars, the chunk after them, and the rest from the next star
  outside a class.\<close>

fun scanTo :: "string \<Rightarrow> bool \<Rightarrow> string \<times> string" where
  "scanTo [] inrange = ([], [])"
| "scanTo (c # cs) inrange =
     (if c = CHR 0x5C then
        (case cs of
           [] \<Rightarrow> ([c], [])
         | d # ds \<Rightarrow> (case scanTo ds inrange of (a, b) \<Rightarrow> (c # d # a, b)))
      else if c = CHR ''*'' \<and> \<not> inrange then ([], c # cs)
      else (case scanTo cs (if c = CHR ''['' then True else if c = CHR '']'' then False else inrange) of (a, b) \<Rightarrow> (c # a, b)))"

definition scanChunk :: "string \<Rightarrow> bool \<times> string \<times> string" where
  "scanChunk pattern =
     (let body = dropWhile (\<lambda>c. c = CHR ''*'') pattern;
          (chunk, rest) = scanTo body False
      in (pattern \<noteq> [] \<and> hd pattern = CHR ''*'', chunk, rest))"

lemma scanTo_length: "scanTo p i = (a, b) \<Longrightarrow> length p = length a + length b"
  by (induction p i arbitrary: a b rule: scanTo.induct) (auto split: if_splits list.splits prod.splits)

lemma scanTo_progress: "scanTo p False = (a, b) \<Longrightarrow> p \<noteq> [] \<Longrightarrow> hd p \<noteq> CHR ''*'' \<Longrightarrow> length b < length p"
  by (cases p) (auto split: if_splits list.splits prod.splits dest!: scanTo_length)

lemma scanChunk_shorter:
  assumes "scanChunk pattern = (star, chunk, rest)" "pattern \<noteq> []"
  shows "length rest < length pattern"
proof -
  let ?body = "dropWhile (\<lambda>c. c = CHR ''*'') pattern"
  have s: "scanTo ?body False = (chunk, rest)" using assms(1) by (simp add: scanChunk_def Let_def split: prod.splits)
  have le: "length ?body \<le> length pattern" by (rule length_dropWhile_le)
  show ?thesis
  proof (cases "?body = []")
    case True
    have "rest = []" using s unfolding True by simp
    then show ?thesis using assms(2) by simp
  next
    case False
    then show ?thesis using scanTo_progress [OF s] hd_dropWhile [OF False] le by simp
  qed
qed

text \<open>The rest of the pattern after a failed match: only its syntax counts.\<close>

function checkRest :: "string \<Rightarrow> bool" where
  "checkRest pattern =
     (if pattern = [] then True
      else case scanChunk pattern of (_, chunk, rest) \<Rightarrow> matchChunk chunk [] False \<noteq> None \<and> checkRest rest)"
  by auto

termination
  by (relation "measure length") (auto dest: scanChunk_shorter [OF sym])

declare checkRest.simps [simp del]

text \<open>The loop that skips characters under a star: \<open>Some (Some t)\<close> is the rest of the name after a match.\<close>

fun skipMatch :: "string \<Rightarrow> string \<Rightarrow> bool \<Rightarrow> string option option" where
  "skipMatch chunk [] more = Some None"
| "skipMatch chunk (n # ns) more =
     (if n = CHR ''/'' then Some None
      else
        (case matchChunk chunk ns False of
           None \<Rightarrow> None
         | Some None \<Rightarrow> skipMatch chunk ns more
         | Some (Some t) \<Rightarrow> if \<not> more \<and> t \<noteq> [] then skipMatch chunk ns more else Some (Some t)))"

text \<open>\<open>path.Match\<close>: \<^const>\<open>None\<close> is \<open>ErrBadPattern\<close>.\<close>

function pathMatch :: "string \<Rightarrow> string \<Rightarrow> bool option" where
  "pathMatch pattern name =
     (if pattern = [] then Some (name = [])
      else
        (case scanChunk pattern of
           (star, chunk, rest) \<Rightarrow>
             if star \<and> chunk = [] then Some (CHR ''/'' \<notin> set name)
             else
               (case matchChunk chunk name False of
                  None \<Rightarrow> None
                | Some m \<Rightarrow>
                    if (case m of Some t \<Rightarrow> t = [] \<or> rest \<noteq> [] | None \<Rightarrow> False) then pathMatch rest (the m)
                    else if star then
                      (case skipMatch chunk name (rest \<noteq> []) of
                         None \<Rightarrow> None
                       | Some (Some t) \<Rightarrow> pathMatch rest t
                       | Some None \<Rightarrow> if checkRest rest then Some False else None)
                    else if checkRest rest then Some False else None)))"
  by auto

termination
  by (relation "measure (\<lambda>(p, _). length p)") (auto dest: scanChunk_shorter [OF sym])

declare pathMatch.simps [simp del]

section \<open>Errors are those of the pattern\<close>

lemma classRanges_error: "classRanges chunk r n m = None \<longleftrightarrow> classRanges chunk r' n m' = None"
proof (induction chunk r n m arbitrary: m' rule: classRanges.induct)
  case (1 chunk r n m)
  then show ?case by (subst (1 2) classRanges.simps) (auto split: option.split if_splits)
qed

lemma classRanges_rest:
  "classRanges chunk r n m = Some (rest, b) \<Longrightarrow> \<exists>b'. classRanges chunk r' n m' = Some (rest, b')"
proof (induction chunk r n m arbitrary: m' rule: classRanges.induct)
  case (1 chunk r n m)
  show ?case
  proof (cases "chunk \<noteq> [] \<and> hd chunk = CHR '']'' \<and> n > 0")
    case True
    then show ?thesis using "1.prems" by (simp add: classRanges.simps)
  next
    case False
    show ?thesis using "1.prems" "1.IH" [OF False]
      by (subst (asm) classRanges.simps, subst classRanges.simps) (auto split: option.splits prod.splits if_splits)
  qed
qed

lemma matchChunk_any:
  "c = CHR ''?'' \<Longrightarrow> matchChunk (c # cs) s f =
     matchChunk cs (if f \<or> s = [] then s else tl s) ((f \<or> s = []) \<or> hd s = CHR ''/'')"
  by (simp add: matchChunk.simps(2) Let_def)

lemma matchChunk_esc:
  "c = CHR 0x5C \<Longrightarrow> matchChunk (c # d # ds) s f =
     matchChunk ds (if f \<or> s = [] then s else tl s) ((f \<or> s = []) \<or> d \<noteq> hd s)"
  by (simp add: matchChunk.simps(2) Let_def)

lemma matchChunk_lit:
  "c \<noteq> CHR ''['' \<Longrightarrow> c \<noteq> CHR ''?'' \<Longrightarrow> c \<noteq> CHR 0x5C \<Longrightarrow> matchChunk (c # cs) s f =
     matchChunk cs (if f \<or> s = [] then s else tl s) ((f \<or> s = []) \<or> c \<noteq> hd s)"
  by (simp add: matchChunk.simps(2) Let_def)

lemma matchChunk_error: "matchChunk chunk s f = None \<longleftrightarrow> matchChunk chunk s' f' = None"
proof (induction chunk s f arbitrary: s' f' rule: matchChunk.induct)
  case (2 c cs s failed0)
  let ?f = "failed0 \<or> s = []" and ?f' = "f' \<or> s' = []"
  show ?case
  proof (cases "c = CHR ''[''")
    case True
    let ?body = "if cs \<noteq> [] \<and> hd cs = CHR 0x5E then tl cs else cs"
    let ?r = "if ?f then CHR 0x00 else hd s" and ?r' = "if ?f' then CHR 0x00 else hd s'"
    show ?thesis
    proof (cases "classRanges ?body ?r 0 False")
      case None
      then have "classRanges ?body ?r' 0 False = None" using classRanges_error by blast
      with None True show ?thesis by (simp add: matchChunk.simps(2) Let_def)
    next
      case (Some x)
      obtain rest b where x: "x = (rest, b)" by force
      obtain b' where b': "classRanges ?body ?r' 0 False = Some (rest, b')" using classRanges_rest Some x by blast
      note IH = "2.IH"(1) [OF refl True refl refl refl refl Some x [symmetric]]
      show ?thesis using True Some x b' IH by (simp add: matchChunk.simps(2) Let_def)
    qed
  next
    case False
    consider "c = CHR ''?''" | "c \<noteq> CHR ''?''" "c = CHR 0x5C" | "c \<noteq> CHR ''?''" "c \<noteq> CHR 0x5C" by blast
    then show ?thesis
    proof cases
      case 1
      show ?thesis unfolding matchChunk_any [OF 1] by (rule "2.IH"(2) [OF refl False 1])
    next
      case 2
      show ?thesis
      proof (cases cs)
        case Nil
        then show ?thesis using False 2 by (simp add: matchChunk.simps(2) Let_def)
      next
        case (Cons d ds)
        show ?thesis unfolding Cons matchChunk_esc [OF 2(2)] by (rule "2.IH"(3) [OF refl False 2 Cons])
      qed
    next
      case 3
      show ?thesis unfolding matchChunk_lit [OF False 3] by (rule "2.IH"(4) [OF refl False 3])
    qed
  qed
qed simp

lemma skipMatch_error: "matchChunk chunk s f \<noteq> None \<Longrightarrow> skipMatch chunk name more \<noteq> None"
proof (induction chunk name more rule: skipMatch.induct)
  case (2 chunk n ns more)
  then obtain m where "matchChunk chunk ns False = Some m" using matchChunk_error [of chunk s f ns False] by auto
  then show ?case using 2 by (cases m) auto
qed simp

theorem pathMatch_error: "pathMatch pattern name = None \<longleftrightarrow> \<not> checkRest pattern"
proof (induction pattern name rule: pathMatch.induct)
  case (1 pattern name)
  show ?case
  proof (cases "pattern = []")
    case True
    then show ?thesis by (simp add: pathMatch.simps checkRest.simps)
  next
    case ne: False
    obtain star chunk rest where sc: "scanChunk pattern = (star, chunk, rest)" by (metis prod_cases3)
    show ?thesis
    proof (cases "star \<and> chunk = []")
      case True
      have "rest = []"
      proof (rule ccontr)
        assume "rest \<noteq> []"
        define body where "body = dropWhile (\<lambda>c. c = CHR ''*'') pattern"
        have s: "scanTo body False = ([], rest)"
          using sc True by (simp add: body_def scanChunk_def Let_def split: prod.splits)
        with \<open>rest \<noteq> []\<close> have b: "body \<noteq> []" by (cases body) simp_all
        show False using scanTo_length [OF s] scanTo_progress [OF s b] hd_dropWhile [OF b [unfolded body_def]] by (simp add: body_def)
      qed
      with True show ?thesis using ne sc by (simp add: pathMatch.simps [of pattern] checkRest.simps [of pattern] checkRest.simps [of "[]"])
    next
      case False
      have cr: "checkRest pattern \<longleftrightarrow> matchChunk chunk [] False \<noteq> None \<and> checkRest rest"
        using ne sc by (simp add: checkRest.simps [of pattern])
      show ?thesis
      proof (cases "matchChunk chunk name False")
        case None
        then show ?thesis using ne sc False cr matchChunk_error [of chunk name False "[]" False] by (simp add: pathMatch.simps [of pattern])
      next
        case (Some m)
        then have ok: "matchChunk chunk [] False \<noteq> None" using matchChunk_error [of chunk name False "[]" False] by simp
        note IH = "1.IH" [OF ne sc [symmetric] refl False Some]
        have sk: "skipMatch chunk name (rest \<noteq> []) \<noteq> None" by (rule skipMatch_error [OF ok])
        show ?thesis using ne sc False Some cr ok sk IH
          by (auto simp: pathMatch.simps [of pattern] split: option.split)
      qed
    qed
  qed
qed

end
