(* ===== verification/Project_Defaults.thy ===== *)
theory Project_Defaults
  imports Api_Types Go_Path
begin

text \<open>
  \<open>internal/projectdefaults/projectdefaults.go\<close>: the operator's rules that seed the spec of a project when it
  is first routed. Reading the file and unmarshalling it (\<open>os.ReadFile\<close>, \<open>sigs.k8s.io/yaml\<close>) are
  parameters of \<open>loadDefaults\<close>; a nil configuration is \<^const>\<open>None\<close>.
\<close>

record Rule =
  ru_Repo :: string
  ru_Name :: string
  ru_Arch :: string
  ru_Tier :: string
  ru_IdleTimeoutSec :: int
  ru_CacheVolumeGi :: int
  ru_S3Cache :: string

definition zeroRule :: Rule where
  "zeroRule = \<lparr>ru_Repo = [], ru_Name = [], ru_Arch = [], ru_Tier = [], ru_IdleTimeoutSec = 0, ru_CacheVolumeGi = 0, ru_S3Cache = []\<rparr>"

datatype LoadError = ReadFailed string | ParseFailed string | BadNamePattern nat | BadArch nat | BadTier nat | BadS3Cache nat | NegativeSize nat

section \<open>Load\<close>

definition validateRule :: "nat \<Rightarrow> Rule \<Rightarrow> LoadError option" where
  "validateRule i r =
     (if ru_Name r \<noteq> [] \<and> pathMatch (ru_Name r) ''probe'' = None then Some (BadNamePattern i)
      else if ru_Arch r \<noteq> [] \<and> ru_Arch r \<noteq> ''amd64'' \<and> ru_Arch r \<noteq> ''arm64'' then Some (BadArch i)
      else if ru_Tier r \<noteq> [] \<and> ru_Tier r \<noteq> TierHot \<and> ru_Tier r \<noteq> TierWarm then Some (BadTier i)
      else if ru_S3Cache r \<noteq> [] \<and> ru_S3Cache r \<noteq> S3CacheCadence \<and> ru_S3Cache r \<noteq> S3CacheAlways \<and> ru_S3Cache r \<noteq> S3CacheNever then Some (BadS3Cache i)
      else if ru_IdleTimeoutSec r < 0 \<or> ru_CacheVolumeGi r < 0 then Some (NegativeSize i)
      else None)"

fun validateRules :: "nat \<Rightarrow> Rule list \<Rightarrow> LoadError option" where
  "validateRules i [] = None"
| "validateRules i (r # rs) = (case validateRule i r of Some e \<Rightarrow> Some e | None \<Rightarrow> validateRules (Suc i) rs)"

definition loadDefaults :: "(string \<Rightarrow> string + string) \<Rightarrow> (string \<Rightarrow> string + Rule list) \<Rightarrow> string \<Rightarrow> LoadError + Rule list option" where
  "loadDefaults readFile unmarshal configPath =
     (if configPath = [] then Inr None
      else
        (case readFile configPath of
           Inl e \<Rightarrow> Inl (ReadFailed e)
         | Inr b \<Rightarrow>
             (case unmarshal b of
                Inl e \<Rightarrow> Inl (ParseFailed e)
              | Inr rules \<Rightarrow>
                  (case validateRules 0 rules of
                     Some e \<Rightarrow> Inl e
                   | None \<Rightarrow> Inr (Some rules)))))"

section \<open>Apply\<close>

definition matchPattern :: "string \<Rightarrow> string \<Rightarrow> bool" where
  "matchPattern pattern value = (if pattern = [] then True else pathMatch pattern value = Some True)"

definition matchRepo :: "string \<Rightarrow> string \<Rightarrow> bool" where
  "matchRepo pattern repo =
     (if pattern = [] \<or> pattern = ''*'' then True
      else
        (case cutSuffix pattern ''/*'' of
           (pfx, True) \<Rightarrow> repo = pfx \<or> hasPrefix repo (pfx @ ''/'')
         | (_, False) \<Rightarrow> repo = pattern))"

definition ruleMatches :: "Rule \<Rightarrow> BuildProjectSpec \<Rightarrow> bool" where
  "ruleMatches r spec \<longleftrightarrow>
     matchRepo (ru_Repo r) (sp_Repo spec) \<and> matchPattern (ru_Name r) (sp_Name spec) \<and>
     \<not> (ru_Arch r \<noteq> [] \<and> ru_Arch r \<noteq> sp_Arch spec)"

definition seedSpec :: "Rule \<Rightarrow> BuildProjectSpec \<Rightarrow> BuildProjectSpec" where
  "seedSpec r spec = spec\<lparr>
     sp_Tier := (if ru_Tier r \<noteq> [] then ru_Tier r else sp_Tier spec),
     sp_IdleTimeoutSec := (if ru_IdleTimeoutSec r > 0 then ru_IdleTimeoutSec r else sp_IdleTimeoutSec spec),
     sp_CacheVolumeGi := (if ru_CacheVolumeGi r > 0 then ru_CacheVolumeGi r else sp_CacheVolumeGi spec),
     sp_S3CachePolicy := (if ru_S3Cache r \<noteq> [] then ru_S3Cache r else sp_S3CachePolicy spec)\<rparr>"

fun applyRules :: "Rule list \<Rightarrow> BuildProjectSpec \<Rightarrow> BuildProjectSpec" where
  "applyRules [] spec = spec"
| "applyRules (r # rs) spec = (if ruleMatches r spec then seedSpec r spec else applyRules rs spec)"

definition applyProjectDefaults :: "Rule list option \<Rightarrow> BuildProjectSpec \<Rightarrow> BuildProjectSpec" where
  "applyProjectDefaults c spec = (case c of None \<Rightarrow> spec | Some rules \<Rightarrow> applyRules rules spec)"

section \<open>Facts\<close>

lemma validateRules_nth: "validateRules i rs = None \<longleftrightarrow> (\<forall>k < length rs. validateRule (i + k) (rs ! k) = None)"
proof (induction rs arbitrary: i)
  case (Cons r rs)
  have "(\<forall>k < length (r # rs). validateRule (i + k) ((r # rs) ! k) = None) \<longleftrightarrow>
    validateRule i r = None \<and> (\<forall>k < length rs. validateRule (Suc i + k) (rs ! k) = None)"
    by (auto simp: less_Suc_eq_0_disj)
  then show ?case using Cons.IH [of "Suc i"] by (simp split: option.split)
qed simp

text \<open>Seeding touches the four seeded fields only, and never the identity of the project.\<close>

lemma applyRules_identity:
  "sp_Key (applyRules rs s) = sp_Key s" "sp_Repo (applyRules rs s) = sp_Repo s" "sp_Name (applyRules rs s) = sp_Name s"
  "sp_Target (applyRules rs s) = sp_Target s" "sp_Arch (applyRules rs s) = sp_Arch s"
  by (induction rs) (simp_all add: seedSpec_def)

lemma applyProjectDefaults_identity [simp]:
  "sp_Key (applyProjectDefaults c s) = sp_Key s" "sp_Repo (applyProjectDefaults c s) = sp_Repo s"
  "sp_Name (applyProjectDefaults c s) = sp_Name s" "sp_Target (applyProjectDefaults c s) = sp_Target s"
  "sp_Arch (applyProjectDefaults c s) = sp_Arch s"
  by (simp_all add: applyProjectDefaults_def applyRules_identity split: option.split)

text \<open>C37: \<^bold>\<open>A loaded rule file is well formed.\<close> When \<open>Load\<close> accepts a file, no later match of a rule's name pattern
  can fail with a bad pattern, whatever name it is matched against, although only the name \<open>probe\<close>
  was tried; and whatever spec the rules are applied to, the values they seed are those the resource
  admits.\<close>

theorem loaded_rules_valid:
  assumes "loadDefaults readFile unmarshal path = Inr (Some rules)" "r \<in> set rules"
  shows "(ru_Name r = [] \<or> (\<exists>b. pathMatch (ru_Name r) value = Some b)) \<and>
    ru_Arch r \<in> {[], ''amd64'', ''arm64''} \<and> ru_Tier r \<in> {[], TierHot, TierWarm} \<and>
    ru_S3Cache r \<in> {[], S3CacheCadence, S3CacheAlways, S3CacheNever} \<and> 0 \<le> ru_IdleTimeoutSec r \<and> 0 \<le> ru_CacheVolumeGi r"
proof -
  have "validateRules 0 rules = None"
    using assms(1) by (auto simp: loadDefaults_def split: if_splits sum.splits option.splits)
  then obtain i where v: "validateRule i r = None" using assms(2) by (auto simp: validateRules_nth in_set_conv_nth)
  then have "ru_Name r = [] \<or> pathMatch (ru_Name r) ''probe'' \<noteq> None" by (auto simp: validateRule_def split: if_splits)
  then have "ru_Name r = [] \<or> (\<exists>b. pathMatch (ru_Name r) value = Some b)" using pathMatch_error by (metis option.exhaust)
  then show ?thesis using v by (auto simp: validateRule_def split: if_splits)
qed

theorem loaded_rules_valid_witness:
  "\<exists>b. pathMatch ''iterion-*'' ''iterion-sandbox'' = Some b"
proof -
  let ?r = "zeroRule\<lparr>ru_Name := ''iterion-*''\<rparr>"
  have "checkRest ''iterion-*''" by code_simp
  then have "pathMatch ''iterion-*'' ''probe'' \<noteq> None" using pathMatch_error by blast
  then have "loadDefaults (\<lambda>_. Inr []) (\<lambda>_. Inr [?r]) ''f'' = Inr (Some [?r])"
    by (auto simp: loadDefaults_def validateRule_def zeroRule_def)
  from loaded_rules_valid [OF this, of ?r "''iterion-sandbox''"] show ?thesis by (simp add: zeroRule_def)
qed

end
