(* ===== verification/Identity.thy ===== *)
theory Identity
  imports Project_Defaults
begin

text \<open>
  \<open>internal/identity\<close>: from a CI token to a verified repository. The OpenID Connect library, the JSON decoder
  and \<open>url.Parse\<close> are the parameter record \<open>OidcLib\<close>; reading configuration files and the environment is
  the parameter of \<open>loadConfig\<close>. A \<open>map[string]any\<close> of claims is a finite function to \<open>Claim\<close>.

  \<open>verify_bound\<close>: a verified identity is what a signature check against a configured issuer and audience
  vouches for. \<open>allowlist_segments\<close>: a wildcard entry of the allowlist admits whole path segments only.
  \<open>defaults_mirror_allowlist\<close> compares the patterns of the allowlist and of the project defaults.
\<close>

section \<open>Configuration\<close>

record Identity =
  id_Issuer :: string
  id_Repo :: string
  id_Untrusted :: bool

record Provider =
  pr_Type :: string
  pr_Issuer :: string
  pr_Audience :: string
  pr_RepoClaim :: string
  pr_Host :: string
  pr_StrictUnprotectedRefs :: bool

record OidcConfig =
  oc_Providers :: "Provider list"
  oc_RepoAllowlist :: "string list"
  oc_Disable :: bool

datatype Claim = ClaimString string | ClaimBool bool | ClaimNil | ClaimOther string

type_synonym claims = "string \<Rightarrow> Claim"

text \<open>\<open>ClaimOther\<close> carries the rendering of any other JSON value by \<open>fmt\<close>; a missing claim is \<open>ClaimNil\<close>.\<close>

fun asString :: "Claim \<Rightarrow> string" where
  "asString (ClaimString s) = s"
| "asString (ClaimBool b) = (if b then ''true'' else ''false'')"
| "asString ClaimNil = []"
| "asString (ClaimOther s) = s"

text \<open>The libraries: discovery for an issuer and audience, verification of a raw token, decoding of the verified
  token's claims, the \<open>iss\<close> member of a JSON payload (\<^const>\<open>None\<close>: not JSON) and the host of a URL
  (\<^const>\<open>None\<close>: no URL or no host).\<close>

record ('v, 't) OidcLib =
  ol_newProvider :: "string \<Rightarrow> string \<Rightarrow> string + 'v"
  ol_verify :: "'v \<Rightarrow> string \<Rightarrow> string + 't"
  ol_claims :: "'t \<Rightarrow> string + claims"
  ol_jsonIss :: "string \<Rightarrow> string option"
  ol_urlHost :: "string \<Rightarrow> string option"

record claimMapper =
  cm_repoClaim :: string
  cm_host :: string
  cm_untrusted :: "claims \<Rightarrow> bool"

definition orDefault :: "string \<Rightarrow> string \<Rightarrow> string" where
  "orDefault v d = (if v = [] then d else v)"

definition hostFromIssuer :: "('v, 't) OidcLib \<Rightarrow> string \<Rightarrow> string" where
  "hostFromIssuer lib issuer = (case ol_urlHost lib issuer of None \<Rightarrow> trimRight issuer CHR ''/'' | Some h \<Rightarrow> h)"

definition pullRef :: "claims \<Rightarrow> bool" where
  "pullRef c = hasPrefix (asString (c ''ref'')) ''refs/pull/''"

datatype ConfigError = UnknownType string string | NeedsIssuerAndAudience string string | DuplicateIssuer string

definition builtin :: "('v, 't) OidcLib \<Rightarrow> Provider \<Rightarrow> ConfigError + claimMapper" where
  "builtin lib p =
     (let host = (if pr_Host p = [] then hostFromIssuer lib (pr_Issuer p) else pr_Host p);
          t = toLower (pr_Type p)
      in if t = ''github'' then
           Inr \<lparr>cm_repoClaim = orDefault (pr_RepoClaim p) ''repository'', cm_host = (if pr_Host p = [] then ''github.com'' else host), cm_untrusted = pullRef\<rparr>
         else if t = ''gitlab'' then
           Inr \<lparr>cm_repoClaim = orDefault (pr_RepoClaim p) ''project_path'', cm_host = host,
                cm_untrusted = (\<lambda>c. pr_StrictUnprotectedRefs p \<and> asString (c ''ref_protected'') = ''false'')\<rparr>
         else if t = ''forgejo'' \<or> t = ''gitea'' then
           Inr \<lparr>cm_repoClaim = orDefault (pr_RepoClaim p) ''repository'', cm_host = host, cm_untrusted = pullRef\<rparr>
         else if pr_RepoClaim p = [] \<or> host = [] then Inl (UnknownType (pr_Issuer p) (pr_Type p))
         else Inr \<lparr>cm_repoClaim = pr_RepoClaim p, cm_host = host, cm_untrusted = (\<lambda>_. False)\<rparr>)"

definition normalizeEntry :: "string \<Rightarrow> string option" where
  "normalizeEntry e0 =
     (let e = trimSpace e0 in
      if e = [] then None
      else if e = ''*'' then Some ''*''
      else case cutSuffix e ''/*'' of
             (pfx, True) \<Rightarrow> Some (normalizeRepo pfx @ ''/*'')
           | (_, False) \<Rightarrow> Some (normalizeRepo e))"

definition normalizeAllowlist :: "string list \<Rightarrow> string list" where
  "normalizeAllowlist es = List.map_filter normalizeEntry es"

record Verifier =
  vr_byIssuer :: "(string \<times> Provider \<times> claimMapper) list"
  vr_allowlist :: "string list"

fun addProviders :: "('v, 't) OidcLib \<Rightarrow> Provider list \<Rightarrow> (string \<times> Provider \<times> claimMapper) list \<Rightarrow> ConfigError + (string \<times> Provider \<times> claimMapper) list" where
  "addProviders lib [] acc = Inr acc"
| "addProviders lib (p # ps) acc =
     (if pr_Issuer p = [] \<or> pr_Audience p = [] then Inl (NeedsIssuerAndAudience (pr_Issuer p) (pr_Audience p))
      else case builtin lib p of
             Inl e \<Rightarrow> Inl e
           | Inr m \<Rightarrow>
               let iss = trimRight (pr_Issuer p) CHR ''/'' in
               if map_of acc iss \<noteq> None then Inl (DuplicateIssuer iss)
               else addProviders lib ps ((iss, p, m) # acc))"

definition newVerifier :: "('v, 't) OidcLib \<Rightarrow> OidcConfig \<Rightarrow> ConfigError + Verifier option" where
  "newVerifier lib cfg =
     (if oc_Disable cfg \<or> oc_Providers cfg = [] then Inr None
      else case addProviders lib (oc_Providers cfg) [] of
             Inl e \<Rightarrow> Inl e
           | Inr m \<Rightarrow> Inr (Some \<lparr>vr_byIssuer = m, vr_allowlist = normalizeAllowlist (oc_RepoAllowlist cfg)\<rparr>))"

text \<open>\<open>LoadConfig\<close>: a decoded file as the base, the environment on top. \<open>file\<close> is the decoded file (or its error)
  when a path is set; the environment variables are strings, unset or empty being \<open>[]\<close>.\<close>

definition fieldsOn :: "(char \<Rightarrow> bool) \<Rightarrow> string \<Rightarrow> string list" where
  "fieldsOn sep s = filter (\<lambda>f. f \<noteq> []) (splitByte CHR '','' (map (\<lambda>c. if sep c then CHR '','' else c) s))"

definition loadConfig :: "(string \<Rightarrow> string + OidcConfig) \<Rightarrow> (string \<Rightarrow> string + Provider list) \<Rightarrow> string \<Rightarrow> string \<Rightarrow> string \<Rightarrow> string \<Rightarrow> string + OidcConfig" where
  "loadConfig file yamlProviders path envProviders envAllowlist envDisable =
     (case (if path = [] then Inr \<lparr>oc_Providers = [], oc_RepoAllowlist = [], oc_Disable = False\<rparr> else file path) of
        Inl e \<Rightarrow> Inl e
      | Inr cfg \<Rightarrow>
          let v = trimSpace envProviders in
          (case (if v \<noteq> [] then (case yamlProviders v of Inl e \<Rightarrow> Inl e | Inr ps \<Rightarrow> Inr (cfg\<lparr>oc_Providers := ps\<rparr>)) else Inr cfg) of
             Inl e \<Rightarrow> Inl e
           | Inr cfg \<Rightarrow>
               let a = trimSpace envAllowlist;
                   cfg = (if a \<noteq> [] then cfg\<lparr>oc_RepoAllowlist := fieldsOn (\<lambda>c. c = CHR '','' \<or> c = CHR '' '' \<or> c = CHR 0x0A) a\<rparr> else cfg);
                   d = trimSpace envDisable;
                   cfg = (if d \<noteq> [] then cfg\<lparr>oc_Disable := (d = ''true'' \<or> d = ''1'' \<or> d = ''yes'')\<rparr> else cfg)
               in Inr cfg))"

section \<open>Verification\<close>

text \<open>\<open>base64.RawURLEncoding\<close>: newlines are skipped; a tail of one character is an error, one of two or three
  gives one or two bytes, their spare bits ignored.\<close>

definition base64Alphabet :: string where
  "base64Alphabet = upperLetters @ lowerLetters @ digitChars @ ''-_''"

definition base64Value :: "char \<Rightarrow> nat option" where
  "base64Value c = map_of (zip base64Alphabet [0..<64]) c"

fun base64Groups :: "nat list \<Rightarrow> string option" where
  "base64Groups [] = Some []"
| "base64Groups [a] = None"
| "base64Groups [a, b] = Some [char_of (a * 4 + b div 16)]"
| "base64Groups [a, b, c] = Some [char_of (a * 4 + b div 16), char_of (b mod 16 * 16 + c div 4)]"
| "base64Groups (a # b # c # d # rest) =
     map_option (\<lambda>s. char_of (a * 4 + b div 16) # char_of (b mod 16 * 16 + c div 4) # char_of (c mod 4 * 64 + d) # s) (base64Groups rest)"

definition base64Decode :: "string \<Rightarrow> string option" where
  "base64Decode s = Option.bind (those (map base64Value (filter (\<lambda>c. c \<noteq> CHR 0x0A \<and> c \<noteq> CHR 0x0D) s))) base64Groups"

datatype VerifyError = EmptyToken | NotJWT | BadBase64 | BadJSON | NoIss | UntrustedIssuer | DiscoveryFailed string
  | TokenRefused string | ClaimsFailed string | NoRepoClaim string

definition unverifiedIssuer :: "('v, 't) OidcLib \<Rightarrow> string \<Rightarrow> VerifyError + string" where
  "unverifiedIssuer lib rawToken =
     (case splitByte CHR ''.'' rawToken of
        [_, payload, _] \<Rightarrow>
          (case base64Decode payload of
             None \<Rightarrow> Inl BadBase64
           | Some p \<Rightarrow>
               (case ol_jsonIss lib p of
                  None \<Rightarrow> Inl BadJSON
                | Some iss \<Rightarrow> if iss = [] then Inl NoIss else Inr iss))
      | _ \<Rightarrow> Inl NotJWT)"

text \<open>The lazily created verifiers, by issuer: a failed discovery is not remembered.\<close>

definition providerVerifier :: "('v, 't) OidcLib \<Rightarrow> (string \<rightharpoonup> 'v) \<Rightarrow> string \<Rightarrow> Provider \<Rightarrow> (VerifyError + 'v) \<times> (string \<rightharpoonup> 'v)" where
  "providerVerifier lib cache iss p =
     (case cache iss of
        Some v \<Rightarrow> (Inr v, cache)
      | None \<Rightarrow>
          (case ol_newProvider lib (pr_Issuer p) (pr_Audience p) of
             Inl e \<Rightarrow> (Inl (DiscoveryFailed e), cache)
           | Inr v \<Rightarrow> (Inr v, cache(iss \<mapsto> v))))"

definition verifyClaims :: "('v, 't) OidcLib \<Rightarrow> string \<Rightarrow> claimMapper \<Rightarrow> 'v \<Rightarrow> string \<Rightarrow> VerifyError + Identity" where
  "verifyClaims lib iss m ver rawToken =
     (case ol_verify lib ver rawToken of
        Inl e \<Rightarrow> Inl (TokenRefused e)
      | Inr tok \<Rightarrow>
          (case ol_claims lib tok of
             Inl e \<Rightarrow> Inl (ClaimsFailed e)
           | Inr claims \<Rightarrow>
               let repoPath = asString (claims (cm_repoClaim m)) in
               if repoPath = [] then Inl (NoRepoClaim (cm_repoClaim m))
               else Inr \<lparr>id_Issuer = iss, id_Repo = normalizeRepo (cm_host m @ ''/'' @ repoPath), id_Untrusted = cm_untrusted m claims\<rparr>))"

definition Verify :: "('v, 't) OidcLib \<Rightarrow> Verifier \<Rightarrow> (string \<rightharpoonup> 'v) \<Rightarrow> string \<Rightarrow> (VerifyError + Identity) \<times> (string \<rightharpoonup> 'v)" where
  "Verify lib v cache rawToken0 =
     (let rawToken = trimSpace rawToken0 in
      if rawToken = [] then (Inl EmptyToken, cache)
      else case unverifiedIssuer lib rawToken of
             Inl e \<Rightarrow> (Inl e, cache)
           | Inr iss \<Rightarrow>
               let k = trimRight iss CHR ''/'' in
               (case map_of (vr_byIssuer v) k of
                  None \<Rightarrow> (Inl UntrustedIssuer, cache)
                | Some (p, m) \<Rightarrow>
                    (case providerVerifier lib cache k p of
                       (Inl e, cache) \<Rightarrow> (Inl e, cache)
                     | (Inr ver, cache) \<Rightarrow> (verifyClaims lib iss m ver rawToken, cache))))"

section \<open>The allowlist\<close>

definition entryAllows :: "string \<Rightarrow> string \<Rightarrow> bool" where
  "entryAllows e repo =
     (if e = ''*'' then True
      else case cutSuffix e ''/*'' of
             (pfx, True) \<Rightarrow> repo = pfx \<or> hasPrefix repo (pfx @ ''/'')
           | (_, False) \<Rightarrow> repo = e)"

definition allowRepo :: "Verifier \<Rightarrow> string \<Rightarrow> bool" where
  "allowRepo v repo = (vr_allowlist v = [] \<or> list_ex (\<lambda>e. entryAllows e (normalizeRepo repo)) (vr_allowlist v))"

section \<open>A verified identity is bound to its issuer\<close>

text \<open>Every cached verifier was made for the issuer and audience of the provider configured under its key.\<close>

definition cacheOk :: "('v, 't) OidcLib \<Rightarrow> Verifier \<Rightarrow> (string \<rightharpoonup> 'v) \<Rightarrow> bool" where
  "cacheOk lib v cache \<longleftrightarrow>
     (\<forall>iss ver. cache iss = Some ver \<longrightarrow> (\<exists>p m. map_of (vr_byIssuer v) iss = Some (p, m) \<and> ol_newProvider lib (pr_Issuer p) (pr_Audience p) = Inr ver))"

definition configured :: "('v, 't) OidcLib \<Rightarrow> Provider list \<Rightarrow> (string \<times> Provider \<times> claimMapper) list \<Rightarrow> bool" where
  "configured lib ps acc \<longleftrightarrow>
     (\<forall>iss p m. (iss, p, m) \<in> set acc \<longrightarrow> p \<in> set ps \<and> builtin lib p = Inr m \<and> pr_Issuer p \<noteq> [] \<and> pr_Audience p \<noteq> [] \<and> iss = trimRight (pr_Issuer p) CHR ''/'')"

lemma addProviders_configured:
  "addProviders lib ps acc = Inr m \<Longrightarrow> configured lib all acc \<Longrightarrow> set ps \<subseteq> set all \<Longrightarrow> configured lib all m"
proof (induction ps arbitrary: acc)
  case (Cons p ps)
  then obtain cm where b: "pr_Issuer p \<noteq> []" "pr_Audience p \<noteq> []" "builtin lib p = Inr cm"
    "addProviders lib ps ((trimRight (pr_Issuer p) CHR ''/'', p, cm) # acc) = Inr m"
    by (auto simp: Let_def split: if_splits sum.splits)
  have "configured lib all ((trimRight (pr_Issuer p) CHR ''/'', p, cm) # acc)" using b(1-3) Cons.prems(2,3) by (auto simp: configured_def)
  then show ?case using Cons.IH [OF b(4)] Cons.prems(3) by simp
qed (simp add: configured_def)

lemma newVerifier_configured:
  assumes "newVerifier lib cfg = Inr (Some v)" "map_of (vr_byIssuer v) iss = Some (p, m)"
  shows "p \<in> set (oc_Providers cfg) \<and> builtin lib p = Inr m \<and> pr_Issuer p \<noteq> [] \<and> pr_Audience p \<noteq> [] \<and> iss = trimRight (pr_Issuer p) CHR ''/''"
proof -
  have "addProviders lib (oc_Providers cfg) [] = Inr (vr_byIssuer v)"
    using assms(1) by (auto simp: newVerifier_def split: if_splits sum.splits)
  then have "configured lib (oc_Providers cfg) (vr_byIssuer v)" by (rule addProviders_configured) (simp_all add: configured_def)
  with map_of_SomeD [OF assms(2)] show ?thesis unfolding configured_def by blast
qed

lemma verifyClaims_Inr:
  "verifyClaims lib iss m ver raw = Inr ident \<longleftrightarrow>
     (\<exists>t claims. ol_verify lib ver raw = Inr t \<and> ol_claims lib t = Inr claims \<and> asString (claims (cm_repoClaim m)) \<noteq> [] \<and>
        ident = \<lparr>id_Issuer = iss, id_Repo = normalizeRepo (cm_host m @ ''/'' @ asString (claims (cm_repoClaim m))), id_Untrusted = cm_untrusted m claims\<rparr>)"
  by (auto simp: verifyClaims_def Let_def split: sum.splits)

lemma providerVerifier_ok:
  assumes "providerVerifier lib cache iss p = (r, cache')" "cacheOk lib v cache" "map_of (vr_byIssuer v) iss = Some (p, m)"
  shows "cacheOk lib v cache' \<and> (\<forall>ver. r = Inr ver \<longrightarrow> ol_newProvider lib (pr_Issuer p) (pr_Audience p) = Inr ver)"
proof (cases "cache iss")
  case (Some ver)
  then have "ol_newProvider lib (pr_Issuer p) (pr_Audience p) = Inr ver" using assms(2,3) unfolding cacheOk_def by fastforce
  then show ?thesis using Some assms(1,2) by (auto simp: providerVerifier_def)
next
  case None
  show ?thesis
  proof (cases "ol_newProvider lib (pr_Issuer p) (pr_Audience p)")
    case (Inl e)
    then show ?thesis using None assms(1,2) by (auto simp: providerVerifier_def)
  next
    case (Inr ver)
    then have "cache' = cache(iss \<mapsto> ver)" "r = Inr ver" using None assms(1) by (auto simp: providerVerifier_def)
    then show ?thesis using Inr assms(2,3) unfolding cacheOk_def by simp
  qed
qed

text \<open>C36: \<^bold>\<open>An identity is what the configured issuer vouches for.\<close> Verification accepts a token only after the
  library's signature, audience and expiry check with a verifier discovered for the issuer and the
  audience of the configured provider whose issuer the token names; the repository is that provider's
  claim under its host, normalized, and the trust decision is that provider's. Every cached verifier
  stays bound to its provider, across failures too.\<close>

theorem verify_bound:
  assumes "newVerifier lib cfg = Inr (Some v)" "cacheOk lib v cache" "Verify lib v cache tok = (res, cache')"
  shows "cacheOk lib v cache' \<and>
    (\<forall>ident. res = Inr ident \<longrightarrow>
       (\<exists>p m ver t claims. p \<in> set (oc_Providers cfg) \<and> builtin lib p = Inr m \<and>
          trimRight (pr_Issuer p) CHR ''/'' = trimRight (id_Issuer ident) CHR ''/'' \<and>
          ol_newProvider lib (pr_Issuer p) (pr_Audience p) = Inr ver \<and> pr_Audience p \<noteq> [] \<and>
          ol_verify lib ver (trimSpace tok) = Inr t \<and> ol_claims lib t = Inr claims \<and>
          asString (claims (cm_repoClaim m)) \<noteq> [] \<and>
          id_Repo ident = normalizeRepo (cm_host m @ ''/'' @ asString (claims (cm_repoClaim m))) \<and>
          id_Untrusted ident = cm_untrusted m claims))"
proof (cases "\<exists>iss p m. trimSpace tok \<noteq> [] \<and> unverifiedIssuer lib (trimSpace tok) = Inr iss \<and> map_of (vr_byIssuer v) (trimRight iss CHR ''/'') = Some (p, m)")
  case False
  then have "cache' = cache" "\<And>ident. res \<noteq> Inr ident"
    using assms(3) by (auto simp: Verify_def Let_def split: if_splits sum.splits option.splits)
  then show ?thesis using assms(2) by blast
next
  case True
  then obtain iss p m where t: "trimSpace tok \<noteq> []" "unverifiedIssuer lib (trimSpace tok) = Inr iss" "map_of (vr_byIssuer v) (trimRight iss CHR ''/'') = Some (p, m)"
    by blast
  obtain r c' where pv: "providerVerifier lib cache (trimRight iss CHR ''/'') p = (r, c')" by force
  have c: "cache' = c'" "res = (case r of Inl e \<Rightarrow> Inl e | Inr ver \<Rightarrow> verifyClaims lib iss m ver (trimSpace tok))"
    using assms(3) t pv by (auto simp: Verify_def Let_def split: sum.splits)
  note ok = providerVerifier_ok [OF pv assms(2) t(3)]
  note conf = newVerifier_configured [OF assms(1) t(3)]
  show ?thesis
  proof (cases r)
    case (Inl e)
    then show ?thesis using ok c by simp
  next
    case (Inr ver)
    with ok have "ol_newProvider lib (pr_Issuer p) (pr_Audience p) = Inr ver" by blast
    with ok c Inr conf show ?thesis by (fastforce simp: verifyClaims_Inr)
  qed
qed

definition stubLib :: "(unit, unit) OidcLib" where
  "stubLib = \<lparr>ol_newProvider = \<lambda>_ _. Inr (), ol_verify = \<lambda>_ _. Inr (), ol_claims = \<lambda>_. Inr (\<lambda>k. if k = ''repository'' then ClaimString ''org/app'' else ClaimNil),
     ol_jsonIss = \<lambda>_. Some ''https://iss/'', ol_urlHost = \<lambda>_. None\<rparr>"

definition stubConfig :: OidcConfig where
  "stubConfig = \<lparr>oc_Providers = [\<lparr>pr_Type = ''github'', pr_Issuer = ''https://iss'', pr_Audience = ''bko'', pr_RepoClaim = [], pr_Host = [], pr_StrictUnprotectedRefs = False\<rparr>],
     oc_RepoAllowlist = [], oc_Disable = False\<rparr>"

theorem verify_bound_witness:
  "\<exists>v ident. newVerifier stubLib stubConfig = Inr (Some v) \<and> fst (Verify stubLib v Map.empty ''a..c'') = Inr ident \<and> id_Repo ident = normalizeRepo ''github.com/org/app''"
proof -
  define m where "m = \<lparr>cm_repoClaim = ''repository'', cm_host = ''github.com'', cm_untrusted = pullRef\<rparr>"
  define p where "p = \<lparr>pr_Type = ''github'', pr_Issuer = ''https://iss'', pr_Audience = ''bko'', pr_RepoClaim = [], pr_Host = [], pr_StrictUnprotectedRefs = False\<rparr>"
  have iss: "trimRight ''https://iss'' CHR ''/'' = ''https://iss''" "trimRight ''https://iss/'' CHR ''/'' = ''https://iss''" "toLower ''github'' = ''github''"
    "trimSpace ''a..c'' = ''a..c''" "splitByte CHR ''.'' ''a..c'' = [''a'', [], ''c'']" "base64Decode [] = Some []"
    by code_simp+
  have b: "builtin stubLib p = Inr m" by (simp add: builtin_def p_def m_def Let_def iss orDefault_def)
  define v where "v = \<lparr>vr_byIssuer = [(''https://iss'', p, m)], vr_allowlist = []\<rparr>"
  have v: "newVerifier stubLib stubConfig = Inr (Some v)"
    using b by (simp add: newVerifier_def stubConfig_def p_def [symmetric] v_def normalizeAllowlist_def List.map_filter_def) (simp add: p_def iss)
  have ident: "\<exists>ident. fst (Verify stubLib v Map.empty ''a..c'') = Inr ident"
    by (simp add: Verify_def Let_def iss unverifiedIssuer_def stubLib_def v_def providerVerifier_def verifyClaims_def m_def)
  then obtain ident where i: "fst (Verify stubLib v Map.empty ''a..c'') = Inr ident" by blast
  then obtain cache' where V: "Verify stubLib v Map.empty ''a..c'' = (Inr ident, cache')" by (metis prod.collapse)
  have "cacheOk stubLib v Map.empty" by (simp add: cacheOk_def)
  from verify_bound [OF v this V] obtain p' m' t claims where r: "p' \<in> set (oc_Providers stubConfig)" "builtin stubLib p' = Inr m'"
    "ol_claims stubLib t = Inr claims" "id_Repo ident = normalizeRepo (cm_host m' @ ''/'' @ asString (claims (cm_repoClaim m')))" by blast
  have "p' = p" using r(1) by (simp add: stubConfig_def p_def)
  with b r(2) have "m' = m" by simp
  moreover have "claims ''repository'' = ClaimString ''org/app''" using r(3) by (auto simp: stubLib_def)
  ultimately have "id_Repo ident = normalizeRepo ''github.com/org/app''" using r(4) by (simp add: m_def)
  with v i show ?thesis by blast
qed

section \<open>Wildcards admit whole segments\<close>

lemma splitByte_append_sep: "splitByte c (a @ c # b) = splitByte c a @ splitByte c b"
  by (induction a) (auto split: list.splits)

lemma joinStr_Cons: "ys \<noteq> [] \<Longrightarrow> joinStr (x # ys) sep = x @ sep @ joinStr ys sep"
  by (cases ys) simp_all

lemma joinStr_splitByte: "joinStr (splitByte c s) [c] = s"
proof (induction s)
  case (Cons x xs)
  obtain y ys where y: "splitByte c xs = y # ys" by (metis splitByte_ne list.exhaust)
  show ?case
  proof (cases "x = c")
    case True
    then show ?thesis using Cons y by (simp add: joinStr_Cons)
  next
    case False
    then show ?thesis using Cons y by (cases ys) auto
  qed
qed simp

lemma joinStr_append: "xs \<noteq> [] \<Longrightarrow> ys \<noteq> [] \<Longrightarrow> joinStr (xs @ ys) sep = joinStr xs sep @ sep @ joinStr ys sep"
proof (induction xs)
  case (Cons x xs)
  then show ?case by (cases xs) (simp_all add: joinStr_Cons)
qed simp

text \<open>\<open>repo\<close> lies at or below \<open>pfx\<close> in the tree of paths.\<close>

definition below :: "string \<Rightarrow> string \<Rightarrow> bool" where
  "below pfx repo \<longleftrightarrow> prefix (splitByte CHR ''/'' pfx) (splitByte CHR ''/'' repo)"

lemma below_iff: "below pfx repo \<longleftrightarrow> repo = pfx \<or> hasPrefix repo (pfx @ ''/'')"
proof
  assume "below pfx repo"
  then obtain r where r: "splitByte CHR ''/'' repo = splitByte CHR ''/'' pfx @ r" by (auto simp: below_def prefix_def)
  have "repo = joinStr (splitByte CHR ''/'' pfx @ r) ''/''" using joinStr_splitByte [of "CHR ''/''" repo] r by simp
  then show "repo = pfx \<or> hasPrefix repo (pfx @ ''/'')"
    using joinStr_splitByte [of "CHR ''/''" pfx] by (cases "r = []") (auto simp: joinStr_append hasPrefix_def)
next
  assume "repo = pfx \<or> hasPrefix repo (pfx @ ''/'')"
  then show "below pfx repo" by (auto simp: below_def hasPrefix_def prefix_def splitByte_append_sep)
qed

text \<open>\<^bold>\<open>The allowlist admits by whole path segments.\<close> With an allowlist, a repository is admitted exactly when an entry is
  the star, names it exactly, or is a wildcard above it in the tree of path segments: \<open>host/org/*\<close>
  admits everything under \<open>host/org\<close> and nothing of \<open>host/organisation\<close>.\<close>

theorem allowlist_segments:
  "allowRepo v repo =
     (vr_allowlist v = [] \<or>
      list_ex (\<lambda>e. e = ''*'' \<or>
          (if hasSuffix e ''/*'' then below (take (length e - 2) e) (normalizeRepo repo) else normalizeRepo repo = e)) (vr_allowlist v))"
proof -
  have "entryAllows e r = (e = ''*'' \<or> (if hasSuffix e ''/*'' then below (take (length e - 2) e) r else r = e))" for e r
    by (simp add: entryAllows_def cutSuffix_def below_iff numeral_2_eq_2)
  then show ?thesis by (simp add: allowRepo_def)
qed

text \<open>\<^bold>\<open>Rule patterns agree with the allowlist when they are written normalized.\<close> The comment on \<open>Rule.Repo\<close> says a
  pattern means the same in the project defaults and in the allowlist. It does for an entry that is
  its own normal form; but the allowlist normalizes its entries and the rules do not, so a pattern with a
  scheme or an upper-case letter admits repositories through the allowlist and matches none in the rules.\<close>

theorem defaults_mirror_allowlist:
  "(normalizeAllowlist [e] = [e] \<and> normalizeRepo repo = repo \<longrightarrow>
      allowRepo \<lparr>vr_byIssuer = is, vr_allowlist = normalizeAllowlist [e]\<rparr> repo = matchRepo e repo) \<and>
   allowRepo \<lparr>vr_byIssuer = is, vr_allowlist = normalizeAllowlist [''https://h/Org/*'']\<rparr> ''h/org/a'' \<and>
   \<not> matchRepo ''https://h/Org/*'' ''h/org/a''"
proof (intro conjI impI)
  assume n: "normalizeAllowlist [e] = [e] \<and> normalizeRepo repo = repo"
  then have "e \<noteq> []" by (auto simp: normalizeAllowlist_def normalizeEntry_def List.map_filter_def Let_def trimSpace_def split: if_splits)
  with n show "allowRepo \<lparr>vr_byIssuer = is, vr_allowlist = normalizeAllowlist [e]\<rparr> repo = matchRepo e repo"
    by (auto simp: allowRepo_def entryAllows_def matchRepo_def)
next
  have "normalizeAllowlist [''https://h/Org/*''] = [''h/org/*'']" "normalizeRepo ''h/org/a'' = ''h/org/a''" "entryAllows ''h/org/*'' ''h/org/a''" by code_simp+
  then show "allowRepo \<lparr>vr_byIssuer = is, vr_allowlist = normalizeAllowlist [''https://h/Org/*'']\<rparr> ''h/org/a''"
    by (simp add: allowRepo_def)
  show "\<not> matchRepo ''https://h/Org/*'' ''h/org/a''" by code_simp
qed

theorem defaults_mirror_allowlist_witness:
  "allowRepo \<lparr>vr_byIssuer = [], vr_allowlist = normalizeAllowlist [''h/org/*'']\<rparr> ''h/org/a'' = matchRepo ''h/org/*'' ''h/org/a''"
proof -
  have "normalizeAllowlist [''h/org/*''] = [''h/org/*'']" "normalizeRepo ''h/org/a'' = ''h/org/a''" by code_simp+
  then show ?thesis using defaults_mirror_allowlist [of "''h/org/*''" "''h/org/a''" "[]"] by blast
qed

end
