(* ===== verification/Route_Api.thy ===== *)
theory Route_Api
  imports Provisioner Identity
begin

text \<open>
  \<open>cmd/buildd/route.go\<close> and \<open>cmd/buildd/server.go\<close>: authentication and the handlers of \<open>/route\<close>, \<open>/prewarm\<close> and
  \<open>/complete\<close>, over any \<open>Provisioner\<close>.

  A request is the record \<open>Request\<close>: what the handlers read of it, the body already decoded by
  \<open>encoding/json\<close> (or the decoding error), and the answers of what stands outside the program for this
  request: the rate limiter, eight bytes of \<open>crypto/rand\<close>, and whether a cold-start slot was obtained
  before the client went away. Metrics and audit logs are left out, and an error text holds a value plain
  where the code formats it with \<open>%q\<close>.
\<close>

section \<open>Requests and responses\<close>

record 'b Request =
  hr_Method :: string
  hr_AdminToken :: string
  hr_Authorization :: string
  hr_Body :: "string + 'b"
  hr_Allowed :: bool
  hr_Random :: "char list"
  hr_Slot :: bool

datatype Response = JsonResponse nat RouteResponse | ErrorResponse nat string | NoContent

fun statusOf :: "Response \<Rightarrow> nat" where
  "statusOf (JsonResponse n _) = n"
| "statusOf (ErrorResponse n _) = n"
| "statusOf NoContent = 204"

record reqIdentity =
  ri_repo :: string
  ri_untrusted :: bool
  ri_override :: bool

record 's routeServer =
  rs_prov :: "'s Provisioner"
  rs_Namespace :: string
  rs_s3Bucket :: string
  rs_s3Region :: string
  rs_s3Endpoint :: string
  rs_s3ExportInterval :: duration
  rs_verifier :: "(Verifier \<times> (string \<Rightarrow> VerifyError + Identity)) option"
  rs_authToken :: string
  rs_adminToken :: string
  rs_defaults :: "Rule list option"
  rs_requireBuildID :: bool

text \<open>\<open>rs_verifier\<close> holds the verifier with its \<^const>\<open>Verify\<close> applied to the library and the verifiers cached so far.\<close>

definition statusText :: "nat \<Rightarrow> string" where
  "statusText n = (if n = 401 then ''Unauthorized'' else if n = 403 then ''Forbidden'' else [])"

section \<open>Authentication\<close>

definition bearerToken :: "'b Request \<Rightarrow> string" where
  "bearerToken r =
     (let h = hr_Authorization r in
      if length h \<le> length ''Bearer '' \<or> toLower (take (length ''Bearer '') h) \<noteq> toLower ''Bearer '' then []
      else drop (length ''Bearer '') h)"

definition bearerEquals :: "'b Request \<Rightarrow> string \<Rightarrow> bool" where
  "bearerEquals r want = (bearerToken r = want)"

datatype AuthError = InvalidAdminToken | RepoNotAllowed string | NotVerified VerifyError | Unauthorized

text \<open>\<open>identify\<close>: the HTTP status and error of a rejection, or the identity.\<close>

definition trusted :: reqIdentity where
  "trusted = \<lparr>ri_repo = [], ri_untrusted = False, ri_override = False\<rparr>"

definition identify :: "'s routeServer \<Rightarrow> 'b Request \<Rightarrow> (nat \<times> AuthError) + reqIdentity" where
  "identify s r =
     (if rs_adminToken s \<noteq> [] \<and> hr_AdminToken r \<noteq> [] then
        (if hr_AdminToken r = rs_adminToken s then Inr trusted else Inl (401, InvalidAdminToken))
      else
        (case rs_verifier s of
           Some (v, verify) \<Rightarrow>
             (case verify (bearerToken r) of
                Inr ident \<Rightarrow>
                  if \<not> allowRepo v (id_Repo ident) then Inl (403, RepoNotAllowed (id_Repo ident))
                  else Inr \<lparr>ri_repo = id_Repo ident, ri_untrusted = id_Untrusted ident, ri_override = True\<rparr>
              | Inl e \<Rightarrow>
                  if rs_authToken s \<noteq> [] \<and> bearerEquals r (rs_authToken s) then Inr trusted
                  else Inl (401, NotVerified e))
         | None \<Rightarrow>
             if rs_authToken s \<noteq> [] \<and> \<not> bearerEquals r (rs_authToken s) then Inl (401, Unauthorized)
             else Inr trusted))"

section \<open>Requests\<close>

definition buildIDBytes :: nat where "buildIDBytes = 8"

definition isHexChar :: "char \<Rightarrow> bool" where
  "isHexChar c \<longleftrightarrow> c \<in> set ''0123456789abcdefABCDEF''"

definition validBuildID :: "string \<Rightarrow> bool" where
  "validBuildID i = (if i = [] then True else if length i \<noteq> 2 * buildIDBytes then False else list_all isHexChar i)"

definition newBuildID :: "char list \<Rightarrow> string" where
  "newBuildID b = hex_encode b"

definition validateRouteRequest :: "RouteRequest \<Rightarrow> string option" where
  "validateRouteRequest req =
     (if normalizeRepo (rq_Repo req) = [] then Some ''repo is required''
      else if length (rq_Repo req) > 512 then Some ''repo is too long''
      else if length (rq_Name req) > 128 then Some ''name is too long''
      else if length (rq_Target req) > 128 then Some ''target is too long''
      else if normalizeArch (rq_Arch req) = ''amd64'' \<or> normalizeArch (rq_Arch req) = ''arm64'' then None
      else Some (''unsupported arch '' @ rq_Arch req))"

definition validateCompleteRequest :: "string \<Rightarrow> string option" where
  "validateCompleteRequest key =
     (if trimSpace key = [] then Some ''key is required''
      else if length key > 64 then Some ''key is too long''
      else None)"

definition decodeReq :: "'s routeServer \<Rightarrow> RouteRequest Request \<Rightarrow> Response + RouteRequest" where
  "decodeReq s r =
     (case identify s r of
        Inl (status, _) \<Rightarrow> Inl (ErrorResponse status (statusText status))
      | Inr ident \<Rightarrow>
          if \<not> hr_Allowed r then Inl (ErrorResponse 429 ''rate limited'')
          else if hr_Method r \<noteq> ''POST'' then Inl (ErrorResponse 405 ''POST only'')
          else
            (case hr_Body r of
               Inl e \<Rightarrow> Inl (ErrorResponse 400 (''bad request: '' @ e))
             | Inr req0 \<Rightarrow>
                 let req = (if ri_override ident then req0\<lparr>rq_Repo := ri_repo ident, rq_Untrusted := rq_Untrusted req0 \<or> ri_untrusted ident\<rparr> else req0) in
                 (case validateRouteRequest req of
                    Some e \<Rightarrow> Inl (ErrorResponse 400 (''bad request: '' @ e))
                  | None \<Rightarrow> Inr req)))"

definition canonicalSpec :: "RouteRequest \<Rightarrow> BuildProjectSpec" where
  "canonicalSpec req = zeroSpec\<lparr>
     sp_Key := projectKey (rq_Repo req) (rq_Name req) (rq_Target req) (rq_Arch req),
     sp_Repo := normalizeRepo (rq_Repo req), sp_Name := normalizeName (rq_Name req),
     sp_Target := normalizeTarget (rq_Target req), sp_Arch := normalizeArch (rq_Arch req)\<rparr>"

definition cacheFor :: "'s routeServer \<Rightarrow> string \<Rightarrow> bool \<Rightarrow> ('s, CacheConfig option) state" where
  "cacheFor s key grantExport =
     (if rs_s3Bucket s = [] \<or> isForkKey key then ret None
      else do {
        (imp, exp) \<leftarrow> pv_S3CacheDecision (rs_prov s) key (rs_s3ExportInterval s) grantExport;
        ret (if \<not> imp then None
             else Some \<lparr>cc_Type = ''s3'', cc_Bucket = rs_s3Bucket s, cc_Region = rs_s3Region s, cc_EndpointURL = rs_s3Endpoint s,
               cc_Name = key, cc_SkipExport = (\<not> exp)\<rparr>)
      })"

section \<open>Handlers\<close>

definition respondRoute :: "'s routeServer \<Rightarrow> string \<Rightarrow> string \<Rightarrow> ('s, Response) state" where
  "respondRoute s key buildID =
     do {
       e \<leftarrow> pv_Endpoint (rs_prov s) key;
       c \<leftarrow> cacheFor s key True;
       ret (JsonResponse 200 \<lparr>rr_Key = key, rr_BuildID = buildID, rr_Endpoint = e, rr_Namespace = rs_Namespace s, rr_Ready = True, rr_Cache = c\<rparr>)
     }"

text \<open>The deferred release of \<open>handleRoute\<close> runs on every path that did not route.\<close>

definition abandonRoute :: "'s routeServer \<Rightarrow> string \<Rightarrow> string \<Rightarrow> Response \<Rightarrow> ('s, Response) state" where
  "abandonRoute s key buildID resp = do { _ \<leftarrow> pv_EndInflight (rs_prov s) key buildID; ret resp }"

definition routeKey :: "RouteRequest \<Rightarrow> string \<Rightarrow> string" where
  "routeKey req canonical = (if rq_Untrusted req then forkKey canonical else canonical)"

definition routeBuild :: "'s routeServer \<Rightarrow> string \<Rightarrow> string \<Rightarrow> bool \<Rightarrow> ('s, Response) state" where
  "routeBuild s key buildID slot =
     do {
       _ \<leftarrow> pv_StartInflight (rs_prov s) key buildID;
       ready \<leftarrow> pv_Ready (rs_prov s) key;
       if ready then respondRoute s key buildID
       else if \<not> slot then abandonRoute s key buildID (ErrorResponse 499 ''client gone'')
       else do {
         w \<leftarrow> pv_WaitReady (rs_prov s) key;
         (case w of
            Some err \<Rightarrow> abandonRoute s key buildID (ErrorResponse 504 (''daemon not ready: '' @ err))
          | None \<Rightarrow> respondRoute s key buildID)
       }
     }"

definition handleRoute :: "'s routeServer \<Rightarrow> RouteRequest Request \<Rightarrow> ('s, Response) state" where
  "handleRoute s r =
     (case decodeReq s r of
        Inl resp \<Rightarrow> ret resp
      | Inr req \<Rightarrow>
          do {
            let spec = applyProjectDefaults (rs_defaults s) (canonicalSpec req);
            let key = routeKey req (sp_Key spec);
            e \<leftarrow> pv_Ensure (rs_prov s) spec (rq_Untrusted req);
            (case e of
               Some err \<Rightarrow> ret (ErrorResponse 500 (''ensure project: '' @ err))
             | None \<Rightarrow> routeBuild s key (newBuildID (hr_Random r)) (hr_Slot r))
          })"

definition handlePrewarm :: "'s routeServer \<Rightarrow> RouteRequest Request \<Rightarrow> ('s, Response) state" where
  "handlePrewarm s r =
     (case decodeReq s r of
        Inl resp \<Rightarrow> ret resp
      | Inr req \<Rightarrow>
          do {
            let spec = applyProjectDefaults (rs_defaults s) (canonicalSpec req);
            e \<leftarrow> pv_Ensure (rs_prov s) spec False;
            (case e of
               Some err \<Rightarrow> ret (ErrorResponse 500 (''ensure project: '' @ err))
             | None \<Rightarrow>
                 do {
                   _ \<leftarrow> pv_Touch (rs_prov s) (sp_Key spec);
                   ready \<leftarrow> pv_Ready (rs_prov s) (sp_Key spec);
                   ep \<leftarrow> pv_Endpoint (rs_prov s) (sp_Key spec);
                   c \<leftarrow> cacheFor s (sp_Key spec) False;
                   ret (JsonResponse 202 \<lparr>rr_Key = sp_Key spec, rr_BuildID = [], rr_Endpoint = ep, rr_Namespace = rs_Namespace s, rr_Ready = ready, rr_Cache = c\<rparr>)
                 })
          })"

record CompleteRequest =
  cq_Key :: string
  cq_BuildID :: string

text \<open>The ownership check of \<open>handleComplete\<close>: \<open>Some\<close> is a refusal.\<close>

definition checkOwner :: "'s routeServer \<Rightarrow> (nat \<times> AuthError) + reqIdentity \<Rightarrow> string \<Rightarrow> ('s, Response option) state" where
  "checkOwner s auth key =
     (case auth of
        Inl _ \<Rightarrow> ret None
      | Inr ident \<Rightarrow>
          if ri_override ident \<and> ri_repo ident \<noteq> [] then
            do {
              pr \<leftarrow> pv_ProjectRepo (rs_prov s) key;
              ret (case pr of
                     Inl _ \<Rightarrow> Some (ErrorResponse 503 ''cannot verify project ownership'')
                   | Inr (repo, found) \<Rightarrow>
                       if found \<and> normalizeRepo repo \<noteq> normalizeRepo (ri_repo ident) then Some (ErrorResponse 403 ''Forbidden'')
                       else None)
            }
          else ret None)"

definition releaseBuild :: "'s routeServer \<Rightarrow> (nat \<times> AuthError) + reqIdentity \<Rightarrow> CompleteRequest \<Rightarrow> ('s, Response) state" where
  "releaseBuild s auth req =
     (if rs_requireBuildID s \<and> cq_BuildID req = [] then ret (ErrorResponse 400 ''bad request: buildId is required'')
      else do {
        released \<leftarrow> pv_EndInflight (rs_prov s) (cq_Key req) (cq_BuildID req);
        ret (case auth of
               Inl (status, _) \<Rightarrow> if \<not> released then ErrorResponse status (statusText status) else NoContent
             | Inr _ \<Rightarrow> NoContent)
      })"

text \<open>The checks of \<open>handleComplete\<close> that need nothing but the request, in the order of the code.\<close>

definition denial :: "(nat \<times> AuthError) + reqIdentity \<Rightarrow> Response option" where
  "denial auth = (case auth of Inl (status, _) \<Rightarrow> Some (ErrorResponse status (statusText status)) | Inr _ \<Rightarrow> None)"

definition decodeComplete :: "'s routeServer \<Rightarrow> CompleteRequest Request \<Rightarrow> Response + CompleteRequest" where
  "decodeComplete s r =
     (let denied = denial (identify s r) in
      if denied \<noteq> None \<and> bearerToken r = [] \<and> hr_AdminToken r = [] then Inl (the denied)
      else if \<not> hr_Allowed r then Inl (ErrorResponse 429 ''rate limited'')
      else if hr_Method r \<noteq> ''POST'' then Inl (ErrorResponse 405 ''POST only'')
      else
        (case hr_Body r of
           Inl e \<Rightarrow> Inl (ErrorResponse 400 (''bad request: '' @ e))
         | Inr req \<Rightarrow>
             if validateCompleteRequest (cq_Key req) \<noteq> None then Inl (ErrorResponse 400 ''bad request: need {\"key\":\"...\"}'')
             else if \<not> validBuildID (cq_BuildID req) then Inl (ErrorResponse 400 ''bad request: malformed buildId'')
             else if denied \<noteq> None \<and> cq_BuildID req = [] then Inl (the denied)
             else Inr req))"

definition handleComplete :: "'s routeServer \<Rightarrow> CompleteRequest Request \<Rightarrow> ('s, Response) state" where
  "handleComplete s r =
     (case decodeComplete s r of
        Inl resp \<Rightarrow> ret resp
      | Inr req \<Rightarrow>
          do {
            refusal \<leftarrow> checkOwner s (identify s r) (cq_Key req);
            (case refusal of
               Some resp \<Rightarrow> ret resp
             | None \<Rightarrow> releaseBuild s (identify s r) req)
          })"

section \<open>Properties of the handlers, for every backend\<close>

text \<open>The starts and the releases of a trace, newest first.\<close>

definition starts :: "PCall list \<Rightarrow> (string \<times> string) list" where
  "starts l = List.map_filter (\<lambda>c. case c of CStart k i \<Rightarrow> Some (k, i) | _ \<Rightarrow> None) l"

definition releases :: "PCall list \<Rightarrow> (string \<times> string) list" where
  "releases l = List.map_filter (\<lambda>c. case c of CEnd k i _ \<Rightarrow> Some (k, i) | _ \<Rightarrow> None) l"

lemma starts_simps [simp]:
  "starts [] = []" "starts (CStart k i # l) = (k, i) # starts l" "starts (CEnsure s u x # l) = starts l" "starts (CReady k b # l) = starts l"
  "starts (CWaitReady k y # l) = starts l" "starts (CEndpoint k e # l) = starts l" "starts (CEnd k i b # l) = starts l" "starts (CTouch k # l) = starts l"
  "starts (CRepo k z # l) = starts l" "starts (CS3 k d b v # l) = starts l"
  by (simp_all add: starts_def List.map_filter_def)

lemma releases_simps [simp]:
  "releases [] = []" "releases (CStart k i # l) = releases l" "releases (CEnsure s u x # l) = releases l" "releases (CReady k b # l) = releases l"
  "releases (CWaitReady k y # l) = releases l" "releases (CEndpoint k e # l) = releases l" "releases (CEnd k i b # l) = (k, i) # releases l" "releases (CTouch k # l) = releases l"
  "releases (CRepo k z # l) = releases l" "releases (CS3 k d b v # l) = releases l"
  by (simp_all add: releases_def List.map_filter_def)

abbreviation noCalls :: "(PCall, unit) world" where
  "noCalls \<equiv> \<lparr>w_log = [], w_mem = ()\<rparr>"

text \<open>What the calls of a handler on a build look like: the route, its releases, and where it got its cache.\<close>

definition balanced :: "Response \<Rightarrow> PCall list \<Rightarrow> bool" where
  "balanced resp l \<longleftrightarrow>
     (case resp of
        JsonResponse n body \<Rightarrow> n = 200 \<and> starts l = [(rr_Key body, rr_BuildID body)] \<and> releases l = []
      | ErrorResponse n _ \<Rightarrow> n \<noteq> 200 \<and> releases l = starts l \<and> length (starts l) \<le> 1
      | NoContent \<Rightarrow> False)"

lemma balanced_simps [simp]:
  "balanced (JsonResponse n body) l \<longleftrightarrow> n = 200 \<and> starts l = [(rr_Key body, rr_BuildID body)] \<and> releases l = []"
  "balanced (ErrorResponse n e) l \<longleftrightarrow> n \<noteq> 200 \<and> releases l = starts l \<and> length (starts l) \<le> 1"
  by (simp_all add: balanced_def)

lemma wp_cacheFor:
  assumes "\<And>c l'. l' = w_log w \<or> (\<exists>d b v. l' = CS3 key d b v # w_log w) \<Longrightarrow> Q c (w\<lparr>w_log := l'\<rparr>)" "rs_prov s = tracing a"
  shows "wp (cacheFor s key g) Q w"
  unfolding cacheFor_def assms(2) using assms(1) by (cases w) (auto simp: wp_rules split: prod.split)

lemma wp_respondRoute:
  assumes "starts (w_log w) = [(key, bid)]" "releases (w_log w) = []" "rs_prov s = tracing a"
  shows "wp (respondRoute s key bid) (\<lambda>resp w'. balanced resp (w_log w')) w"
  unfolding respondRoute_def wp_bind assms(3) wp_tracing
  by (rule wp_cacheFor [OF _ assms(3)]) (use assms in \<open>auto simp: wp_rules\<close>)

text \<open>C9: \<^bold>\<open>A route holds a build exactly when it hands it out.\<close> Whatever the backend answers: a \<open>/route\<close> that answers 200 has
  registered exactly one build, the one whose key and token it returns, and released none; one that
  answers anything else has released whatever it registered, under the same key and token. So a failed
  route never pins a daemon and a successful one always does.\<close>

theorem route_balanced:
  assumes "rs_prov s = tracing a"
  shows "balanced (fst (run_state (handleRoute s r) noCalls)) (w_log (snd (run_state (handleRoute s r) noCalls)))"
proof -
  have dec: "balanced resp []" if "decodeReq s r = Inl resp" for resp
    using that by (auto simp: decodeReq_def identify_def Let_def split: sum.splits if_splits option.splits prod.splits)
  have rb: "wp (routeBuild s key bid slot) (\<lambda>resp w'. balanced resp (w_log w')) w" if "starts (w_log w) = []" "releases (w_log w) = []" for key bid slot w
    unfolding routeBuild_def abandonRoute_def assms using that
    by (auto simp: wp_rules intro!: wp_respondRoute [OF _ _ assms] split: option.split)
  have "wp (handleRoute s r) (\<lambda>resp w'. balanced resp (w_log w')) noCalls"
    unfolding handleRoute_def Let_def
  proof (cases "decodeReq s r")
    case (Inr req)
    show "wp (case decodeReq s r of Inl resp \<Rightarrow> ret resp | Inr req \<Rightarrow>
        pv_Ensure (rs_prov s) (applyProjectDefaults (rs_defaults s) (canonicalSpec req)) (rq_Untrusted req) \<bind>
        (\<lambda>e. case e of None \<Rightarrow> routeBuild s (routeKey req (sp_Key (applyProjectDefaults (rs_defaults s) (canonicalSpec req)))) (newBuildID (hr_Random r)) (hr_Slot r)
             | Some err \<Rightarrow> ret (ErrorResponse 500 (''ensure project: '' @ err)))) (\<lambda>resp w'. balanced resp (w_log w')) noCalls"
      unfolding Inr assms by (auto simp: wp_rules intro!: rb split: option.split)
  qed (simp add: wp_return dec)
  then show ?thesis by (simp add: wp_run)
qed

text \<open>The calls of a route for one build: the project it ensures, and every other call under its key.\<close>

definition callsFor :: "BuildProjectSpec \<Rightarrow> bool \<Rightarrow> string \<Rightarrow> PCall \<Rightarrow> bool" where
  "callsFor spec u key c =
     (case c of
        CEnsure sp u' _ \<Rightarrow> sp = spec \<and> u' = u
      | CReady k _ \<Rightarrow> k = key | CWaitReady k _ \<Rightarrow> k = key | CEndpoint k _ \<Rightarrow> k = key
      | CStart k _ \<Rightarrow> k = key | CEnd k _ _ \<Rightarrow> k = key
      | CS3 k _ _ _ \<Rightarrow> k = key \<and> \<not> isForkKey k
      | CTouch _ \<Rightarrow> False | CRepo _ _ \<Rightarrow> False)"

lemma emits_tracing [emits_rules]:
  "(\<And>x. E (CEnsure spec u x)) \<Longrightarrow> emits E (pv_Ensure (tracing a) spec u)" "(\<And>x. E (CReady k x)) \<Longrightarrow> emits E (pv_Ready (tracing a) k)"
  "(\<And>x. E (CWaitReady k x)) \<Longrightarrow> emits E (pv_WaitReady (tracing a) k)" "(\<And>x. E (CEndpoint k x)) \<Longrightarrow> emits E (pv_Endpoint (tracing a) k)"
  "E (CStart k i) \<Longrightarrow> emits E (pv_StartInflight (tracing a) k i)" "(\<And>x. E (CEnd k i x)) \<Longrightarrow> emits E (pv_EndInflight (tracing a) k i)"
  "E (CTouch k) \<Longrightarrow> emits E (pv_Touch (tracing a) k)" "(\<And>x. E (CRepo k x)) \<Longrightarrow> emits E (pv_ProjectRepo (tracing a) k)"
  "(\<And>x. E (CS3 k d g x)) \<Longrightarrow> emits E (pv_S3CacheDecision (tracing a) k d g)"
  by (simp_all add: tracing_def emits_call)

lemma emits_routeBuild:
  assumes "rs_prov s = tracing a"
  shows "emits (callsFor spec u key) (routeBuild s key bid slot)"
  unfolding routeBuild_def respondRoute_def abandonRoute_def cacheFor_def assms
  by (intro emits_rules) (auto simp: callsFor_def)

text \<open>C11: \<^bold>\<open>A verified identity decides where a build runs.\<close> When the caller's identity was verified, the project a route ensures
  has the repository of the identity, whatever the request declares, and the key computed from it; a
  build the identity says is untrusted, or that declares itself so, is ensured as untrusted and then
  every call is made under the fork key, and none asks for the shared cold cache.\<close>

theorem route_identity_bound:
  assumes "rs_prov s = tracing a" "identify s r = Inr ident" "ri_override ident"
    and "CEnsure spec u x \<in> set (w_log (snd (run_state (handleRoute s r) noCalls)))"
  shows "sp_Repo spec = normalizeRepo (ri_repo ident) \<and> (\<exists>n t ar. sp_Key spec = projectKey (ri_repo ident) n t ar) \<and>
    (ri_untrusted ident \<longrightarrow> u) \<and>
    list_all (callsFor spec u (if u then forkKey (sp_Key spec) else sp_Key spec)) (w_log (snd (run_state (handleRoute s r) noCalls)))"
proof (cases "decodeReq s r")
  case (Inl resp)
  then show ?thesis using assms(4) by (simp add: handleRoute_def)
next
  case (Inr req)
  define sp where "sp = applyProjectDefaults (rs_defaults s) (canonicalSpec req)"
  have req: "rq_Repo req = ri_repo ident" "ri_untrusted ident \<longrightarrow> rq_Untrusted req"
    using Inr assms(2,3) by (auto simp: decodeReq_def Let_def split: sum.splits if_splits option.splits)
  have E: "emits (callsFor sp (rq_Untrusted req) (routeKey req (sp_Key sp))) (handleRoute s r)"
    unfolding handleRoute_def Inr sum.case Let_def sp_def [symmetric] unfolding assms(1)
    by (intro emits_rules emits_routeBuild [OF assms(1)]) (simp add: callsFor_def)
  from emits_run [OF E, of noCalls] have all: "list_all (callsFor sp (rq_Untrusted req) (routeKey req (sp_Key sp))) (w_log (snd (run_state (handleRoute s r) noCalls)))"
    by (auto simp: list_all_iff)
  with assms(4) have "callsFor sp (rq_Untrusted req) (routeKey req (sp_Key sp)) (CEnsure spec u x)" by (auto simp: list_all_iff)
  then have s: "spec = sp" "u = rq_Untrusted req" by (simp_all add: callsFor_def)
  show ?thesis using all req unfolding s routeKey_def by (auto simp: sp_def canonicalSpec_def)
qed

text \<open>C10: \<^bold>\<open>A release is authorized.\<close> Whatever the backend answers, \<open>/complete\<close> asks it to release only the build of its own
  well-formed body, and only for a caller that either was identified, and whose verified repository, if
  it has one, the backend confirmed to be that of the project (or to have no such project), or, failing
  that, names a token. A caller without any credential never reaches the backend. It answers 204 only
  after a release by an identified caller or one that the token authorized by releasing a build.\<close>

theorem complete_authorized:
  assumes "rs_prov s = tracing a" "run_state (handleComplete s r) noCalls = (resp, w')"
  shows "(\<forall>k i x. CEnd k i x \<in> set (w_log w') \<longrightarrow>
      hr_Body r = Inr \<lparr>cq_Key = k, cq_BuildID = i\<rparr> \<and> validBuildID i \<and> (rs_requireBuildID s \<longrightarrow> i \<noteq> []) \<and>
      (case identify s r of
         Inl _ \<Rightarrow> i \<noteq> [] \<and> (bearerToken r \<noteq> [] \<or> hr_AdminToken r \<noteq> [])
       | Inr ident \<Rightarrow> ri_override ident \<and> ri_repo ident \<noteq> [] \<longrightarrow>
           (\<exists>repo found. CRepo k (Inr (repo, found)) \<in> set (w_log w') \<and> (found \<longrightarrow> normalizeRepo repo = normalizeRepo (ri_repo ident))))) \<and>
    (resp = NoContent \<longrightarrow> (\<exists>k i x. CEnd k i x \<in> set (w_log w') \<and> (x \<or> (\<exists>ident. identify s r = Inr ident))))"
proof (cases "decodeComplete s r")
  case (Inl e)
  have "resp \<noteq> NoContent"
    using Inl assms(2) by (auto simp: handleComplete_def decodeComplete_def denial_def Let_def split: if_splits sum.splits option.splits)
  then show ?thesis using Inl assms(2) by (auto simp: handleComplete_def)
next
  case (Inr req)
  have d: "hr_Body r = Inr \<lparr>cq_Key = cq_Key req, cq_BuildID = cq_BuildID req\<rparr>" "validBuildID (cq_BuildID req)"
    "\<And>e. identify s r = Inl e \<Longrightarrow> cq_BuildID req \<noteq> [] \<and> (bearerToken r \<noteq> [] \<or> hr_AdminToken r \<noteq> [])"
    using Inr by (auto simp: decodeComplete_def denial_def Let_def split: if_splits sum.splits option.splits)
  show ?thesis
  proof (cases "identify s r")
    case e: (Inl err)
    obtain st ae where err: "err = (st, ae)" by force
    show ?thesis using assms(2) d e err Inr
      by (auto simp: handleComplete_def checkOwner_def releaseBuild_def assms(1) tracing_def call_def Let_def split: if_splits)
  next
    case i: (Inr ident)
    show ?thesis
    proof (cases "ri_override ident \<and> ri_repo ident \<noteq> []")
      case True
      define ans where "ans = pa_Repo a [] (cq_Key req)"
      show ?thesis
      proof (cases ans)
        case (Inl e)
        show ?thesis using assms(2) d i Inr True Inl
          by (auto simp: handleComplete_def checkOwner_def assms(1) tracing_def call_def ans_def Let_def split: if_splits)
      next
        case ans: (Inr p)
        obtain repo found where p: "p = (repo, found)" by force
        show ?thesis using assms(2) d i Inr True ans
          by (cases "found \<and> normalizeRepo repo \<noteq> normalizeRepo (ri_repo ident)")
            (auto simp: handleComplete_def checkOwner_def releaseBuild_def assms(1) tracing_def call_def ans_def p Let_def split: if_splits)
      qed
    next
      case False
      show ?thesis using assms(2) d i Inr False
        by (auto simp: handleComplete_def checkOwner_def releaseBuild_def assms(1) tracing_def call_def Let_def split: if_splits)
    qed
  qed
qed

section \<open>Witnesses\<close>

definition sureAnswers :: PAnswers where
  "sureAnswers = \<lparr>pa_Ensure = (\<lambda>_ _ _. None), pa_Ready = (\<lambda>_ _. True), pa_WaitReady = (\<lambda>_ _. None), pa_Endpoint = (\<lambda>_ k. ''tcp://'' @ k),
     pa_End = (\<lambda>_ _ _. True), pa_Repo = (\<lambda>_ _. Inr (''github.com/acme/app'', True)), pa_S3 = (\<lambda>_ _ _ _. (True, True))\<rparr>"

definition sureVerifier :: Verifier where
  "sureVerifier = \<lparr>vr_byIssuer = [], vr_allowlist = []\<rparr>"

definition sureServer :: "(PCall, unit) world routeServer" where
  "sureServer = \<lparr>rs_prov = tracing sureAnswers, rs_Namespace = ''buildkit'', rs_s3Bucket = ''cache'', rs_s3Region = [], rs_s3Endpoint = [],
     rs_s3ExportInterval = 0,
     rs_verifier = Some (sureVerifier, \<lambda>_. Inr \<lparr>id_Issuer = [], id_Repo = ''github.com/acme/app'', id_Untrusted = True\<rparr>),
     rs_authToken = [], rs_adminToken = [], rs_defaults = None, rs_requireBuildID = True\<rparr>"

definition routeCall :: "RouteRequest Request" where
  "routeCall = \<lparr>hr_Method = ''POST'', hr_AdminToken = [], hr_Authorization = ''Bearer t'',
     hr_Body = Inr \<lparr>rq_Repo = ''github.com/evil/app'', rq_Name = [], rq_Target = [], rq_Arch = ''amd64'', rq_Untrusted = False\<rparr>,
     hr_Allowed = True, hr_Random = replicate 8 (CHR ''x''), hr_Slot = True\<rparr>"

definition sureRequest :: RouteRequest where
  "sureRequest = \<lparr>rq_Repo = ''github.com/acme/app'', rq_Name = [], rq_Target = [], rq_Arch = ''amd64'', rq_Untrusted = True\<rparr>"

definition completeCall :: "CompleteRequest Request" where
  "completeCall = \<lparr>hr_Method = ''POST'', hr_AdminToken = [], hr_Authorization = ''Bearer t'',
     hr_Body = Inr \<lparr>cq_Key = ''0123456789abcdef'', cq_BuildID = ''0123456789abcdef''\<rparr>,
     hr_Allowed = True, hr_Random = [], hr_Slot = True\<rparr>"

lemma sure_prov: "rs_prov sureServer = tracing sureAnswers"
  by (simp add: sureServer_def)

lemma sure_fields: "rs_defaults sureServer = None" "rq_Untrusted sureRequest"
  by (simp_all add: sureServer_def sureRequest_def)

lemma sure_identity:
  "identify sureServer routeCall = Inr \<lparr>ri_repo = ''github.com/acme/app'', ri_untrusted = True, ri_override = True\<rparr>"
  "identify sureServer completeCall = Inr \<lparr>ri_repo = ''github.com/acme/app'', ri_untrusted = True, ri_override = True\<rparr>"
  by (simp_all add: identify_def sureServer_def sureVerifier_def allowRepo_def)

lemma sure_valid: "validateRouteRequest sureRequest = None"
  unfolding sureRequest_def by code_simp

lemma sure_decode: "decodeReq sureServer routeCall = Inr sureRequest"
  using sure_valid unfolding decodeReq_def sure_identity by (simp add: routeCall_def sureRequest_def)

lemma sure_ensured: "CEnsure (canonicalSpec sureRequest) True None \<in> set (w_log (snd (run_state (handleRoute sureServer routeCall) noCalls)))"
  by (simp add: handleRoute_def sure_decode Let_def routeBuild_def respondRoute_def cacheFor_def sure_prov tracing_def call_def
      sureAnswers_def routeKey_def applyProjectDefaults_def sure_fields split: prod.split)

theorem route_balanced_witness:
  "rs_prov sureServer = tracing sureAnswers \<and>
   balanced (fst (run_state (handleRoute sureServer routeCall) noCalls)) (w_log (snd (run_state (handleRoute sureServer routeCall) noCalls)))"
  using route_balanced [OF sure_prov, of routeCall] sure_prov by simp

theorem route_identity_bound_witness:
  "CEnsure (canonicalSpec sureRequest) True None \<in> set (w_log (snd (run_state (handleRoute sureServer routeCall) noCalls))) \<and>
   sp_Repo (canonicalSpec sureRequest) = normalizeRepo ''github.com/acme/app''"
  using route_identity_bound [OF sure_prov sure_identity(1) _ sure_ensured] sure_ensured by simp

lemma sure_complete:
  "run_state (handleComplete sureServer completeCall) noCalls = (NoContent, \<lparr>w_log = [CEnd ''0123456789abcdef'' ''0123456789abcdef'' True, CRepo ''0123456789abcdef'' (Inr (''github.com/acme/app'', True))], w_mem = ()\<rparr>)"
proof -
  have v: "validateCompleteRequest ''0123456789abcdef'' = None" "validBuildID ''0123456789abcdef''" by code_simp+
  have d: "decodeComplete sureServer completeCall = Inr \<lparr>cq_Key = ''0123456789abcdef'', cq_BuildID = ''0123456789abcdef''\<rparr>"
    using v unfolding decodeComplete_def sure_identity denial_def by (simp add: completeCall_def)
  show ?thesis
    by (simp add: handleComplete_def d sure_identity checkOwner_def releaseBuild_def sure_prov tracing_def call_def sureAnswers_def Let_def)
qed

theorem complete_authorized_witness:
  "run_state (handleComplete sureServer completeCall) noCalls = (NoContent, \<lparr>w_log = [CEnd ''0123456789abcdef'' ''0123456789abcdef'' True, CRepo ''0123456789abcdef'' (Inr (''github.com/acme/app'', True))], w_mem = ()\<rparr>) \<and>
   validBuildID ''0123456789abcdef''"
  using complete_authorized [OF sure_prov sure_complete] sure_complete by auto

end
