(* ===== verification/Route_Contract.thy ===== *)
theory Route_Contract
  imports Route_Api
begin

text \<open>
  The handlers of the routing API against the contract of their backend. Inside the locales, each
  handler is proved once for every backend: what it does to the registered builds, given only the
  contract's laws. Both backends, the single host's and Kubernetes', are instances.

  \<open>ledgerStep\<close> is the abstract specification: a ledger of registered builds per key, on which a route
  opens at most the build it returns, a completion closes, and everything else leaves alone.
\<close>

section \<open>The specification\<close>

datatype ApiCall = Route "RouteRequest Request" | Prewarm "RouteRequest Request" | Complete "CompleteRequest Request"

definition serve :: "'s routeServer \<Rightarrow> ApiCall \<Rightarrow> ('s, Response) state" where
  "serve srv c = (case c of Route r \<Rightarrow> handleRoute srv r | Prewarm r \<Rightarrow> handlePrewarm srv r | Complete r \<Rightarrow> handleComplete srv r)"

fun serveAll :: "'s routeServer \<Rightarrow> ApiCall list \<Rightarrow> ('s, Response list) state" where
  "serveAll srv [] = ret []"
| "serveAll srv (c # cs) = do { r \<leftarrow> serve srv c; rs \<leftarrow> serveAll srv cs; ret (r # rs) }"

type_synonym ledger = "string \<Rightarrow> string multiset"

text \<open>Below the cap on the set of a project, a successful route adds exactly the build it returns, a failed one
  nothing; at the cap older builds may leave. A completion takes out exactly the build its token names,
  or, without a token, one build; it answers 204 without effect only when there is none. An entry of
  another key is never touched.\<close>

inductive ledgerStep :: "ledger \<Rightarrow> ApiCall \<Rightarrow> Response \<Rightarrow> ledger \<Rightarrow> bool" where
  opened: "m = add_mset (inflightID (rr_BuildID body)) (L (rr_Key body)) \<Longrightarrow>
    ledgerStep L (Route r) (JsonResponse 200 body) (L(rr_Key body := m))"
| opened_full: "InflightCap \<le> size (L (rr_Key body)) \<Longrightarrow> inflightID (rr_BuildID body) \<in># m \<Longrightarrow>
    m \<subseteq># add_mset (inflightID (rr_BuildID body)) (L (rr_Key body)) \<Longrightarrow> ledgerStep L (Route r) (JsonResponse 200 body) (L(rr_Key body := m))"
| failed: "n \<noteq> 200 \<Longrightarrow> ledgerStep L (Route r) (ErrorResponse n e) L"
| failed_full: "n \<noteq> 200 \<Longrightarrow> InflightCap \<le> size (L k) \<Longrightarrow> m \<subseteq># L k \<Longrightarrow> ledgerStep L (Route r) (ErrorResponse n e) (L(k := m))"
| closed: "hr_Body r = Inr \<lparr>cq_Key = k, cq_BuildID = i\<rparr> \<Longrightarrow> x \<in># L k \<Longrightarrow> i \<noteq> [] \<longrightarrow> x = inflightID i \<Longrightarrow>
    ledgerStep L (Complete r) NoContent (L(k := L k - {#x#}))"
| absent: "hr_Body r = Inr \<lparr>cq_Key = k, cq_BuildID = i\<rparr> \<Longrightarrow> (if i = [] then L k = {#} else inflightID i \<notin># L k) \<Longrightarrow>
    ledgerStep L (Complete r) NoContent L"
| refused: "ledgerStep L (Complete r) (ErrorResponse n e) L"
| warmed: "ledgerStep L (Prewarm r) resp L"

fun ledgerRun :: "ledger \<Rightarrow> ApiCall list \<Rightarrow> Response list \<Rightarrow> ledger \<Rightarrow> bool" where
  "ledgerRun L [] [] L' = (L' = L)"
| "ledgerRun L (c # cs) (r # rs) L' = (\<exists>M. ledgerStep L c r M \<and> ledgerRun M cs rs L')"
| "ledgerRun L _ _ L' = False"

lemma mset_without: "x \<in> set xs \<Longrightarrow> mset xs - {#x#} \<subset># mset xs"
  by (metis diff_subset_eq_self insert_DiffM multi_self_add_other_not_self set_mset_mset subset_mset.le_neq_trans)

section \<open>Clients of the contract\<close>

context provisioner_contract
begin

lemma wp_keepsI:
  assumes "wp m (\<lambda>_ s'. ok s' \<and> held s' = held s) s" "\<And>x s'. ok s' \<Longrightarrow> held s' = held s \<Longrightarrow> Q x s'"
  shows "wp m Q s"
  using assms(1) by (rule wp_mono) (use assms(2) in auto)

lemmas keepI = wp_keepsI [OF ensure_keeps] wp_keepsI [OF ready_keeps] wp_keepsI [OF wait_keeps]
  wp_keepsI [OF endpoint_keeps] wp_keepsI [OF touch_keeps] wp_keepsI [OF repo_keeps] wp_keepsI [OF s3_keeps]

lemma cacheFor_keeps:
  assumes "rs_prov srv = P" "ok s" "\<And>x s'. ok s' \<Longrightarrow> held s' = held s \<Longrightarrow> Q x s'"
  shows "wp (cacheFor srv k g) Q s"
  unfolding cacheFor_def wp_rules assms(1)
  using assms(2,3) by (auto simp: wp_rules split: prod.split intro!: keepI)

lemma respondRoute_keeps:
  assumes "rs_prov srv = P" "ok s" "\<And>body s'. ok s' \<Longrightarrow> held s' = held s \<Longrightarrow> rr_Key body = k \<Longrightarrow> rr_BuildID body = i \<Longrightarrow> Q (JsonResponse 200 body) s'"
  shows "wp (respondRoute srv k i) Q s"
  unfolding respondRoute_def wp_rules assms(1)
  by (rule keepI(4), rule assms(2), rule cacheFor_keeps [OF assms(1)])
    (auto simp: wp_rules intro!: assms(3))

lemma handleRoute_wp:
  assumes "rs_prov srv = P" "ok s" "\<And>n e s'. n \<noteq> 200 \<Longrightarrow> ok s' \<Longrightarrow> held s' = held s \<Longrightarrow> Q (ErrorResponse n e) s'"
    "\<And>spec u. wp (pv_Ensure P spec u) (\<lambda>e s'. e = None \<longrightarrow> H s' (if u then forkKey (sp_Key spec) else sp_Key spec)) s"
    "\<And>k s1. ok s1 \<Longrightarrow> held s1 = held s \<Longrightarrow> H s1 k \<Longrightarrow> wp (routeBuild srv k (newBuildID (hr_Random r)) (hr_Slot r)) Q s1"
  shows "wp (handleRoute srv r) Q s"
proof (cases "decodeReq srv r")
  case (Inl resp)
  then obtain n e where "resp = ErrorResponse n e" "n \<noteq> 200"
    by (auto simp: decodeReq_def identify_def Let_def split: sum.splits if_splits option.splits prod.splits)
  then show ?thesis using Inl assms(2,3) by (simp add: handleRoute_def wp_rules)
next
  case (Inr req)
  show ?thesis unfolding handleRoute_def Inr sum.case Let_def wp_bind assms(1)
    by (rule wp_mono [OF wp_conj [OF ensure_keeps [OF assms(2)] assms(4)]])
      (auto simp: wp_rules routeKey_def intro!: assms(3,5) split: option.split if_splits)
qed

text \<open>A prewarm changes nothing that is registered.\<close>

lemma handlePrewarm_keeps:
  assumes "rs_prov srv = P" "ok s"
  shows "wp (handlePrewarm srv r) (\<lambda>_ s'. ok s' \<and> held s' = held s) s"
proof (cases "decodeReq srv r")
  case (Inr req)
  show ?thesis unfolding handlePrewarm_def Inr sum.case Let_def wp_bind assms(1)
    by (rule keepI(1) [OF assms(2)]) (auto simp: wp_rules intro!: keepI cacheFor_keeps [OF assms(1)] split: option.split)
qed (simp add: handlePrewarm_def wp_rules assms(2))

lemma handleComplete_wp:
  assumes "rs_prov srv = P" "ok s" "\<And>n e s'. ok s' \<Longrightarrow> held s' = held s \<Longrightarrow> Q (ErrorResponse n e) s'"
    "\<And>req s1. ok s1 \<Longrightarrow> held s1 = held s \<Longrightarrow> hr_Body r = Inr req \<Longrightarrow> wp (releaseBuild srv (identify srv r) req) Q s1"
  shows "wp (handleComplete srv r) Q s"
proof (cases "decodeComplete srv r")
  case (Inl resp)
  then obtain n e where "resp = ErrorResponse n e"
    by (auto simp: decodeComplete_def denial_def Let_def split: if_splits sum.splits option.splits)
  then show ?thesis using Inl assms(2,3) by (simp add: handleComplete_def wp_rules)
next
  case (Inr req)
  then have b: "hr_Body r = Inr req" by (auto simp: decodeComplete_def Let_def split: if_splits sum.splits)
  have own: "wp (checkOwner srv auth k) (\<lambda>x s'. ok s' \<and> held s' = held s \<and> (\<forall>resp. x = Some resp \<longrightarrow> (\<exists>n e. resp = ErrorResponse n e))) s" for auth k
    unfolding checkOwner_def assms(1) using assms(2) by (auto simp: wp_rules intro!: keepI split: sum.splits if_splits)
  show ?thesis unfolding handleComplete_def Inr sum.case wp_bind
    by (rule wp_mono [OF own]) (auto simp: wp_rules intro!: assms(3,4) b split: option.split)
qed

end

section \<open>Refinement of the ledger\<close>

definition realRequest :: "ApiCall \<Rightarrow> bool" where
  "realRequest c = (case c of Route r \<Rightarrow> length (hr_Random r) = buildIDBytes | _ \<Rightarrow> True)"

lemma newBuildID_nonempty: "length b = buildIDBytes \<Longrightarrow> newBuildID b \<noteq> []"
  using length_hex_encode [of b] by (auto simp: newBuildID_def buildIDBytes_def simp del: length_hex_encode)

context prompt_provisioner
begin

definition ledgerOf :: "'s \<Rightarrow> ledger" where
  "ledgerOf s = (\<lambda>k. mset (held s k))"

lemma ledgerOf_upd: "\<forall>k'. k' \<noteq> k \<longrightarrow> held s' k' = held s k' \<Longrightarrow> ledgerOf s' = (ledgerOf s)(k := mset (held s' k))"
  by (auto simp: ledgerOf_def fun_eq_iff)

text \<open>One step of the specification, from the abstraction of the state before to that of the state after.\<close>

definition simulates :: "'s \<Rightarrow> ApiCall \<Rightarrow> Response \<Rightarrow> 's \<Rightarrow> bool" where
  "simulates s c resp s' \<longleftrightarrow> ok s' \<and> ledgerStep (ledgerOf s) c resp (ledgerOf s')"

lemma failed_same: "n \<noteq> 200 \<Longrightarrow> ok s' \<Longrightarrow> held s' = held s \<Longrightarrow> simulates s (Route r) (ErrorResponse n e) s'"
  using ledgerStep.failed by (simp add: simulates_def ledgerOf_def)

lemma refused_same: "ok s' \<Longrightarrow> held s' = held s \<Longrightarrow> simulates s (Complete r) (ErrorResponse n e) s'"
  using ledgerStep.refused by (simp add: simulates_def ledgerOf_def)

text \<open>The state after a start: exactly the build was added, or the set was full.\<close>

definition started :: "'s \<Rightarrow> string \<Rightarrow> string \<Rightarrow> 's \<Rightarrow> bool" where
  "started s k i s2 \<longleftrightarrow> ok s2 \<and> (\<forall>k'. k' \<noteq> k \<longrightarrow> held s2 k' = held s k') \<and> inflightID i \<in> set (held s2 k) \<and>
     mset (held s2 k) \<subseteq># add_mset (inflightID i) (mset (held s k)) \<and>
     (length (held s k) < InflightCap \<longrightarrow> mset (held s2 k) = add_mset (inflightID i) (mset (held s k)))"

lemma abandon_simulates:
  assumes "rs_prov srv = P" "started s k i s1" "i \<noteq> []" "n \<noteq> 200"
  shows "wp (abandonRoute srv k i (ErrorResponse n e)) (simulates s (Route r)) s1"
proof -
  have ok: "ok s1" using assms(2) by (simp add: started_def)
  show ?thesis unfolding abandonRoute_def assms(1)
  proof (rule wp_bindI [OF wp_conj [OF end_exact [OF ok] end_finds [OF ok]]], goal_cases)
    case (1 released s')
    then have s': "ok s'" "\<forall>k'. k' \<noteq> k \<longrightarrow> held s' k' = held s k'" "mset (held s' k) = mset (held s1 k) - {#inflightID i#}"
      using assms(2,3) unfolding started_def by (auto split: if_splits)
    show ?case
    proof (cases "length (held s k) < InflightCap")
      case True
      then have "mset (held s' k) = mset (held s k)" using assms(2) s'(3) unfolding started_def by simp
      then have "ledgerOf s' = ledgerOf s" using ledgerOf_upd [OF s'(2)] by (simp add: ledgerOf_def fun_eq_iff)
      then show ?thesis using s'(1) ledgerStep.failed [OF assms(4)] by (simp add: wp_rules simulates_def)
    next
      case False
      have "mset (held s' k) \<subseteq># ledgerOf s k" using assms(2) s'(3) unfolding started_def ledgerOf_def
        by (metis add_mset_add_single subset_eq_diff_conv)
      moreover have "InflightCap \<le> size (ledgerOf s k)" using False by (simp add: ledgerOf_def)
      ultimately show ?thesis using ledgerStep.failed_full [OF assms(4)] s'(1)
        by (simp add: wp_rules simulates_def ledgerOf_upd [OF s'(2)])
    qed
  qed
qed

lemma respond_simulates:
  assumes "rs_prov srv = P" "started s k i s1"
  shows "wp (respondRoute srv k i) (simulates s (Route r)) s1"
proof (rule respondRoute_keeps [OF assms(1)])
  show "ok s1" using assms(2) by (simp add: started_def)
  fix body :: RouteResponse and s' assume b: "ok s'" "held s' = held s1" "rr_Key body = k" "rr_BuildID body = i"
  have o: "\<forall>k'. k' \<noteq> k \<longrightarrow> held s' k' = held s k'" using assms(2) b(2) by (simp add: started_def)
  show "simulates s (Route r) (JsonResponse 200 body) s'"
  proof (cases "length (held s k) < InflightCap")
    case True
    then show ?thesis using assms(2) b ledgerStep.opened [of "mset (held s' k)" body "ledgerOf s" r] unfolding started_def
      by (simp add: simulates_def ledgerOf_upd [OF o]) (simp add: ledgerOf_def)
  next
    case False
    then show ?thesis using assms(2) b ledgerStep.opened_full [of "ledgerOf s" body "mset (held s' k)" r] unfolding started_def
      by (simp add: simulates_def ledgerOf_upd [OF o]) (simp add: ledgerOf_def)
  qed
qed

lemma routeBuild_simulates:
  assumes "rs_prov srv = P" "ok s1" "held s1 = held s" "i \<noteq> []" "has s1 k"
  shows "wp (routeBuild srv k i slot) (simulates s (Route r)) s1"
  unfolding routeBuild_def assms(1)
proof (rule wp_bindI [OF wp_conj [OF start_adds [OF assms(2)] start_registers [OF assms(2,5)]]], goal_cases)
  case (1 x s2)
  then have b: "started s k i s2" unfolding started_def assms(3) by auto
  have st: "started s k i s3" if "ok s3" "held s3 = held s2" for s3
    using b that by (simp add: started_def)
  show ?case unfolding wp_bind
    by (rule keepI(2)) (use b in \<open>auto simp: wp_rules started_def intro!: respond_simulates [OF assms(1) st] abandon_simulates [OF assms(1) st assms(4)] keepI(3) split: option.split\<close>)
qed

lemma release_simulates:
  assumes "rs_prov srv = P" "ok s1" "held s1 = held s" "hr_Body r = Inr req"
  shows "wp (releaseBuild srv auth req) (simulates s (Complete r)) s1"
proof (cases "rs_requireBuildID srv \<and> cq_BuildID req = []")
  case True
  then show ?thesis using assms(2,3) ledgerStep.refused by (simp add: releaseBuild_def wp_rules simulates_def ledgerOf_def)
next
  case False
  define k i where "k = cq_Key req" and "i = cq_BuildID req"
  have b: "hr_Body r = Inr \<lparr>cq_Key = k, cq_BuildID = i\<rparr>" by (simp add: assms(4) k_def i_def)
  have F: "\<not> (rs_requireBuildID srv \<and> i = [])" using False by (simp add: i_def)
  show ?thesis unfolding releaseBuild_def k_def [symmetric] i_def [symmetric] if_not_P [OF F] assms(1)
  proof (rule wp_bindI [OF wp_conj [OF end_exact [OF assms(2)] end_finds [OF assms(2)]]], goal_cases)
    case (1 released s')
    then have s': "ok s'" "\<forall>k'. k' \<noteq> k \<longrightarrow> held s' k' = held s k'" unfolding assms(3) by auto
    show ?case
    proof (cases released)
      case True
      then obtain x where x: "x \<in># ledgerOf s k" "i \<noteq> [] \<longrightarrow> x = inflightID i" "mset (held s' k) = ledgerOf s k - {#x#}"
        using 1 unfolding assms(3) ledgerOf_def by auto
      show ?thesis using True s'(1) ledgerStep.closed [where L = "ledgerOf s", OF b x(1,2)] ledgerOf_upd [OF s'(2)] x(3)
        by (simp add: wp_rules simulates_def split: sum.split)
    next
      case False
      then have h: "held s' = held s" "if i = [] then ledgerOf s k = {#} else inflightID i \<notin># ledgerOf s k"
        using 1 unfolding assms(3) ledgerOf_def by (auto split: if_splits)
      show ?thesis using False s'(1) h(1) ledgerStep.absent [where L = "ledgerOf s", OF b h(2)] ledgerStep.refused [of "ledgerOf s" r]
        by (simp add: wp_rules simulates_def ledgerOf_def split: sum.split)
    qed
  qed
qed

lemma serve_simulates:
  assumes "rs_prov srv = P" "ok s" "realRequest c"
  shows "wp (serve srv c) (simulates s c) s"
proof (cases c)
  case (Route r)
  have i: "newBuildID (hr_Random r) \<noteq> []" using assms(3) Route by (simp add: realRequest_def newBuildID_nonempty)
  show ?thesis unfolding Route serve_def ApiCall.case
    by (rule handleRoute_wp [OF assms(1,2) _ ensure_makes [OF assms(2)]]) (auto intro: failed_same routeBuild_simulates [OF assms(1) _ _ i])
next
  case (Prewarm r)
  show ?thesis unfolding Prewarm serve_def ApiCall.case
    by (rule wp_mono [OF handlePrewarm_keeps [OF assms(1,2)]]) (auto simp: simulates_def ledgerOf_def intro: ledgerStep.warmed)
next
  case (Complete r)
  show ?thesis unfolding Complete serve_def ApiCall.case
    by (rule handleComplete_wp [OF assms(1,2)]) (auto intro: refused_same release_simulates [OF assms(1)])
qed

lemma serveAll_refines:
  assumes "rs_prov srv = P" "ok s" "list_all realRequest cs"
  shows "wp (serveAll srv cs) (\<lambda>rs s'. ok s' \<and> ledgerRun (ledgerOf s) cs rs (ledgerOf s')) s"
  using assms(2,3)
proof (induction cs arbitrary: s)
  case (Cons c cs)
  show ?case unfolding serveAll.simps
  proof (rule wp_bindI [OF serve_simulates [OF assms(1) Cons.prems(1)]], use Cons.prems in simp, goal_cases)
    case (1 resp s1)
    then have s1: "ok s1" "ledgerStep (ledgerOf s) c resp (ledgerOf s1)" by (auto simp: simulates_def)
    show ?case unfolding wp_bind
      by (rule wp_mono [OF Cons.IH [OF s1(1)]]) (use Cons.prems s1(2) in \<open>auto simp: wp_rules\<close>)
  qed
qed (simp add: wp_rules)

end

end
