(* ===== verification/K8s_Contract.thy ===== *)
theory K8s_Contract
  imports K8s_Provisioner Route_Contract
begin

text \<open>
  The Kubernetes backend keeps the provisioner's contract, and its bookkeeping is exact, over a server that
  stores what it accepts.

  \<open>storeEnv base\<close> is such a server, computed from the log: a read answers with the object last accepted
  under the name, a creation is refused when there is one, a status update replaces the status of the
  stored object. The arbitrary \<open>base\<close> decides which calls fail, and how, and answers everything else.
  \<open>patient base\<close> bounds the failures to what the status writes retry: a read of a project is answered,
  a status update fails with conflicts only, fewer in a row than the attempts of \<open>touchStatus\<close>.
\<close>

section \<open>A server that stores\<close>

definition writtenBP :: "Event \<Rightarrow> BuildProject option" where
  "writtenBP e = (case e of ECreateBP _ (Inr b) \<Rightarrow> Some b | EUpdateBPStatus _ (Inr b) \<Rightarrow> Some b | _ \<Rightarrow> None)"

primrec storedBP :: "elog \<Rightarrow> string \<Rightarrow> string \<Rightarrow> BuildProject option" where
  "storedBP [] ns n = None"
| "storedBP (e # l) ns n =
     (case writtenBP e of
        Some b \<Rightarrow> if bp_Namespace b = ns \<and> bp_Name b = n then Some b else storedBP l ns n
      | None \<Rightarrow> storedBP l ns n)"

definition storeEnv :: "Env \<Rightarrow> Env" where
  "storeEnv base = base\<lparr>
     ev_getBP := \<lambda>l rd n ns. (case ev_getBP base l rd n ns of
         Inl e \<Rightarrow> Inl e
       | Inr _ \<Rightarrow> (case storedBP l ns n of None \<Rightarrow> Inl NotFound | Some b \<Rightarrow> Inr b)),
     ev_createBP := \<lambda>l b. (case ev_createBP base l b of
         Inl e \<Rightarrow> Inl e
       | Inr _ \<Rightarrow> (case storedBP l (bp_Namespace b) (bp_Name b) of None \<Rightarrow> Inr b | Some _ \<Rightarrow> Inl AlreadyExists)),
     ev_updateBPStatus := \<lambda>l b. (case ev_updateBPStatus base l b of
         Inl e \<Rightarrow> Inl e
       | Inr _ \<Rightarrow> (case storedBP l (bp_Namespace b) (bp_Name b) of None \<Rightarrow> Inl NotFound | Some cur \<Rightarrow> Inr (cur\<lparr>bp_Status := bp_Status b\<rparr>)))\<rparr>"

lemma written_simps [simp]:
  "writtenBP (ENow t) = None" "writtenBP (EGetBP rd n ns x) = None" "writtenBP (EGetSts n ns y) = None" "writtenBP (ESleep d z) = None"
  "writtenBP (ECreateBP b (Inl e)) = None" "writtenBP (ECreateBP b (Inr b')) = Some b'"
  "writtenBP (EUpdateBPStatus b (Inl e)) = None" "writtenBP (EUpdateBPStatus b (Inr b')) = Some b'"
  by (simp_all add: writtenBP_def)

lemma stored_named: "storedBP l ns n = Some b \<Longrightarrow> bp_Namespace b = ns \<and> bp_Name b = n"
  by (induction l) (auto split: option.splits if_splits)

section \<open>The backend\<close>

definition errString :: "(ApiErr \<Rightarrow> string) \<Rightarrow> ApiErr option \<Rightarrow> string option" where
  "errString render e = map_option render e"

definition k8sBackend :: "nat \<Rightarrow> (ApiErr \<Rightarrow> string) \<Rightarrow> Env \<Rightarrow> K8sProvisioner \<Rightarrow> (Event, unit) world Provisioner" where
  "k8sBackend fuel render env p = \<lparr>
     pv_Ensure = (\<lambda>spec u. do { e \<leftarrow> k8s_Ensure env p spec u; ret (errString render e) }),
     pv_Ready = k8s_Ready env p,
     pv_WaitReady = (\<lambda>k. do { r \<leftarrow> k8s_WaitReady fuel env p k; ret (case r of None \<Rightarrow> Some ''still waiting'' | Some e \<Rightarrow> e) }),
     pv_Endpoint = (\<lambda>k. ret (k8s_Endpoint p k)),
     pv_StartInflight = k8s_StartInflight env p,
     pv_EndInflight = k8s_EndInflight env p,
     pv_Touch = k8s_Touch env p,
     pv_ProjectRepo = (\<lambda>k. do { r \<leftarrow> k8s_ProjectRepo env p k; ret (case r of Inl e \<Rightarrow> Inl (render e) | Inr x \<Rightarrow> Inr x) }),
     pv_S3CacheDecision = k8s_S3CacheDecision env p\<rparr>"

text \<open>The builds registered for a key.\<close>

definition k8sHeld :: "K8sProvisioner \<Rightarrow> (Event, unit) world \<Rightarrow> string \<Rightarrow> string list" where
  "k8sHeld p w key = (case storedBP (w_log w) (kp_namespace p) key of None \<Rightarrow> [] | Some b \<Rightarrow> map ib_ID (st_Inflight (bp_Status b)))"

definition k8sHas :: "K8sProvisioner \<Rightarrow> (Event, unit) world \<Rightarrow> string \<Rightarrow> bool" where
  "k8sHas p w key \<longleftrightarrow> storedBP (w_log w) (kp_namespace p) key \<noteq> None"

text \<open>A build that is not older than the window of the backend, whenever the clock is read; the clock stays within
  one window when every build registered while it runs is one. The invariant: every stored status counts
  its entries correctly, and none of them is past the window.\<close>

definition lasting :: "K8sProvisioner \<Rightarrow> Env \<Rightarrow> InflightBuild \<Rightarrow> bool" where
  "lasting p base e \<longleftrightarrow> kp_maxBuild p \<le> 0 \<or> (\<forall>l. timeSub (ev_now base l) (ib_Since e) \<le> kp_maxBuild p)"

definition oneWindow :: "K8sProvisioner \<Rightarrow> Env \<Rightarrow> bool" where
  "oneWindow p base \<longleftrightarrow> (\<forall>l x. lasting p base \<lparr>ib_ID = x, ib_Since = ev_now base l\<rparr>)"

definition fine :: "K8sProvisioner \<Rightarrow> Env \<Rightarrow> BuildProjectStatus \<Rightarrow> bool" where
  "fine p base st \<longleftrightarrow> inflight_wf st \<and> list_all (lasting p base) (st_Inflight st)"

definition k8sOk :: "K8sProvisioner \<Rightarrow> Env \<Rightarrow> (Event, unit) world \<Rightarrow> bool" where
  "k8sOk p base w \<longleftrightarrow> (\<forall>ns n b. storedBP (w_log w) ns n = Some b \<longrightarrow> fine p base (bp_Status b))"

text \<open>The failures of the server: status updates refused in a row, and what is refused at all.\<close>

primrec refusedInRow :: "elog \<Rightarrow> nat" where
  "refusedInRow [] = 0"
| "refusedInRow (e # l) =
     (case e of EUpdateBPStatus _ (Inl _) \<Rightarrow> Suc (refusedInRow l) | EUpdateBPStatus _ (Inr _) \<Rightarrow> 0 | _ \<Rightarrow> refusedInRow l)"

definition patient :: "Env \<Rightarrow> bool" where
  "patient base \<longleftrightarrow>
     (\<forall>l rd n ns. \<exists>b. ev_getBP base l rd n ns = Inr b) \<and>
     (\<forall>l b e. ev_createBP base l b = Inl e \<longrightarrow> \<not> isAlreadyExists e) \<and>
     (\<forall>l b e. ev_updateBPStatus base l b = Inl e \<longrightarrow> isConflict e \<and> Suc (refusedInRow l) < statusBackoffSteps)"

lemma patient_get: "patient base \<Longrightarrow> ev_getBP (storeEnv base) l rd n ns = (case storedBP l ns n of None \<Rightarrow> Inl NotFound | Some b \<Rightarrow> Inr b)"
  unfolding patient_def by (auto simp: storeEnv_def) (metis (no_types, lifting) sum.case(2))

lemma patient_update:
  assumes "patient base" "storedBP l (bp_Namespace b) (bp_Name b) = Some cur"
  shows "case ev_updateBPStatus (storeEnv base) l b of
      Inl e \<Rightarrow> isConflict e \<and> Suc (refusedInRow l) < statusBackoffSteps | Inr b' \<Rightarrow> b' = cur\<lparr>bp_Status := bp_Status b\<rparr>"
  using assms by (simp add: storeEnv_def patient_def split: sum.split)

section \<open>The store behind a status write\<close>

definition put :: "K8sProvisioner \<Rightarrow> string \<Rightarrow> BuildProject \<Rightarrow> (string \<Rightarrow> string \<Rightarrow> BuildProject option) \<Rightarrow> string \<Rightarrow> string \<Rightarrow> BuildProject option" where
  "put p key b S = S(kp_namespace p := (S (kp_namespace p))(key \<mapsto> b))"

lemma stored_put:
  assumes "storedBP l (kp_namespace p) key = Some cur" "bp_Status b = st"
  shows "storedBP (EUpdateBPStatus b (Inr (cur\<lparr>bp_Status := st\<rparr>)) # l) = put p key (cur\<lparr>bp_Status := st\<rparr>) (storedBP l)"
  using stored_named [OF assms(1)] by (auto simp: put_def fun_eq_iff)

lemma stored_read: "writtenBP e = None \<Longrightarrow> storedBP (e # l) = storedBP l"
  by (simp add: fun_eq_iff)

text \<open>One attempt at a stored project: refused with a conflict and one refusal more in a row, or the mutation of the
  stored status decided, at one reading of the clock, and its result is stored if it applied.\<close>

definition decided :: "K8sProvisioner \<Rightarrow> Env \<Rightarrow> string \<Rightarrow> (BuildProjectStatus \<Rightarrow> time \<Rightarrow> BuildProjectStatus \<times> bool) \<Rightarrow> BuildProject \<Rightarrow>
    (string \<Rightarrow> string \<Rightarrow> BuildProject option) \<Rightarrow> bool \<Rightarrow> (Event, unit) world \<Rightarrow> bool" where
  "decided p base key mutate cur S yes w' \<longleftrightarrow>
     (\<exists>l st. mutate (bp_Status cur) (ev_now base l) = (st, yes) \<and>
        storedBP (w_log w') = (if yes then put p key (cur\<lparr>bp_Status := st\<lparr>st_LastBuildTime := Some (ev_now base l)\<rparr>\<rparr>) S else S))"

lemma wp_touchOnce_store:
  assumes "patient base" "storedBP (w_log w) = S" "S (kp_namespace p) key = Some cur"
  shows "wp (touchOnce (storeEnv base) p key mutate)
    (\<lambda>r w'. case r of
        Inl e \<Rightarrow> isConflict e \<and> storedBP (w_log w') = S \<and> refusedInRow (w_log w') = Suc (refusedInRow (w_log w)) \<and> refusedInRow (w_log w') < statusBackoffSteps
      | Inr yes \<Rightarrow> decided p base key mutate cur S yes w') w"
proof -
  let ?g = "EGetBP Cached key (kp_namespace p) (Inr cur)"
  define now where "now = ev_now base (?g # w_log w)"
  have clock: "ev_now (storeEnv base) (?g # w_log w) = now" by (simp add: storeEnv_def now_def)
  have get: "ev_getBP (storeEnv base) (w_log w) Cached key (kp_namespace p) = Inr cur" using assms by (simp add: patient_get)
  obtain st yes where m: "mutate (bp_Status cur) now = (st, yes)" by force
  let ?l = "ENow now # ?g # w_log w" and ?b = "cur\<lparr>bp_Status := st\<lparr>st_LastBuildTime := Some now\<rparr>\<rparr>"
  have l: "storedBP ?l = S" "refusedInRow ?l = refusedInRow (w_log w)" using assms(2) by (simp_all add: stored_read del: storedBP.simps)
  have c: "storedBP ?l (kp_namespace p) key = Some cur" using l(1) assms(3) by simp
  have d: "decided p base key mutate cur S yes w'" if "storedBP (w_log w') = (if yes then put p key ?b S else S)" for w'
    unfolding decided_def using m that by (intro exI [of _ "?g # w_log w"]) (auto simp: now_def)
  show ?thesis
  proof (cases yes)
    case False
    then show ?thesis using get m clock d l(1) by (simp add: touchOnce_def wp_rules)
  next
    case True
    have u: "case ev_updateBPStatus (storeEnv base) ?l ?b of
        Inl e \<Rightarrow> isConflict e \<and> Suc (refusedInRow ?l) < statusBackoffSteps | Inr b' \<Rightarrow> b' = ?b"
      using patient_update [OF assms(1), of ?l ?b cur] c stored_named [OF c] by (simp split: sum.splits)
    have "storedBP (EUpdateBPStatus ?b (Inr ?b) # ?l) = put p key ?b S" using stored_put [OF c, of ?b] l(1) by (simp del: storedBP.simps)
    then show ?thesis using get m clock d l u True
      by (cases "ev_updateBPStatus (storeEnv base) ?l ?b") (simp_all add: touchOnce_def wp_rules updateBPStatus_def stored_read del: storedBP.simps)
  qed
qed

text \<open>A body that fails only with errors that are retried, and fewer times in a row than there are attempts, succeeds.\<close>

lemma wp_retrying_succeeds:
  assumes "I w" "N \<le> m w + n" "\<And>w'. I w' \<Longrightarrow> wp body (\<lambda>r w''. case r of Inl e \<Rightarrow> again e \<and> I w'' \<and> m w'' = Suc (m w') \<and> m w'' < N | Inr x \<Rightarrow> Q x w'') w'"
  shows "wp (retrying n again body) (\<lambda>r w'. case r of Inl _ \<Rightarrow> False | Inr x \<Rightarrow> Q x w') w"
  using assms(1,2)
proof (induction n arbitrary: w)
  case 0
  then show ?case unfolding retrying.simps by (intro wp_mono [OF assms(3)]) (auto split: sum.splits)
next
  case (Suc n)
  show ?case unfolding retrying.simps wp_rules
    by (rule wp_mono [OF assms(3) [OF Suc.prems(1)]]) (use Suc in \<open>auto simp: wp_rules split: sum.split_asm\<close>)
qed

lemma wp_touchStatus_store:
  assumes "patient base" "S = storedBP (w_log w)"
  shows "wp (touchStatus (storeEnv base) p key rm mutate)
    (\<lambda>yes w'. case S (kp_namespace p) key of None \<Rightarrow> \<not> yes \<and> storedBP (w_log w') = S | Some cur \<Rightarrow> decided p base key mutate cur S yes w') w"
proof (cases "S (kp_namespace p) key")
  case None
  have "wp (retrying statusBackoffSteps again (touchOnce (storeEnv base) p key mutate)) (\<lambda>r w'. r = Inl NotFound \<and> storedBP (w_log w') = S) w" for again
    by (rule wp_retrying_post [where I = "\<lambda>w. storedBP (w_log w) = S"])
      (use None in \<open>simp_all add: assms touchOnce_def wp_rules patient_get [OF assms(1)] stored_read del: storedBP.simps\<close>)
  note this [where again = "if rm then retriableStatusErr else isConflict"]
  then show ?thesis unfolding touchStatus_def wp_bind by (rule wp_mono) (simp add: wp_rules None)
next
  case (Some cur)
  have "wp (retrying statusBackoffSteps (if rm then retriableStatusErr else isConflict) (touchOnce (storeEnv base) p key mutate))
      (\<lambda>r w'. case r of Inl _ \<Rightarrow> False | Inr yes \<Rightarrow> decided p base key mutate cur S yes w') w"
    by (rule wp_retrying_succeeds [where I = "\<lambda>w. storedBP (w_log w) = S" and m = "\<lambda>w. refusedInRow (w_log w)" and N = statusBackoffSteps])
      (use assms Some in \<open>auto simp: retriableStatusErr_def intro!: wp_mono [OF wp_touchOnce_store [OF assms(1)]] split: sum.splits\<close>)
  then show ?thesis unfolding touchStatus_def wp_bind by (rule wp_mono) (auto simp: wp_rules Some split: sum.splits)
qed

section \<open>The two mutations\<close>

lemma wf_unadopted: "inflight_wf st \<Longrightarrow> adoptLegacyInflight st = (st, False)"
  by (auto simp: inflight_wf_def adoptLegacyInflight_def split: option.split)

lemma live_all: "fine p base st \<Longrightarrow> k8s_live p st (ev_now base l) = (st, st_Inflight st)"
  by (auto simp: fine_def lasting_def k8s_live_def wf_unadopted expireInflight_fst list_all_iff filter_id_conv)

lemma inflight_wf_stamp [simp]:
  "inflight_wf (st\<lparr>st_LastBuildTime := x\<rparr>) = inflight_wf st" "inflight_wf (st\<lparr>st_LastCacheExportGrant := x\<rparr>) = inflight_wf st"
  "inflight_wf (st\<lparr>st_RecentBuildTimes := y\<rparr>) = inflight_wf st"
  by (simp_all add: inflight_wf_def)

lemma fine_stamp [simp]:
  "fine p base (st\<lparr>st_LastBuildTime := x\<rparr>) = fine p base st" "fine p base (st\<lparr>st_LastCacheExportGrant := x\<rparr>) = fine p base st"
  by (simp_all add: fine_def)

lemma start_mutated:
  assumes "fine p base old" "oneWindow p base" "startMutation p key tok old (ev_now base l) = (st, yes)"
  shows "yes \<and> fine p base st \<and> st_Inflight st = startInflight (st_Inflight old) tok (ev_now base l)"
proof -
  let ?bs = "startInflight (st_Inflight old) tok (ev_now base l)"
  have cap: "capInflight ?bs = ?bs" by (rule capInflight_id) (rule startInflight_held(3))
  have "set ?bs \<subseteq> set (st_Inflight old) \<union> {\<lparr>ib_ID = inflightID tok, ib_Since = ev_now base l\<rparr>}"
    using set_capInflight by (fastforce simp: startInflight_def)
  then have "list_all (lasting p base) ?bs" using assms(1,2) by (auto simp: fine_def oneWindow_def list_all_iff)
  then show ?thesis using assms(3) cap setInflight_wf [of ?bs old]
    by (auto simp: startMutation_def live_all [OF assms(1)] fine_def Let_def split: if_splits)
qed

lemma end_mutated:
  assumes "fine p base old" "endMutation p tok old (ev_now base l) = (st, yes)"
  shows "if yes then fine p base st \<and> (\<exists>x \<in> set (map ib_ID (st_Inflight old)). (tok \<noteq> [] \<longrightarrow> x = inflightID tok) \<and>
       mset (map ib_ID (st_Inflight st)) = mset (map ib_ID (st_Inflight old)) - {#x#})
     else if tok = [] then st_Inflight old = [] else inflightID tok \<notin> set (map ib_ID (st_Inflight old))"
proof -
  obtain rest found where e: "endInflightAt (st_Inflight old) tok (Some (ev_now base l + wrap64 (- kp_maxBuild p))) = (rest, found)" by force
  have st: "yes = found" "found \<Longrightarrow> st = setInflight rest old"
    using assms(2) e by (auto simp: endMutation_def live_all [OF assms(1)] endInflightBefore_def split: if_splits)
  note h = endInflightAt_held [OF e]
  show ?thesis
  proof (cases found)
    case True
    then have r: "length rest \<le> InflightCap" "set rest \<subseteq> set (st_Inflight old)" using h assms(1) by (auto simp: fine_def inflight_wf_def)
    then have "fine p base st" using st(2) [OF True] setInflight_wf [of rest old] assms(1) by (auto simp: fine_def list_all_iff capInflight_id)
    then show ?thesis using h True st r(1) by (simp add: capInflight_id)
  qed (use h st in \<open>auto split: if_splits\<close>)
qed

section \<open>The operations that keep the builds\<close>

definition kbuilds :: "K8sProvisioner \<Rightarrow> Env \<Rightarrow> (string \<Rightarrow> string list) \<Rightarrow> (Event, unit) world \<Rightarrow> bool" where
  "kbuilds p base h w \<longleftrightarrow> k8sOk p base w \<and> k8sHeld p w = h"

lemma kbuilds_cong: "storedBP (w_log w') = storedBP (w_log w) \<Longrightarrow> kbuilds p base h w' = kbuilds p base h w"
  by (simp add: kbuilds_def k8sOk_def k8sHeld_def fun_eq_iff)

lemma kbuilds_read: "writtenBP e = None \<Longrightarrow> kbuilds p base h (w\<lparr>w_log := e # l\<rparr>) = kbuilds p base h (w\<lparr>w_log := l\<rparr>)"
  by (rule kbuilds_cong) (simp add: fun_eq_iff)

lemma kbuilds_same: "kbuilds p base h (w\<lparr>w_log := w_log w\<rparr>) = kbuilds p base h w"
  by simp

lemma kbuilds_put:
  assumes "kbuilds p base h w" "storedBP (w_log w') = put p key b (storedBP (w_log w))" "fine p base (bp_Status b)"
  shows "kbuilds p base (h(key := map ib_ID (st_Inflight (bp_Status b)))) w'"
  using assms by (auto simp: kbuilds_def k8sOk_def k8sHeld_def put_def fun_eq_iff split: if_splits)

lemma kbuilds_stored:
  "kbuilds p base h w \<Longrightarrow> storedBP (w_log w) (kp_namespace p) key = Some cur \<Longrightarrow> fine p base (bp_Status cur) \<and> h key = map ib_ID (st_Inflight (bp_Status cur))"
  by (auto simp: kbuilds_def k8sOk_def k8sHeld_def)

lemma kbuilds_missing: "kbuilds p base h w \<Longrightarrow> storedBP (w_log w) (kp_namespace p) key = None \<Longrightarrow> h key = []"
  by (auto simp: kbuilds_def k8sHeld_def)

lemma k8s_start:
  assumes "patient base" "oneWindow p base" "kbuilds p base h w"
  shows "wp (k8s_StartInflight (storeEnv base) p key tok) (\<lambda>_ w'. \<exists>bs. kbuilds p base (h(key := bs)) w' \<and>
    mset bs \<subseteq># add_mset (inflightID tok) (mset (h key)) \<and>
    (k8sHas p w key \<longrightarrow> inflightID tok \<in> set bs \<and> (length (h key) < InflightCap \<longrightarrow> mset bs = add_mset (inflightID tok) (mset (h key))))) w"
  unfolding k8s_StartInflight_def wp_bind wp_return
proof (rule wp_mono [OF wp_touchStatus_store [OF assms(1) refl]], goal_cases)
  case (1 yes w')
  show ?case
  proof (cases "storedBP (w_log w) (kp_namespace p) key")
    case None
    have "kbuilds p base h w'" using None 1 assms(3) kbuilds_cong [of w' w] by simp
    then have "kbuilds p base (h(key := h key)) w'" by (simp only: fun_upd_triv)
    moreover have "h key = []" by (rule kbuilds_missing [OF assms(3) None])
    ultimately show ?thesis using None by (intro exI [of _ "h key"]) (simp add: k8sHas_def)
  next
    case (Some cur)
    note cur = kbuilds_stored [OF assms(3) Some]
    obtain l st where m: "startMutation p key tok (bp_Status cur) (ev_now base l) = (st, yes)"
      "storedBP (w_log w') = (if yes then put p key (cur\<lparr>bp_Status := st\<lparr>st_LastBuildTime := Some (ev_now base l)\<rparr>\<rparr>) (storedBP (w_log w)) else storedBP (w_log w))"
      using 1 Some by (auto simp: decided_def)
    note s = start_mutated [OF conjunct1 [OF cur] assms(2) m(1)]
    have "kbuilds p base (h(key := map ib_ID (st_Inflight st))) w'"
      using kbuilds_put [OF assms(3), of w' key "cur\<lparr>bp_Status := st\<lparr>st_LastBuildTime := Some (ev_now base l)\<rparr>\<rparr>"] s m(2) by simp
    then show ?thesis using s cur startInflight_held(1,2) [where bs = "st_Inflight (bp_Status cur)" and tok = tok]
        startInflight_exact [where bs = "st_Inflight (bp_Status cur)" and tok = tok]
      by (intro exI [of _ "map ib_ID (st_Inflight st)"]) simp
  qed
qed

lemma k8s_end:
  assumes "patient base" "kbuilds p base h w"
  shows "wp (k8s_EndInflight (storeEnv base) p key tok) (\<lambda>released w'.
    if released then \<exists>bs. kbuilds p base (h(key := bs)) w' \<and> (\<exists>x \<in> set (h key). (tok \<noteq> [] \<longrightarrow> x = inflightID tok) \<and> mset bs = mset (h key) - {#x#})
    else kbuilds p base h w' \<and> (if tok = [] then h key = [] else inflightID tok \<notin> set (h key))) w"
  unfolding k8s_EndInflight_def
proof (rule wp_mono [OF wp_touchStatus_store [OF assms(1) refl]], goal_cases)
  case (1 released w')
  show ?case
  proof (cases "storedBP (w_log w) (kp_namespace p) key")
    case None
    then show ?thesis using 1 assms(2) kbuilds_cong [of w' w] kbuilds_missing [OF assms(2) None] by simp
  next
    case (Some cur)
    note cur = kbuilds_stored [OF assms(2) Some]
    obtain l st where m: "endMutation p tok (bp_Status cur) (ev_now base l) = (st, released)"
      "storedBP (w_log w') = (if released then put p key (cur\<lparr>bp_Status := st\<lparr>st_LastBuildTime := Some (ev_now base l)\<rparr>\<rparr>) (storedBP (w_log w)) else storedBP (w_log w))"
      using 1 Some by (auto simp: decided_def)
    note e = end_mutated [OF conjunct1 [OF cur] m(1)]
    show ?thesis
    proof (cases released)
      case True
      have "kbuilds p base (h(key := map ib_ID (st_Inflight st))) w'"
        using kbuilds_put [OF assms(2), of w' key "cur\<lparr>bp_Status := st\<lparr>st_LastBuildTime := Some (ev_now base l)\<rparr>\<rparr>"] e m(2) True by simp
      then show ?thesis using True e cur by (auto intro!: exI [of _ "map ib_ID (st_Inflight st)"])
    qed (use e cur m(2) assms(2) kbuilds_cong [of w' w] in \<open>auto split: if_splits\<close>)
  qed
qed

lemma keeps_k8s_Touch:
  assumes "patient base"
  shows "keeps (kbuilds p base h) (k8s_Touch (storeEnv base) p key)"
  unfolding keeps_def k8s_Touch_def wp_bind wp_return
proof (intro allI impI, rule wp_mono [OF wp_touchStatus_store [OF assms refl]], goal_cases)
  case (1 w yes w')
  show ?case
  proof (cases "storedBP (w_log w) (kp_namespace p) key")
    case None
    then show ?thesis using 1 kbuilds_cong [of w' w] by simp
  next
    case (Some cur)
    then obtain t where put: "storedBP (w_log w') = put p key (cur\<lparr>bp_Status := (bp_Status cur)\<lparr>st_LastBuildTime := t\<rparr>\<rparr>) (storedBP (w_log w))"
      using 1(2) by (auto simp: decided_def)
    note cur = kbuilds_stored [OF 1(1) Some]
    have "h(key := map ib_ID (st_Inflight (bp_Status cur))) = h" using cur by auto
    then show ?thesis using kbuilds_put [OF 1(1) put] cur by simp
  qed
qed

lemma keeps_k8s_reads [keeps_rules]:
  "keeps (kbuilds p base h) (timeNow env)" "keeps (kbuilds p base h) (getBP env rd n ns)" "keeps (kbuilds p base h) (getSts env n ns)"
  "keeps (kbuilds p base h) (sleepFor env d)"
  by (simp_all add: keeps_def kube_calls wp_rules kbuilds_read)

text \<open>A status write that carries the entries of the stored object over.\<close>

lemma kbuilds_carry:
  assumes "kbuilds p base h w" "storedBP (w_log w) (kp_namespace p) n = Some cur" "bp_Namespace b = kp_namespace p" "bp_Name b = n"
    "fine p base (bp_Status b)" "st_Inflight (bp_Status b) = st_Inflight (bp_Status cur)"
  shows "kbuilds p base h (w\<lparr>w_log := EUpdateBPStatus b (ev_updateBPStatus (storeEnv base) (w_log w) b) # w_log w\<rparr>)"
proof (cases "ev_updateBPStatus (storeEnv base) (w_log w) b")
  case (Inl e)
  then show ?thesis using assms(1) by (simp add: kbuilds_read)
next
  case (Inr b')
  then have b': "b' = cur\<lparr>bp_Status := bp_Status b\<rparr>" using assms(2-4) by (auto simp: storeEnv_def split: sum.splits)
  have "h(n := map ib_ID (st_Inflight (bp_Status b))) = h" using kbuilds_stored [OF assms(1,2)] assms(6) by auto
  then show ?thesis using kbuilds_put [OF assms(1), of "w\<lparr>w_log := EUpdateBPStatus b (Inr b') # w_log w\<rparr>" n b'] stored_put [OF assms(2), of b] assms(5)
    unfolding Inr b' by (simp del: storedBP.simps)
qed

lemma fine_zeroStatus: "fine p base zeroStatus"
  by (simp add: fine_def inflight_wf_def zeroStatus_def)

lemma kbuilds_create:
  assumes "kbuilds p base h w" "storedBP (w_log w) (bp_Namespace b) (bp_Name b) = None" "bp_Status b = zeroStatus" "bp_Namespace b = kp_namespace p"
  shows "kbuilds p base h (w\<lparr>w_log := ECreateBP b (Inr b) # w_log w\<rparr>)"
proof -
  have "h(bp_Name b := map ib_ID (st_Inflight (bp_Status b))) = h"
    using kbuilds_missing [OF assms(1), of "bp_Name b"] assms(2-4) by (auto simp: zeroStatus_def)
  moreover have "storedBP (ECreateBP b (Inr b) # w_log w) = put p (bp_Name b) b (storedBP (w_log w))"
    using assms(4) by (auto simp: put_def fun_eq_iff)
  ultimately show ?thesis using kbuilds_put [OF assms(1), of "w\<lparr>w_log := ECreateBP b (Inr b) # w_log w\<rparr>" "bp_Name b" b] fine_zeroStatus assms(3)
    by (simp del: storedBP.simps)
qed

lemma wp_create_store:
  assumes "kbuilds p base h w" "bp_Status b = zeroStatus" "bp_Namespace b = kp_namespace p"
  shows "wp (createBP (storeEnv base) b \<bind> (\<lambda>c. case c of Inl e \<Rightarrow> ret (f e) | Inr created \<Rightarrow>
      timeNow (storeEnv base) \<bind> (\<lambda>now. updateBPStatus (storeEnv base) (created\<lparr>bp_Status := (bp_Status created)\<lparr>st_LastBuildTime := Some now\<rparr>\<rparr>) \<bind> (\<lambda>_. ret r)))) (\<lambda>_. kbuilds p base h) w"
proof (cases "ev_createBP (storeEnv base) (w_log w) b")
  case (Inl e)
  then show ?thesis using assms(1) by (simp add: wp_rules createBP_def kbuilds_read)
next
  case (Inr created)
  then have c: "created = b" "storedBP (w_log w) (bp_Namespace b) (bp_Name b) = None"
    by (auto simp: storeEnv_def split: sum.splits option.splits)
  define now where "now = ev_now (storeEnv base) (ECreateBP b (Inr b) # w_log w)"
  let ?w = "w\<lparr>w_log := ENow now # ECreateBP b (Inr b) # w_log w\<rparr>"
  have "kbuilds p base h ?w" using kbuilds_create [OF assms(1) c(2) assms(2,3)] by (simp add: kbuilds_read)
  moreover have "storedBP (w_log ?w) (kp_namespace p) (bp_Name b) = Some b" using assms(3) by simp
  ultimately have "kbuilds p base h (?w\<lparr>w_log := EUpdateBPStatus b' (ev_updateBPStatus (storeEnv base) (w_log ?w) b') # w_log ?w\<rparr>)"
    if "b' = b\<lparr>bp_Status := (bp_Status b)\<lparr>st_LastBuildTime := Some now\<rparr>\<rparr>" for b'
    using assms(2,3) that fine_zeroStatus by (intro kbuilds_carry [where cur = b and n = "bp_Name b"]) simp_all
  then show ?thesis using Inr unfolding c(1) by (simp add: wp_rules createBP_def updateBPStatus_def now_def)
qed

lemma keeps_ensureBuildProject: "keeps (kbuilds p base h) (ensureBuildProject (storeEnv base) p spec)"
proof -
  have create: "keeps (kbuilds p base h) (createBP (storeEnv base) ((bareProject (sp_Key s))\<lparr>bp_Namespace := kp_namespace p, bp_Spec := s\<rparr>) \<bind>
      (\<lambda>c. case c of Inl e \<Rightarrow> ret (f e) | Inr created \<Rightarrow> timeNow (storeEnv base) \<bind>
        (\<lambda>now. updateBPStatus (storeEnv base) (created\<lparr>bp_Status := (bp_Status created)\<lparr>st_LastBuildTime := Some now\<rparr>\<rparr>) \<bind> (\<lambda>_. ret r))))" for s f r
    unfolding keeps_def by (auto intro!: wp_create_store simp: bareProject_def)
  show ?thesis unfolding ensureBuildProject_def Let_def by (intro create keeps_rules)
qed

lemma keeps_k8s_Ensure: "keeps (kbuilds p base h) (k8s_Ensure (storeEnv base) p spec u \<bind> (\<lambda>e. ret (f e)))"
  unfolding k8s_Ensure_def Let_def by (intro keeps_rules keeps_ensureBuildProject)

text \<open>A project that was ensured is stored.\<close>

lemma stored_stays: "storedBP l ns n \<noteq> None \<Longrightarrow> storedBP (e # l) ns n \<noteq> None"
  by (auto split: option.split)

lemma wp_ensured:
  assumes "patient base"
  shows "wp (ensureBuildProject (storeEnv base) p s) (\<lambda>e w'. e = None \<longrightarrow> k8sHas p w' (sp_Key s)) w"
proof -
  have exists: "storedBP l (bp_Namespace b) (bp_Name b) \<noteq> None" if "ev_createBP (storeEnv base) l b = Inl e" "isAlreadyExists e" for l b e
    using assms that unfolding patient_def by (auto simp: storeEnv_def split: sum.splits option.splits)
  have created: "created = b" if "ev_createBP (storeEnv base) l b = Inr created" for l b created
    using that by (auto simp: storeEnv_def split: sum.splits option.splits)
  define b where "b = (bareProject (sp_Key s))\<lparr>bp_Namespace := kp_namespace p, bp_Spec := if sp_StorageClass s = [] then s\<lparr>sp_StorageClass := kp_defaultStorageClass p\<rparr> else s\<rparr>"
  have n: "bp_Name b = sp_Key s" "bp_Namespace b = kp_namespace p" by (simp_all add: b_def bareProject_def)
  have k: "sp_Key (if sp_StorageClass s = [] then s\<lparr>sp_StorageClass := kp_defaultStorageClass p\<rparr> else s) = sp_Key s" by simp
  have has: "storedBP (x # ENow t # ECreateBP b (Inr b) # l) (kp_namespace p) (sp_Key s) \<noteq> None" for x t l
    by (rule stored_stays) (simp add: n)
  show ?thesis
  proof (cases "storedBP (w_log w) (kp_namespace p) (sp_Key s)")
    case None
    let ?l = "EGetBP Cached (sp_Key s) (kp_namespace p) (Inl NotFound) # w_log w"
    have nf: "isNotFound NotFound" by (simp add: isNotFound_def)
    have new: "\<not> isAlreadyExists e" if "ev_createBP (storeEnv base) ?l b = Inl e" for e
      using exists [OF that] None n by auto
    show ?thesis unfolding ensureBuildProject_def k8sHas_def Let_def k b_def [symmetric]
      using None new created [of ?l b] has n nf
      by (cases "ev_createBP (storeEnv base) ?l b")
        (simp_all add: wp_rules createBP_def updateBPStatus_def patient_get [OF assms] stored_read del: storedBP.simps)
  qed (simp add: ensureBuildProject_def k8sHas_def wp_rules patient_get [OF assms])
qed

lemma wp_k8s_ensured:
  assumes "patient base"
  shows "wp (k8s_Ensure (storeEnv base) p spec u) (\<lambda>e w'. e = None \<longrightarrow> k8sHas p w' (if u then forkKey (sp_Key spec) else sp_Key spec)) w"
proof -
  note e = wp_ensured [OF assms, of p "deriveChild s seed ForkChild k" for s seed k, simplified]
  show ?thesis unfolding k8s_Ensure_def Let_def by (auto simp: wp_rules intro: wp_ensured [OF assms] e split: sum.split)
qed

lemma keeps_k8s_Ready: "keeps (kbuilds p base h) (k8s_Ready env p key)"
  unfolding k8s_Ready_def by (intro keeps_rules)

lemma keeps_k8s_waitLoop: "keeps (kbuilds p base h) (waitLoop fuel env p key deadline)"
  by (induction fuel) (auto simp: waitOnce_def intro!: keeps_rules)

lemma keeps_k8s_WaitReady: "keeps (kbuilds p base h) (k8s_WaitReady fuel env p key \<bind> (\<lambda>r. ret (f r)))"
  unfolding k8s_WaitReady_def by (intro keeps_rules keeps_k8s_waitLoop)

lemma keeps_k8s_Repo: "keeps (kbuilds p base h) (k8s_ProjectRepo env p key \<bind> (\<lambda>r. ret (f r)))"
  unfolding k8s_ProjectRepo_def by (intro keeps_rules)

lemma keeps_grantOnce: "keeps (kbuilds p base h) (grantOnce (storeEnv base) p key iv)"
  unfolding keeps_def
proof (intro allI impI)
  fix w assume w: "kbuilds p base h w"
  show "wp (grantOnce (storeEnv base) p key iv) (\<lambda>_. kbuilds p base h) w"
  proof (cases "ev_getBP (storeEnv base) (w_log w) Cached key (kp_namespace p)")
    case (Inl e)
    then show ?thesis using w by (simp add: grantOnce_def wp_rules kbuilds_read)
  next
    case (Inr cur)
    then have cur: "storedBP (w_log w) (kp_namespace p) key = Some cur"
      by (auto simp: storeEnv_def split: sum.splits option.splits)
    have upd: "kbuilds p base h (w1\<lparr>w_log := EUpdateBPStatus b (ev_updateBPStatus (storeEnv base) (w_log w1) b) # w_log w1\<rparr>)"
      if "kbuilds p base h w1" "storedBP (w_log w1) (kp_namespace p) key = Some cur"
        "b = (applyDefaults cur)\<lparr>bp_Status := (bp_Status cur)\<lparr>st_LastCacheExportGrant := Some t\<rparr>\<rparr>" for w1 b t
      using stored_named [OF cur] kbuilds_stored [OF w cur] that by (intro kbuilds_carry [OF that(1,2)]) simp_all
    note u1 = upd [where ?w1.0 = "w\<lparr>w_log := ENow t1 # EGetBP Cached key (kp_namespace p) (Inr cur) # w_log w\<rparr>" for t1]
    note u2 = upd [where ?w1.0 = "w\<lparr>w_log := ENow t2 # ENow t1 # EGetBP Cached key (kp_namespace p) (Inr cur) # w_log w\<rparr>" for t1 t2]
    show ?thesis using Inr w cur u1 u2
      by (auto simp: grantOnce_def wp_rules Let_def updateBPStatus_def kbuilds_read split: option.split)
  qed
qed

lemma keeps_k8s_S3: "keeps (kbuilds p base h) (k8s_S3CacheDecision (storeEnv base) p key iv g)"
  unfolding k8s_S3CacheDecision_def Let_def by (intro keeps_rules keeps_grantOnce)

section \<open>The contract\<close>

definition k8sCalm :: "K8sProvisioner \<Rightarrow> Env \<Rightarrow> (Event, unit) world \<Rightarrow> bool" where
  "k8sCalm p base w \<longleftrightarrow> patient base \<and> oneWindow p base \<and> k8sOk p base w"

lemma calm_kbuilds: "k8sCalm p base w \<Longrightarrow> kbuilds p base (k8sHeld p w) w"
  by (simp add: k8sCalm_def kbuilds_def)

lemma kbuilds_calm: "k8sCalm p base w \<Longrightarrow> kbuilds p base h w' \<Longrightarrow> k8sCalm p base w' \<and> k8sHeld p w' = h"
  by (simp add: k8sCalm_def kbuilds_def)

lemma kkeeps_contract: "keeps (kbuilds p base (k8sHeld p w)) m \<Longrightarrow> k8sCalm p base w \<Longrightarrow> wp m (\<lambda>_ w'. k8sCalm p base w' \<and> k8sHeld p w' = k8sHeld p w) w"
  by (rule wp_mono [where Q = "\<lambda>_. kbuilds p base (k8sHeld p w)"]) (auto intro: keepsD calm_kbuilds dest: kbuilds_calm)

lemma k8s_start_exact:
  assumes "k8sCalm p base w"
  shows "wp (k8s_StartInflight (storeEnv base) p k i) (\<lambda>_ w'. k8sCalm p base w' \<and> (\<forall>k'. k' \<noteq> k \<longrightarrow> k8sHeld p w' k' = k8sHeld p w k') \<and>
      mset (k8sHeld p w' k) \<subseteq># add_mset (inflightID i) (mset (k8sHeld p w k)) \<and>
      (k8sHas p w k \<longrightarrow> inflightID i \<in> set (k8sHeld p w' k) \<and>
        (length (k8sHeld p w k) < InflightCap \<longrightarrow> mset (k8sHeld p w' k) = add_mset (inflightID i) (mset (k8sHeld p w k))))) w"
  by (rule wp_mono [OF k8s_start [OF _ _ calm_kbuilds [OF assms]]])
    (use assms in \<open>auto simp: k8sCalm_def dest!: kbuilds_calm [OF assms]\<close>)

lemma k8s_release_exact:
  assumes "k8sCalm p base w"
  shows "wp (k8s_EndInflight (storeEnv base) p k i) (\<lambda>released w'. k8sCalm p base w' \<and> (\<forall>k'. k' \<noteq> k \<longrightarrow> k8sHeld p w' k' = k8sHeld p w k') \<and>
      (if released then \<exists>x \<in> set (k8sHeld p w k). (i \<noteq> [] \<longrightarrow> x = inflightID i) \<and> mset (k8sHeld p w' k) = mset (k8sHeld p w k) - {#x#}
       else k8sHeld p w' = k8sHeld p w \<and> (if i = [] then k8sHeld p w k = [] else inflightID i \<notin> set (k8sHeld p w k)))) w"
  by (rule wp_mono [OF k8s_end [OF _ calm_kbuilds [OF assms]]])
    (use assms in \<open>auto simp: k8sCalm_def dest!: kbuilds_calm [OF assms] split: if_splits\<close>)

interpretation k8s: prompt_provisioner "k8sBackend fuel render (storeEnv base) p" "k8sCalm p base" "k8sHeld p" "k8sHas p" for fuel render base p
proof
  fix w :: "(Event, unit) world" and k i d g spec u
  assume ok: "k8sCalm p base w"
  then have p: "patient base" by (simp add: k8sCalm_def)
  let ?P = "k8sBackend fuel render (storeEnv base) p"
  show "wp (pv_Ensure ?P spec u) (\<lambda>_ s'. k8sCalm p base s' \<and> k8sHeld p s' = k8sHeld p w) w"
    by (simp add: k8sBackend_def kkeeps_contract [OF keeps_k8s_Ensure ok])
  show "wp (pv_Ready ?P k) (\<lambda>_ s'. k8sCalm p base s' \<and> k8sHeld p s' = k8sHeld p w) w"
    by (simp add: k8sBackend_def kkeeps_contract [OF keeps_k8s_Ready ok])
  show "wp (pv_WaitReady ?P k) (\<lambda>_ s'. k8sCalm p base s' \<and> k8sHeld p s' = k8sHeld p w) w"
    by (simp add: k8sBackend_def kkeeps_contract [OF keeps_k8s_WaitReady ok])
  show "wp (pv_Endpoint ?P k) (\<lambda>_ s'. k8sCalm p base s' \<and> k8sHeld p s' = k8sHeld p w) w"
    by (simp add: k8sBackend_def kkeeps_contract [OF keeps_return ok])
  show "wp (pv_Touch ?P k) (\<lambda>_ s'. k8sCalm p base s' \<and> k8sHeld p s' = k8sHeld p w) w"
    by (simp add: k8sBackend_def kkeeps_contract [OF keeps_k8s_Touch [OF p] ok])
  show "wp (pv_ProjectRepo ?P k) (\<lambda>_ s'. k8sCalm p base s' \<and> k8sHeld p s' = k8sHeld p w) w"
    by (simp add: k8sBackend_def kkeeps_contract [OF keeps_k8s_Repo ok])
  show "wp (pv_S3CacheDecision ?P k d g) (\<lambda>_ s'. k8sCalm p base s' \<and> k8sHeld p s' = k8sHeld p w) w"
    by (simp add: k8sBackend_def kkeeps_contract [OF keeps_k8s_S3 ok])
  show "wp (pv_Ensure ?P spec u) (\<lambda>e s'. e = None \<longrightarrow> k8sHas p s' (if u then forkKey (sp_Key spec) else sp_Key spec)) w"
    using wp_k8s_ensured [OF p] by (simp add: k8sBackend_def wp_rules errString_def)
  show "wp (pv_StartInflight ?P k i) (\<lambda>_ s'. k8sCalm p base s' \<and> (\<forall>k'. k' \<noteq> k \<longrightarrow> k8sHeld p s' k' = k8sHeld p w k') \<and>
      mset (k8sHeld p s' k) \<subseteq># add_mset (inflightID i) (mset (k8sHeld p w k))) w"
    using k8s_start_exact [OF ok, of k i] by (auto simp: k8sBackend_def elim!: wp_mono)
  show "wp (pv_StartInflight ?P k i) (\<lambda>_ s'. inflightID i \<in> set (k8sHeld p s' k) \<and>
        (length (k8sHeld p w k) < InflightCap \<longrightarrow> mset (k8sHeld p s' k) = add_mset (inflightID i) (mset (k8sHeld p w k)))) w" if "k8sHas p w k"
    using k8s_start_exact [OF ok, of k i] that by (auto simp: k8sBackend_def elim!: wp_mono)
  show "wp (pv_EndInflight ?P k i) (\<lambda>released s'. k8sCalm p base s' \<and> (\<forall>k'. k' \<noteq> k \<longrightarrow> k8sHeld p s' k' = k8sHeld p w k') \<and>
        (if released then mset (k8sHeld p s' k) \<subset># mset (k8sHeld p w k) \<and>
           (i \<noteq> [] \<longrightarrow> inflightID i \<in> set (k8sHeld p w k) \<and> mset (k8sHeld p s' k) \<subseteq># mset (k8sHeld p w k) - {#inflightID i#})
         else k8sHeld p s' = k8sHeld p w)) w"
    "wp (pv_EndInflight ?P k i) (\<lambda>released s'.
        if released then \<exists>x \<in> set (k8sHeld p w k). (i \<noteq> [] \<longrightarrow> x = inflightID i) \<and> mset (k8sHeld p s' k) = mset (k8sHeld p w k) - {#x#}
        else if i = [] then k8sHeld p w k = [] else inflightID i \<notin> set (k8sHeld p w k)) w"
    using k8s_release_exact [OF ok, of k i] by (auto simp: k8sBackend_def mset_without elim!: wp_mono split: if_splits)
qed

section \<open>The routing API over Kubernetes\<close>


text \<open>A server that refuses the first two status updates after every accepted one.\<close>

definition contended :: Env where
  "contended = (oneProject 7 busyProject)\<lparr>ev_updateBPStatus := \<lambda>l b. if refusedInRow l < 2 then Inl Conflict else Inr b\<rparr>"

definition minuteK8s :: K8sProvisioner where
  "minuteK8s = newK8s zeroConfig 0 [] 0 minute"

definition k8sServer :: "(Event, unit) world routeServer" where
  "k8sServer = \<lparr>rs_prov = k8sBackend 5 (\<lambda>_. []) (storeEnv contended) minuteK8s, rs_Namespace = [], rs_s3Bucket = [], rs_s3Region = [],
     rs_s3Endpoint = [], rs_s3ExportInterval = 0, rs_verifier = None, rs_authToken = [], rs_adminToken = [], rs_defaults = None, rs_requireBuildID = True\<rparr>"


end
