(* ===== verification/Local_Provisioner.thy ===== *)
theory Local_Provisioner
  imports Provisioner
begin

text \<open>
  \<open>internal/provisioner/local/local.go\<close>: the single-host backend. Its memory is the map of project states the
  mutex protects; the host (\<open>HostOps\<close>, the \<open>incus\<close> and \<open>zfs\<close> commands), the clock and the readiness probe
  are the record \<open>HostEnv\<close> of answer functions. \<open>time.Time\<close> fields start at Go's zero time.

  A method that holds the mutex throughout is one step; \<open>Reconcile\<close>, which releases it between deciding
  and acting, is the composition of \<open>reconcileDecide\<close> and \<open>reconcileAct\<close>, so that a theorem can put other
  calls in between. Go visits a map in an arbitrary order: \<open>Reconcile\<close> takes the order as an argument.
\<close>

section \<open>The host\<close>

record InstanceSpec =
  is_Name :: string
  is_Image :: string
  is_VM :: bool
  is_Dataset :: string
  is_MountPath :: string
  is_CertsHostPath :: string
  is_Config :: "(string \<times> string) list"

datatype (plugins only: code) HostEvent =
    HNow time
  | HExists string "string + bool"
  | HRunning string "string + bool"
  | HStart string "string option"
  | HStop string "string option"
  | HLaunch InstanceSpec "string option"
  | HEgress string bool "string option"
  | HEnsureDataset string "string option"
  | HClone string string "string option"
  | HSnapshot string string "string option"
  | HListSnapshots string "string + string list"
  | HDestroySnapshot string "string option"
  | HIP string "string + string"
  | HDial string bool
  | HSleep duration "string option"

type_synonym hlog = "HostEvent list"

text \<open>\<open>hv_addr\<close> is the optional \<open>addrResolver\<close> of the runtime; \<open>hv_sleep\<close> waits, and \<open>Some\<close> is the error of a
  context that ended meanwhile.\<close>

record HostEnv =
  hv_now :: "hlog \<Rightarrow> time"
  hv_exists :: "hlog \<Rightarrow> string \<Rightarrow> string + bool"
  hv_running :: "hlog \<Rightarrow> string \<Rightarrow> string + bool"
  hv_start :: "hlog \<Rightarrow> string \<Rightarrow> string option"
  hv_stop :: "hlog \<Rightarrow> string \<Rightarrow> string option"
  hv_launch :: "hlog \<Rightarrow> InstanceSpec \<Rightarrow> string option"
  hv_egress :: "hlog \<Rightarrow> string \<Rightarrow> bool \<Rightarrow> string option"
  hv_ensureDataset :: "hlog \<Rightarrow> string \<Rightarrow> string option"
  hv_clone :: "hlog \<Rightarrow> string \<Rightarrow> string \<Rightarrow> string option"
  hv_snapshot :: "hlog \<Rightarrow> string \<Rightarrow> string \<Rightarrow> string option"
  hv_listSnapshots :: "hlog \<Rightarrow> string \<Rightarrow> string + string list"
  hv_destroySnapshot :: "hlog \<Rightarrow> string \<Rightarrow> string option"
  hv_ip :: "hlog \<Rightarrow> string \<Rightarrow> string + string"
  hv_dial :: "hlog \<Rightarrow> string \<Rightarrow> bool"
  hv_sleep :: "hlog \<Rightarrow> duration \<Rightarrow> string option"
  hv_addr :: "(string \<Rightarrow> string) option"

definition hNow where "hNow env = call (hv_now env) HNow"
definition hExists where "hExists env n = call (\<lambda>l. hv_exists env l n) (HExists n)"
definition hRunning where "hRunning env n = call (\<lambda>l. hv_running env l n) (HRunning n)"
definition hStart where "hStart env n = call (\<lambda>l. hv_start env l n) (HStart n)"
definition hStop where "hStop env n = call (\<lambda>l. hv_stop env l n) (HStop n)"
definition hLaunch where "hLaunch env i = call (\<lambda>l. hv_launch env l i) (HLaunch i)"
definition hEgress where "hEgress env n s = call (\<lambda>l. hv_egress env l n s) (HEgress n s)"
definition hEnsureDataset where "hEnsureDataset env d = call (\<lambda>l. hv_ensureDataset env l d) (HEnsureDataset d)"
definition hClone where "hClone env s d = call (\<lambda>l. hv_clone env l s d) (HClone s d)"
definition hSnapshot where "hSnapshot env d s = call (\<lambda>l. hv_snapshot env l d s) (HSnapshot d s)"
definition hListSnapshots where "hListSnapshots env d = call (\<lambda>l. hv_listSnapshots env l d) (HListSnapshots d)"
definition hDestroySnapshot where "hDestroySnapshot env s = call (\<lambda>l. hv_destroySnapshot env l s) (HDestroySnapshot s)"
definition hIP where "hIP env n = call (\<lambda>l. hv_ip env l n) (HIP n)"
definition hDial where "hDial env a = call (\<lambda>l. hv_dial env l a) (HDial a)"
definition hSleep where "hSleep env d = call (\<lambda>l. hv_sleep env l d) (HSleep d)"

lemmas host_calls = hNow_def hExists_def hRunning_def hStart_def hStop_def hLaunch_def hEgress_def hEnsureDataset_def hClone_def
  hSnapshot_def hListSnapshots_def hDestroySnapshot_def hIP_def hDial_def hSleep_def

section \<open>Configuration and state\<close>

record LocalConfig =
  lc_Pool :: string
  lc_Image :: string
  lc_VMImage :: string
  lc_MountPath :: string
  lc_Port :: int
  lc_Wait :: duration
  lc_IdleTimeout :: duration
  lc_SnapshotEvery :: duration
  lc_KeepSnapshots :: int
  lc_MaxBuildSeconds :: int
  lc_ForkEgressStrict :: bool
  lc_EndpointDomain :: string
  lc_CertsHostPath :: string

definition zeroTime :: time where "zeroTime = -62135596800 * second"

record projectState =
  ps_spec :: BuildProjectSpec
  ps_vm :: bool
  ps_hot :: bool
  ps_inflight :: "InflightBuild list"
  ps_lastBuild :: time
  ps_ip :: string
  ps_lastSnap :: string
  ps_lastSnapAt :: time
  ps_lastCacheExport :: time

definition newState :: "BuildProjectSpec \<Rightarrow> bool \<Rightarrow> bool \<Rightarrow> projectState" where
  "newState spec vm hot = \<lparr>ps_spec = spec, ps_vm = vm, ps_hot = hot, ps_inflight = [], ps_lastBuild = zeroTime, ps_ip = [],
     ps_lastSnap = [], ps_lastSnapAt = zeroTime, ps_lastCacheExport = zeroTime\<rparr>"

type_synonym projects = "string \<rightharpoonup> projectState"
type_synonym 'a lprog = "(HostEvent, projects, 'a) prog"

definition dataset :: "LocalConfig \<Rightarrow> string \<Rightarrow> string" where
  "dataset cfg key = trimRight (lc_Pool cfg) CHR ''/'' @ ''/'' @ key"

definition imageFor :: "LocalConfig \<Rightarrow> bool \<Rightarrow> string" where
  "imageFor cfg vm = (if vm \<and> lc_VMImage cfg \<noteq> [] then lc_VMImage cfg else lc_Image cfg)"

definition labelKey :: string where "labelKey = ''user.buildkit-operator.key''"

section \<open>Ensure\<close>

text \<open>The critical section at the start of \<open>ensureInstance\<close>.\<close>

definition adoptSpec :: "BuildProjectSpec \<Rightarrow> bool \<Rightarrow> projects \<Rightarrow> projects" where
  "adoptSpec spec vm ps =
     (case ps (sp_Key spec) of
        None \<Rightarrow> ps(sp_Key spec \<mapsto> newState spec vm (sp_Tier spec = TierHot))
      | Some st \<Rightarrow>
          if sp_Repo (ps_spec st) = [] then ps(sp_Key spec \<mapsto> st\<lparr>ps_spec := spec, ps_hot := (sp_Tier spec = TierHot)\<rparr>)
          else ps)"

definition latestSnapshot :: "HostEnv \<Rightarrow> LocalConfig \<Rightarrow> string \<Rightarrow> string lprog" where
  "latestSnapshot env cfg key =
     do {
       ps \<leftarrow> getMem;
       let hint = (case ps key of None \<Rightarrow> [] | Some st \<Rightarrow> ps_lastSnap st);
       if hint \<noteq> [] then ret hint
       else do {
         r \<leftarrow> hListSnapshots env (dataset cfg key);
         ret (case r of Inl _ \<Rightarrow> [] | Inr snaps \<Rightarrow> if snaps = [] then [] else last snaps)
       }
     }"

definition wrapErr :: "string \<Rightarrow> string option \<Rightarrow> string option" where
  "wrapErr msg e = map_option (\<lambda>err. msg @ '': '' @ err) e"

definition seedDataset :: "HostEnv \<Rightarrow> LocalConfig \<Rightarrow> string \<Rightarrow> string \<Rightarrow> string option lprog" where
  "seedDataset env cfg key seedFrom =
     do {
       snap \<leftarrow> (if seedFrom \<noteq> [] then latestSnapshot env cfg seedFrom else ret []);
       if snap \<noteq> [] then do { e \<leftarrow> hClone env snap (dataset cfg key); ret (wrapErr ''clone seed'' e) }
       else do { e \<leftarrow> hEnsureDataset env (dataset cfg key); ret (wrapErr ''ensure dataset'' e) }
     }"

definition instanceSpecFor :: "LocalConfig \<Rightarrow> string \<Rightarrow> bool \<Rightarrow> InstanceSpec" where
  "instanceSpecFor cfg key vm = \<lparr>is_Name = daemonName key, is_Image = imageFor cfg vm, is_VM = vm, is_Dataset = dataset cfg key,
     is_MountPath = lc_MountPath cfg, is_CertsHostPath = lc_CertsHostPath cfg,
     is_Config = (labelKey, key) # (if vm then [] else [(''security.nesting'', ''true''), (''security.privileged'', ''true'')])\<rparr>"

definition ensureInstance :: "HostEnv \<Rightarrow> LocalConfig \<Rightarrow> BuildProjectSpec \<Rightarrow> bool \<Rightarrow> bool \<Rightarrow> string \<Rightarrow> string option lprog" where
  "ensureInstance env cfg spec vm strictEgress seedFrom =
     do {
       let key = sp_Key spec;
       let name = daemonName key;
       ps \<leftarrow> getMem;
       _ \<leftarrow> putMem (adoptSpec spec vm ps);
       ex \<leftarrow> hExists env name;
       (case ex of
          Inl e \<Rightarrow> ret (Some (''instance exists: '' @ e))
        | Inr True \<Rightarrow>
            do {
              run \<leftarrow> hRunning env name;
              (case run of
                 Inl e \<Rightarrow> ret (Some (''instance running: '' @ e))
               | Inr True \<Rightarrow> ret None
               | Inr False \<Rightarrow> do { e \<leftarrow> hStart env name; ret (wrapErr ''start instance'' e) })
            }
        | Inr False \<Rightarrow>
            do {
              e \<leftarrow> seedDataset env cfg key seedFrom;
              (case e of
                 Some err \<Rightarrow> ret (Some err)
               | None \<Rightarrow>
                   do {
                     l \<leftarrow> hLaunch env (instanceSpecFor cfg key vm);
                     (case l of
                        Some err \<Rightarrow> ret (Some (''launch instance: '' @ err))
                      | None \<Rightarrow> do { _ \<leftarrow> hEgress env name strictEgress; ret None })
                   })
            })
     }"

definition local_Ensure :: "HostEnv \<Rightarrow> LocalConfig \<Rightarrow> BuildProjectSpec \<Rightarrow> bool \<Rightarrow> string option lprog" where
  "local_Ensure env cfg spec untrusted =
     (if untrusted then
        if lc_VMImage cfg = [] then ret (Some ''untrusted build requires VM isolation: set --incus-vm-image'')
        else ensureInstance env cfg (deriveChild spec [] ForkChild (forkKey (sp_Key spec))) True (lc_ForkEgressStrict cfg) (sp_Key spec)
      else ensureInstance env cfg spec False False [])"

section \<open>Readiness and address\<close>

definition joinHostPort :: "string \<Rightarrow> string \<Rightarrow> string" where
  "joinHostPort host port = (if CHR '':'' \<in> set host then ''['' @ host @ '']:'' @ port else host @ '':'' @ port)"

definition setIP :: "string \<Rightarrow> string \<Rightarrow> unit lprog" where
  "setIP key ip = do { ps \<leftarrow> getMem; (case ps key of None \<Rightarrow> ret () | Some st \<Rightarrow> putMem (ps(key \<mapsto> st\<lparr>ps_ip := ip\<rparr>))) }"

definition dialAddr :: "HostEnv \<Rightarrow> LocalConfig \<Rightarrow> string \<Rightarrow> string option lprog" where
  "dialAddr env cfg key =
     (case hv_addr env of
        Some addr \<Rightarrow> ret (Some (addr key))
      | None \<Rightarrow>
          if lc_EndpointDomain cfg \<noteq> [] then ret (Some (joinHostPort (daemonName key @ ''.'' @ lc_EndpointDomain cfg) (itoa (lc_Port cfg))))
          else do {
            r \<leftarrow> hIP env (daemonName key);
            (case r of
               Inl _ \<Rightarrow> ret None
             | Inr ip \<Rightarrow>
                 if ip = [] then ret None
                 else do { _ \<leftarrow> setIP key ip; ret (Some (joinHostPort ip (itoa (lc_Port cfg)))) })
          })"

definition local_Ready :: "HostEnv \<Rightarrow> LocalConfig \<Rightarrow> string \<Rightarrow> bool lprog" where
  "local_Ready env cfg key =
     do {
       run \<leftarrow> hRunning env (daemonName key);
       if run \<noteq> Inr True then ret False
       else do {
         a \<leftarrow> dialAddr env cfg key;
         (case a of None \<Rightarrow> ret False | Some addr \<Rightarrow> hDial env addr)
       }
     }"

text \<open>The outer \<^const>\<open>None\<close>: the loop has not returned when the fuel is used up.\<close>

fun localWaitLoop :: "nat \<Rightarrow> HostEnv \<Rightarrow> LocalConfig \<Rightarrow> string \<Rightarrow> time \<Rightarrow> string option option lprog" where
  "localWaitLoop 0 env cfg key deadline = ret None"
| "localWaitLoop (Suc fuel) env cfg key deadline =
     do {
       ready \<leftarrow> local_Ready env cfg key;
       if ready then ret (Some None)
       else do {
         now \<leftarrow> hNow env;
         if now > deadline then ret (Some (Some ''timed out waiting for instance to be ready''))
         else do {
           c \<leftarrow> hSleep env second;
           (case c of Some e \<Rightarrow> ret (Some (Some e)) | None \<Rightarrow> localWaitLoop fuel env cfg key deadline)
         }
       }
     }"

definition local_WaitReady :: "nat \<Rightarrow> HostEnv \<Rightarrow> LocalConfig \<Rightarrow> string \<Rightarrow> string option option lprog" where
  "local_WaitReady fuel env cfg key = do { now \<leftarrow> hNow env; localWaitLoop fuel env cfg key (now + lc_Wait cfg) }"

definition local_Endpoint :: "HostEnv \<Rightarrow> LocalConfig \<Rightarrow> string \<Rightarrow> string lprog" where
  "local_Endpoint env cfg key =
     (case hv_addr env of
        Some addr \<Rightarrow> ret (''tcp://'' @ addr key)
      | None \<Rightarrow>
          if lc_EndpointDomain cfg \<noteq> [] then ret (endpointHost (daemonName key @ ''.'' @ lc_EndpointDomain cfg) (lc_Port cfg))
          else do { ps \<leftarrow> getMem; ret (endpointHost (case ps key of None \<Rightarrow> [] | Some st \<Rightarrow> ps_ip st) (lc_Port cfg)) })"

section \<open>Builds\<close>

definition stateFor :: "projects \<Rightarrow> string \<Rightarrow> projectState" where
  "stateFor ps key = (case ps key of None \<Rightarrow> newState (zeroSpec\<lparr>sp_Key := key\<rparr>) False False | Some st \<Rightarrow> st)"

definition local_StartInflight :: "HostEnv \<Rightarrow> string \<Rightarrow> string \<Rightarrow> unit lprog" where
  "local_StartInflight env key bid =
     do {
       ps \<leftarrow> getMem;
       let st = stateFor ps key;
       t1 \<leftarrow> hNow env;
       t2 \<leftarrow> hNow env;
       putMem (ps(key \<mapsto> st\<lparr>ps_inflight := startInflight (ps_inflight st) bid t1, ps_lastBuild := t2\<rparr>))
     }"

definition local_EndInflight :: "HostEnv \<Rightarrow> string \<Rightarrow> string \<Rightarrow> bool lprog" where
  "local_EndInflight env key bid =
     do {
       ps \<leftarrow> getMem;
       let st = stateFor ps key;
       let (entries, found) = endInflight (ps_inflight st) bid;
       if \<not> found then do { _ \<leftarrow> putMem (ps(key \<mapsto> st)); ret False }
       else do {
         t \<leftarrow> hNow env;
         _ \<leftarrow> putMem (ps(key \<mapsto> st\<lparr>ps_inflight := entries, ps_lastBuild := t\<rparr>));
         ret True
       }
     }"

definition local_Touch :: "HostEnv \<Rightarrow> string \<Rightarrow> unit lprog" where
  "local_Touch env key = do { ps \<leftarrow> getMem; t \<leftarrow> hNow env; putMem (ps(key \<mapsto> (stateFor ps key)\<lparr>ps_lastBuild := t\<rparr>)) }"

definition local_ProjectRepo :: "string \<Rightarrow> (string + string \<times> bool) lprog" where
  "local_ProjectRepo key =
     do { ps \<leftarrow> getMem; ret (Inr (case ps key of None \<Rightarrow> ([], False) | Some st \<Rightarrow> (sp_Repo (ps_spec st), True))) }"

definition local_S3CacheDecision :: "HostEnv \<Rightarrow> string \<Rightarrow> duration \<Rightarrow> bool \<Rightarrow> (bool \<times> bool) lprog" where
  "local_S3CacheDecision env key exportInterval grantExport =
     do {
       ps \<leftarrow> getMem;
       let policy = (case ps key of None \<Rightarrow> DefaultS3CachePolicy | Some st \<Rightarrow> sp_S3CachePolicy (specDefaults (ps_spec st)));
       if policy = S3CacheNever then ret (False, False)
       else if policy = S3CacheAlways then ret (True, True)
       else if \<not> grantExport then ret (True, False)
       else if exportInterval \<le> 0 then ret (True, True)
       else
         (case ps key of
            None \<Rightarrow> ret (True, False)
          | Some st \<Rightarrow>
              do {
                taken \<leftarrow> (if ps_lastCacheExport st \<noteq> zeroTime then do { t \<leftarrow> hNow env; ret (timeSub t (ps_lastCacheExport st) < exportInterval) }
                          else ret False);
                if taken then ret (True, False)
                else do {
                  t \<leftarrow> hNow env;
                  _ \<leftarrow> putMem (ps(key \<mapsto> st\<lparr>ps_lastCacheExport := t\<rparr>));
                  ret (True, True)
                }
              })
     }"

section \<open>Lifecycle\<close>

definition expireState :: "LocalConfig \<Rightarrow> time \<Rightarrow> projectState \<Rightarrow> projectState" where
  "expireState cfg now st =
     (if lc_MaxBuildSeconds cfg > 0
      then st\<lparr>ps_inflight := fst (expireInflight (ps_inflight st) now (wrap64 (lc_MaxBuildSeconds cfg * second)))\<rparr>
      else st)"

definition isIdle :: "LocalConfig \<Rightarrow> time \<Rightarrow> projectState \<Rightarrow> bool" where
  "isIdle cfg now st \<longleftrightarrow>
     \<not> ps_hot st \<and> \<not> length (ps_inflight st) > 0 \<and> ps_lastBuild st \<noteq> zeroTime \<and> timeSub now (ps_lastBuild st) > lc_IdleTimeout cfg"

definition snapDue :: "LocalConfig \<Rightarrow> time \<Rightarrow> string \<Rightarrow> projectState \<Rightarrow> bool" where
  "snapDue cfg now key st \<longleftrightarrow>
     lc_SnapshotEvery cfg > 0 \<and> \<not> isForkKey key \<and> \<not> ps_hot st \<and> ps_lastBuild st \<noteq> zeroTime \<and>
     timeSub now (ps_lastSnapAt st) > lc_SnapshotEvery cfg"

text \<open>The critical section of \<open>Reconcile\<close>: the projects with their expired entries gone, the keys to stop and the
  keys to snapshot.\<close>

fun decideKeys :: "LocalConfig \<Rightarrow> time \<Rightarrow> string list \<Rightarrow> projects \<Rightarrow> projects \<times> string list \<times> string list" where
  "decideKeys cfg now [] ps = (ps, [], [])"
| "decideKeys cfg now (key # keys) ps =
     (case ps key of
        None \<Rightarrow> decideKeys cfg now keys ps
      | Some st0 \<Rightarrow>
          let st = expireState cfg now st0;
              (ps', idle, snap) = decideKeys cfg now keys (ps(key \<mapsto> st))
          in (ps', (if isIdle cfg now st then [key] else []) @ idle, (if snapDue cfg now key st then [key] else []) @ snap))"

definition reconcileDecide :: "HostEnv \<Rightarrow> LocalConfig \<Rightarrow> string list \<Rightarrow> (time \<times> string list \<times> string list) lprog" where
  "reconcileDecide env cfg order =
     do {
       now \<leftarrow> hNow env;
       ps \<leftarrow> getMem;
       let (ps', idle, snap) = decideKeys cfg now order ps;
       _ \<leftarrow> putMem ps';
       ret (now, idle, snap)
     }"

definition stopIdle :: "HostEnv \<Rightarrow> string \<Rightarrow> unit option lprog" where
  "stopIdle env key =
     do {
       run \<leftarrow> hRunning env (daemonName key);
       if run \<noteq> Inr True then ret None
       else do { _ \<leftarrow> hStop env (daemonName key); ret None }
     }"

definition pruneLocalSnapshots :: "HostEnv \<Rightarrow> LocalConfig \<Rightarrow> string \<Rightarrow> unit lprog" where
  "pruneLocalSnapshots env cfg ds =
     do {
       r \<leftarrow> hListSnapshots env ds;
       (case r of
          Inl _ \<Rightarrow> ret ()
        | Inr snaps \<Rightarrow>
            do {
              _ \<leftarrow> forEach (take (nat (int (length snaps) - lc_KeepSnapshots cfg)) snaps)
                     (\<lambda>s. do { _ \<leftarrow> hDestroySnapshot env s; ret (None :: unit option) });
              ret ()
            })
     }"

definition local_snapshot :: "HostEnv \<Rightarrow> LocalConfig \<Rightarrow> time \<Rightarrow> string \<Rightarrow> unit option lprog" where
  "local_snapshot env cfg now key =
     do {
       let name = ''bko-'' @ itoa (now div second);
       e \<leftarrow> hSnapshot env (dataset cfg key) name;
       (case e of
          Some _ \<Rightarrow> ret None
        | None \<Rightarrow>
            do {
              ps \<leftarrow> getMem;
              _ \<leftarrow> (case ps key of
                      None \<Rightarrow> ret ()
                    | Some st \<Rightarrow> putMem (ps(key \<mapsto> st\<lparr>ps_lastSnap := dataset cfg key @ ''@'' @ name, ps_lastSnapAt := now\<rparr>)));
              _ \<leftarrow> (if lc_KeepSnapshots cfg > 0 then pruneLocalSnapshots env cfg (dataset cfg key) else ret ());
              ret None
            })
     }"

definition reconcileAct :: "HostEnv \<Rightarrow> LocalConfig \<Rightarrow> time \<times> string list \<times> string list \<Rightarrow> unit lprog" where
  "reconcileAct env cfg d =
     (case d of (now, idle, snap) \<Rightarrow>
        do {
          _ \<leftarrow> forEach idle (stopIdle env);
          _ \<leftarrow> forEach snap (local_snapshot env cfg now);
          ret ()
        })"

definition local_Reconcile :: "HostEnv \<Rightarrow> LocalConfig \<Rightarrow> string list \<Rightarrow> unit lprog" where
  "local_Reconcile env cfg order = do { d \<leftarrow> reconcileDecide env cfg order; reconcileAct env cfg d }"

definition local_Fanout :: "HostEnv \<Rightarrow> LocalConfig \<Rightarrow> string \<Rightarrow> nat \<Rightarrow> string option lprog" where
  "local_Fanout env cfg key n =
     forEach [1..<n + 1] (\<lambda>i.
       do {
         e \<leftarrow> ensureInstance env cfg (deriveChild (zeroSpec\<lparr>sp_Key := key\<rparr>) [] CloneChild (cloneKey key (int i))) False False key;
         ret (wrapErr (''fanout clone '' @ itoa (int i)) e)
       })"

text \<open>The period of \<open>Run\<close>; Go's division truncates, but a negative quotient is below the minimum either way.\<close>

definition runInterval :: "LocalConfig \<Rightarrow> duration" where
  "runInterval cfg = (let interval = lc_IdleTimeout cfg div 4 in if interval < 5 * second then 5 * second else interval)"

text \<open>\<open>Run\<close>: one pass per tick, each visiting the map in its own order, until the context ends.\<close>

fun local_Run :: "HostEnv \<Rightarrow> LocalConfig \<Rightarrow> string list list \<Rightarrow> unit lprog" where
  "local_Run env cfg [] = ret ()"
| "local_Run env cfg (order # ticks) = do { _ \<leftarrow> local_Reconcile env cfg order; local_Run env cfg ticks }"

end
