(* ===== verification/Local_Contract.thy ===== *)
theory Local_Contract
  imports Local_Provisioner Route_Contract
begin

text \<open>
  The single-host backend keeps the provisioner's contract: its operations as a \<^typ>\<open>'s Provisioner\<close>, the
  interpretation of the contract's locales, and what follows for the routing API over it.
\<close>

section \<open>The backend\<close>

definition localBackend :: "nat \<Rightarrow> HostEnv \<Rightarrow> LocalConfig \<Rightarrow> (HostEvent, projects) world Provisioner" where
  "localBackend fuel env cfg = \<lparr>
     pv_Ensure = local_Ensure env cfg,
     pv_Ready = local_Ready env cfg,
     pv_WaitReady = (\<lambda>k. do { r \<leftarrow> local_WaitReady fuel env cfg k; ret (case r of None \<Rightarrow> Some ''still waiting'' | Some e \<Rightarrow> e) }),
     pv_Endpoint = local_Endpoint env cfg,
     pv_StartInflight = local_StartInflight env,
     pv_EndInflight = local_EndInflight env,
     pv_Touch = local_Touch env,
     pv_ProjectRepo = local_ProjectRepo,
     pv_S3CacheDecision = local_S3CacheDecision env\<rparr>"

text \<open>The builds registered for a key, and the invariant of the memory: every state is filed under its own key and
  its entries are within the cap.\<close>

definition localHeld :: "(HostEvent, projects) world \<Rightarrow> string \<Rightarrow> string list" where
  "localHeld w key = (case w_mem w key of None \<Rightarrow> [] | Some st \<Rightarrow> map ib_ID (ps_inflight st))"

definition localOk :: "(HostEvent, projects) world \<Rightarrow> bool" where
  "localOk w \<longleftrightarrow> (\<forall>key st. w_mem w key = Some st \<longrightarrow> length (ps_inflight st) \<le> InflightCap \<and> sp_Key (ps_spec st) = key)"

text \<open>Memories that agree on the entries.\<close>

definition sameBuilds :: "projects \<Rightarrow> projects \<Rightarrow> bool" where
  "sameBuilds ps ps' \<longleftrightarrow> (\<forall>key. (case ps' key of None \<Rightarrow> ps key = None
     | Some st' \<Rightarrow> sp_Key (ps_spec st') = key \<and> ps_inflight st' = (case ps key of None \<Rightarrow> [] | Some st \<Rightarrow> ps_inflight st)))"

lemma sameBuildsD:
  assumes "sameBuilds ps ps'"
  shows "ps' key = None \<Longrightarrow> ps key = None"
    and "ps' key = Some st' \<Longrightarrow> sp_Key (ps_spec st') = key \<and> ps_inflight st' = (case ps key of None \<Rightarrow> [] | Some st \<Rightarrow> ps_inflight st)"
  using assms [unfolded sameBuilds_def, rule_format, of key] by auto

lemma sameBuilds_keeps:
  assumes "localOk w" "sameBuilds (w_mem w) (w_mem w')"
  shows "localOk w' \<and> localHeld w' = localHeld w"
proof
  show "localOk w'" unfolding localOk_def
    using sameBuildsD(2) [OF assms(2)] assms(1) unfolding localOk_def by (fastforce split: option.splits)
  show "localHeld w' = localHeld w"
  proof
    fix key
    show "localHeld w' key = localHeld w key"
      using sameBuildsD [OF assms(2), of key] by (auto simp: localHeld_def split: option.splits)
  qed
qed

lemma sameBuilds_refl: "localOk w \<Longrightarrow> sameBuilds (w_mem w) (w_mem w)"
  by (auto simp: localOk_def sameBuilds_def split: option.splits)

lemma sameBuilds_upd:
  "localOk w \<Longrightarrow> sp_Key (ps_spec st') = key \<Longrightarrow> ps_inflight st' = (case w_mem w key of None \<Rightarrow> [] | Some st \<Rightarrow> ps_inflight st) \<Longrightarrow>
   sameBuilds (w_mem w) ((w_mem w)(key \<mapsto> st'))"
  by (auto simp: localOk_def sameBuilds_def split: option.splits)

section \<open>The operations that keep the builds\<close>

definition builds :: "(string \<Rightarrow> string list) \<Rightarrow> (HostEvent, projects) world \<Rightarrow> bool" where
  "builds h w \<longleftrightarrow> localOk w \<and> localHeld w = h"

lemma builds_log: "builds h (w\<lparr>w_log := l\<rparr>) = builds h w"
  by (simp add: builds_def localOk_def localHeld_def fun_eq_iff)

lemma builds_mem: "builds h w \<Longrightarrow> sameBuilds (w_mem w) ps' \<Longrightarrow> builds h (w\<lparr>w_mem := ps'\<rparr>)"
  using sameBuilds_keeps [of w "w\<lparr>w_mem := ps'\<rparr>"] by (simp add: builds_def)

lemma keeps_builds_call [keeps_rules]: "keeps (builds h) (call f ev)"
  by (simp add: keeps_def wp_rules builds_log)

lemma keeps_host [keeps_rules]:
  "keeps (builds h) (hNow env)" "keeps (builds h) (hExists env n)" "keeps (builds h) (hRunning env n)" "keeps (builds h) (hStart env n)"
  "keeps (builds h) (hStop env n)" "keeps (builds h) (hLaunch env i)" "keeps (builds h) (hEgress env n b)" "keeps (builds h) (hEnsureDataset env d)"
  "keeps (builds h) (hClone env s d)" "keeps (builds h) (hSnapshot env d s)" "keeps (builds h) (hListSnapshots env d)"
  "keeps (builds h) (hDestroySnapshot env s)" "keeps (builds h) (hIP env n)" "keeps (builds h) (hDial env a)" "keeps (builds h) (hSleep env x)"
  by (simp_all add: host_calls keeps_builds_call)

lemma keeps_getPut [keeps_rules]:
  "(\<And>w. builds h w \<Longrightarrow> sameBuilds (w_mem w) (g (w_mem w))) \<Longrightarrow> keeps (builds h) m \<Longrightarrow>
   keeps (builds h) (getMem \<bind> (\<lambda>ps. putMem (g ps) \<bind> (\<lambda>_. m)))"
  by (auto simp: keeps_def wp_rules intro!: builds_mem)

lemma sameBuilds_adopt: "builds h w \<Longrightarrow> sameBuilds (w_mem w) (adoptSpec spec vm (w_mem w))"
  unfolding adoptSpec_def builds_def
  by (auto simp: newState_def sameBuilds_refl intro!: sameBuilds_upd split: option.split)

lemma keeps_ensureInstance [keeps_rules]: "keeps (builds h) (ensureInstance env cfg spec vm strict seed)"
  unfolding ensureInstance_def seedDataset_def latestSnapshot_def Let_def
  by (intro keeps_rules sameBuilds_adopt)

lemma keeps_Ensure: "keeps (builds h) (local_Ensure env cfg spec u)"
  unfolding local_Ensure_def by (intro keeps_rules)

text \<open>A state may be changed in any field but its key and its entries.\<close>

lemma builds_patch:
  assumes "builds h w" "w_mem w key = Some st" "ps_spec st' = ps_spec st" "ps_inflight st' = ps_inflight st"
  shows "builds h (w\<lparr>w_mem := (w_mem w)(key \<mapsto> st')\<rparr>)" "builds h (w\<lparr>w_log := l, w_mem := (w_mem w)(key \<mapsto> st')\<rparr>)"
proof -
  have s: "sameBuilds (w_mem w) ((w_mem w)(key \<mapsto> st'))"
    using assms by (intro sameBuilds_upd) (auto simp: builds_def localOk_def)
  show "builds h (w\<lparr>w_mem := (w_mem w)(key \<mapsto> st')\<rparr>)" using assms(1) s by (rule builds_mem)
  show "builds h (w\<lparr>w_log := l, w_mem := (w_mem w)(key \<mapsto> st')\<rparr>)"
    using builds_mem [of h "w\<lparr>w_log := l\<rparr>"] s assms(1) by (simp add: builds_log)
qed

lemma keeps_setIP [keeps_rules]: "keeps (builds h) (setIP key ip)"
  unfolding keeps_def setIP_def by (auto simp: wp_rules builds_patch split: option.split)

lemma keeps_Ready [keeps_rules]: "keeps (builds h) (local_Ready env cfg key)"
  unfolding local_Ready_def dialAddr_def by (intro keeps_rules)

lemma keeps_waitLoop [keeps_rules]: "keeps (builds h) (localWaitLoop fuel env cfg key deadline)"
  by (induction fuel) (auto intro!: keeps_rules)

lemma keeps_WaitReady: "keeps (builds h) (local_WaitReady fuel env cfg key \<bind> (\<lambda>r. ret (f r)))"
  unfolding local_WaitReady_def by (intro keeps_rules)

lemma keeps_Endpoint: "keeps (builds h) (local_Endpoint env cfg key)"
  unfolding local_Endpoint_def by (intro keeps_rules)

lemma stateFor_simps [simp]:
  "ps_inflight (stateFor ps key) = (case ps key of None \<Rightarrow> [] | Some st \<Rightarrow> ps_inflight st)"
  by (simp add: stateFor_def newState_def split: option.split)

lemma stateFor_key: "builds h w \<Longrightarrow> sp_Key (ps_spec (stateFor (w_mem w) key)) = key"
  by (simp add: builds_def localOk_def stateFor_def newState_def split: option.split)

lemma keeps_Touch: "keeps (builds h) (local_Touch env key)"
  unfolding keeps_def local_Touch_def hNow_def
  by (auto simp: wp_rules stateFor_key builds_log intro!: builds_mem sameBuilds_upd) (auto simp: builds_def)

lemma keeps_Repo: "keeps (builds h) (local_ProjectRepo key)"
  unfolding local_ProjectRepo_def by (intro keeps_rules)

lemma keeps_S3: "keeps (builds h) (local_S3CacheDecision env key iv g)"
  unfolding keeps_def local_S3CacheDecision_def hNow_def Let_def
  by (auto simp: wp_rules builds_log builds_patch split: option.split)

section \<open>Starts and releases\<close>

lemma keeps_contract: "keeps (builds (localHeld w)) m \<Longrightarrow> localOk w \<Longrightarrow> wp m (\<lambda>_ w'. localOk w' \<and> localHeld w' = localHeld w) w"
  using keepsD [of "builds (localHeld w)" m w] by (simp add: builds_def [abs_def])

lemma localHeld_upd: "localHeld (w\<lparr>w_log := l, w_mem := (w_mem w)(key \<mapsto> st)\<rparr>) = (localHeld w)(key := map ib_ID (ps_inflight st))"
  by (auto simp: localHeld_def fun_eq_iff)

lemma localHeld_mem: "localHeld (w\<lparr>w_mem := (w_mem w)(key \<mapsto> st)\<rparr>) = (localHeld w)(key := map ib_ID (ps_inflight st))"
  by (auto simp: localHeld_def fun_eq_iff)

lemma localHeld_stateFor: "map ib_ID (ps_inflight (stateFor (w_mem w) key)) = localHeld w key"
  by (simp add: localHeld_def split: option.split)

lemma localOk_upd:
  "localOk w \<Longrightarrow> sp_Key (ps_spec st) = key \<Longrightarrow> length (ps_inflight st) \<le> InflightCap \<Longrightarrow> localOk (w\<lparr>w_log := l, w_mem := (w_mem w)(key \<mapsto> st)\<rparr>)"
  by (auto simp: localOk_def)

lemma localOk_stateFor: "localOk w \<Longrightarrow> sp_Key (ps_spec (stateFor (w_mem w) key)) = key \<and> length (ps_inflight (stateFor (w_mem w) key)) \<le> InflightCap"
  by (auto simp: localOk_def stateFor_def newState_def split: option.split)

lemma local_start:
  assumes "localOk w"
  shows "wp (local_StartInflight env key tok) (\<lambda>_ w'. localOk w' \<and> (\<forall>k. k \<noteq> key \<longrightarrow> localHeld w' k = localHeld w k) \<and>
      mset (localHeld w' key) \<subseteq># add_mset (inflightID tok) (mset (localHeld w key)) \<and> inflightID tok \<in> set (localHeld w' key) \<and>
      (length (localHeld w key) < InflightCap \<longrightarrow> mset (localHeld w' key) = add_mset (inflightID tok) (mset (localHeld w key)))) w"
proof -
  define st where "st = stateFor (w_mem w) key"
  have st: "sp_Key (ps_spec st) = key" "map ib_ID (ps_inflight st) = localHeld w key"
    using localOk_stateFor [OF assms, of key] localHeld_stateFor [of w key] by (simp_all add: st_def)
  have ok: "localOk (w\<lparr>w_log := l, w_mem := (w_mem w)(key \<mapsto> st\<lparr>ps_inflight := startInflight (ps_inflight st) tok t1, ps_lastBuild := t2\<rparr>)\<rparr>)" for l t1 t2
    by (rule localOk_upd [OF assms]) (simp_all add: st startInflight_held)
  show ?thesis unfolding local_StartInflight_def hNow_def Let_def wp_rules st_def [symmetric]
    using ok startInflight_held [where bs = "ps_inflight st" and tok = tok] startInflight_exact [where bs = "ps_inflight st" and tok = tok]
    by (simp add: localHeld_upd flip: st(2))
qed

lemma local_end:
  assumes "localOk w"
  shows "wp (local_EndInflight env key tok) (\<lambda>released w'. localOk w' \<and> (\<forall>k. k \<noteq> key \<longrightarrow> localHeld w' k = localHeld w k) \<and>
      (if released then \<exists>x \<in> set (localHeld w key). (tok \<noteq> [] \<longrightarrow> x = inflightID tok) \<and> mset (localHeld w' key) = mset (localHeld w key) - {#x#}
       else localHeld w' = localHeld w \<and> (if tok = [] then localHeld w key = [] else inflightID tok \<notin> set (localHeld w key)))) w"
proof -
  define st where "st = stateFor (w_mem w) key"
  have st: "sp_Key (ps_spec st) = key" "length (ps_inflight st) \<le> InflightCap" "map ib_ID (ps_inflight st) = localHeld w key"
    using localOk_stateFor [OF assms, of key] localHeld_stateFor [of w key] by (simp_all add: st_def)
  obtain rest found where e: "endInflight (ps_inflight st) tok = (rest, found)" by force
  note h = endInflight_held [OF e]
  have ok: "localOk (w\<lparr>w_log := l, w_mem := (w_mem w)(key \<mapsto> st\<lparr>ps_inflight := rest, ps_lastBuild := t\<rparr>)\<rparr>)" if found for l t
    by (rule localOk_upd [OF assms]) (use h that st in auto)
  have ok': "localOk (w\<lparr>w_mem := (w_mem w)(key \<mapsto> st)\<rparr>)"
    using localOk_upd [OF assms st(1,2), of "w_log w"] by simp
  show ?thesis
  proof (cases found)
    case True
    show ?thesis unfolding local_EndInflight_def hNow_def Let_def wp_rules st_def [symmetric] e
      using True ok h by (simp add: localHeld_upd flip: st(3))
  next
    case False
    show ?thesis unfolding local_EndInflight_def hNow_def Let_def wp_rules st_def [symmetric] e
      using False ok' h fun_upd_triv [of "localHeld w" key] unfolding st(3) [symmetric] by (simp add: localHeld_mem split: if_splits)
  qed
qed

interpretation local: prompt_provisioner "localBackend fuel env cfg" localOk localHeld "\<lambda>_ _. True" for fuel env cfg
proof
  fix w :: "(HostEvent, projects) world" and k i d g spec u
  assume ok: "localOk w"
  show "wp (pv_Ensure (localBackend fuel env cfg) spec u) (\<lambda>_ s'. localOk s' \<and> localHeld s' = localHeld w) w"
    by (simp add: localBackend_def keeps_contract [OF keeps_Ensure ok])
  show "wp (pv_Ready (localBackend fuel env cfg) k) (\<lambda>_ s'. localOk s' \<and> localHeld s' = localHeld w) w"
    by (simp add: localBackend_def keeps_contract [OF keeps_Ready ok])
  show "wp (pv_WaitReady (localBackend fuel env cfg) k) (\<lambda>_ s'. localOk s' \<and> localHeld s' = localHeld w) w"
    by (simp add: localBackend_def keeps_contract [OF keeps_WaitReady ok])
  show "wp (pv_Endpoint (localBackend fuel env cfg) k) (\<lambda>_ s'. localOk s' \<and> localHeld s' = localHeld w) w"
    by (simp add: localBackend_def keeps_contract [OF keeps_Endpoint ok])
  show "wp (pv_Touch (localBackend fuel env cfg) k) (\<lambda>_ s'. localOk s' \<and> localHeld s' = localHeld w) w"
    by (simp add: localBackend_def keeps_contract [OF keeps_Touch ok])
  show "wp (pv_ProjectRepo (localBackend fuel env cfg) k) (\<lambda>_ s'. localOk s' \<and> localHeld s' = localHeld w) w"
    by (simp add: localBackend_def keeps_contract [OF keeps_Repo ok])
  show "wp (pv_S3CacheDecision (localBackend fuel env cfg) k d g) (\<lambda>_ s'. localOk s' \<and> localHeld s' = localHeld w) w"
    by (simp add: localBackend_def keeps_contract [OF keeps_S3 ok])
  show "wp (pv_Ensure (localBackend fuel env cfg) spec u) (\<lambda>e s'. e = None \<longrightarrow> True) w" by (simp add: wp_def split: prod.split)
  show "wp (pv_StartInflight (localBackend fuel env cfg) k i) (\<lambda>_ s'. localOk s' \<and> (\<forall>k'. k' \<noteq> k \<longrightarrow> localHeld s' k' = localHeld w k') \<and>
      mset (localHeld s' k) \<subseteq># add_mset (inflightID i) (mset (localHeld w k))) w"
    "wp (pv_StartInflight (localBackend fuel env cfg) k i) (\<lambda>_ s'. inflightID i \<in> set (localHeld s' k) \<and>
        (length (localHeld w k) < InflightCap \<longrightarrow> mset (localHeld s' k) = add_mset (inflightID i) (mset (localHeld w k)))) w"
    using local_start [OF ok, of env k i] by (auto simp: localBackend_def elim!: wp_mono)
  show "wp (pv_EndInflight (localBackend fuel env cfg) k i) (\<lambda>released s'. localOk s' \<and> (\<forall>k'. k' \<noteq> k \<longrightarrow> localHeld s' k' = localHeld w k') \<and>
        (if released then mset (localHeld s' k) \<subset># mset (localHeld w k) \<and>
           (i \<noteq> [] \<longrightarrow> inflightID i \<in> set (localHeld w k) \<and> mset (localHeld s' k) \<subseteq># mset (localHeld w k) - {#inflightID i#})
         else localHeld s' = localHeld w)) w"
    "wp (pv_EndInflight (localBackend fuel env cfg) k i) (\<lambda>released s'.
        if released then \<exists>x \<in> set (localHeld w k). (i \<noteq> [] \<longrightarrow> x = inflightID i) \<and> mset (localHeld s' k) = mset (localHeld w k) - {#x#}
        else if i = [] then localHeld w k = [] else inflightID i \<notin> set (localHeld w k)) w"
    using local_end [OF ok, of env k i] by (auto simp: localBackend_def mset_without elim!: wp_mono split: if_splits)
qed

section \<open>The routing API over the single-host backend\<close>

text \<open>C5: \<^bold>\<open>The routing API refines a ledger of builds.\<close> Over the single-host backend, any sequence of routes, prewarms
  and completions, whatever the host answers, is a run of the abstract ledger: below the cap of 64
  builds per project, a route that answers 200 registers exactly the build it returns, a route that
  fails registers none, a completion takes out exactly the build its token names (one build, without a
  token) and answers 204 without effect only when there is none, and no call touches the builds of
  another project. The backend's invariant is kept.\<close>

theorem local_refines_ledger:
  assumes "rs_prov srv = localBackend fuel env cfg" "localOk w" "list_all realRequest cs" "run_state (serveAll srv cs) w = (rs, w')"
  shows "localOk w' \<and> ledgerRun (\<lambda>k. mset (localHeld w k)) cs rs (\<lambda>k. mset (localHeld w' k))"
  using local.serveAll_refines [OF assms(1-3)] assms(4) by (simp add: wp_run local.ledgerOf_def)

definition idleHost :: HostEnv where
  "idleHost = \<lparr>hv_now = \<lambda>_. 7, hv_exists = \<lambda>_ _. Inr True, hv_running = \<lambda>_ _. Inr True, hv_start = \<lambda>_ _. None, hv_stop = \<lambda>_ _. None,
     hv_launch = \<lambda>_ _. None, hv_egress = \<lambda>_ _ _. None, hv_ensureDataset = \<lambda>_ _. None, hv_clone = \<lambda>_ _ _. None, hv_snapshot = \<lambda>_ _ _. None,
     hv_listSnapshots = \<lambda>_ _. Inr [], hv_destroySnapshot = \<lambda>_ _. None, hv_ip = \<lambda>_ _. Inr ''10.0.0.2'', hv_dial = \<lambda>_ _. True,
     hv_sleep = \<lambda>_ _. None, hv_addr = None\<rparr>"

definition plainLocal :: LocalConfig where
  "plainLocal = \<lparr>lc_Pool = ''tank/bko'', lc_Image = ''img'', lc_VMImage = [], lc_MountPath = ''/var/lib/buildkit'', lc_Port = 1234, lc_Wait = 0,
     lc_IdleTimeout = 0, lc_SnapshotEvery = 0, lc_KeepSnapshots = 0, lc_MaxBuildSeconds = 0, lc_ForkEgressStrict = True,
     lc_EndpointDomain = [], lc_CertsHostPath = []\<rparr>"

definition localServer :: "(HostEvent, projects) world routeServer" where
  "localServer = \<lparr>rs_prov = localBackend 5 idleHost plainLocal, rs_Namespace = [], rs_s3Bucket = [], rs_s3Region = [], rs_s3Endpoint = [],
     rs_s3ExportInterval = 0, rs_verifier = None, rs_authToken = [], rs_adminToken = [], rs_defaults = None, rs_requireBuildID = True\<rparr>"

theorem local_refines_ledger_witness:
  "ledgerRun (\<lambda>_. {#}) [Route routeCall, Complete completeCall]
     (fst (run_state (serveAll localServer [Route routeCall, Complete completeCall]) \<lparr>w_log = [], w_mem = Map.empty\<rparr>))
     (\<lambda>k. mset (localHeld (snd (run_state (serveAll localServer [Route routeCall, Complete completeCall]) \<lparr>w_log = [], w_mem = Map.empty\<rparr>)) k))"
proof -
  let ?w = "\<lparr>w_log = [], w_mem = Map.empty\<rparr> :: (HostEvent, projects) world"
  have "rs_prov localServer = localBackend 5 idleHost plainLocal" by (simp add: localServer_def)
  moreover have "localOk ?w" by (simp add: localOk_def)
  moreover have "list_all realRequest [Route routeCall, Complete completeCall]" by (simp add: realRequest_def routeCall_def buildIDBytes_def)
  ultimately have "ledgerRun (\<lambda>k. mset (localHeld ?w k)) [Route routeCall, Complete completeCall]
     (fst (run_state (serveAll localServer [Route routeCall, Complete completeCall]) ?w))
     (\<lambda>k. mset (localHeld (snd (run_state (serveAll localServer [Route routeCall, Complete completeCall]) ?w)) k))"
    using local_refines_ledger [OF _ _ _ surjective_pairing] by blast
  then show ?thesis by (simp add: localHeld_def)
qed

end
