(* ===== verification/Local_Safety.thy ===== *)
theory Local_Safety
  imports Local_Contract
begin

text \<open>
  What the single-host backend does to the host: what an untrusted build can make it do
  (\<open>local_fork_isolated\<close>), what a lifecycle pass may stop, snapshot and destroy
  (\<open>local_reconcile_policy\<close>), and the window between the decision and the stop
  (\<open>stop_ignores_new_build\<close>).
\<close>

section \<open>Untrusted builds\<close>

text \<open>What the ensuring of an untrusted build may do to the host.\<close>

definition forkEvent :: "LocalConfig \<Rightarrow> string \<Rightarrow> HostEvent \<Rightarrow> bool" where
  "forkEvent cfg canonical e =
     (let fork = forkKey canonical in
      case e of
        HExists n _ \<Rightarrow> n = daemonName fork
      | HRunning n _ \<Rightarrow> n = daemonName fork
      | HStart n _ \<Rightarrow> n = daemonName fork
      | HEnsureDataset d _ \<Rightarrow> d = dataset cfg fork
      | HListSnapshots d _ \<Rightarrow> d = dataset cfg canonical
      | HClone s d _ \<Rightarrow> d = dataset cfg fork
      | HLaunch i _ \<Rightarrow> is_Name i = daemonName fork \<and> is_VM i \<and> is_Image i = lc_VMImage cfg \<and> is_Dataset i = dataset cfg fork \<and>
          is_Config i = [(labelKey, fork)]
      | HEgress n strict _ \<Rightarrow> n = daemonName fork \<and> strict = lc_ForkEgressStrict cfg
      | _ \<Rightarrow> False)"

lemma emits_host [emits_rules]:
  "(\<And>x. E (HNow x)) \<Longrightarrow> emits E (hNow env)" "(\<And>x. E (HExists n x)) \<Longrightarrow> emits E (hExists env n)"
  "(\<And>x. E (HRunning n x)) \<Longrightarrow> emits E (hRunning env n)" "(\<And>x. E (HStart n x)) \<Longrightarrow> emits E (hStart env n)"
  "(\<And>x. E (HStop n x)) \<Longrightarrow> emits E (hStop env n)" "(\<And>x. E (HLaunch i x)) \<Longrightarrow> emits E (hLaunch env i)"
  "(\<And>x. E (HEgress n b x)) \<Longrightarrow> emits E (hEgress env n b)" "(\<And>x. E (HEnsureDataset d x)) \<Longrightarrow> emits E (hEnsureDataset env d)"
  "(\<And>x. E (HClone s d x)) \<Longrightarrow> emits E (hClone env s d)" "(\<And>x. E (HSnapshot d s x)) \<Longrightarrow> emits E (hSnapshot env d s)"
  "(\<And>x. E (HListSnapshots d x)) \<Longrightarrow> emits E (hListSnapshots env d)" "(\<And>x. E (HDestroySnapshot s x)) \<Longrightarrow> emits E (hDestroySnapshot env s)"
  "(\<And>x. E (HIP n x)) \<Longrightarrow> emits E (hIP env n)" "(\<And>x. E (HDial a x)) \<Longrightarrow> emits E (hDial env a)" "(\<And>x. E (HSleep t x)) \<Longrightarrow> emits E (hSleep env t)"
  by (simp_all add: host_calls emits_call)

lemma keeps_host_mem [keeps_rules]:
  "keeps (\<lambda>w. w_mem w = m) (hExists env n)" "keeps (\<lambda>w. w_mem w = m) (hRunning env n)" "keeps (\<lambda>w. w_mem w = m) (hStart env n)"
  "keeps (\<lambda>w. w_mem w = m) (hLaunch env i)" "keeps (\<lambda>w. w_mem w = m) (hEgress env n b)" "keeps (\<lambda>w. w_mem w = m) (hEnsureDataset env d)"
  "keeps (\<lambda>w. w_mem w = m) (hClone env s d)" "keeps (\<lambda>w. w_mem w = m) (hListSnapshots env d)"
  by (simp_all add: host_calls keeps_mem_call)

lemma emits_case_bool [emits_rules]: "emits E m \<Longrightarrow> emits E n \<Longrightarrow> emits E (case b of True \<Rightarrow> m | False \<Rightarrow> n)"
  by (simp split: bool.split)

lemma ensureInstance_mem: "wp (ensureInstance env cfg spec vm strict seed) (\<lambda>_ w'. w_mem w' = adoptSpec spec vm (w_mem w)) w"
proof -
  have "wp (getMem \<bind> (\<lambda>ps. putMem (adoptSpec spec vm ps) \<bind> (\<lambda>_. m))) (\<lambda>_ w'. w_mem w' = adoptSpec spec vm (w_mem w)) w"
    if "keeps (\<lambda>w'. w_mem w' = adoptSpec spec vm (w_mem w)) m" for m :: "string option lprog"
    unfolding wp_rules by (rule keepsD [OF that]) simp
  note step = this
  show ?thesis unfolding ensureInstance_def seedDataset_def latestSnapshot_def Let_def by (rule step) (intro keeps_rules)
qed

lemma emits_fork:
  assumes "lc_VMImage cfg \<noteq> []"
  shows "emits (forkEvent cfg (sp_Key spec)) (local_Ensure env cfg spec True)"
  using assms unfolding local_Ensure_def ensureInstance_def seedDataset_def latestSnapshot_def Let_def
  by (intro emits_rules) (simp_all add: forkEvent_def instanceSpecFor_def imageFor_def)

text \<open>C22: \<^bold>\<open>An untrusted build is confined on a single host.\<close> Without a VM image it is refused and nothing happens. With
  one, everything the backend does to the host concerns the fork's own instance and dataset: the
  instance is a virtual machine on the VM image, with no privileged or nesting setting, on the fork's
  dataset, which is a fresh one or a clone, and bound to the egress profile of the configuration; the
  canonical project's snapshots are only listed, and no other project's state changes.\<close>

theorem local_fork_isolated:
  assumes "run_state (local_Ensure env cfg spec True) w = (r, w')"
  shows "if lc_VMImage cfg = [] then r \<noteq> None \<and> w' = w
    else (\<forall>k. k \<noteq> forkKey (sp_Key spec) \<longrightarrow> w_mem w' k = w_mem w k) \<and>
      (\<exists>new. w_log w' = new @ w_log w \<and> list_all (forkEvent cfg (sp_Key spec)) new)"
proof (cases "lc_VMImage cfg = []")
  case True
  then show ?thesis using assms by (auto simp: local_Ensure_def)
next
  case False
  let ?spec = "deriveChild spec [] ForkChild (forkKey (sp_Key spec))"
  have run: "run_state (ensureInstance env cfg ?spec True (lc_ForkEgressStrict cfg) (sp_Key spec)) w = (r, w')"
    using assms False by (simp add: local_Ensure_def)
  have "w_mem w' = adoptSpec ?spec True (w_mem w)"
    using ensureInstance_mem [of env cfg ?spec True "lc_ForkEgressStrict cfg" "sp_Key spec" w] run by (simp add: wp_run)
  then have m: "\<forall>k. k \<noteq> forkKey (sp_Key spec) \<longrightarrow> w_mem w' k = w_mem w k" by (auto simp: adoptSpec_def split: option.split)
  from emits_run [OF emits_fork [OF False, of spec env], of w] show ?thesis using m False assms by (auto simp: list_all_iff)
qed

theorem local_fork_isolated_witness:
  "list_all (forkEvent (plainLocal\<lparr>lc_VMImage := ''vm''\<rparr>) ''p1'')
     (w_log (snd (run_state (local_Ensure (idleHost\<lparr>hv_exists := \<lambda>_ _. Inr False\<rparr>) (plainLocal\<lparr>lc_VMImage := ''vm''\<rparr>) (zeroSpec\<lparr>sp_Key := ''p1''\<rparr>) True)
        \<lparr>w_log = [], w_mem = Map.empty\<rparr>)))"
  using local_fork_isolated [where env = "idleHost\<lparr>hv_exists := \<lambda>_ _. Inr False\<rparr>" and cfg = "plainLocal\<lparr>lc_VMImage := ''vm''\<rparr>"
      and spec = "zeroSpec\<lparr>sp_Key := ''p1''\<rparr>" and w = "\<lparr>w_log = [], w_mem = Map.empty\<rparr>", OF surjective_pairing]
  by simp

section \<open>A lifecycle pass\<close>

lemma expireState_simps [simp]:
  "ps_spec (expireState cfg now st) = ps_spec st" "ps_hot (expireState cfg now st) = ps_hot st" "ps_lastBuild (expireState cfg now st) = ps_lastBuild st"
  "ps_lastSnapAt (expireState cfg now st) = ps_lastSnapAt st"
  by (simp_all add: expireState_def)

lemma expireState_idem: "expireState cfg now (expireState cfg now st) = expireState cfg now st"
  by (simp add: expireState_def expireInflight_fst)

text \<open>What the decision computes, for any order in which the map is visited.\<close>

lemma decideKeys_exact:
  assumes "decideKeys cfg now keys ps = (ps', idle, snap)"
  shows "ps' = (\<lambda>k. if k \<in> set keys then map_option (expireState cfg now) (ps k) else ps k) \<and>
    set idle = {k \<in> set keys. \<exists>st. ps k = Some st \<and> isIdle cfg now (expireState cfg now st)} \<and>
    set snap = {k \<in> set keys. \<exists>st. ps k = Some st \<and> snapDue cfg now k (expireState cfg now st)}"
  using assms
proof (induction keys arbitrary: ps ps' idle snap)
  case (Cons key keys)
  show ?case
  proof (cases "ps key")
    case None
    then have "decideKeys cfg now keys ps = (ps', idle, snap)" using Cons.prems by simp
    note ih = Cons.IH [OF this]
    have "ps' = (\<lambda>k. if k \<in> set (key # keys) then map_option (expireState cfg now) (ps k) else ps k)" using ih None by (auto simp: fun_eq_iff)
    moreover have "{k \<in> set (key # keys). \<exists>st. ps k = Some st \<and> P k st} = {k \<in> set keys. \<exists>st. ps k = Some st \<and> P k st}" for P using None by auto
    ultimately show ?thesis using ih by simp
  next
    case (Some st0)
    let ?st = "expireState cfg now st0"
    obtain idle' snap' where d: "decideKeys cfg now keys (ps(key \<mapsto> ?st)) = (ps', idle', snap')"
      "idle = (if isIdle cfg now ?st then [key] else []) @ idle'" "snap = (if snapDue cfg now key ?st then [key] else []) @ snap'"
      using Cons.prems Some by (auto simp: Let_def split: prod.splits)
    note ih = Cons.IH [OF d(1)]
    have "ps' = (\<lambda>k. if k \<in> set (key # keys) then map_option (expireState cfg now) (ps k) else ps k)"
      using ih Some by (auto simp: fun_eq_iff expireState_idem)
    moreover have S: "{k \<in> set (key # keys). \<exists>st. ps k = Some st \<and> P k (expireState cfg now st)} =
        (if P key ?st then {key} else {}) \<union> {k \<in> set keys. \<exists>st. (ps(key \<mapsto> ?st)) k = Some st \<and> P k (expireState cfg now st)}" for P
      using Some by (auto simp: expireState_idem)
    moreover have "set idle = {k \<in> set (key # keys). \<exists>st. ps k = Some st \<and> isIdle cfg now (expireState cfg now st)}"
      unfolding S [of "\<lambda>_. isIdle cfg now"] d(2) using ih by simp
    moreover have "set snap = {k \<in> set (key # keys). \<exists>st. ps k = Some st \<and> snapDue cfg now k (expireState cfg now st)}"
      unfolding S [of "snapDue cfg now"] d(3) using ih by simp
    ultimately show ?thesis by simp
  qed
qed simp

text \<open>The events of a pass: a stop only right after the instance was seen running, and only of a project that was
  idle when the pass decided; a snapshot only of a canonical project that is due; a snapshot destroyed
  only when a listing shows at least as many newer ones as are to be kept.\<close>

definition reconcilePolicy :: "LocalConfig \<Rightarrow> time \<Rightarrow> projects \<Rightarrow> HostEvent \<Rightarrow> hlog \<Rightarrow> bool" where
  "reconcilePolicy cfg now ps e l =
     (case e of
        HNow _ \<Rightarrow> True
      | HRunning _ _ \<Rightarrow> True
      | HListSnapshots _ _ \<Rightarrow> True
      | HStop n _ \<Rightarrow>
          (\<exists>key st rest. n = daemonName key \<and> l = HRunning n (Inr True) # rest \<and> ps key = Some st \<and> isIdle cfg now (expireState cfg now st))
      | HSnapshot d _ _ \<Rightarrow>
          (\<exists>key st. d = dataset cfg key \<and> ps key = Some st \<and> snapDue cfg now key (expireState cfg now st))
      | HDestroySnapshot s _ \<Rightarrow>
          (\<exists>d snaps. HListSnapshots d (Inr snaps) \<in> set l \<and> lc_KeepSnapshots cfg > 0 \<and>
             s \<in> set (take (nat (int (length snaps) - lc_KeepSnapshots cfg)) snaps))
      | _ \<Rightarrow> False)"

lemma reconcilePolicy_simps [simp]:
  "reconcilePolicy cfg now ps (HNow t) l" "reconcilePolicy cfg now ps (HRunning n b) l" "reconcilePolicy cfg now ps (HListSnapshots d x) l"
  by (simp_all add: reconcilePolicy_def)

abbreviation policed :: "LocalConfig \<Rightarrow> time \<Rightarrow> projects \<Rightarrow> (HostEvent, projects) world \<Rightarrow> bool" where
  "policed cfg now ps w \<equiv> log_ok (reconcilePolicy cfg now ps) (w_log w)"

lemma stopIdle_policed:
  assumes "ps key = Some st" "isIdle cfg now (expireState cfg now st)"
  shows "keeps (policed cfg now ps) (stopIdle env key)"
  unfolding keeps_def stopIdle_def hRunning_def hStop_def
  using assms by (auto simp: wp_rules) (auto simp: reconcilePolicy_def)

lemma prune_policed:
  assumes "lc_KeepSnapshots cfg > 0"
  shows "keeps (policed cfg now ps) (pruneLocalSnapshots env cfg d)"
  unfolding keeps_def
proof (intro allI impI)
  fix w assume w: "policed cfg now ps w"
  have loop: "wp (forEach (take n snaps) (\<lambda>s. do { _ \<leftarrow> hDestroySnapshot env s; ret (None :: unit option) })) (\<lambda>_. policed cfg now ps) w1"
    if "policed cfg now ps w1" "HListSnapshots d (Inr snaps) \<in> set (w_log w1)" "n = nat (int (length snaps) - lc_KeepSnapshots cfg)" for snaps n w1
  proof (rule wp_mono [OF wp_forEach [where I = "\<lambda>w'. policed cfg now ps w' \<and> HListSnapshots d (Inr snaps) \<in> set (w_log w')"]])
    show "policed cfg now ps w1 \<and> HListSnapshots d (Inr snaps) \<in> set (w_log w1)" using that by simp
  next
    fix s w'
    assume s: "s \<in> set (take n snaps)" and w': "policed cfg now ps w' \<and> HListSnapshots d (Inr snaps) \<in> set (w_log w')"
    have "reconcilePolicy cfg now ps (HDestroySnapshot s x) (w_log w')" for x
      using assms s w' unfolding that(3) by (auto simp: reconcilePolicy_def)
    then show "wp (do { _ \<leftarrow> hDestroySnapshot env s; ret (None :: unit option) }) (\<lambda>_ w'. policed cfg now ps w' \<and> HListSnapshots d (Inr snaps) \<in> set (w_log w')) w'"
      using w' by (simp add: wp_rules hDestroySnapshot_def)
  qed simp
  show "wp (pruneLocalSnapshots env cfg d) (\<lambda>_. policed cfg now ps) w"
    unfolding pruneLocalSnapshots_def hListSnapshots_def using w
    by (auto simp: wp_rules intro!: loop split: sum.split)
qed

lemma snapshot_policed:
  assumes "ps key = Some st" "snapDue cfg now key (expireState cfg now st)"
  shows "keeps (policed cfg now ps) (local_snapshot env cfg now key)"
proof -
  have snap: "keeps (policed cfg now ps) (hSnapshot env (dataset cfg key) n)" for n
    unfolding keeps_def hSnapshot_def using assms by (auto simp: wp_rules) (auto simp: reconcilePolicy_def)
  have put: "keeps (policed cfg now ps) (putMem m)" for m by (simp add: keeps_def wp_rules)
  show ?thesis unfolding local_snapshot_def Let_def by (intro keeps_rules snap put prune_policed)
qed

text \<open>Acting leaves the entries alone.\<close>

lemma keeps_entries_call:
  "keeps (\<lambda>w. map_option ps_inflight \<circ> w_mem w = F) (hRunning env n)" "keeps (\<lambda>w. map_option ps_inflight \<circ> w_mem w = F) (hStop env n)"
  "keeps (\<lambda>w. map_option ps_inflight \<circ> w_mem w = F) (hSnapshot env d n)" "keeps (\<lambda>w. map_option ps_inflight \<circ> w_mem w = F) (hListSnapshots env d)"
  "keeps (\<lambda>w. map_option ps_inflight \<circ> w_mem w = F) (hDestroySnapshot env n)"
  by (simp_all add: keeps_def wp_rules host_calls)

lemma keeps_entries_put:
  fixes F :: "string \<Rightarrow> InflightBuild list option" and f :: "projectState \<Rightarrow> projectState" and m :: "unit \<Rightarrow> 'a lprog"
  assumes "\<And>u. keeps (\<lambda>w. map_option ps_inflight \<circ> w_mem w = F) (m u)" "\<And>st. ps_inflight (f st) = ps_inflight st"
  shows "keeps (\<lambda>w. map_option ps_inflight \<circ> w_mem w = F)
    (getMem \<bind> (\<lambda>ps. (case ps key of None \<Rightarrow> ret () | Some st \<Rightarrow> putMem (ps(key \<mapsto> f st))) \<bind> m))"
  unfolding keeps_def
proof (intro allI impI)
  fix w :: "(HostEvent, projects) world" assume w: "map_option ps_inflight \<circ> w_mem w = F"
  have "map_option ps_inflight \<circ> (w_mem w)(key \<mapsto> f st) = F" if "w_mem w key = Some st" for st
  proof -
    have "F key = Some (ps_inflight st)" using w that by (metis comp_apply option.map(2))
    then show ?thesis using w assms(2) by (auto simp: fun_eq_iff)
  qed
  then show "wp (getMem \<bind> (\<lambda>ps. (case ps key of None \<Rightarrow> ret () | Some st \<Rightarrow> putMem (ps(key \<mapsto> f st))) \<bind> m)) (\<lambda>_ w. map_option ps_inflight \<circ> w_mem w = F) w"
    using w assms(1) by (auto simp: wp_rules keepsD split: option.split)
qed

text \<open>C25: \<^bold>\<open>A lifecycle pass acts on the idle and the due only.\<close> Whatever the host answers and in whatever order the
  projects are visited: a pass stops an instance only right after seeing it run, and only when its
  project, its over-age builds expired, had none left, is not hot, and was idle for longer than the
  timeout; it snapshots only canonical, built, due projects; and it destroys a snapshot only when a
  listing shows at least the retained number of later ones. Expiry is the only change to the builds.\<close>

theorem local_reconcile_policy:
  assumes "run_state (local_Reconcile env cfg order) \<lparr>w_log = [], w_mem = ps\<rparr> = ((), w')"
  shows "log_ok (reconcilePolicy cfg (hv_now env []) ps) (w_log w') \<and>
    (\<forall>key. map_option ps_inflight (w_mem w' key) =
       map_option ps_inflight (if key \<in> set order then map_option (expireState cfg (hv_now env [])) (ps key) else ps key))"
proof -
  let ?now = "hv_now env []"
  obtain ps' idle snap where d: "decideKeys cfg ?now order ps = (ps', idle, snap)" by (metis prod_cases3)
  note dk = decideKeys_exact [OF d]
  let ?w = "\<lparr>w_log = [HNow ?now], w_mem = ps'\<rparr>"
  have dec: "run_state (reconcileDecide env cfg order) \<lparr>w_log = [], w_mem = ps\<rparr> = ((?now, idle, snap), ?w)"
    using d by (simp add: reconcileDecide_def hNow_def call_def getMem_def putMem_def Let_def)
  have "keeps (policed cfg ?now ps) (reconcileAct env cfg (?now, idle, snap))"
    unfolding reconcileAct_def prod.case
    by (intro keeps_rules; use dk in \<open>auto intro: stopIdle_policed snapshot_policed\<close>)
  moreover have "keeps (\<lambda>w. map_option ps_inflight \<circ> w_mem w = map_option ps_inflight \<circ> ps') (reconcileAct env cfg (?now, idle, snap))"
    unfolding reconcileAct_def prod.case stopIdle_def local_snapshot_def pruneLocalSnapshots_def Let_def
    by (intro keeps_entries_put keeps_rules keeps_entries_call) simp_all
  ultimately have "wp (reconcileAct env cfg (?now, idle, snap)) (\<lambda>_ w'. policed cfg ?now ps w' \<and>
      map_option ps_inflight \<circ> w_mem w' = map_option ps_inflight \<circ> ps') ?w"
    by (intro wp_conj keepsD) simp_all
  then show ?thesis using assms dec dk by (auto simp: local_Reconcile_def wp_run fun_eq_iff)
qed

definition quietProject :: projectState where
  "quietProject = (newState (zeroSpec\<lparr>sp_Key := ''p1'', sp_Repo := ''r''\<rparr>) False False)\<lparr>ps_lastBuild := 1\<rparr>"

theorem local_reconcile_policy_witness:
  "log_ok (reconcilePolicy plainLocal 7 [''p1'' \<mapsto> quietProject])
     (w_log (snd (run_state (local_Reconcile idleHost plainLocal [''p1'']) \<lparr>w_log = [], w_mem = [''p1'' \<mapsto> quietProject]\<rparr>)))"
proof -
  obtain w' where "run_state (local_Reconcile idleHost plainLocal [''p1'']) \<lparr>w_log = [], w_mem = [''p1'' \<mapsto> quietProject]\<rparr> = ((), w')"
    by (metis old.unit.exhaust surj_pair)
  with local_reconcile_policy [OF this] show ?thesis by (simp add: idleHost_def)
qed

section \<open>Between the decision and the stop\<close>

lemma log_grows:
  fixes m :: "'a lprog"
  assumes "emits (\<lambda>_. True) m" "\<And>A B. P A \<Longrightarrow> A \<subseteq> B \<Longrightarrow> P B"
  shows "keeps (\<lambda>w. P (set (w_log w))) m"
proof -
  have "wp m (\<lambda>_ w'. P (set (w_log w'))) w" if "P (set (w_log w))" for w
  proof -
    have "wp m (\<lambda>_ w'. \<exists>new. w_log w' = new @ w_log w \<and> (\<forall>e \<in> set new. True)) w" using assms(1) by (simp add: emits_def)
    then show ?thesis by (rule wp_mono) (use assms(2) [OF that] in auto)
  qed
  then show ?thesis by (simp add: keeps_def)
qed

lemma emits_stopIdle: "emits (\<lambda>_. True) (stopIdle env k)"
  unfolding stopIdle_def by (intro emits_rules) simp_all

lemma emits_snapshot: "emits (\<lambda>_. True) (local_snapshot env cfg now k)"
  unfolding local_snapshot_def pruneLocalSnapshots_def Let_def by (intro emits_rules) simp_all

lemma forEach_stop:
  assumes "\<And>l. hv_running env l (daemonName key) = Inr True" "key \<in> set keys"
  shows "wp (forEach keys (stopIdle env)) (\<lambda>_ w'. \<exists>x. HStop (daemonName key) x \<in> set (w_log w')) w"
  using assms(2)
proof (induction keys arbitrary: w)
  case (Cons k keys)
  have none: "wp (stopIdle env k) (\<lambda>e w'. e = None \<and> (k = key \<longrightarrow> (\<exists>x. HStop (daemonName key) x \<in> set (w_log w')))) v" for v
    unfolding stopIdle_def hRunning_def hStop_def using assms(1) by (auto simp: wp_rules)
  have rest: "wp (forEach keys (stopIdle env)) (\<lambda>_ w'. \<exists>x. HStop (daemonName key) x \<in> set (w_log w')) v"
    if "k = key \<longrightarrow> (\<exists>x. HStop (daemonName key) x \<in> set (w_log v))" for v
  proof (cases "k = key")
    case True
    then show ?thesis using that by (intro keepsD [OF log_grows [where P = "\<lambda>A. \<exists>x. HStop (daemonName key) x \<in> A"]]) (auto intro!: emits_rules emits_stopIdle)
  qed (use Cons in auto)
  show ?case unfolding forEach.simps wp_bind by (rule wp_mono [OF none]) (use rest in auto)
qed simp

lemma expireState_le: "length (ps_inflight (expireState cfg now st)) \<le> length (ps_inflight st)"
  by (simp add: expireState_def expireInflight_fst)

lemma keeps_patch:
  fixes f :: "projectState \<Rightarrow> projectState"
  assumes "\<And>u. keeps (builds h) (m u)" "\<And>st. ps_inflight (f st) = ps_inflight st" "\<And>st. ps_spec (f st) = ps_spec st"
  shows "keeps (builds h) (getMem \<bind> (\<lambda>ps. (case ps key of None \<Rightarrow> ret () | Some st \<Rightarrow> putMem (ps(key \<mapsto> f st))) \<bind> m))"
  using assms unfolding keeps_def by (auto simp: wp_rules builds_patch split: option.split)

text \<open>C26: \<^bold>\<open>A build routed during a lifecycle pass is stopped.\<close> \<open>Reconcile\<close> decides under the lock and stops after releasing
  it, without looking again. A build that is routed in between, on a project the pass found idle, is
  registered, and its running daemon is stopped all the same, with the build still registered.\<close>

theorem stop_ignores_new_build:
  assumes "w_mem w key = Some st" "key \<in> set order" "isIdle cfg (hv_now env (w_log w)) (expireState cfg (hv_now env (w_log w)) st)"
    and "\<And>l. hv_running env l (daemonName key) = Inr True" "localOk w"
    and "run_state (do { d \<leftarrow> reconcileDecide env cfg order; _ \<leftarrow> local_StartInflight env key tok; _ \<leftarrow> reconcileAct env cfg d; ret d }) w = (d, w')"
  shows "(\<exists>x. HStop (daemonName key) x \<in> set (w_log w')) \<and> inflightID tok \<in> set (localHeld w' key)"
proof -
  let ?now = "hv_now env (w_log w)"
  obtain ps' idle snap where d: "decideKeys cfg ?now order (w_mem w) = (ps', idle, snap)" by (metis prod_cases3)
  note dk = decideKeys_exact [OF d]
  define w1 where "w1 = w\<lparr>w_log := HNow ?now # w_log w, w_mem := ps'\<rparr>"
  have dec: "run_state (reconcileDecide env cfg order) w = ((?now, idle, snap), w1)"
    using d by (simp add: reconcileDecide_def hNow_def call_def getMem_def putMem_def Let_def w1_def)
  have key: "key \<in> set idle" using dk assms(1-3) by auto
  have ok: "localOk w1" using assms(5) dk
    by (auto simp: localOk_def w1_def intro: order_trans [OF expireState_le] split: if_splits)
  obtain w2 where w2: "run_state (local_StartInflight env key tok) w1 = ((), w2)" by (metis old.unit.exhaust surj_pair)
  have h: "localOk w2" "inflightID tok \<in> set (localHeld w2 key)" using local_start [OF ok, of env key tok] w2 by (simp_all add: wp_run)
  have k: "keeps (builds (localHeld w2)) (reconcileAct env cfg (?now, idle, snap))"
    unfolding reconcileAct_def prod.case stopIdle_def local_snapshot_def pruneLocalSnapshots_def Let_def
    by (intro keeps_patch keeps_rules) simp_all
  have stop: "wp (reconcileAct env cfg (?now, idle, snap)) (\<lambda>_ w'. \<exists>x. HStop (daemonName key) x \<in> set (w_log w')) w2"
    unfolding reconcileAct_def prod.case wp_bind
    by (rule wp_mono [OF forEach_stop [OF assms(4) key]])
      (auto simp: wp_rules intro!: keepsD [OF log_grows [where P = "\<lambda>A. \<exists>x. HStop (daemonName key) x \<in> A"]] emits_rules emits_snapshot)
  have "wp (reconcileAct env cfg (?now, idle, snap)) (\<lambda>_ w'. (\<exists>x. HStop (daemonName key) x \<in> set (w_log w')) \<and> builds (localHeld w2) w') w2"
    using h(1) by (intro wp_conj stop keepsD [OF k]) (simp add: builds_def)
  moreover have "snd (run_state (reconcileAct env cfg (?now, idle, snap)) w2) = w'"
    using assms(6) dec w2 by (auto split: prod.splits)
  ultimately show ?thesis using h(2) by (simp add: wp_run builds_def)
qed

theorem stop_ignores_new_build_witness:
  "\<exists>x. HStop (daemonName ''p1'') x \<in> set (w_log (snd (run_state
     (do { d \<leftarrow> reconcileDecide idleHost plainLocal [''p1'']; _ \<leftarrow> local_StartInflight idleHost ''p1'' ''tok''; _ \<leftarrow> reconcileAct idleHost plainLocal d; ret d })
     \<lparr>w_log = [], w_mem = [''p1'' \<mapsto> quietProject]\<rparr>)))"
proof -
  let ?w = "\<lparr>w_log = [], w_mem = [''p1'' \<mapsto> quietProject]\<rparr> :: (HostEvent, projects) world"
  have "isIdle plainLocal (hv_now idleHost (w_log ?w)) (expireState plainLocal (hv_now idleHost (w_log ?w)) quietProject)"
    by (simp add: isIdle_def expireState_def plainLocal_def idleHost_def quietProject_def newState_def zeroTime_def second_def timeSub_def duration_consts)
  moreover have "hv_running idleHost l (daemonName ''p1'') = Inr True" for l by (simp add: idleHost_def)
  moreover have "localOk ?w" by (simp add: localOk_def quietProject_def newState_def InflightCap_def)
  ultimately show ?thesis
    using stop_ignores_new_build [where w = ?w and key = "''p1''" and order = "[''p1'']" and env = idleHost and cfg = plainLocal and tok = "''tok''", OF _ _ _ _ _ surjective_pairing]
    by simp
qed

end
