(* ===== verification/Host_Ops.thy ===== *)
theory Host_Ops
  imports Local_Safety "HOL-Library.Word" "HOL-Library.List_Lexorder" "HOL-Library.Char_ord"
begin

text \<open>
  \<open>internal/provisioner/local/host.go\<close> and \<open>host_docker.go\<close>: the two implementations of \<open>HostOps\<close>, one over the
  \<open>incus\<close> and \<open>zfs\<close> commands, one over \<open>docker\<close> and host directories. The operating system is a parameter:
  the record \<open>Os\<close> answers a command, a directory operation or a glob from the history of all of them.

  \<open>opsEnv\<close> turns an implementation into the host of the local provisioner: what a host call answers is what
  the method answers after the commands of the earlier calls. The locale \<open>host_ops\<close> is what both
  implementations promise the provisioner.
\<close>

unbundle bit_operations_syntax

section \<open>The operating system\<close>

datatype ExecResult = Ran string | Failed string string

datatype (plugins only: code) OsEvent =
    Exec string "string list" ExecResult
  | MkdirAll string "string option"
  | RemoveAll string "string option"
  | Glob string "string + string list"

type_synonym oslog = "OsEvent list"
type_synonym 'a oprog = "(OsEvent, unit, 'a) prog"

text \<open>\<open>Ran out\<close>: exit status 0 and the standard output; \<open>Failed err errOut\<close>: the error of \<open>cmd.Run\<close> and the standard
  error.\<close>

record Os =
  os_exec :: "oslog \<Rightarrow> string \<Rightarrow> string list \<Rightarrow> ExecResult"
  os_mkdirAll :: "oslog \<Rightarrow> string \<Rightarrow> string option"
  os_removeAll :: "oslog \<Rightarrow> string \<Rightarrow> string option"
  os_glob :: "oslog \<Rightarrow> string \<Rightarrow> string + string list"

definition mkdirAll :: "Os \<Rightarrow> string \<Rightarrow> string option oprog" where
  "mkdirAll os p = call (\<lambda>l. os_mkdirAll os l p) (MkdirAll p)"

definition removeAll :: "Os \<Rightarrow> string \<Rightarrow> string option oprog" where
  "removeAll os p = call (\<lambda>l. os_removeAll os l p) (RemoveAll p)"

definition globDir :: "Os \<Rightarrow> string \<Rightarrow> (string + string list) oprog" where
  "globDir os pat = call (\<lambda>l. os_glob os l pat) (Glob pat)"

section \<open>The interface\<close>

text \<open>\<open>HostOps\<close>, with the optional \<open>addrResolver\<close>.\<close>

record HostOps =
  ho_EnsureDataset :: "string \<Rightarrow> string option oprog"
  ho_InstanceExists :: "string \<Rightarrow> (string + bool) oprog"
  ho_Launch :: "InstanceSpec \<Rightarrow> string option oprog"
  ho_Start :: "string \<Rightarrow> string option oprog"
  ho_Stop :: "string \<Rightarrow> string option oprog"
  ho_Running :: "string \<Rightarrow> (string + bool) oprog"
  ho_IP :: "string \<Rightarrow> (string + string) oprog"
  ho_Delete :: "string \<Rightarrow> string \<Rightarrow> bool \<Rightarrow> string option oprog"
  ho_Snapshot :: "string \<Rightarrow> string \<Rightarrow> string option oprog"
  ho_ListSnapshots :: "string \<Rightarrow> (string + string list) oprog"
  ho_DestroySnapshot :: "string \<Rightarrow> string option oprog"
  ho_Clone :: "string \<Rightarrow> string \<Rightarrow> string option oprog"
  ho_ApplyEgress :: "string \<Rightarrow> bool \<Rightarrow> string option oprog"
  ho_Addr :: "(string \<Rightarrow> string) option"

section \<open>Incus and ZFS\<close>

record cli =
  cl_incus :: string
  cl_zfs :: string

definition newCLI :: cli where
  "newCLI = \<lparr>cl_incus = ''incus'', cl_zfs = ''zfs''\<rparr>"

definition cli_run :: "Os \<Rightarrow> string \<Rightarrow> string list \<Rightarrow> (string + string) oprog" where
  "cli_run os name args =
     do {
       r \<leftarrow> call (\<lambda>l. os_exec os l name args) (Exec name args);
       ret (case r of
              Failed err errOut \<Rightarrow> Inl (name @ '' '' @ joinStr args '' '' @ '': '' @ err @ '': '' @ trimSpace errOut)
            | Ran out \<Rightarrow> Inr (trimSpace out))
     }"

definition errOf :: "string + 'a \<Rightarrow> string option" where
  "errOf r = (case r of Inl e \<Rightarrow> Some e | Inr _ \<Rightarrow> None)"

definition datasetMount :: "string \<Rightarrow> string" where
  "datasetMount ds = ''/'' @ ds"

definition cli_EnsureDataset :: "Os \<Rightarrow> cli \<Rightarrow> string \<Rightarrow> string option oprog" where
  "cli_EnsureDataset os c ds =
     do {
       r \<leftarrow> cli_run os (cl_zfs c) [''list'', ''-H'', ''-o'', ''name'', ds];
       if errOf r = None then ret None
       else do { r \<leftarrow> cli_run os (cl_zfs c) [''create'', ''-p'', ds]; ret (errOf r) }
     }"

definition cli_InstanceExists :: "Os \<Rightarrow> cli \<Rightarrow> string \<Rightarrow> (string + bool) oprog" where
  "cli_InstanceExists os c name = do { r \<leftarrow> cli_run os (cl_incus c) [''info'', name]; ret (Inr (errOf r = None)) }"

definition initArgs :: "InstanceSpec \<Rightarrow> string list" where
  "initArgs spec = [''init'', is_Image spec, is_Name spec] @ (if is_VM spec then [''--vm''] else []) @
     concat (map (\<lambda>(k, v). [''--config'', k @ ''='' @ v]) (is_Config spec))"

definition cli_Launch :: "Os \<Rightarrow> cli \<Rightarrow> InstanceSpec \<Rightarrow> string option oprog" where
  "cli_Launch os c spec =
     do {
       r \<leftarrow> cli_run os (cl_incus c) (initArgs spec);
       (case r of
          Inl e \<Rightarrow> ret (Some e)
        | Inr _ \<Rightarrow>
            do {
              r \<leftarrow> (if is_Dataset spec \<noteq> [] \<and> is_MountPath spec \<noteq> [] then
                      cli_run os (cl_incus c) [''config'', ''device'', ''add'', is_Name spec, ''cache'', ''disk'',
                        ''source='' @ datasetMount (is_Dataset spec), ''path='' @ is_MountPath spec]
                    else ret (Inr []));
              (case r of
                 Inl e \<Rightarrow> ret (Some e)
               | Inr _ \<Rightarrow>
                   do {
                     r \<leftarrow> (if is_CertsHostPath spec \<noteq> [] then
                             cli_run os (cl_incus c) [''config'', ''device'', ''add'', is_Name spec, ''certs'', ''disk'',
                               ''source='' @ is_CertsHostPath spec, ''path=/certs'', ''readonly=true'']
                           else ret (Inr []));
                     (case r of
                        Inl e \<Rightarrow> ret (Some e)
                      | Inr _ \<Rightarrow> do { r \<leftarrow> cli_run os (cl_incus c) [''start'', is_Name spec]; ret (errOf r) })
                   })
            })
     }"

definition cli_Start :: "Os \<Rightarrow> cli \<Rightarrow> string \<Rightarrow> string option oprog" where
  "cli_Start os c name = do { r \<leftarrow> cli_run os (cl_incus c) [''start'', name]; ret (errOf r) }"

definition cli_Stop :: "Os \<Rightarrow> cli \<Rightarrow> string \<Rightarrow> string option oprog" where
  "cli_Stop os c name = do { r \<leftarrow> cli_run os (cl_incus c) [''stop'', name]; ret (errOf r) }"

text \<open>\<open>strings.EqualFold\<close> with an ASCII word none of whose letters folds to a character outside ASCII.\<close>

definition cli_Running :: "Os \<Rightarrow> cli \<Rightarrow> string \<Rightarrow> (string + bool) oprog" where
  "cli_Running os c name =
     do {
       r \<leftarrow> cli_run os (cl_incus c) [''list'', name, ''-c'', ''s'', ''-f'', ''csv''];
       ret (map_sum id (\<lambda>out. toLower (trimSpace out) = toLower ''RUNNING'') r)
     }"

definition cli_IP :: "Os \<Rightarrow> cli \<Rightarrow> string \<Rightarrow> (string + string) oprog" where
  "cli_IP os c name =
     do {
       r \<leftarrow> cli_run os (cl_incus c) [''list'', name, ''-c'', ''4'', ''-f'', ''csv''];
       ret (map_sum id (\<lambda>out. takeWhile (\<lambda>ch. ch \<noteq> CHR '' '') (trimSpace out)) r)
     }"

definition cli_Delete :: "Os \<Rightarrow> cli \<Rightarrow> string \<Rightarrow> string \<Rightarrow> bool \<Rightarrow> string option oprog" where
  "cli_Delete os c name ds purgeDataset =
     do {
       r \<leftarrow> cli_run os (cl_incus c) [''delete'', name, ''--force''];
       if errOf r \<noteq> None then ret (errOf r)
       else if purgeDataset \<and> ds \<noteq> [] then do { r \<leftarrow> cli_run os (cl_zfs c) [''destroy'', ''-r'', ds]; ret (errOf r) }
       else ret None
     }"

definition cli_Snapshot :: "Os \<Rightarrow> cli \<Rightarrow> string \<Rightarrow> string \<Rightarrow> string option oprog" where
  "cli_Snapshot os c ds snap = do { r \<leftarrow> cli_run os (cl_zfs c) [''snapshot'', ds @ ''@'' @ snap]; ret (errOf r) }"

definition cli_ListSnapshots :: "Os \<Rightarrow> cli \<Rightarrow> string \<Rightarrow> (string + string list) oprog" where
  "cli_ListSnapshots os c ds =
     do {
       r \<leftarrow> cli_run os (cl_zfs c) [''list'', ''-t'', ''snapshot'', ''-o'', ''name'', ''-s'', ''creation'', ''-H'', ''-d'', ''1'', ds];
       ret (map_sum id (\<lambda>out. if trimSpace out = [] then [] else splitByte CHR 0x0A out) r)
     }"

definition cli_DestroySnapshot :: "Os \<Rightarrow> cli \<Rightarrow> string \<Rightarrow> string option oprog" where
  "cli_DestroySnapshot os c snapshot = do { r \<leftarrow> cli_run os (cl_zfs c) [''destroy'', snapshot]; ret (errOf r) }"

definition cli_Clone :: "Os \<Rightarrow> cli \<Rightarrow> string \<Rightarrow> string \<Rightarrow> string option oprog" where
  "cli_Clone os c snapshot ds = do { r \<leftarrow> cli_run os (cl_zfs c) [''clone'', snapshot, ds]; ret (errOf r) }"

definition cli_ApplyEgress :: "Os \<Rightarrow> cli \<Rightarrow> string \<Rightarrow> bool \<Rightarrow> string option oprog" where
  "cli_ApplyEgress os c name strict =
     do {
       let acl = (if strict then ''bko-fork-strict'' else ''bko-baseline'');
       r \<leftarrow> cli_run os (cl_incus c) [''config'', ''device'', ''set'', name, ''eth0'', ''security.acls='' @ acl];
       ret (errOf r)
     }"

definition cliOps :: "Os \<Rightarrow> HostOps" where
  "cliOps os =
     \<lparr>ho_EnsureDataset = cli_EnsureDataset os newCLI, ho_InstanceExists = cli_InstanceExists os newCLI, ho_Launch = cli_Launch os newCLI,
      ho_Start = cli_Start os newCLI, ho_Stop = cli_Stop os newCLI, ho_Running = cli_Running os newCLI, ho_IP = cli_IP os newCLI,
      ho_Delete = cli_Delete os newCLI, ho_Snapshot = cli_Snapshot os newCLI, ho_ListSnapshots = cli_ListSnapshots os newCLI,
      ho_DestroySnapshot = cli_DestroySnapshot os newCLI, ho_Clone = cli_Clone os newCLI, ho_ApplyEgress = cli_ApplyEgress os newCLI,
      ho_Addr = None\<rparr>"

section \<open>Docker\<close>

text \<open>\<open>crc32.ChecksumIEEE\<close>: the reflected polynomial \<open>0xEDB88320\<close>, bit by bit.\<close>

definition crc32Bit :: "32 word \<Rightarrow> 32 word" where
  "crc32Bit w = (if bit w 0 then drop_bit 1 w XOR 0xEDB88320 else drop_bit 1 w)"

definition crc32Byte :: "32 word \<Rightarrow> char \<Rightarrow> 32 word" where
  "crc32Byte w c = (crc32Bit ^^ 8) (w XOR of_char c)"

definition crc32IEEE :: "string \<Rightarrow> 32 word" where
  "crc32IEEE s = NOT (foldl crc32Byte 0xFFFFFFFF s)"

definition portFor :: "string \<Rightarrow> int" where
  "portFor key = 20000 + uint (crc32IEEE key mod 20000)"

record dockerHost =
  dk_docker :: string
  dk_port :: int
  dk_certs :: string

definition newDocker :: "int \<Rightarrow> string \<Rightarrow> dockerHost" where
  "newDocker port certsHostPath = \<lparr>dk_docker = ''docker'', dk_port = port, dk_certs = certsHostPath\<rparr>"

definition docker_run :: "Os \<Rightarrow> dockerHost \<Rightarrow> string list \<Rightarrow> (string + string) oprog" where
  "docker_run os d args = cli_run os (dk_docker d) args"

definition docker_EnsureDataset :: "Os \<Rightarrow> dockerHost \<Rightarrow> string \<Rightarrow> string option oprog" where
  "docker_EnsureDataset os d ds = mkdirAll os ds"

definition docker_InstanceExists :: "Os \<Rightarrow> dockerHost \<Rightarrow> string \<Rightarrow> (string + bool) oprog" where
  "docker_InstanceExists os d name =
     do { r \<leftarrow> docker_run os d [''inspect'', ''--type'', ''container'', name]; ret (Inr (errOf r = None)) }"

definition docker_Addr :: "string \<Rightarrow> string" where
  "docker_Addr key = ''127.0.0.1:'' @ itoa (portFor key)"

definition configValue :: "InstanceSpec \<Rightarrow> string \<Rightarrow> string" where
  "configValue spec k = (case map_of (is_Config spec) k of None \<Rightarrow> [] | Some v \<Rightarrow> v)"

definition runArgs :: "dockerHost \<Rightarrow> InstanceSpec \<Rightarrow> string list" where
  "runArgs d spec =
     [''run'', ''-d'', ''--name'', is_Name spec,
      ''--label'', labelKey @ ''='' @ configValue spec labelKey,
      ''--privileged'', ''--restart=no'',
      ''-p'', ''127.0.0.1:'' @ itoa (portFor (configValue spec labelKey)) @ '':'' @ itoa (dk_port d),
      ''-v'', is_Dataset spec @ '':'' @ is_MountPath spec]
     @ (if dk_certs d \<noteq> [] then [''-v'', dk_certs d @ '':/certs:ro''] else [])
     @ [is_Image spec]
     @ [''--addr'', ''tcp://0.0.0.0:'' @ itoa (dk_port d), ''--root'', is_MountPath spec]
     @ (if dk_certs d \<noteq> [] then
          [''--tlscacert'', ''/certs/ca.pem'', ''--tlscert'', ''/certs/cert.pem'', ''--tlskey'', ''/certs/key.pem'']
        else [])"

definition docker_Launch :: "Os \<Rightarrow> dockerHost \<Rightarrow> InstanceSpec \<Rightarrow> string option oprog" where
  "docker_Launch os d spec = do { r \<leftarrow> docker_run os d (runArgs d spec); ret (errOf r) }"

definition docker_Start :: "Os \<Rightarrow> dockerHost \<Rightarrow> string \<Rightarrow> string option oprog" where
  "docker_Start os d name = do { r \<leftarrow> docker_run os d [''start'', name]; ret (errOf r) }"

definition docker_Stop :: "Os \<Rightarrow> dockerHost \<Rightarrow> string \<Rightarrow> string option oprog" where
  "docker_Stop os d name = do { r \<leftarrow> docker_run os d [''stop'', name]; ret (errOf r) }"

definition docker_Running :: "Os \<Rightarrow> dockerHost \<Rightarrow> string \<Rightarrow> (string + bool) oprog" where
  "docker_Running os d name =
     do {
       r \<leftarrow> docker_run os d [''inspect'', ''-f'', ''{{.State.Running}}'', name];
       ret (Inr (case r of Inl _ \<Rightarrow> False | Inr out \<Rightarrow> trimSpace out = ''true''))
     }"

definition docker_IP :: "Os \<Rightarrow> dockerHost \<Rightarrow> string \<Rightarrow> (string + string) oprog" where
  "docker_IP os d name =
     do { r \<leftarrow> docker_run os d [''inspect'', ''-f'', ''{{.NetworkSettings.IPAddress}}'', name]; ret (map_sum id trimSpace r) }"

definition docker_Delete :: "Os \<Rightarrow> dockerHost \<Rightarrow> string \<Rightarrow> string \<Rightarrow> bool \<Rightarrow> string option oprog" where
  "docker_Delete os d name ds purgeDataset =
     do {
       r \<leftarrow> docker_run os d [''rm'', ''-f'', name];
       if errOf r \<noteq> None then ret (errOf r)
       else if purgeDataset \<and> ds \<noteq> [] then removeAll os ds
       else ret None
     }"

definition docker_Snapshot :: "Os \<Rightarrow> dockerHost \<Rightarrow> string \<Rightarrow> string \<Rightarrow> string option oprog" where
  "docker_Snapshot os d ds snap =
     do {
       let dst = ds @ ''@'' @ snap;
       r \<leftarrow> cli_run os ''cp'' [''--reflink=auto'', ''-a'', ds, dst];
       if errOf r \<noteq> None then do { _ \<leftarrow> removeAll os dst; ret (errOf r) }
       else ret None
     }"

definition docker_ListSnapshots :: "Os \<Rightarrow> dockerHost \<Rightarrow> string \<Rightarrow> (string + string list) oprog" where
  "docker_ListSnapshots os d ds = do { r \<leftarrow> globDir os (ds @ ''@*''); ret (map_sum id sort r) }"

definition docker_DestroySnapshot :: "Os \<Rightarrow> dockerHost \<Rightarrow> string \<Rightarrow> string option oprog" where
  "docker_DestroySnapshot os d snapshot = removeAll os snapshot"

definition docker_Clone :: "Os \<Rightarrow> dockerHost \<Rightarrow> string \<Rightarrow> string \<Rightarrow> string option oprog" where
  "docker_Clone os d snapshot ds = do { r \<leftarrow> cli_run os ''cp'' [''--reflink=auto'', ''-a'', snapshot, ds]; ret (errOf r) }"

definition docker_ApplyEgress :: "Os \<Rightarrow> dockerHost \<Rightarrow> string \<Rightarrow> bool \<Rightarrow> string option oprog" where
  "docker_ApplyEgress os d name strict = ret None"

definition dockerOps :: "Os \<Rightarrow> dockerHost \<Rightarrow> HostOps" where
  "dockerOps os d =
     \<lparr>ho_EnsureDataset = docker_EnsureDataset os d, ho_InstanceExists = docker_InstanceExists os d, ho_Launch = docker_Launch os d,
      ho_Start = docker_Start os d, ho_Stop = docker_Stop os d, ho_Running = docker_Running os d, ho_IP = docker_IP os d,
      ho_Delete = docker_Delete os d, ho_Snapshot = docker_Snapshot os d, ho_ListSnapshots = docker_ListSnapshots os d,
      ho_DestroySnapshot = docker_DestroySnapshot os d, ho_Clone = docker_Clone os d, ho_ApplyEgress = docker_ApplyEgress os d,
      ho_Addr = Some docker_Addr\<rparr>"

section \<open>An implementation as the host of the provisioner\<close>

definition discard :: "('s, 'a) state \<Rightarrow> ('s, unit) state" where
  "discard m = do { _ \<leftarrow> m; ret () }"

text \<open>The method a host call runs; the clock, the probe and the pause run no method.\<close>

definition opOf :: "HostOps \<Rightarrow> HostEvent \<Rightarrow> unit oprog" where
  "opOf ops e =
     (case e of
        HExists n _ \<Rightarrow> discard (ho_InstanceExists ops n)
      | HRunning n _ \<Rightarrow> discard (ho_Running ops n)
      | HStart n _ \<Rightarrow> discard (ho_Start ops n)
      | HStop n _ \<Rightarrow> discard (ho_Stop ops n)
      | HLaunch i _ \<Rightarrow> discard (ho_Launch ops i)
      | HEgress n s _ \<Rightarrow> discard (ho_ApplyEgress ops n s)
      | HEnsureDataset d _ \<Rightarrow> discard (ho_EnsureDataset ops d)
      | HClone s d _ \<Rightarrow> discard (ho_Clone ops s d)
      | HSnapshot d s _ \<Rightarrow> discard (ho_Snapshot ops d s)
      | HListSnapshots d _ \<Rightarrow> discard (ho_ListSnapshots ops d)
      | HDestroySnapshot s _ \<Rightarrow> discard (ho_DestroySnapshot ops s)
      | HIP n _ \<Rightarrow> discard (ho_IP ops n)
      | HNow _ \<Rightarrow> ret ()
      | HDial _ _ \<Rightarrow> ret ()
      | HSleep _ _ \<Rightarrow> ret ())"

text \<open>What the calls of a history have run, newest first.\<close>

fun osLog :: "HostOps \<Rightarrow> hlog \<Rightarrow> oslog" where
  "osLog ops [] = []"
| "osLog ops (e # l) = w_log (snd (run_state (opOf ops e) \<lparr>w_log = osLog ops l, w_mem = ()\<rparr>))"

definition answer :: "HostOps \<Rightarrow> hlog \<Rightarrow> 'a oprog \<Rightarrow> 'a" where
  "answer ops l m = fst (run_state m \<lparr>w_log = osLog ops l, w_mem = ()\<rparr>)"

text \<open>The clock, the probe and the pause are those of \<open>base\<close>.\<close>

definition opsEnv :: "HostOps \<Rightarrow> HostEnv \<Rightarrow> HostEnv" where
  "opsEnv ops base =
     base\<lparr>hv_exists := \<lambda>l n. answer ops l (ho_InstanceExists ops n), hv_running := \<lambda>l n. answer ops l (ho_Running ops n),
          hv_start := \<lambda>l n. answer ops l (ho_Start ops n), hv_stop := \<lambda>l n. answer ops l (ho_Stop ops n),
          hv_launch := \<lambda>l i. answer ops l (ho_Launch ops i), hv_egress := \<lambda>l n s. answer ops l (ho_ApplyEgress ops n s),
          hv_ensureDataset := \<lambda>l d. answer ops l (ho_EnsureDataset ops d), hv_clone := \<lambda>l s d. answer ops l (ho_Clone ops s d),
          hv_snapshot := \<lambda>l d s. answer ops l (ho_Snapshot ops d s), hv_listSnapshots := \<lambda>l d. answer ops l (ho_ListSnapshots ops d),
          hv_destroySnapshot := \<lambda>l s. answer ops l (ho_DestroySnapshot ops s), hv_ip := \<lambda>l n. answer ops l (ho_IP ops n),
          hv_addr := ho_Addr ops\<rparr>"

section \<open>What both implementations promise\<close>

text \<open>A command that names an instance, that writes to a dataset only, that only lists snapshots.\<close>

definition names :: "string \<Rightarrow> OsEvent \<Rightarrow> bool" where
  "names n e = (case e of Exec _ args _ \<Rightarrow> n \<in> set args | _ \<Rightarrow> False)"

definition touches :: "string \<Rightarrow> OsEvent \<Rightarrow> bool" where
  "touches d e = (case e of Exec _ args _ \<Rightarrow> last args = d | MkdirAll p _ \<Rightarrow> p = d | _ \<Rightarrow> False)"

definition listsOnly :: "string \<Rightarrow> OsEvent \<Rightarrow> bool" where
  "listsOnly d e = (case e of Exec _ args _ \<Rightarrow> hd args = ''list'' \<and> last args = d | Glob pat _ \<Rightarrow> pat = d @ ''@*'' | _ \<Rightarrow> False)"

lemma emits_cli_run [emits_rules]: "(\<And>r. E (Exec name args r)) \<Longrightarrow> emits E (cli_run os name args)"
  unfolding cli_run_def by (intro emits_rules)

lemma emits_os [emits_rules]:
  "(\<And>r. E (MkdirAll p r)) \<Longrightarrow> emits E (mkdirAll os p)" "(\<And>r. E (RemoveAll p r)) \<Longrightarrow> emits E (removeAll os p)"
  "(\<And>r. E (Glob pat r)) \<Longrightarrow> emits E (globDir os pat)" "emits E m \<Longrightarrow> emits E (discard m)"
  by (auto simp: mkdirAll_def removeAll_def globDir_def discard_def intro!: emits_rules)

text \<open>A history of host calls runs only what each of them runs.\<close>

lemma osLog_emits:
  assumes "\<And>e. E e \<Longrightarrow> emits Q (opOf ops e)" "\<forall>e\<in>set new. E e"
  shows "\<exists>cmds. osLog ops (new @ l) = cmds @ osLog ops l \<and> (\<forall>c\<in>set cmds. Q c)"
  using assms(2)
proof (induction new)
  case (Cons e new)
  then obtain cmds where cmds: "osLog ops (new @ l) = cmds @ osLog ops l" "\<forall>c\<in>set cmds. Q c" by auto
  have "emits Q (opOf ops e)" using assms(1) Cons.prems by simp
  from emits_run [OF this, of "\<lparr>w_log = osLog ops (new @ l), w_mem = ()\<rparr>"] obtain more
    where "osLog ops (e # new @ l) = more @ osLog ops (new @ l)" "\<forall>c\<in>set more. Q c" by auto
  then show ?case using cmds by auto
qed simp

lemma emits_osLog:
  assumes "emits E m" "\<And>e. E e \<Longrightarrow> emits Q (opOf ops e)" "run_state m w = (r, w')"
  shows "\<exists>cmds. osLog ops (w_log w') = cmds @ osLog ops (w_log w) \<and> (\<forall>c\<in>set cmds. Q c)"
proof -
  obtain new where "w_log w' = new @ w_log w" "\<forall>e\<in>set new. E e" using emits_run [OF assms(1), of w] assms(3) by auto
  with osLog_emits [of E Q ops, OF assms(2)] show ?thesis by metis
qed

text \<open>What an untrusted build of \<open>key\<close> may run: on its fork's instance, on its fork's dataset, or a listing of the
  canonical dataset's snapshots.\<close>

definition forkCommand :: "LocalConfig \<Rightarrow> string \<Rightarrow> OsEvent \<Rightarrow> bool" where
  "forkCommand cfg key c \<longleftrightarrow> names (daemonName (forkKey key)) c \<or> touches (dataset cfg (forkKey key)) c \<or> listsOnly (dataset cfg key) c"

locale host_ops =
  fixes ops :: HostOps
  assumes exists_total: "isl (fst (run_state (ho_InstanceExists ops n) w)) = False"
    and instance_ops: "emits (names n) (ho_InstanceExists ops n)" "emits (names n) (ho_Running ops n)" "emits (names n) (ho_Start ops n)"
      "emits (names n) (ho_Stop ops n)" "emits (names n) (ho_IP ops n)" "emits (names n) (ho_ApplyEgress ops n strict)"
    and launch_names: "emits (names (is_Name i)) (ho_Launch ops i)"
    and dataset_ops: "emits (touches d) (ho_EnsureDataset ops d)" "emits (touches d) (ho_Clone ops s d)"
    and list_reads: "emits (listsOnly d) (ho_ListSnapshots ops d)"
begin

lemma fork_op:
  assumes "forkEvent cfg key e"
  shows "emits (forkCommand cfg key) (opOf ops e)"
proof -
  have inst: "emits (forkCommand cfg key) m" if "emits (names (daemonName (forkKey key))) m" for m :: "'a oprog"
    using that by (rule emits_weaken) (simp add: forkCommand_def)
  have data: "emits (forkCommand cfg key) m" if "emits (touches (dataset cfg (forkKey key))) m" for m :: "'a oprog"
    using that by (rule emits_weaken) (simp add: forkCommand_def)
  have list: "emits (forkCommand cfg key) m" if "emits (listsOnly (dataset cfg key)) m" for m :: "'a oprog"
    using that by (rule emits_weaken) (simp add: forkCommand_def)
  have launch: "emits (forkCommand cfg key) (ho_Launch ops i)" if "is_Name i = daemonName (forkKey key)" for i
    using launch_names [of i] that by (auto intro: inst)
  show ?thesis
    using assms by (cases e)
      (auto simp: forkEvent_def opOf_def Let_def intro!: emits_os(4) emits_return launch instance_ops [THEN inst] dataset_ops [THEN data] list_reads [THEN list])
qed

text \<open>On every implementation, an untrusted build stays with its own instance and dataset.\<close>

lemma fork_commands:
  assumes "lc_VMImage cfg \<noteq> []" "run_state (local_Ensure env cfg spec True) w = (r, w')"
  shows "\<exists>cmds. osLog ops (w_log w') = cmds @ osLog ops (w_log w) \<and> (\<forall>c\<in>set cmds. forkCommand cfg (sp_Key spec) c)"
  by (rule emits_osLog [OF emits_fork [OF assms(1)] fork_op assms(2)])

end

text \<open>The interpretations, one for each implementation.\<close>

lemmas cli_ops_defs = cliOps_def cli_EnsureDataset_def cli_InstanceExists_def cli_Launch_def cli_Start_def cli_Stop_def cli_Running_def
  cli_IP_def cli_Delete_def cli_Snapshot_def cli_ListSnapshots_def cli_DestroySnapshot_def cli_Clone_def cli_ApplyEgress_def newCLI_def

lemmas docker_ops_defs = dockerOps_def docker_EnsureDataset_def docker_InstanceExists_def docker_Launch_def docker_Start_def docker_Stop_def
  docker_Running_def docker_IP_def docker_Delete_def docker_Snapshot_def docker_ListSnapshots_def docker_DestroySnapshot_def
  docker_Clone_def docker_ApplyEgress_def docker_run_def

interpretation incus: host_ops "cliOps os" for os
  by unfold_locales
    (auto simp: cli_ops_defs cli_run_def run_state_bind names_def touches_def listsOnly_def initArgs_def Let_def split: prod.split intro!: emits_rules)

interpretation docker: host_ops "dockerOps os d" for os d
  by unfold_locales
    (auto simp: docker_ops_defs cli_run_def run_state_bind names_def touches_def listsOnly_def runArgs_def Let_def split: prod.split intro!: emits_rules)

end
