(* ===== verification/Host_Safety.thy ===== *)
theory Host_Safety
  imports Host_Ops
begin

text \<open>
  What the local provisioner makes each runtime run: the wiring of \<open>cmd/buildd/local_backend.go\<close>, what an
  untrusted build executes on Incus and on Docker, what a launch that failed half-way leaves to the
  next request, and the loopback ports of the Docker runtime.
\<close>

section \<open>Wiring\<close>

record localParams =
  lp_Namespace :: string
  lp_Port :: int
  lp_routeWait :: duration
  lp_s3Bucket :: string
  lp_s3Region :: string
  lp_s3Endpoint :: string
  lp_pool :: string
  lp_image :: string
  lp_vmImage :: string
  lp_mountPath :: string
  lp_s3ExportInterval :: duration
  lp_idleTimeout :: duration
  lp_snapshotEvery :: duration
  lp_keepSnapshots :: int
  lp_maxBuildSeconds :: int
  lp_forkEgressStrict :: bool
  lp_endpointDomain :: string
  lp_certsPath :: string
  lp_runtime :: string

definition pickRuntime :: "Os \<Rightarrow> localParams \<Rightarrow> string + HostOps" where
  "pickRuntime os p =
     (if lp_runtime p = [] \<or> lp_runtime p = ''incus'' then Inr (cliOps os)
      else if lp_runtime p = ''docker'' then Inr (dockerOps os (newDocker (lp_Port p) (lp_certsPath p)))
      else Inl ''--local-runtime must be incus or docker'')"

definition localConfig :: "localParams \<Rightarrow> LocalConfig" where
  "localConfig p = \<lparr>lc_Pool = lp_pool p, lc_Image = lp_image p, lc_VMImage = lp_vmImage p, lc_MountPath = lp_mountPath p,
     lc_Port = lp_Port p, lc_Wait = lp_routeWait p, lc_IdleTimeout = lp_idleTimeout p, lc_SnapshotEvery = lp_snapshotEvery p,
     lc_KeepSnapshots = lp_keepSnapshots p, lc_MaxBuildSeconds = lp_maxBuildSeconds p, lc_ForkEgressStrict = lp_forkEgressStrict p,
     lc_EndpointDomain = lp_endpointDomain p, lc_CertsHostPath = lp_certsPath p\<rparr>"

text \<open>The error, or the host, the configuration and the routing server the backend serves with. \<open>base\<close> is the clock and
  the readiness probe; \<open>requireBuildID\<close> is left at its zero value.\<close>

definition runLocalBackend ::
  "nat \<Rightarrow> Os \<Rightarrow> HostEnv \<Rightarrow> localParams \<Rightarrow> (Verifier \<times> (string \<Rightarrow> VerifyError + Identity)) option \<Rightarrow> string \<Rightarrow> string \<Rightarrow> Rule list option
    \<Rightarrow> string + HostEnv \<times> (HostEvent, projects) world routeServer" where
  "runLocalBackend fuel os base p verifier authToken adminToken defaults =
     (if lp_pool p = [] \<or> lp_image p = [] then Inl ''--backend local requires --incus-pool and --incus-image''
      else
        (case pickRuntime os p of
           Inl e \<Rightarrow> Inl e
         | Inr ops \<Rightarrow>
             let env = opsEnv ops base in
             Inr (env,
               \<lparr>rs_prov = localBackend fuel env (localConfig p), rs_Namespace = lp_Namespace p, rs_s3Bucket = lp_s3Bucket p,
                rs_s3Region = lp_s3Region p, rs_s3Endpoint = lp_s3Endpoint p, rs_s3ExportInterval = lp_s3ExportInterval p,
                rs_verifier = verifier, rs_authToken = authToken, rs_adminToken = adminToken, rs_defaults = defaults,
                rs_requireBuildID = False\<rparr>)))"

section \<open>Untrusted builds\<close>

lemma emits_conj: "emits P m \<Longrightarrow> emits Q m \<Longrightarrow> emits (\<lambda>e. P e \<and> Q e) m"
  by (auto simp: emits_def wp_run) (metis append_same_eq)

text \<open>The only command that creates an Incus instance, and the arguments it has for a fork.\<close>

definition vmInit :: "LocalConfig \<Rightarrow> string \<Rightarrow> OsEvent \<Rightarrow> bool" where
  "vmInit cfg key c \<longleftrightarrow>
     (\<forall>args res. c = Exec ''incus'' (''init'' # args) res \<longrightarrow>
        args = [lc_VMImage cfg, daemonName (forkKey key), ''--vm'', ''--config'', labelKey @ ''='' @ forkKey key])"

lemma vmInit_op: "forkEvent cfg key e \<Longrightarrow> emits (vmInit cfg key) (opOf (cliOps os) e)"
  by (cases e) (auto simp: forkEvent_def opOf_def cli_ops_defs initArgs_def vmInit_def Let_def intro!: emits_rules)

text \<open>C23: \<^bold>\<open>An untrusted build only ever runs in a virtual machine of its own on Incus.\<close> Of all the commands the host
  runs to provision an untrusted build, each one names the fork's instance, or works on the fork's
  dataset, or lists the canonical dataset's snapshots; and one that creates an instance creates the
  fork's, on the VM image, as a virtual machine, with its label as the only setting: never privileged,
  never nested.\<close>

theorem incus_fork_commands:
  assumes "lc_VMImage cfg \<noteq> []" "run_state (local_Ensure (opsEnv (cliOps os) base) cfg spec True) w = (r, w')"
  shows "\<exists>cmds. osLog (cliOps os) (w_log w') = cmds @ osLog (cliOps os) (w_log w) \<and>
    (\<forall>c\<in>set cmds. forkCommand cfg (sp_Key spec) c \<and>
       (\<forall>args res. c = Exec ''incus'' (''init'' # args) res \<longrightarrow>
          args = [lc_VMImage cfg, daemonName (forkKey (sp_Key spec)), ''--vm'', ''--config'', labelKey @ ''='' @ forkKey (sp_Key spec)]))"
proof -
  have "emits (\<lambda>c. forkCommand cfg (sp_Key spec) c \<and> vmInit cfg (sp_Key spec) c) (opOf (cliOps os) e)" if "forkEvent cfg (sp_Key spec) e" for e
    using incus.fork_op [OF that] vmInit_op [OF that] by (rule emits_conj)
  from emits_osLog [OF emits_fork [OF assms(1)] this assms(2)] show ?thesis unfolding vmInit_def .
qed

text \<open>Whether an instance exists is whether the runtime's query succeeds.\<close>

lemma exists_answers:
  "hv_exists (opsEnv (cliOps os) base) l n = Inr (case os_exec os (osLog (cliOps os) l) ''incus'' [''info'', n] of Ran _ \<Rightarrow> True | Failed _ _ \<Rightarrow> False)"
  "hv_exists (opsEnv (dockerOps os d) base) l n =
     Inr (case os_exec os (osLog (dockerOps os d) l) (dk_docker d) [''inspect'', ''--type'', ''container'', n] of Ran _ \<Rightarrow> True | Failed _ _ \<Rightarrow> False)"
proof -
  have sel: "ho_InstanceExists (cliOps os) = cli_InstanceExists os newCLI" "ho_InstanceExists (dockerOps os d) = docker_InstanceExists os d"
    by (simp_all add: cliOps_def dockerOps_def)
  show "hv_exists (opsEnv (cliOps os) base) l n = Inr (case os_exec os (osLog (cliOps os) l) ''incus'' [''info'', n] of Ran _ \<Rightarrow> True | Failed _ _ \<Rightarrow> False)"
    by (simp add: opsEnv_def answer_def sel cli_InstanceExists_def newCLI_def cli_run_def call_def run_state_bind errOf_def Let_def split: ExecResult.split)
  show "hv_exists (opsEnv (dockerOps os d) base) l n =
     Inr (case os_exec os (osLog (dockerOps os d) l) (dk_docker d) [''inspect'', ''--type'', ''container'', n] of Ran _ \<Rightarrow> True | Failed _ _ \<Rightarrow> False)"
    by (simp add: opsEnv_def answer_def sel docker_InstanceExists_def docker_run_def cli_run_def call_def run_state_bind errOf_def Let_def split: ExecResult.split)
qed

text \<open>A launch on Docker leaves its command in the history.\<close>

lemma docker_grows: "\<exists>cmds. osLog (dockerOps os d) (e # l) = cmds @ osLog (dockerOps os d) l"
proof -
  have "emits (\<lambda>_. True) (opOf (dockerOps os d) e)"
    by (cases e) (auto simp: opOf_def docker_ops_defs Let_def intro!: emits_rules)
  from emits_run [OF this, of "\<lparr>w_log = osLog (dockerOps os d) l, w_mem = ()\<rparr>"] show ?thesis by auto
qed

lemma docker_launched:
  "HLaunch i x \<in> set l \<Longrightarrow> \<exists>res. Exec (dk_docker d) (runArgs d i) res \<in> set (osLog (dockerOps os d) l)"
proof (induction l)
  case (Cons e l)
  show ?case
  proof (cases "e = HLaunch i x")
    case True
    then show ?thesis
      by (auto simp: opOf_def docker_ops_defs discard_def cli_run_def call_def run_state_bind Let_def split: prod.split)
  next
    case False
    then obtain res where "Exec (dk_docker d) (runArgs d i) res \<in> set (osLog (dockerOps os d) l)" using Cons by auto
    then show ?thesis using docker_grows [of os d e l] by (metis Un_iff set_append)
  qed
qed simp

lemma wp_any: "(\<And>a w'. Q a w') \<Longrightarrow> wp m Q w"
  by (simp add: wp_run split: prod.split)

lemma ensure_launches:
  assumes "lc_VMImage cfg \<noteq> []" "hv_exists env (w_log w) (daemonName (forkKey (sp_Key spec))) = Inr False"
    "run_state (local_Ensure env cfg spec True) w = (None, w')"
  shows "\<exists>x. HLaunch (instanceSpecFor cfg (forkKey (sp_Key spec)) True) x \<in> set (w_log w')"
proof -
  let ?ok = "\<lambda>r (w' :: (HostEvent, projects) world). r = None \<longrightarrow> (\<exists>x. HLaunch (instanceSpecFor cfg (forkKey (sp_Key spec)) True) x \<in> set (w_log w'))"
  have "wp (local_Ensure env cfg spec True) ?ok w"
    using assms(1,2) unfolding local_Ensure_def ensureInstance_def
    by (simp add: wp_rules host_calls Let_def) (rule wp_any, auto simp: wp_rules split: option.split)
  then show ?thesis using assms(3) by (simp add: wp_run)
qed

text \<open>C24: \<^bold>\<open>On Docker the same build runs in a privileged container.\<close> When the backend is configured with the Docker
  runtime and a VM image, an untrusted build whose container does not exist yet is not refused: if its
  provisioning succeeds, \<open>docker run --privileged\<close> was executed for the fork.\<close>

theorem docker_fork_privileged:
  assumes "lp_runtime p = ''docker''" "lp_vmImage p \<noteq> []" "pickRuntime os p = Inr ops"
    "os_exec os (osLog ops (w_log w)) ''docker'' [''inspect'', ''--type'', ''container'', daemonName (forkKey (sp_Key spec))] = Failed err errOut"
    "run_state (local_Ensure (opsEnv ops base) (localConfig p) spec True) w = (None, w')"
  shows "\<exists>args res. Exec ''docker'' args res \<in> set (osLog ops (w_log w')) \<and> hd args = ''run'' \<and> ''--privileged'' \<in> set args \<and>
    daemonName (forkKey (sp_Key spec)) \<in> set args"
proof -
  define d where "d = newDocker (lp_Port p) (lp_certsPath p)"
  have ops: "ops = dockerOps os d" using assms(1,3) by (simp add: pickRuntime_def d_def)
  have "hv_exists (opsEnv ops base) (w_log w) (daemonName (forkKey (sp_Key spec))) = Inr False"
    using assms(4) by (simp add: ops exists_answers d_def newDocker_def)
  from ensure_launches [OF _ this assms(5)] assms(2) obtain x
    where "HLaunch (instanceSpecFor (localConfig p) (forkKey (sp_Key spec)) True) x \<in> set (w_log w')" by (auto simp: localConfig_def)
  from docker_launched [OF this, of d os] show ?thesis by (auto simp: ops d_def newDocker_def runArgs_def instanceSpecFor_def)
qed

section \<open>A launch that failed half-way\<close>

definition resumes :: "string \<Rightarrow> OsEvent \<Rightarrow> bool" where
  "resumes name c \<longleftrightarrow> (\<exists>sub rest res. c = Exec ''incus'' (sub # name # rest) res \<and> sub \<in> {''info'', ''list'', ''start''})"

lemma resumes_op:
  "(\<exists>x. e = HExists name x \<or> e = HStart name y \<or> e = HRunning name x) \<Longrightarrow> emits (resumes name) (opOf (cliOps os) e)"
  by (auto simp: opOf_def cli_ops_defs resumes_def intro!: emits_rules)

lemma ensure_existing:
  assumes "hv_exists env (w_log w) (daemonName (sp_Key spec)) = Inr True" "run_state (local_Ensure env cfg spec False) w = (r, w')"
  shows "\<exists>new. w_log w' = new @ w_log w \<and>
    (\<forall>e\<in>set new. \<exists>x y. e = HExists (daemonName (sp_Key spec)) x \<or> e = HStart (daemonName (sp_Key spec)) y \<or> e = HRunning (daemonName (sp_Key spec)) x)"
proof -
  have "wp (local_Ensure env cfg spec False) (\<lambda>_ w'. \<exists>new. w_log w' = new @ w_log w \<and>
    (\<forall>e\<in>set new. \<exists>x y. e = HExists (daemonName (sp_Key spec)) x \<or> e = HStart (daemonName (sp_Key spec)) y \<or> e = HRunning (daemonName (sp_Key spec)) x)) w"
    using assms(1) unfolding local_Ensure_def ensureInstance_def
    by (auto simp: wp_rules host_calls Let_def split: sum.split bool.split)
  then show ?thesis using assms(2) by (simp add: wp_run)
qed

text \<open>\<^bold>\<open>A half-launched instance is started as it is.\<close> Suppose \<open>incus\<close> knows an instance once it has initialised it. When a
  launch got past \<open>incus init\<close> and then failed, at the cache disk or at the certificates, the next request
  for the project runs nothing but \<open>info\<close>, \<open>list\<close> and \<open>start\<close> on the instance: no device is ever added, and if
  the start succeeds the request does too, with a daemon that lacks its cache or its certificates.\<close>

theorem half_launched_started:
  assumes "Exec ''incus'' (initArgs i) (Ran out) \<in> set (osLog (cliOps os) (w_log w))" "is_Name i = daemonName (sp_Key spec)"
    "\<And>l. Exec ''incus'' (initArgs i) (Ran out) \<in> set l \<Longrightarrow> \<exists>info. os_exec os l ''incus'' [''info'', is_Name i] = Ran info"
    "run_state (local_Ensure (opsEnv (cliOps os) base) cfg spec False) w = (r, w')"
  shows "\<exists>cmds. osLog (cliOps os) (w_log w') = cmds @ osLog (cliOps os) (w_log w) \<and>
    (\<forall>c\<in>set cmds. \<exists>sub rest res. c = Exec ''incus'' (sub # daemonName (sp_Key spec) # rest) res \<and> sub \<in> {''info'', ''list'', ''start''})"
proof -
  have "hv_exists (opsEnv (cliOps os) base) (w_log w) (daemonName (sp_Key spec)) = Inr True"
    using assms(3) [OF assms(1)] assms(2) by (auto simp: exists_answers)
  from ensure_existing [OF this assms(4)] obtain new where new: "w_log w' = new @ w_log w"
    "\<forall>e\<in>set new. \<exists>x y. e = HExists (daemonName (sp_Key spec)) x \<or> e = HStart (daemonName (sp_Key spec)) y \<or> e = HRunning (daemonName (sp_Key spec)) x"
    by blast
  have "emits (resumes (daemonName (sp_Key spec))) (opOf (cliOps os) e)"
    if "\<exists>x y. e = HExists (daemonName (sp_Key spec)) x \<or> e = HStart (daemonName (sp_Key spec)) y \<or> e = HRunning (daemonName (sp_Key spec)) x" for e
    using that resumes_op by blast
  from osLog_emits [OF this new(2), of "w_log w"] show ?thesis unfolding new(1) resumes_def by simp
qed

section \<open>The ports of the Docker runtime\<close>

text \<open>The check value of the polynomial, and two keys with one port.\<close>

lemmas crc32Bit_numeral = crc32Bit_def [of "numeral n" for n]

lemma crc32Byte_steps:
  "crc32Byte w c = crc32Bit (crc32Bit (crc32Bit (crc32Bit (crc32Bit (crc32Bit (crc32Bit (crc32Bit (w XOR of_char c))))))))"
  by (simp add: crc32Byte_def eval_nat_numeral)

lemma crc32_check: "crc32IEEE ''123456789'' = 0xCBF43926"
  by (simp add: crc32IEEE_def crc32Byte_steps crc32Bit_numeral)

lemma port_collision: "portFor ''p821e1346090f2581'' = portFor ''p2a45ce1703632e0c''"
  by (simp add: portFor_def crc32IEEE_def crc32Byte_steps crc32Bit_numeral)

text \<open>\<^bold>\<open>Loopback ports are in range, and two projects can be given the same one.\<close> Every key is published on a port from
  20000 to 39999. The port is a checksum of the key: the two keys below, of the repositories
  \<open>github.com/org/app99\<close> and \<open>github.com/org/app163\<close>, have the same dial address, so that on the Docker
  runtime the second cannot be published while the first runs.\<close>

theorem docker_ports:
  "20000 \<le> portFor key \<and> portFor key < 40000 \<and> docker_Addr ''p821e1346090f2581'' = docker_Addr ''p2a45ce1703632e0c''"
proof -
  have "uint (crc32IEEE key mod 20000) = uint (crc32IEEE key) mod 20000" by (simp add: uint_mod)
  then have "0 \<le> uint (crc32IEEE key mod 20000)" "uint (crc32IEEE key mod 20000) < 20000" by simp_all
  moreover have "docker_Addr ''p821e1346090f2581'' = docker_Addr ''p2a45ce1703632e0c''" by (simp add: docker_Addr_def port_collision)
  ultimately show ?thesis by (simp add: portFor_def)
qed

section \<open>Witnesses\<close>

text \<open>A host on which nothing exists yet and every command succeeds, and one on which \<open>incus config\<close> fails.\<close>

definition emptyOs :: Os where
  "emptyOs = \<lparr>os_exec = \<lambda>l prog args. if hd args \<in> {''info'', ''inspect''} then Failed ''exit status 1'' [] else Ran [],
     os_mkdirAll = \<lambda>_ _. None, os_removeAll = \<lambda>_ _. None, os_glob = \<lambda>_ _. Inr []\<rparr>"

definition initialised :: "OsEvent \<Rightarrow> bool" where
  "initialised e = (case e of Exec _ args (Ran _) \<Rightarrow> hd args = ''init'' | _ \<Rightarrow> False)"

definition brokenOs :: Os where
  "brokenOs = emptyOs\<lparr>os_exec := \<lambda>l prog args.
     if hd args = ''config'' \<or> hd args = ''info'' \<and> \<not> list_ex initialised l then Failed ''exit status 1'' [] else Ran []\<rparr>"

definition forkParams :: localParams where
  "forkParams = \<lparr>lp_Namespace = [], lp_Port = 1234, lp_routeWait = 0, lp_s3Bucket = [], lp_s3Region = [], lp_s3Endpoint = [],
     lp_pool = ''/pool'', lp_image = ''img'', lp_vmImage = ''vm'', lp_mountPath = ''/m'', lp_s3ExportInterval = 0, lp_idleTimeout = 0,
     lp_snapshotEvery = 0, lp_keepSnapshots = 0, lp_maxBuildSeconds = 0, lp_forkEgressStrict = True, lp_endpointDomain = [],
     lp_certsPath = [], lp_runtime = ''docker''\<rparr>"

definition freshWorld :: "(HostEvent, projects) world" where
  "freshWorld = \<lparr>w_log = [], w_mem = Map.empty\<rparr>"

definition demoSpec :: BuildProjectSpec where
  "demoSpec = zeroSpec\<lparr>sp_Key := ''p1''\<rparr>"

theorem incus_fork_commands_witness:
  "list_all (forkCommand (localConfig forkParams) ''p1'')
     (osLog (cliOps emptyOs) (w_log (snd (run_state (local_Ensure (opsEnv (cliOps emptyOs) idleHost) (localConfig forkParams) demoSpec True) freshWorld))))"
proof -
  obtain r w' where run: "run_state (local_Ensure (opsEnv (cliOps emptyOs) idleHost) (localConfig forkParams) demoSpec True) freshWorld = (r, w')"
    by (cases "run_state (local_Ensure (opsEnv (cliOps emptyOs) idleHost) (localConfig forkParams) demoSpec True) freshWorld")
  have "lc_VMImage (localConfig forkParams) \<noteq> []" by (simp add: localConfig_def forkParams_def)
  from incus_fork_commands [OF this run] obtain cmds
    where "osLog (cliOps emptyOs) (w_log w') = cmds @ osLog (cliOps emptyOs) (w_log freshWorld)"
      "\<forall>c\<in>set cmds. forkCommand (localConfig forkParams) (sp_Key demoSpec) c" by blast
  moreover have "w_log freshWorld = []" "sp_Key demoSpec = ''p1''" by (simp_all add: freshWorld_def demoSpec_def)
  ultimately show ?thesis unfolding run by (simp add: list_all_iff)
qed

lemma docker_demo:
  "fst (run_state (local_Ensure (opsEnv (dockerOps emptyOs (newDocker 1234 [])) idleHost) (localConfig forkParams) demoSpec True) freshWorld) = None"
  by code_simp

theorem docker_fork_privileged_witness:
  "\<exists>args res. Exec ''docker'' args res \<in> set (osLog (dockerOps emptyOs (newDocker 1234 [])) (w_log (snd (run_state
      (local_Ensure (opsEnv (dockerOps emptyOs (newDocker 1234 [])) idleHost) (localConfig forkParams) demoSpec True) freshWorld)))) \<and>
    ''--privileged'' \<in> set args"
proof -
  let ?ops = "dockerOps emptyOs (newDocker 1234 [])"
  obtain w' where run: "run_state (local_Ensure (opsEnv ?ops idleHost) (localConfig forkParams) demoSpec True) freshWorld = (None, w')"
    using docker_demo by (cases "run_state (local_Ensure (opsEnv ?ops idleHost) (localConfig forkParams) demoSpec True) freshWorld") simp
  have "pickRuntime emptyOs forkParams = Inr ?ops" "lp_runtime forkParams = ''docker''" "lp_vmImage forkParams \<noteq> []"
    by (simp_all add: pickRuntime_def forkParams_def)
  from docker_fork_privileged [OF this(2,3,1) _ run] show ?thesis unfolding run by (fastforce simp: emptyOs_def)
qed

lemma broken_demo:
  "fst (run_state (local_Ensure (opsEnv (cliOps brokenOs) idleHost) (localConfig forkParams) demoSpec False) freshWorld) \<noteq> None \<and>
   Exec ''incus'' (initArgs (instanceSpecFor (localConfig forkParams) ''p1'' False)) (Ran []) \<in>
     set (osLog (cliOps brokenOs) (w_log (snd (run_state (local_Ensure (opsEnv (cliOps brokenOs) idleHost) (localConfig forkParams) demoSpec False) freshWorld))))"
  by code_simp

theorem half_launched_started_witness:
  "\<exists>e w1. run_state (local_Ensure (opsEnv (cliOps brokenOs) idleHost) (localConfig forkParams) demoSpec False) freshWorld = (Some e, w1) \<and>
    (\<exists>w2 cmds. run_state (local_Ensure (opsEnv (cliOps brokenOs) idleHost) (localConfig forkParams) demoSpec False) w1 = (None, w2) \<and>
      osLog (cliOps brokenOs) (w_log w2) = cmds @ osLog (cliOps brokenOs) (w_log w1) \<and>
      list_all (\<lambda>c. \<exists>sub rest res. c = Exec ''incus'' (sub # ''buildkitd-p1'' # rest) res \<and> sub \<in> {''info'', ''list'', ''start''}) cmds)"
proof -
  let ?m = "local_Ensure (opsEnv (cliOps brokenOs) idleHost) (localConfig forkParams) demoSpec False"
  let ?i = "instanceSpecFor (localConfig forkParams) ''p1'' False"
  obtain e w1 where run1: "run_state ?m freshWorld = (Some e, w1)"
    "Exec ''incus'' (initArgs ?i) (Ran []) \<in> set (osLog (cliOps brokenOs) (w_log w1))"
    using broken_demo by (cases "run_state ?m freshWorld") auto
  have "fst (run_state ?m (snd (run_state ?m freshWorld))) = None" by code_simp
  then obtain w2 where run2: "run_state ?m w1 = (None, w2)" using run1(1) by (cases "run_state ?m w1") simp
  have name: "is_Name ?i = daemonName (sp_Key demoSpec)" "daemonName (sp_Key demoSpec) = ''buildkitd-p1''"
    by (simp_all add: instanceSpecFor_def demoSpec_def daemonName_def)
  have law: "\<exists>info. os_exec brokenOs l ''incus'' [''info'', is_Name ?i] = Ran info" if "Exec ''incus'' (initArgs ?i) (Ran []) \<in> set l" for l
  proof -
    have "initialised (Exec ''incus'' (initArgs ?i) (Ran []))" by (simp add: initialised_def initArgs_def)
    then have "list_ex initialised l" using that by (auto simp: list_ex_iff)
    then show ?thesis by (simp add: brokenOs_def emptyOs_def)
  qed
  from half_launched_started [OF run1(2) name(1) law run2] show ?thesis unfolding list_all_iff using run1(1) run2 name(2) by auto
qed

end
