(* ===== verification/Gateway.thy ===== *)
theory Gateway
  imports K8s_Provisioner "HOL-Library.Monad_Syntax"
begin

text \<open>
  \<open>cmd/gateway\<close>: the SNI router for clients outside the cluster. A byte slice is a \<^typ>\<open>string\<close>. An index or slice
  expression that Go would panic on is \<^const>\<open>None\<close>, so that \<open>parser_total\<close> is a theorem; a parse
  error is \<open>Inl\<close>.

  The connection is the bytes the client sends until it closes or the deadline passes; dialling and
  writing are parameters of \<open>handle\<close>, and so is the number of connections that are open when it runs.
\<close>

section \<open>The ClientHello parser\<close>

datatype SniErr = NotHandshake | BadRecordLength | ShortRead | NotClientHello | Truncated | NoExtensions | NoSNI

type_synonym 'a parse = "(SniErr + 'a) option"

definition byteAt :: "string \<Rightarrow> nat \<Rightarrow> nat option" where
  "byteAt b i = (if i < length b then Some (of_char (b ! i)) else None)"

definition sliceFrom :: "nat \<Rightarrow> string \<Rightarrow> string option" where
  "sliceFrom n b = (if n \<le> length b then Some (drop n b) else None)"

definition sliceTo :: "nat \<Rightarrow> string \<Rightarrow> string option" where
  "sliceTo n b = (if n \<le> length b then Some (take n b) else None)"

definition beUint16 :: "string \<Rightarrow> nat option" where
  "beUint16 b = (if length b < 2 then None else Some (of_char (b ! 0) * 256 + of_char (b ! 1)))"

text \<open>One round of the loop over \<open>session_id\<close>, \<open>cipher_suites\<close> and \<open>compression\<close>: a length of \<open>skip\<close> bytes and as many
  bytes as it says.\<close>

definition skipField :: "nat \<Rightarrow> string \<Rightarrow> string parse" where
  "skipField skip b =
     (if length b < skip then Some (Inl Truncated)
      else do {
        l \<leftarrow> (if skip = 1 then byteAt b 0 else if skip = 2 then beUint16 b else Some 0);
        b \<leftarrow> sliceFrom skip b;
        if length b < l then Some (Inl Truncated)
        else do { b \<leftarrow> sliceFrom l b; Some (Inr b) }
      })"

fun skipFields :: "nat list \<Rightarrow> string \<Rightarrow> string parse" where
  "skipFields [] b = Some (Inr b)"
| "skipFields (skip # skips) b =
     do {
       r \<leftarrow> skipField skip b;
       (case r of Inl e \<Rightarrow> Some (Inl e) | Inr b \<Rightarrow> skipFields skips b)
     }"

text \<open>The loop over the entries of a \<open>server_name\<close> extension: the first \<open>host_name\<close>, if any.\<close>

function scanNames :: "string \<Rightarrow> string option parse" where
  "scanNames ext =
     (if length ext \<ge> 3 then
        do {
          nameType \<leftarrow> byteAt ext 0;
          nameLen \<leftarrow> do { t \<leftarrow> sliceFrom 1 ext; beUint16 t };
          ext' \<leftarrow> sliceFrom 3 ext;
          if length ext' < nameLen then Some (Inl Truncated)
          else if nameType = 0 then do { n \<leftarrow> sliceTo nameLen ext'; Some (Inr (Some n)) }
          else do { rest \<leftarrow> sliceFrom nameLen ext'; scanNames rest }
        }
      else Some (Inr None))"
  by pat_completeness auto
termination
  by (relation "measure length") (auto simp: sliceFrom_def split: if_splits)

text \<open>The loop over the extensions.\<close>

function scanExtensions :: "string \<Rightarrow> string parse" where
  "scanExtensions b =
     (if length b \<ge> 4 then
        do {
          etype \<leftarrow> beUint16 b;
          elen \<leftarrow> do { t \<leftarrow> sliceFrom 2 b; beUint16 t };
          b' \<leftarrow> sliceFrom 4 b;
          if length b' < elen then Some (Inl Truncated)
          else do {
            ext \<leftarrow> sliceTo elen b';
            rest \<leftarrow> sliceFrom elen b';
            if etype \<noteq> 0 then scanExtensions rest
            else if length ext < 2 then Some (Inl Truncated)
            else do {
              names \<leftarrow> sliceFrom 2 ext;
              r \<leftarrow> scanNames names;
              (case r of
                 Inl e \<Rightarrow> Some (Inl e)
               | Inr (Some host) \<Rightarrow> Some (Inr host)
               | Inr None \<Rightarrow> scanExtensions rest)
            }
          }
        }
      else Some (Inl NoSNI))"
  by pat_completeness auto
termination
  by (relation "measure length") (auto simp: sliceFrom_def split: if_splits)

declare scanNames.simps [simp del] scanExtensions.simps [simp del]

definition sniFromClientHello :: "string \<Rightarrow> string parse" where
  "sniFromClientHello b =
     (if length b < 4 then Some (Inl NotClientHello)
      else do {
        t \<leftarrow> byteAt b 0;
        if t \<noteq> 1 then Some (Inl NotClientHello)
        else do {
          b \<leftarrow> sliceFrom 4 b;
          if length b < 34 then Some (Inl Truncated)
          else do {
            b \<leftarrow> sliceFrom 34 b;
            r \<leftarrow> skipFields [1, 2, 1] b;
            (case r of
               Inl e \<Rightarrow> Some (Inl e)
             | Inr b \<Rightarrow>
                 if length b < 2 then Some (Inl NoExtensions)
                 else do {
                   extLen \<leftarrow> beUint16 b;
                   b \<leftarrow> sliceFrom 2 b;
                   if length b < extLen then Some (Inl Truncated)
                   else do { b \<leftarrow> sliceTo extLen b; scanExtensions b }
                 })
          }
        }
      })"

text \<open>\<open>io.ReadFull\<close> of \<open>n\<close> bytes: what was read, zero-padded when the stream ends early, and what is left.\<close>

definition readFull :: "nat \<Rightarrow> string \<Rightarrow> bool \<times> string \<times> string" where
  "readFull n s = (n \<le> length s, take n s @ replicate (n - length s) (CHR 0x00), drop n s)"

text \<open>The result, the bytes to replay, and the bytes not read yet.\<close>

definition peekClientHelloSNI :: "string \<Rightarrow> ((SniErr + string) \<times> string \<times> string) option" where
  "peekClientHelloSNI s =
     (case readFull 5 s of
        (False, hdr, s') \<Rightarrow> Some (Inl ShortRead, [], s')
      | (True, hdr, s') \<Rightarrow>
          do {
            t \<leftarrow> byteAt hdr 0;
            if t \<noteq> 22 then Some (Inl NotHandshake, hdr, s')
            else do {
              n \<leftarrow> do { l \<leftarrow> sliceFrom 3 hdr; beUint16 l };
              if n = 0 \<or> n > 2 ^ 14 + 2048 then Some (Inl BadRecordLength, hdr, s')
              else
                (case readFull n s' of
                   (False, body, s'') \<Rightarrow> Some (Inl ShortRead, hdr @ body, s'')
                 | (True, body, s'') \<Rightarrow> do { r \<leftarrow> sniFromClientHello body; Some (r, hdr @ body, s'') })
            }
          })"

section \<open>Routing\<close>

record gateway =
  gw_domains :: "string list"
  gw_namespace :: string
  gw_port :: int
  gw_maxConns :: int

text \<open>The domains of the \<open>--domain\<close> flag; an empty list ends the program.\<close>

definition parseDomains :: "string \<Rightarrow> string list" where
  "parseDomains csv = filter (\<lambda>d. d \<noteq> []) (map trimSpace (splitByte CHR '','' csv))"

definition newGateway :: "string \<Rightarrow> string \<Rightarrow> int \<Rightarrow> int \<Rightarrow> gateway option" where
  "newGateway domainCSV namespace port maxConns =
     (let ds = parseDomains domainCSV in
      if ds = [] then None
      else Some \<lparr>gw_domains = ds, gw_namespace = namespace, gw_port = port, gw_maxConns = maxConns\<rparr>)"

datatype BackendErr = NotDaemonName | OutsideDomains

fun backendIn :: "gateway \<Rightarrow> string list \<Rightarrow> string \<Rightarrow> BackendErr + string" where
  "backendIn g [] sni = Inl OutsideDomains"
| "backendIn g (d # ds) sni =
     (let suffix = ''.'' @ d in
      if \<not> hasSuffix sni suffix then backendIn g ds sni
      else
        let name = trimSuffix sni suffix in
        if \<not> hasPrefix name ''buildkitd-'' \<or> list_ex (\<lambda>c. c \<in> set ''./'') name then Inl NotDaemonName
        else Inr (name @ ''.'' @ gw_namespace g @ ''.svc:'' @ itoa (gw_port g)))"

definition backendFor :: "gateway \<Rightarrow> string \<Rightarrow> BackendErr + string" where
  "backendFor g sni = backendIn g (gw_domains g) sni"

text \<open>What becomes of one connection: the backend it is piped to and the bytes that backend receives from the
  client, the replayed ClientHello first.\<close>

datatype Outcome = AtCapacity | PeekFailed SniErr | RejectedSNI string BackendErr | DialFailed string | ReplayFailed string | Piped string string

definition handle :: "gateway \<Rightarrow> nat \<Rightarrow> (string \<Rightarrow> bool) \<Rightarrow> (string \<Rightarrow> bool) \<Rightarrow> string \<Rightarrow> Outcome option" where
  "handle g conns dial replay s =
     (if gw_maxConns g > 0 \<and> int conns \<ge> gw_maxConns g then Some AtCapacity
      else do {
        (r, raw, rest) \<leftarrow> peekClientHelloSNI s;
        (case r of
           Inl e \<Rightarrow> Some (PeekFailed e)
         | Inr sni \<Rightarrow>
             (case backendFor g sni of
                Inl e \<Rightarrow> Some (RejectedSNI sni e)
              | Inr backend \<Rightarrow>
                  if \<not> dial backend then Some (DialFailed backend)
                  else if \<not> replay backend then Some (ReplayFailed backend)
                  else Some (Piped backend (raw @ rest))))
      })"

section \<open>What a ClientHello is\<close>

text \<open>The wire format (RFC 8446, section 4.1.2, and RFC 6066, section 3), as an encoder.\<close>

definition u16enc :: "nat \<Rightarrow> string" where
  "u16enc n = [char_of (n div 256), char_of (n mod 256)]"

definition nameEntry :: "nat \<times> string \<Rightarrow> string" where
  "nameEntry e = char_of (fst e) # u16enc (length (snd e)) @ snd e"

definition serverNames :: "(nat \<times> string) list \<Rightarrow> string" where
  "serverNames ns = u16enc (length (concat (map nameEntry ns))) @ concat (map nameEntry ns)"

definition extension :: "nat \<times> string \<Rightarrow> string" where
  "extension e = u16enc (fst e) @ u16enc (length (snd e)) @ snd e"

record Hello =
  ch_length :: string
  ch_random :: string
  ch_session :: string
  ch_ciphers :: string
  ch_compression :: string
  ch_extensions :: "(nat \<times> string) list"

definition clientHello :: "Hello \<Rightarrow> string" where
  "clientHello h = CHR 0x01 # ch_length h @ ch_random h @ char_of (length (ch_session h)) # ch_session h @
     u16enc (length (ch_ciphers h)) @ ch_ciphers h @ char_of (length (ch_compression h)) # ch_compression h @
     u16enc (length (concat (map extension (ch_extensions h)))) @ concat (map extension (ch_extensions h))"

definition tlsRecord :: "string \<Rightarrow> string \<Rightarrow> string" where
  "tlsRecord version body = CHR 0x16 # version @ u16enc (length body) @ body"

definition wfHello :: "Hello \<Rightarrow> bool" where
  "wfHello h \<longleftrightarrow> length (ch_length h) = 3 \<and> length (ch_random h) = 34 \<and> length (ch_session h) < 256 \<and> length (ch_ciphers h) < 65536 \<and>
     length (ch_compression h) < 256 \<and> length (concat (map extension (ch_extensions h))) < 65536 \<and>
     list_all (\<lambda>e. fst e < 65536) (ch_extensions h)"

lemma beUint16_enc: "n < 65536 \<Longrightarrow> beUint16 (u16enc n @ x) = Some n"
  by (simp add: beUint16_def u16enc_def)

lemma length_u16enc [simp]: "length (u16enc n) = 2"
  by (simp add: u16enc_def)

lemma drop_u16enc [simp]: "drop 2 (u16enc n @ x) = x"
  by (simp add: u16enc_def)

lemma drop_u16enc_more [simp]: "drop 3 (c # u16enc n @ x) = x" "drop 4 (u16enc m @ u16enc n @ x) = x"
proof -
  have "drop 3 (c # y) = drop 2 y" "drop 4 y = drop 2 (drop 2 y)" for y :: string by (simp_all add: drop_Cons')
  then show "drop 3 (c # u16enc n @ x) = x" "drop 4 (u16enc m @ u16enc n @ x) = x" by simp_all
qed

text \<open>One entry of the list of names, and the list.\<close>

lemma scanNames_entry:
  assumes "t < 256" "length nm < 65536"
  shows "scanNames (nameEntry (t, nm) @ rest) = (if t = 0 then Some (Inr (Some nm)) else scanNames rest)"
proof -
  define b where "b = nameEntry (t, nm) @ rest"
  have b: "sliceFrom (Suc 0) b = Some (u16enc (length nm) @ nm @ rest)" "sliceFrom 3 b = Some (nm @ rest)" "byteAt b 0 = Some t" "3 \<le> length b"
    using assms(1) by (simp_all add: b_def sliceFrom_def nameEntry_def byteAt_def)
  have r: "sliceTo (length nm) (nm @ rest) = Some nm" "sliceFrom (length nm) (nm @ rest) = Some rest"
    by (simp_all add: sliceTo_def sliceFrom_def)
  show ?thesis unfolding b_def [symmetric] scanNames.simps [of b] by (simp add: b r beUint16_enc [OF assms(2)])
qed

lemma scanNames_list:
  assumes "list_all (\<lambda>e. fst e < 256 \<and> fst e \<noteq> 0 \<and> length (snd e) < 65536) pre" "length host < 65536"
  shows "scanNames (concat (map nameEntry (pre @ (0, host) # post))) = Some (Inr (Some host))"
  using assms(1)
proof (induction pre)
  case Nil
  then show ?case using scanNames_entry [of 0 host] assms(2) by simp
next
  case (Cons e pre)
  then show ?case using scanNames_entry [of "fst e" "snd e"] by simp
qed

lemma scanExtensions_entry:
  assumes "t < 65536" "length d < 65536"
  shows "t \<noteq> 0 \<Longrightarrow> scanExtensions (extension (t, d) @ rest) = scanExtensions rest"
    and "scanNames n = Some (Inr (Some host)) \<Longrightarrow> d = u16enc k @ n \<Longrightarrow> t = 0 \<Longrightarrow> scanExtensions (extension (t, d) @ rest) = Some (Inr host)"
proof -
  define b where "b = extension (t, d) @ rest"
  have b2: "beUint16 b = Some t" "sliceFrom 2 b = Some (u16enc (length d) @ d @ rest)" "4 \<le> length b"
    using beUint16_enc [OF assms(1)] by (simp_all add: b_def extension_def sliceFrom_def)
  have b4: "sliceFrom 4 b = Some (d @ rest)" by (simp add: b_def extension_def sliceFrom_def)
  have r: "sliceTo (length d) (d @ rest) = Some d" "sliceFrom (length d) (d @ rest) = Some rest"
    by (simp_all add: sliceTo_def sliceFrom_def)
  show "t \<noteq> 0 \<Longrightarrow> scanExtensions (extension (t, d) @ rest) = scanExtensions rest"
    unfolding b_def [symmetric] scanExtensions.simps [of b] by (simp add: b2 b4 r beUint16_enc [OF assms(2)])
  show "scanExtensions (extension (t, d) @ rest) = Some (Inr host)" if "scanNames n = Some (Inr (Some host))" "d = u16enc k @ n" "t = 0"
  proof -
    have "sliceFrom 2 d = Some n" "2 \<le> length d" using that(2) by (simp_all add: sliceFrom_def)
    then show ?thesis unfolding b_def [symmetric] scanExtensions.simps [of b]
      using that(1,3) by (simp add: b2 b4 r beUint16_enc [OF assms(2)])
  qed
qed

lemma scanExtensions_list:
  assumes "list_all (\<lambda>e. fst e < 65536 \<and> fst e \<noteq> 0 \<and> length (snd e) < 65536) pre" "length (u16enc k @ n) < 65536" "scanNames n = Some (Inr (Some host))"
  shows "scanExtensions (concat (map extension (pre @ (0, u16enc k @ n) # post))) = Some (Inr host)"
  using assms(1)
proof (induction pre)
  case Nil
  then show ?case using scanExtensions_entry(2) [of 0 "u16enc k @ n", OF _ assms(2,3) refl refl] by simp
next
  case (Cons e pre)
  then show ?case using scanExtensions_entry(1) [of "fst e" "snd e"] by simp
qed

lemma skipField_enc:
  "length d < 256 \<Longrightarrow> skipField (Suc 0) (char_of (length d) # d @ x) = Some (Inr x)"
  "length d < 65536 \<Longrightarrow> skipField 2 (u16enc (length d) @ d @ x) = Some (Inr x)"
  by (simp_all add: skipField_def byteAt_def sliceFrom_def beUint16_enc)

lemma sniFromClientHello_hello:
  assumes "wfHello h" "scanExtensions (concat (map extension (ch_extensions h))) = r"
  shows "sniFromClientHello (clientHello h) = r"
proof -
  define E where "E = concat (map extension (ch_extensions h))"
  define B where "B = ch_random h @ char_of (length (ch_session h)) # ch_session h @ u16enc (length (ch_ciphers h)) @ ch_ciphers h @
    char_of (length (ch_compression h)) # ch_compression h @ u16enc (length E) @ E"
  have wf: "length (ch_length h) = 3" "length (ch_random h) = 34" "length (ch_session h) < 256" "length (ch_ciphers h) < 65536"
    "length (ch_compression h) < 256" "length E < 65536" using assms(1) by (simp_all add: wfHello_def E_def)
  have hello: "clientHello h = CHR 0x01 # ch_length h @ B" by (simp add: clientHello_def B_def E_def)
  have h4: "sliceFrom 4 (clientHello h) = Some B" using wf(1) unfolding hello by (simp add: sliceFrom_def drop_Cons')
  have h34: "sliceFrom 34 B = Some (char_of (length (ch_session h)) # ch_session h @ u16enc (length (ch_ciphers h)) @ ch_ciphers h @
    char_of (length (ch_compression h)) # ch_compression h @ u16enc (length E) @ E)" using wf(2) by (simp add: B_def sliceFrom_def)
  have "sniFromClientHello (clientHello h) = scanExtensions E"
    unfolding sniFromClientHello_def using wf h4 h34
    by (simp add: hello byteAt_def skipField_enc beUint16_enc) (simp add: B_def sliceFrom_def sliceTo_def)
  then show ?thesis using assms(2) by (simp add: E_def)
qed

lemma length_concat_mem: "x \<in> set xs \<Longrightarrow> length (f x) \<le> length (concat (map f xs))"
  by (induction xs) auto

lemma peek_hello:
  assumes "wfHello h" "ch_extensions h = pre @ (0, serverNames (npre @ (0, host) # npost)) # post"
    "list_all (\<lambda>e. fst e \<noteq> 0) pre" "list_all (\<lambda>e. 0 < fst e \<and> fst e < 256) npre"
    "length version = 2" "length (clientHello h) \<le> 2 ^ 14 + 2048"
  shows "peekClientHelloSNI (tlsRecord version (clientHello h) @ rest) = Some (Inr host, tlsRecord version (clientHello h), rest)"
proof -
  define names where "names = concat (map nameEntry (npre @ (0, host) # npost))"
  have total: "length (concat (map extension (ch_extensions h))) < 65536" using assms(1) by (simp add: wfHello_def)
  have sub: "length (snd e) < 65536" if "e \<in> set (ch_extensions h)" for e
  proof -
    have "length (extension e) \<le> length (concat (map extension (ch_extensions h)))"
      using that by (rule length_concat_mem)
    then show ?thesis using total by (simp add: extension_def)
  qed
  have sn: "length (serverNames (npre @ (0, host) # npost)) < 65536" using sub [of "(0, serverNames (npre @ (0, host) # npost))"] assms(2) by simp
  have nsub: "length (snd e) < 65536" if "e \<in> set (npre @ (0, host) # npost)" for e
  proof -
    have "length (nameEntry e) \<le> length names" unfolding names_def
      using that by (rule length_concat_mem)
    then show ?thesis using sn unfolding serverNames_def names_def [symmetric] by (simp add: nameEntry_def)
  qed
  have "scanNames names = Some (Inr (Some host))"
    unfolding names_def by (rule scanNames_list) (use assms(4) nsub nsub [of "(0, host)"] in \<open>auto simp: list_all_iff\<close>)
  moreover have "list_all (\<lambda>e. fst e < 65536 \<and> fst e \<noteq> 0 \<and> length (snd e) < 65536) pre"
    using assms(1,3) sub unfolding assms(2) wfHello_def by (auto simp: list_all_iff)
  moreover have "length (u16enc (length names) @ names) < 65536"
    using sn unfolding serverNames_def names_def [symmetric] .
  ultimately have "scanExtensions (concat (map extension (ch_extensions h))) = Some (Inr host)"
    unfolding assms(2) serverNames_def names_def [symmetric] by (intro scanExtensions_list)
  then have hello: "sniFromClientHello (clientHello h) = Some (Inr host)" by (rule sniFromClientHello_hello [OF assms(1)])
  define B where "B = clientHello h"
  have B: "0 < length B" "length B \<le> 2 ^ 14 + 2048" using assms(6) by (simp_all add: B_def clientHello_def)
  have len: "length B < 65536" using B(2) by simp
  obtain v1 v2 where v: "version = [v1, v2]" using assms(5) by (auto simp: length_Suc_conv numeral_2_eq_2)
  have hdr: "readFull 5 (tlsRecord version B @ rest) = (True, CHR 0x16 # version @ u16enc (length B), B @ rest)"
    by (simp add: readFull_def tlsRecord_def v u16enc_def)
  have n: "sliceFrom 3 (CHR 0x16 # version @ u16enc (length B)) = Some (u16enc (length B) @ [])"
    by (simp add: sliceFrom_def v)
  have body: "readFull (length B) (B @ rest) = (True, B, rest)" by (simp add: readFull_def)
  show ?thesis unfolding peekClientHelloSNI_def B_def [symmetric] hdr prod.case
    using B hello [folded B_def] beUint16_enc [OF len, of "[]"] by (simp add: n body byteAt_def tlsRecord_def)
qed

section \<open>What the gateway promises\<close>

text \<open>C27: \<^bold>\<open>The SNI of every ClientHello is found.\<close> For any ClientHello of the TLS wire format that names a host, whatever
  its other fields, extensions and names are, up to the sizes of the format and of a record: the
  gateway reads exactly that record from the connection, gets the host name of the first
  \<open>server_name\<close> extension, keeps the record for the replay and leaves what follows unread.\<close>

theorem sni_roundtrip:
  assumes "wfHello h" "ch_extensions h = pre @ (0, serverNames (npre @ (0, host) # npost)) # post"
    "list_all (\<lambda>e. fst e \<noteq> 0) pre" "list_all (\<lambda>e. 0 < fst e \<and> fst e < 256) npre"
    "length version = 2" "length (clientHello h) \<le> 2 ^ 14 + 2048"
  shows "peekClientHelloSNI (tlsRecord version (clientHello h) @ rest) = Some (Inr host, tlsRecord version (clientHello h), rest)"
  by (rule peek_hello [OF assms])

text \<open>The parser neither indexes nor slices out of range: it always returns a name or an error.\<close>

lemma slice_defined [simp]:
  "n \<le> length b \<Longrightarrow> sliceFrom n b = Some (drop n b)" "n \<le> length b \<Longrightarrow> sliceTo n b = Some (take n b)"
  "i < length b \<Longrightarrow> byteAt b i = Some (of_char (b ! i))"
  by (simp_all add: sliceFrom_def sliceTo_def byteAt_def)

lemma beUint16_defined: "2 \<le> length b \<Longrightarrow> \<exists>n. beUint16 b = Some n"
  by (simp add: beUint16_def)

lemma skipField_total: "skip \<in> {1, 2} \<Longrightarrow> \<exists>r. skipField skip b = Some r"
  by (auto simp: skipField_def beUint16_def bind_eq_None_conv)

lemma skipFields_total: "set skips \<subseteq> {1, 2} \<Longrightarrow> \<exists>r. skipFields skips b = Some r"
proof (induction skips arbitrary: b)
  case (Cons skip skips)
  then have "skip \<in> {1, 2}" by simp
  from skipField_total [OF this] obtain r where "skipField skip b = Some r" by blast
  then show ?case using Cons by (cases r) auto
qed simp

lemma scanNames_total: "\<exists>r. scanNames ext = Some r"
proof (induction ext rule: length_induct)
  case (1 ext)
  show ?case
  proof (cases "3 \<le> length ext")
    case True
    have "2 \<le> length (drop 1 ext)" using True by simp
    from beUint16_defined [OF this] obtain n where n: "beUint16 (drop 1 ext) = Some n" by blast
    have rec: "\<exists>r. scanNames (drop n (drop 3 ext)) = Some r" using 1 True by simp
    have s: "byteAt ext 0 = Some (of_char (ext ! 0))" "sliceFrom 1 ext = Some (drop 1 ext)" "sliceFrom 3 ext = Some (drop 3 ext)"
      using True by (auto intro!: slice_defined)
    show ?thesis
      by (subst scanNames.simps) (simp only: True s n if_True bind.bind_lunit, use rec in \<open>auto simp: linorder_not_less\<close>)
  qed (simp add: scanNames.simps)
qed

lemma scanExtensions_total: "\<exists>r. scanExtensions b = Some r"
proof (induction b rule: length_induct)
  case (1 b)
  show ?case
  proof (cases "4 \<le> length b")
    case True
    have "2 \<le> length b" "2 \<le> length (drop 2 b)" using True by auto
    from beUint16_defined [OF this(1)] beUint16_defined [OF this(2)] obtain t n
      where n: "beUint16 b = Some t" "beUint16 (drop 2 b) = Some n" by blast
    have rec: "\<exists>r. scanExtensions (drop n (drop 4 b)) = Some r" using 1 True by simp
    obtain r where r: "scanNames (drop 2 (take n (drop 4 b))) = Some r" using scanNames_total by blast
    show ?thesis using True n r rec by (subst scanExtensions.simps) (auto split: sum.split option.split)
  qed (simp add: scanExtensions.simps)
qed

lemma sniFromClientHello_total: "\<exists>r. sniFromClientHello b = Some r"
proof (cases "4 \<le> length b \<and> 34 \<le> length (drop 4 b)")
  case True
  obtain r where r: "skipFields [1, 2, 1] (drop 34 (drop 4 b)) = Some r" using skipFields_total [of "[1, 2, 1]"] by auto
  have "\<exists>s. (if length x < 2 then Some (Inl NoExtensions)
                 else do {
                   extLen \<leftarrow> beUint16 x;
                   b \<leftarrow> sliceFrom 2 x;
                   if length b < extLen then Some (Inl Truncated)
                   else do { b \<leftarrow> sliceTo extLen b; scanExtensions b }
                 }) = Some s" for x :: string
    using beUint16_defined [of x] scanExtensions_total by (auto simp: linorder_not_less)
  moreover have "byteAt b 0 = Some (of_char (b ! 0))" "sliceFrom 4 b = Some (drop 4 b)" "sliceFrom 34 (drop 4 b) = Some (drop 34 (drop 4 b))"
    using True by (auto intro!: slice_defined)
  ultimately show ?thesis using True r by (cases r) (simp_all del: skipFields.simps slice_defined add: sniFromClientHello_def)
qed (cases b; auto simp: sniFromClientHello_def linorder_not_le)

lemma readFull_split: "readFull n s = (True, x, y) \<Longrightarrow> s = x @ y \<and> length x = n"
  by (auto simp: readFull_def)

lemma parser_total: "\<exists>r raw rest. peekClientHelloSNI s = Some (r, raw, rest) \<and> (\<forall>sni. r = Inr sni \<longrightarrow> raw @ rest = s)"
proof -
  obtain ok hdr s' where h: "readFull 5 s = (ok, hdr, s')" by (cases "readFull 5 s")
  show ?thesis
  proof (cases ok)
    case True
    then have split: "s = hdr @ s'" "length hdr = 5" using readFull_split h by auto
    then have "2 \<le> length (drop 3 hdr)" by simp
    from beUint16_defined [OF this] obtain n where n: "beUint16 (drop 3 hdr) = Some n" by blast
    have s: "byteAt hdr 0 = Some (of_char (hdr ! 0))" "sliceFrom 3 hdr = Some (drop 3 hdr)"
      using split(2) by (auto intro!: slice_defined)
    obtain ok' body s'' where b: "readFull n s' = (ok', body, s'')" by (cases "readFull n s'")
    obtain r where r: "sniFromClientHello body = Some r" using sniFromClientHello_total by blast
    have "ok' \<Longrightarrow> s' = body @ s''" using readFull_split b by auto
    then show ?thesis
      using h b n r s split(1) True by (cases ok') (auto simp: peekClientHelloSNI_def)
  qed (use h in \<open>auto simp: peekClientHelloSNI_def\<close>)
qed

lemma backendIn_Inr:
  "backendIn g ds sni = Inr b \<Longrightarrow>
     \<exists>d\<in>set ds. \<exists>name. sni = name @ ''.'' @ d \<and> hasPrefix name ''buildkitd-'' \<and> CHR ''.'' \<notin> set name \<and> CHR ''/'' \<notin> set name \<and>
        b = name @ ''.'' @ gw_namespace g @ ''.svc:'' @ itoa (gw_port g)"
proof (induction ds)
  case (Cons d ds)
  show ?case
  proof (cases "hasSuffix sni (''.'' @ d)")
    case True
    then obtain name where n: "sni = name @ ''.'' @ d" by (auto simp: hasSuffix_iff)
    then have "trimSuffix sni (''.'' @ d) = name" by (simp only: trimSuffix_append)
    then show ?thesis using Cons.prems True n by (auto simp: Let_def list_ex_iff split: if_splits)
  qed (use Cons in \<open>auto simp: Let_def\<close>)
qed simp

lemma backendIn_hit:
  assumes "\<forall>x\<in>set pre. \<not> hasSuffix (name @ ''.'' @ d) (''.'' @ x)"
  shows "backendIn g (pre @ d # post) (name @ ''.'' @ d) =
    (if \<not> hasPrefix name ''buildkitd-'' \<or> list_ex (\<lambda>c. c \<in> set ''./'') name then Inl NotDaemonName
     else Inr (name @ ''.'' @ gw_namespace g @ ''.svc:'' @ itoa (gw_port g)))"
  using assms
proof (induction pre)
  case Nil
  have "trimSuffix (name @ ''.'' @ d) (''.'' @ d) = name" "hasSuffix (name @ ''.'' @ d) (''.'' @ d)"
    by (simp_all only: trimSuffix_append hasSuffix_append)
  then show ?case by (simp add: Let_def)
qed (simp add: Let_def)

text \<open>C19: \<^bold>\<open>The gateway is transparent, confined and never panics.\<close> Whatever bytes a client sends, handling the
  connection ends in one of the outcomes of the code. A connection is piped only when the client names
  \<open><daemon>.<domain>\<close> for a configured domain and a name of the daemons' form without a dot or a slash, and
  then only to that Service in the daemons' namespace; and the daemon receives exactly the bytes the
  client sent, the peeked ClientHello included, in order.\<close>

theorem gateway_transparent:
  "\<exists>out. handle g conns dial replay s = Some out \<and>
    (\<forall>backend bytes. out = Piped backend bytes \<longrightarrow>
       bytes = s \<and> (gw_maxConns g > 0 \<longrightarrow> int conns < gw_maxConns g) \<and>
       (\<exists>sni name domain raw rest. peekClientHelloSNI s = Some (Inr sni, raw, rest) \<and> domain \<in> set (gw_domains g) \<and>
          sni = name @ ''.'' @ domain \<and> hasPrefix name ''buildkitd-'' \<and> CHR ''.'' \<notin> set name \<and> CHR ''/'' \<notin> set name \<and>
          backend = name @ ''.'' @ gw_namespace g @ ''.svc:'' @ itoa (gw_port g)))"
proof -
  obtain r raw rest where p: "peekClientHelloSNI s = Some (r, raw, rest)" "\<And>sni. r = Inr sni \<Longrightarrow> raw @ rest = s"
    using parser_total by blast
  show ?thesis
  proof (cases r)
    case (Inr sni)
    have raw: "raw @ rest = s" using p(2) Inr .
    show ?thesis
    proof (cases "backendFor g sni")
      case (Inr backend)
      from backendIn_Inr [OF this [unfolded backendFor_def]] show ?thesis
        using p(1) \<open>r = Inr sni\<close> raw Inr by (fastforce simp: handle_def)
    qed (use p(1) Inr in \<open>auto simp: handle_def\<close>)
  qed (auto simp: handle_def p(1))
qed

text \<open>A host name \<open><daemon>.<d>\<close> lies under another domain only when \<open>d\<close> does.\<close>

lemma suffix_under:
  assumes "CHR ''.'' \<notin> set name"
  shows "hasSuffix (name @ ''.'' @ d) (''.'' @ x) \<longleftrightarrow> x = d \<or> hasSuffix d (''.'' @ x)" (is "?L \<longleftrightarrow> ?R")
proof
  assume ?L
  then obtain r where "name @ ''.'' @ d = r @ ''.'' @ x" by (auto simp: hasSuffix_iff)
  then obtain us where "name = r @ us \<and> us @ ''.'' @ d = ''.'' @ x \<or> name @ us = r \<and> ''.'' @ d = us @ ''.'' @ x"
    by (auto simp: append_eq_append_conv2)
  then show ?R using assms by (cases us) (auto simp: hasSuffix_iff)
qed (auto simp: hasSuffix_iff)

lemma dots_free:
  "CHR ''.'' \<notin> set (projectKey r n t a) \<and> CHR ''/'' \<notin> set (projectKey r n t a)"
proof -
  obtain x where "projectKey r n t a = CHR ''p'' # x" "set x \<subseteq> set hexDigits" using projectKey_parts by blast
  then show ?thesis by (auto simp: hexDigits_def)
qed

lemma backendIn_domain:
  assumes "d \<in> set ds" "\<forall>x\<in>set ds. \<not> hasSuffix d (''.'' @ x)" "CHR ''.'' \<notin> set name" "CHR ''/'' \<notin> set name" "hasPrefix name ''buildkitd-''"
  shows "backendIn g ds (name @ ''.'' @ d) = Inr (name @ ''.'' @ gw_namespace g @ ''.svc:'' @ itoa (gw_port g))"
proof -
  obtain pre post where ds: "ds = pre @ d # post" "d \<notin> set pre" using split_list_first [OF assms(1)] by blast
  then have "\<forall>x\<in>set pre. \<not> hasSuffix (name @ ''.'' @ d) (''.'' @ x)" using assms(2,3) by (auto simp: suffix_under [simplified])
  from backendIn_hit [OF this] show ?thesis using ds assms(3-5) by (auto simp: list_ex_iff)
qed

text \<open>C20: \<^bold>\<open>A client of the returned endpoint reaches its own daemon.\<close> Let the provisioner hand out gateway endpoints
  for the domain \<open>d\<close>, which the gateway serves and of which no served domain is a parent. For every
  routing key, canonical or fork, the endpoint is the address \<open><daemon>.<d>\<close>, and a client that connects
  there and names it in any well-formed ClientHello is piped to the very address a client inside the
  cluster is given for the key, when the daemon accepts the connection and the gateway has room.

  When an earlier domain of the flag is a parent of \<open>d\<close>, the first match decides and every such client is
  refused.\<close>

theorem gateway_reaches_daemon:
  assumes "key = projectKey r n t a \<or> key = forkKey (projectKey r n t a)"
    "kp_gatewayHost p = d" "d \<noteq> []" "d \<in> set (gw_domains g)" "gw_namespace g = kp_namespace p" "gw_port g = kp_port p"
  shows "k8s_Endpoint p key = endpointHost (daemonName key @ ''.'' @ d) (if kp_gatewayPort p > 0 then kp_gatewayPort p else kp_port p) \<and>
    (\<forall>s raw rest conns. peekClientHelloSNI s = Some (Inr (daemonName key @ ''.'' @ d), raw, rest) \<longrightarrow>
      gw_maxConns g \<le> 0 \<or> int conns < gw_maxConns g \<longrightarrow>
      ((\<forall>x\<in>set (gw_domains g). \<not> hasSuffix d (''.'' @ x)) \<longrightarrow>
        (\<exists>backend. ''tcp://'' @ backend = endpoint key (kp_namespace p) (kp_port p) \<and>
          handle g conns (\<lambda>b. b = backend) (\<lambda>b. b = backend) s = Some (Piped backend s))) \<and>
      (hasSuffix d (''.'' @ hd (gw_domains g)) \<longrightarrow>
        handle g conns dial replay s = Some (RejectedSNI (daemonName key @ ''.'' @ d) NotDaemonName)))"
proof -
  have free: "CHR ''.'' \<notin> set (daemonName key)" "CHR ''/'' \<notin> set (daemonName key)" "hasPrefix (daemonName key) ''buildkitd-''"
    using assms(1) dots_free by (auto simp: daemonName_def forkKey_def)
  have endp: "k8s_Endpoint p key = endpointHost (daemonName key @ ''.'' @ d) (if kp_gatewayPort p > 0 then kp_gatewayPort p else kp_port p)"
    using assms(2,3) by (simp add: k8s_Endpoint_def)
  have reach: "\<exists>backend. ''tcp://'' @ backend = endpoint key (kp_namespace p) (kp_port p) \<and>
      handle g conns (\<lambda>b. b = backend) (\<lambda>b. b = backend) s = Some (Piped backend s)"
    if peek: "peekClientHelloSNI s = Some (Inr (daemonName key @ ''.'' @ d), raw, rest)"
      and room: "gw_maxConns g \<le> 0 \<or> int conns < gw_maxConns g"
      and top: "\<forall>x\<in>set (gw_domains g). \<not> hasSuffix d (''.'' @ x)" for s raw rest conns
  proof -
    have "raw @ rest = s" using parser_total [of s] peek by auto
    then show ?thesis using backendIn_domain [OF assms(4) top free, of g] peek room assms(5,6)
      by (auto simp: handle_def backendFor_def endpoint_def serviceFQDN_def)
  qed
  have refuse: "handle g conns dial replay s = Some (RejectedSNI (daemonName key @ ''.'' @ d) NotDaemonName)"
    if peek: "peekClientHelloSNI s = Some (Inr (daemonName key @ ''.'' @ d), raw, rest)"
      and room: "gw_maxConns g \<le> 0 \<or> int conns < gw_maxConns g"
      and parent: "hasSuffix d (''.'' @ hd (gw_domains g))" for s raw rest conns
  proof -
    obtain x ds where ds: "gw_domains g = x # ds" using assms(4) by (cases "gw_domains g") auto
    obtain y where "d = y @ ''.'' @ x" using parent ds by (auto simp: hasSuffix_iff)
    then have split: "daemonName key @ ''.'' @ d = (daemonName key @ ''.'' @ y) @ ''.'' @ x" by simp
    have "backendFor g (daemonName key @ ''.'' @ d) = Inl NotDaemonName"
      unfolding split backendFor_def ds using backendIn_hit [of "[]" "daemonName key @ ''.'' @ y" x g ds] by simp
    then show ?thesis using peek room by (auto simp: handle_def)
  qed
  show ?thesis using endp reach refuse by blast
qed

text \<open>A ClientHello that names one host, after an \<open>ALPN\<close> extension.\<close>

definition plainHello :: "string \<Rightarrow> Hello" where
  "plainHello host = \<lparr>ch_length = replicate 3 NUL, ch_random = replicate 34 NUL, ch_session = [], ch_ciphers = [CHR 0x13, CHR 0x01],
     ch_compression = [NUL], ch_extensions = [(16, [NUL, CHR 0x03, CHR 0x02, CHR ''h'', CHR ''2'']), (0, serverNames [(0, host)])]\<rparr>"

definition plainStream :: "string \<Rightarrow> string" where
  "plainStream host = tlsRecord [CHR 0x03, CHR 0x01] (clientHello (plainHello host)) @ ''data''"

lemma wfHello_plain: "length host < 256 \<Longrightarrow> wfHello (plainHello host) \<and> length (clientHello (plainHello host)) \<le> 2 ^ 14 + 2048"
  by (simp add: wfHello_def plainHello_def clientHello_def serverNames_def nameEntry_def extension_def)

lemma peek_plain:
  assumes "length host < 256"
  shows "peekClientHelloSNI (plainStream host) =
    Some (Inr host, tlsRecord [CHR 0x03, CHR 0x01] (clientHello (plainHello host)), ''data'')"
  unfolding plainStream_def
  by (rule peek_hello [where pre = "[(16, [NUL, CHR 0x03, CHR 0x02, CHR ''h'', CHR ''2''])]" and npre = "[]" and npost = "[]" and post = "[]"])
    (use wfHello_plain [OF assms] in \<open>simp_all add: plainHello_def\<close>)

theorem sni_roundtrip_witness:
  "peekClientHelloSNI (plainStream ''buildkitd-p1.ci.example'') =
    Some (Inr ''buildkitd-p1.ci.example'', tlsRecord [CHR 0x03, CHR 0x01] (clientHello (plainHello ''buildkitd-p1.ci.example'')), ''data'')"
  unfolding plainStream_def
  by (rule sni_roundtrip [where pre = "[(16, [NUL, CHR 0x03, CHR 0x02, CHR ''h'', CHR ''2''])]" and npre = "[]" and npost = "[]" and post = "[]"])
    (use wfHello_plain [of "''buildkitd-p1.ci.example''"] in \<open>simp_all add: plainHello_def\<close>)

definition plainGateway :: gateway where
  "plainGateway = \<lparr>gw_domains = [''ci.example'', ''example.org''], gw_namespace = ''builds'', gw_port = 1234, gw_maxConns = 2\<rparr>"

theorem gateway_transparent_witness:
  "handle plainGateway 1 (\<lambda>_. True) (\<lambda>_. True) (plainStream ''buildkitd-p1.ci.example'') =
     Some (Piped ''buildkitd-p1.builds.svc:1234'' (plainStream ''buildkitd-p1.ci.example'')) \<and>
   ''ci.example'' \<in> set (gw_domains plainGateway)"
proof -
  let ?s = "plainStream ''buildkitd-p1.ci.example''"
  have b: "backendFor plainGateway ''buildkitd-p1.ci.example'' = Inr ''buildkitd-p1.builds.svc:1234''" by code_simp
  have "\<exists>bytes. handle plainGateway 1 (\<lambda>_. True) (\<lambda>_. True) ?s = Some (Piped ''buildkitd-p1.builds.svc:1234'' bytes)"
    using b peek_plain [of "''buildkitd-p1.ci.example''"] by (simp add: handle_def) (simp add: plainGateway_def)
  then show ?thesis using gateway_transparent [of plainGateway 1 "\<lambda>_. True" "\<lambda>_. True" ?s] by (auto simp: plainGateway_def)
qed

definition plainProvisioner :: K8sProvisioner where
  "plainProvisioner = newK8s (zeroConfig\<lparr>cf_Namespace := ''builds'', cf_Port := 1234\<rparr>) 0 ''ci.example'' 443 0"

theorem gateway_reaches_daemon_witness:
  "\<exists>backend. ''tcp://'' @ backend = endpoint (projectKey ''org/app'' [] [] []) ''builds'' 1234 \<and>
    handle plainGateway 1 (\<lambda>b. b = backend) (\<lambda>b. b = backend) (plainStream (daemonName (projectKey ''org/app'' [] [] []) @ ''.ci.example'')) =
      Some (Piped backend (plainStream (daemonName (projectKey ''org/app'' [] [] []) @ ''.ci.example'')))"
proof -
  let ?k = "projectKey ''org/app'' [] [] []"
  have len: "length (daemonName ?k @ ''.ci.example'') < 256"
    using projectKey_parts [of "''org/app''" "[]" "[]" "[]"] by (auto simp: daemonName_def)
  have "\<forall>x\<in>set (gw_domains plainGateway). \<not> hasSuffix ''ci.example'' (''.'' @ x)" by code_simp
  moreover have "''ci.example'' \<in> set (gw_domains plainGateway)" by (simp add: plainGateway_def)
  ultimately show ?thesis
    using gateway_reaches_daemon [of ?k "''org/app''" "[]" "[]" "[]" plainProvisioner "''ci.example''" plainGateway] peek_plain [OF len]
    by (simp add: plainProvisioner_def newK8s_def plainGateway_def)
qed

end
