(* ===== verification/Gateway_Server.thy ===== *)
theory Gateway_Server
  imports Gateway
begin

text \<open>
  The concurrent half of \<open>cmd/gateway\<close>: the accept loop, the life of a connection's goroutine, the
  drain on a signal, and the two copy loops of \<open>pipe\<close>, as step relations in which the scheduler picks the
  next step.
\<close>

section \<open>The accept loop and the drain\<close>

text \<open>The goroutines of \<open>handle\<close>, by how far they are: \<open>sv_spawned\<close> before the semaphore, \<open>sv_admitted\<close> between the
  semaphore and \<open>inflight.Add\<close>, \<open>sv_counted\<close> up to \<open>inflight.Done\<close>, \<open>sv_finishing\<close> before the semaphore is
  given back. The deferred calls run last in, first out. The accept loop runs while \<open>sv_accepting\<close>;
  \<open>sv_waited\<close> is \<open>done\<close> closed.\<close>

datatype Exit = Drained | DrainTimeout

record Server =
  sv_signalled :: bool
  sv_listening :: bool
  sv_accepting :: bool
  sv_spawned :: nat
  sv_admitted :: nat
  sv_counted :: nat
  sv_finishing :: nat
  sv_waited :: bool
  sv_exit :: "Exit option"

definition serverInit :: Server where
  "serverInit = \<lparr>sv_signalled = False, sv_listening = True, sv_accepting = True, sv_spawned = 0, sv_admitted = 0,
     sv_counted = 0, sv_finishing = 0, sv_waited = False, sv_exit = None\<rparr>"

text \<open>The tokens in the channel \<open>maxConns\<close>, which exists when the flag is positive.\<close>

definition tokens :: "Server \<Rightarrow> nat" where
  "tokens s = sv_admitted s + sv_counted s + sv_finishing s"

definition hasRoom :: "int \<Rightarrow> Server \<Rightarrow> bool" where
  "hasRoom maxConns s \<longleftrightarrow> maxConns > 0 \<longrightarrow> int (tokens s) < maxConns"

datatype Action = Signal | CloseListener | Accept | AcceptError | Admit | Reject | AddInflight | DoneInflight | Release
  | WaitReturns | ExitDrained | ExitTimeout

text \<open>One action of one goroutine; \<^const>\<open>None\<close> when it cannot run. \<open>AcceptError\<close> with no signal is the transient
  error after which the loop goes on.\<close>

fun serverAct :: "int \<Rightarrow> Action \<Rightarrow> Server \<Rightarrow> Server option" where
  "serverAct m Signal s = Some (s\<lparr>sv_signalled := True\<rparr>)"
| "serverAct m CloseListener s = (if sv_signalled s then Some (s\<lparr>sv_listening := False\<rparr>) else None)"
| "serverAct m Accept s = (if sv_accepting s \<and> sv_listening s then Some (s\<lparr>sv_spawned := Suc (sv_spawned s)\<rparr>) else None)"
| "serverAct m AcceptError s = (if sv_accepting s then Some (if sv_signalled s then s\<lparr>sv_accepting := False\<rparr> else s) else None)"
| "serverAct m Admit s =
     (if sv_spawned s > 0 \<and> hasRoom m s then Some (s\<lparr>sv_spawned := sv_spawned s - 1, sv_admitted := Suc (sv_admitted s)\<rparr>) else None)"
| "serverAct m Reject s = (if sv_spawned s > 0 \<and> \<not> hasRoom m s then Some (s\<lparr>sv_spawned := sv_spawned s - 1\<rparr>) else None)"
| "serverAct m AddInflight s =
     (if sv_admitted s > 0 then Some (s\<lparr>sv_admitted := sv_admitted s - 1, sv_counted := Suc (sv_counted s)\<rparr>) else None)"
| "serverAct m DoneInflight s =
     (if sv_counted s > 0 then Some (s\<lparr>sv_counted := sv_counted s - 1, sv_finishing := Suc (sv_finishing s)\<rparr>) else None)"
| "serverAct m Release s = (if sv_finishing s > 0 then Some (s\<lparr>sv_finishing := sv_finishing s - 1\<rparr>) else None)"
| "serverAct m WaitReturns s = (if \<not> sv_accepting s \<and> sv_counted s = 0 then Some (s\<lparr>sv_waited := True\<rparr>) else None)"
| "serverAct m ExitDrained s = (if sv_waited s then Some (s\<lparr>sv_exit := Some Drained\<rparr>) else None)"
| "serverAct m ExitTimeout s = (if \<not> sv_accepting s then Some (s\<lparr>sv_exit := Some DrainTimeout\<rparr>) else None)"

text \<open>A run: a sequence of actions of a process that has not exited.\<close>

fun serverRun :: "int \<Rightarrow> Action list \<Rightarrow> Server \<Rightarrow> Server option" where
  "serverRun m [] s = Some s"
| "serverRun m (a # as) s =
     (if sv_exit s \<noteq> None then None else case serverAct m a s of None \<Rightarrow> None | Some s' \<Rightarrow> serverRun m as s')"

inductive serverReach :: "int \<Rightarrow> Server \<Rightarrow> bool" for m where
  init: "serverReach m serverInit"
| step: "serverReach m s \<Longrightarrow> sv_exit s = None \<Longrightarrow> serverAct m a s = Some s' \<Longrightarrow> serverReach m s'"

lemma serverRun_reach: "serverReach m s \<Longrightarrow> serverRun m as s = Some t \<Longrightarrow> serverReach m t"
  by (induction m as s rule: serverRun.induct) (auto split: if_splits option.splits intro: serverReach.step)

lemma serverRun_append:
  "serverRun m (as @ bs) s = (case serverRun m as s of None \<Rightarrow> None | Some t \<Rightarrow> serverRun m bs t)"
  by (induction m as s rule: serverRun.induct) (auto split: option.split)

text \<open>The invariant: within the capacity, and nothing after the loop but what was accepted before it ended.\<close>

definition serverInv :: "int \<Rightarrow> Server \<Rightarrow> bool" where
  "serverInv m s \<longleftrightarrow> (m > 0 \<longrightarrow> int (tokens s) \<le> m) \<and> (\<not> sv_listening s \<or> \<not> sv_accepting s \<longrightarrow> sv_signalled s) \<and>
     (sv_waited s \<or> sv_exit s \<noteq> None \<longrightarrow> \<not> sv_accepting s) \<and> (sv_exit s = Some Drained \<longrightarrow> sv_waited s)"

lemma serverAct_capacity:
  "serverAct m a s = Some s' \<Longrightarrow> 0 < m \<Longrightarrow> int (tokens s) \<le> m \<Longrightarrow> int (tokens s') \<le> m"
  by (cases a) (auto simp: tokens_def hasRoom_def split: if_splits)

lemma serverAct_flags:
  "serverAct m a s = Some s' \<Longrightarrow> sv_signalled s \<Longrightarrow> sv_signalled s'"
  "serverAct m a s = Some s' \<Longrightarrow> \<not> sv_listening s' \<Longrightarrow> sv_listening s \<Longrightarrow> sv_signalled s"
  "serverAct m a s = Some s' \<Longrightarrow> \<not> sv_accepting s' \<Longrightarrow> sv_accepting s \<Longrightarrow> sv_signalled s"
  "serverAct m a s = Some s' \<Longrightarrow> \<not> sv_accepting s \<Longrightarrow> \<not> sv_accepting s'"
  "serverAct m a s = Some s' \<Longrightarrow> sv_waited s' \<Longrightarrow> \<not> sv_waited s \<Longrightarrow> \<not> sv_accepting s"
  "serverAct m a s = Some s' \<Longrightarrow> sv_waited s \<Longrightarrow> sv_waited s'"
  "serverAct m a s = Some s' \<Longrightarrow> sv_exit s = None \<Longrightarrow> sv_exit s' = Some Drained \<Longrightarrow> sv_waited s"
  "serverAct m a s = Some s' \<Longrightarrow> sv_exit s = None \<Longrightarrow> sv_exit s' = Some DrainTimeout \<Longrightarrow> \<not> sv_accepting s"
  by (cases a; auto split: if_splits; fail)+

lemma serverAct_inv:
  assumes "serverInv m s" "serverAct m a s = Some s'" "sv_exit s = None"
  shows "serverInv m s'"
proof -
  note f = serverAct_flags [OF assms(2)] and i = assms(1) [unfolded serverInv_def]
  have "m > 0 \<longrightarrow> int (tokens s') \<le> m" using serverAct_capacity [OF assms(2)] i by blast
  moreover have "\<not> sv_listening s' \<or> \<not> sv_accepting s' \<longrightarrow> sv_signalled s'" using f(1-3) i by blast
  moreover have "sv_waited s' \<or> sv_exit s' \<noteq> None \<longrightarrow> \<not> sv_accepting s'"
    using f(4,5) f(7,8) [OF assms(3)] i Exit.exhaust by (metis option.exhaust)
  moreover have "sv_exit s' = Some Drained \<longrightarrow> sv_waited s'" using f(6) f(7) [OF assms(3)] by blast
  ultimately show ?thesis unfolding serverInv_def by blast
qed

lemma serverReach_inv: "serverReach m s \<Longrightarrow> serverInv m s"
proof (induction rule: serverReach.induct)
  case init
  show ?case by (simp add: serverInv_def serverInit_def tokens_def)
next
  case (step s a s')
  from serverAct_inv [OF step.IH step.hyps(3,2)] show ?case .
qed

text \<open>Once the loop has ended, the connections that are not counted yet only get fewer.\<close>

definition unserved :: "Server \<Rightarrow> nat" where
  "unserved s = sv_spawned s + sv_admitted s + sv_counted s"

lemma serverAct_unserved:
  "serverAct m a s = Some s' \<Longrightarrow> \<not> sv_accepting s \<Longrightarrow> unserved s' \<le> unserved s \<and> \<not> sv_accepting s'"
  by (cases a) (auto simp: unserved_def split: if_splits)

lemma serverRun_unserved:
  "serverRun m as s = Some t \<Longrightarrow> \<not> sv_accepting s \<Longrightarrow> unserved t \<le> unserved s"
  by (induction m as s rule: serverRun.induct)
    (auto split: if_splits option.splits dest!: serverAct_unserved)

text \<open>C28: \<^bold>\<open>Capacity and drain of the gateway.\<close> In every state the gateway can reach, at most \<open>maxConns\<close> connections
  hold a token. It stops accepting only on a signal, and when it then reports that all builds have
  drained, the connections that are still open are at most those whose goroutines had not yet counted
  themselves when the wait returned.

  That remainder is not empty in general: a connection that is accepted just before the signal can
  still be streaming when the gateway exits as drained.\<close>

theorem gateway_drain:
  "(\<forall>s. serverReach m s \<longrightarrow>
     (m > 0 \<longrightarrow> int (sv_admitted s + sv_counted s + sv_finishing s) \<le> m) \<and>
     (\<not> sv_accepting s \<longrightarrow> sv_signalled s) \<and>
     (\<forall>s' as t. serverAct m WaitReturns s = Some s' \<longrightarrow> serverRun m (as @ [ExitDrained]) s' = Some t \<longrightarrow>
        sv_exit t = Some Drained \<and> sv_spawned t + sv_admitted t + sv_counted t \<le> sv_spawned s + sv_admitted s)) \<and>
   (\<exists>t. serverReach m t \<and> sv_exit t = Some Drained \<and> sv_counted t = 1)"
proof (intro conjI allI impI)
  fix s assume reach: "serverReach m s"
  then show "m > 0 \<Longrightarrow> int (sv_admitted s + sv_counted s + sv_finishing s) \<le> m" "\<not> sv_accepting s \<Longrightarrow> sv_signalled s"
    using serverReach_inv [OF reach] by (auto simp: serverInv_def tokens_def)
  fix s' as t assume w: "serverAct m WaitReturns s = Some s'" and run: "serverRun m (as @ [ExitDrained]) s' = Some t"
  obtain u where u: "serverRun m as s' = Some u" "serverAct m ExitDrained u = Some t"
    using run by (auto simp: serverRun_append split: option.splits if_splits)
  show "sv_exit t = Some Drained" using u(2) by (auto split: if_splits)
  have "unserved t \<le> unserved s'" using serverRun_unserved [OF run] w by (auto split: if_splits)
  also have "unserved s' = sv_spawned s + sv_admitted s" using w by (auto simp: unserved_def split: if_splits)
  finally show "sv_spawned t + sv_admitted t + sv_counted t \<le> sv_spawned s + sv_admitted s" by (simp add: unserved_def)
next
  have "\<exists>t. serverRun m [Accept, Signal, CloseListener, AcceptError, WaitReturns, Admit, AddInflight, ExitDrained] serverInit = Some t \<and>
      sv_exit t = Some Drained \<and> sv_counted t = 1"
    by (simp add: serverInit_def hasRoom_def tokens_def)
  then show "\<exists>t. serverReach m t \<and> sv_exit t = Some Drained \<and> sv_counted t = 1"
    using serverRun_reach [OF serverReach.init] by blast
qed

theorem gateway_drain_witness:
  "serverReach 1 (serverInit\<lparr>sv_spawned := 1, sv_admitted := 1\<rparr>) \<and>
    int (sv_admitted (serverInit\<lparr>sv_spawned := 1, sv_admitted := 1\<rparr>)) \<le> 1"
proof -
  have "serverRun 1 [Accept, Admit, Accept] serverInit = Some (serverInit\<lparr>sv_spawned := 1, sv_admitted := 1\<rparr>)"
    by (simp add: serverInit_def hasRoom_def tokens_def)
  then have "serverReach 1 (serverInit\<lparr>sv_spawned := 1, sv_admitted := 1\<rparr>)" using serverRun_reach [OF serverReach.init] by blast
  then show ?thesis using gateway_drain [of 1] by (fastforce simp: serverInit_def)
qed

section \<open>The two copy loops of \<open>pipe\<close>\<close>

text \<open>A TCP connection as the gateway holds it: what its peer has sent so far and what of it is still unread,
  whether the peer has shut down its sending side (then, and only then, a read of nothing is EOF), what
  the gateway has written to the peer, whether it has half-closed it (\<open>CloseWrite\<close>: the peer reads EOF after
  those bytes, and can go on sending), and whether the connection is broken.\<close>

record Conn =
  cn_sent :: string
  cn_unread :: string
  cn_done :: bool
  cn_out :: string
  cn_shut :: bool
  cn_broken :: bool

text \<open>The two goroutines of \<open>pipe\<close>, each named by the side it reads from: in the read of \<open>io.Copy\<close>, in the write of the
  chunk it read, at the \<open>CloseWrite\<close> that follows the copy, and done.\<close>

datatype Side = ClientSide | UpstreamSide

fun otherSide :: "Side \<Rightarrow> Side" where
  "otherSide ClientSide = UpstreamSide"
| "otherSide UpstreamSide = ClientSide"

datatype CopyLoop = Reading | Writing string | HalfClosing | LoopDone

record Pipe =
  pp_conn :: "Side \<Rightarrow> Conn"
  pp_loop :: "Side \<Rightarrow> CopyLoop"

definition freshConn :: "string \<Rightarrow> Conn" where
  "freshConn sent = \<lparr>cn_sent = sent, cn_unread = sent, cn_done = False, cn_out = [], cn_shut = False, cn_broken = False\<rparr>"

definition startPipe :: "string \<Rightarrow> string \<Rightarrow> Pipe" where
  "startPipe up down = \<lparr>pp_conn = (\<lambda>s. freshConn (case s of ClientSide \<Rightarrow> up | UpstreamSide \<Rightarrow> down)), pp_loop = (\<lambda>_. Reading)\<rparr>"

definition setConn :: "Side \<Rightarrow> Conn \<Rightarrow> Pipe \<Rightarrow> Pipe" where
  "setConn s c p = p\<lparr>pp_conn := (pp_conn p)(s := c)\<rparr>"

definition setLoop :: "Side \<Rightarrow> CopyLoop \<Rightarrow> Pipe \<Rightarrow> Pipe" where
  "setLoop s l p = p\<lparr>pp_loop := (pp_loop p)(s := l)\<rparr>"

text \<open>A step of \<open>cp(dst, src)\<close>. A read returns any non-empty part of what is there. The copy ends at EOF or on an error,
  which is ignored, and a write that fails may have sent a part of its chunk; in every case the
  destination is then half-closed.\<close>

inductive copyStep :: "Side \<Rightarrow> Pipe \<Rightarrow> Pipe \<Rightarrow> bool" for s where
  readChunk: "pp_loop p s = Reading \<Longrightarrow> src = pp_conn p s \<Longrightarrow> \<not> cn_broken src \<Longrightarrow> cn_unread src = c @ rest \<Longrightarrow> c \<noteq> [] \<Longrightarrow>
     copyStep s p (setLoop s (Writing c) (setConn s (src\<lparr>cn_unread := rest\<rparr>) p))"
| eof: "pp_loop p s = Reading \<Longrightarrow> src = pp_conn p s \<Longrightarrow> \<not> cn_broken src \<Longrightarrow> cn_unread src = [] \<Longrightarrow> cn_done src \<Longrightarrow>
     copyStep s p (setLoop s HalfClosing p)"
| readFails: "pp_loop p s = Reading \<Longrightarrow> cn_broken (pp_conn p s) \<Longrightarrow> copyStep s p (setLoop s HalfClosing p)"
| writeChunk: "pp_loop p s = Writing c \<Longrightarrow> dst = pp_conn p (otherSide s) \<Longrightarrow> \<not> cn_broken dst \<Longrightarrow>
     copyStep s p (setLoop s Reading (setConn (otherSide s) (dst\<lparr>cn_out := cn_out dst @ c\<rparr>) p))"
| writeFails: "pp_loop p s = Writing (c @ lost) \<Longrightarrow> dst = pp_conn p (otherSide s) \<Longrightarrow> cn_broken dst \<Longrightarrow>
     copyStep s p (setLoop s HalfClosing (setConn (otherSide s) (dst\<lparr>cn_out := cn_out dst @ c\<rparr>) p))"
| closeWrite: "pp_loop p s = HalfClosing \<Longrightarrow> dst = pp_conn p (otherSide s) \<Longrightarrow>
     copyStep s p (setLoop s LoopDone (setConn (otherSide s) (dst\<lparr>cn_shut := True\<rparr>) p))"

text \<open>The scheduler picks a goroutine; \<open>wg.Wait\<close> lets \<open>pipe\<close> return when both are done.\<close>

definition pipeStep :: "Pipe \<Rightarrow> Pipe \<Rightarrow> bool" where
  "pipeStep p q \<longleftrightarrow> (\<exists>s. copyStep s p q)"

definition pipeReturns :: "Pipe \<Rightarrow> bool" where
  "pipeReturns p \<longleftrightarrow> pp_loop p ClientSide = LoopDone \<and> pp_loop p UpstreamSide = LoopDone"

text \<open>The peers send and, at a time of their own choosing, finish sending; and the network may break a connection.\<close>

inductive peerStep :: "Pipe \<Rightarrow> Pipe \<Rightarrow> bool" where
  sends: "c = pp_conn p s \<Longrightarrow> \<not> cn_done c \<Longrightarrow> peerStep p (setConn s (c\<lparr>cn_sent := cn_sent c @ x, cn_unread := cn_unread c @ x\<rparr>) p)"
| finishes: "c = pp_conn p s \<Longrightarrow> peerStep p (setConn s (c\<lparr>cn_done := True\<rparr>) p)"

inductive breakStep :: "Pipe \<Rightarrow> Pipe \<Rightarrow> bool" where
  breaks: "breakStep p (setConn s ((pp_conn p s)\<lparr>cn_broken := True\<rparr>) p)"

text \<open>Runs, and runs in which the network breaks nothing.\<close>

definition pipeRun :: "Pipe \<Rightarrow> Pipe \<Rightarrow> bool" where
  "pipeRun = (\<lambda>p q. pipeStep p q \<or> peerStep p q \<or> breakStep p q)\<^sup>*\<^sup>*"

definition calmRun :: "Pipe \<Rightarrow> Pipe \<Rightarrow> bool" where
  "calmRun = (\<lambda>p q. pipeStep p q \<or> peerStep p q)\<^sup>*\<^sup>*"

subsection \<open>What is in transit\<close>

lemma pipe_simps [simp]:
  "pp_conn (setLoop s l p) = pp_conn p" "pp_loop (setConn s c p) = pp_loop p"
  "pp_loop (setLoop s l p) = (pp_loop p)(s := l)" "pp_conn (setConn s c p) = (pp_conn p)(s := c)"
  by (simp_all add: setLoop_def setConn_def)

lemma otherSide_simps [simp]: "otherSide s \<noteq> s" "s \<noteq> otherSide s" "otherSide (otherSide s) = s"
  by (cases s; simp)+

lemma side_cases: "t = s \<or> t = otherSide s"
  by (cases s; cases t) simp_all

text \<open>The bytes of a direction: written, held by its loop, unread. Nothing but a failure loses any.\<close>

definition copyInv :: "Pipe \<Rightarrow> Side \<Rightarrow> bool" where
  "copyInv p s \<longleftrightarrow>
     (let src = pp_conn p s; dst = pp_conn p (otherSide s) in
      case pp_loop p s of
        Reading \<Rightarrow> cn_sent src = cn_out dst @ cn_unread src \<and> \<not> cn_shut dst
      | Writing c \<Rightarrow> cn_sent src = cn_out dst @ c @ cn_unread src \<and> \<not> cn_shut dst
      | HalfClosing \<Rightarrow> prefix (cn_out dst) (cn_sent src) \<and> \<not> cn_shut dst
      | LoopDone \<Rightarrow> prefix (cn_out dst) (cn_sent src) \<and> cn_shut dst)"

text \<open>In a run that breaks nothing, a copy that has ended has copied everything its peer will ever have sent.\<close>

definition calmInv :: "Pipe \<Rightarrow> Side \<Rightarrow> bool" where
  "calmInv p s \<longleftrightarrow> \<not> cn_broken (pp_conn p s) \<and>
     (pp_loop p s \<in> {HalfClosing, LoopDone} \<longrightarrow> cn_done (pp_conn p s) \<and> cn_out (pp_conn p (otherSide s)) = cn_sent (pp_conn p s))"

inductive_cases copyStep_elim: "copyStep s p q"
inductive_cases peerStep_elim: "peerStep p q"
inductive_cases breakStep_elim: "breakStep p q"

lemma copyStep_inv: "copyStep s p q \<Longrightarrow> copyInv p t \<Longrightarrow> copyInv q t"
  using side_cases [of t s]
  by (elim copyStep_elim) (auto simp: copyInv_def Let_def split: CopyLoop.splits)

lemma peerStep_inv: "peerStep p q \<Longrightarrow> copyInv p t \<Longrightarrow> copyInv q t"
  by (elim peerStep_elim) (auto simp: copyInv_def Let_def split: CopyLoop.splits)

lemma breakStep_inv: "breakStep p q \<Longrightarrow> copyInv p t \<Longrightarrow> copyInv q t"
  by (elim breakStep_elim) (auto simp: copyInv_def Let_def split: CopyLoop.splits)

lemma copyStep_calm:
  assumes "copyStep s p q" "copyInv p s" "\<And>u. calmInv p u"
  shows "calmInv q t"
  using assms(1) assms(2) assms(3) [of s] assms(3) [of "otherSide s"] side_cases [of t s]
  by (elim copyStep_elim) (auto simp: calmInv_def copyInv_def Let_def)

lemma peerStep_calm: "peerStep p q \<Longrightarrow> calmInv p t \<Longrightarrow> calmInv q t"
  by (elim peerStep_elim) (auto simp: calmInv_def)

lemma startPipe_inv: "copyInv (startPipe up down) s" "calmInv (startPipe up down) s"
  by (simp_all add: startPipe_def copyInv_def calmInv_def freshConn_def)

lemma pipeRun_inv: "pipeRun (startPipe up down) p \<Longrightarrow> copyInv p s"
  unfolding pipeRun_def
  by (induction rule: rtranclp_induct) (auto simp: startPipe_inv pipeStep_def intro: copyStep_inv peerStep_inv breakStep_inv)

lemma calmRun_inv: "calmRun (startPipe up down) p \<Longrightarrow> copyInv p s \<and> calmInv p s"
  unfolding calmRun_def
  by (induction arbitrary: s rule: rtranclp_induct)
     (auto simp: startPipe_inv pipeStep_def intro: copyStep_inv peerStep_inv copyStep_calm peerStep_calm)

subsection \<open>Progress\<close>

text \<open>The steps a goroutine has left while its peer sends nothing more.\<close>

definition copyLeft :: "Pipe \<Rightarrow> Side \<Rightarrow> nat" where
  "copyLeft p s =
     (case pp_loop p s of
        Reading \<Rightarrow> 2 * length (cn_unread (pp_conn p s)) + 2
      | Writing c \<Rightarrow> 2 * length (cn_unread (pp_conn p s)) + 3
      | HalfClosing \<Rightarrow> 1
      | LoopDone \<Rightarrow> 0)"

abbreviation pipeLeft :: "Pipe \<Rightarrow> nat" where
  "pipeLeft p \<equiv> copyLeft p ClientSide + copyLeft p UpstreamSide"

lemma copyStep_left: "copyStep s p q \<Longrightarrow> copyLeft q s < copyLeft p s \<and> copyLeft q (otherSide s) = copyLeft p (otherSide s)"
proof -
  have "Suc 0 < 2 * length c" if "c \<noteq> []" for c :: string using that by (cases c) auto
  then show "copyStep s p q \<Longrightarrow> ?thesis" by (elim copyStep_elim) (auto simp: copyLeft_def split: CopyLoop.splits)
qed

lemma pipeStep_left: "pipeStep p q \<Longrightarrow> pipeLeft q < pipeLeft p"
proof -
  assume "pipeStep p q"
  then obtain s where "copyStep s p q" by (auto simp: pipeStep_def)
  from copyStep_left [OF this] show ?thesis by (cases s) auto
qed

text \<open>A goroutine that cannot move is done, or in a read on a live connection whose peer has nothing there and has
  not finished.\<close>

definition waitsForPeer :: "Pipe \<Rightarrow> Side \<Rightarrow> bool" where
  "waitsForPeer p s \<longleftrightarrow> pp_loop p s = Reading \<and> cn_unread (pp_conn p s) = [] \<and> \<not> cn_done (pp_conn p s) \<and> \<not> cn_broken (pp_conn p s)"

lemma copyStep_stuck: "(\<nexists>q. copyStep s p q) \<longleftrightarrow> pp_loop p s = LoopDone \<or> waitsForPeer p s"
proof
  assume "\<nexists>q. copyStep s p q"
  then show "pp_loop p s = LoopDone \<or> waitsForPeer p s"
    using copyStep.readChunk [of p s "pp_conn p s" "cn_unread (pp_conn p s)" "[]"] copyStep.eof [of p s "pp_conn p s"] copyStep.readFails [of p s]
      copyStep.writeChunk [of p s _ "pp_conn p (otherSide s)"] copyStep.writeFails [of p s "[]" _ "pp_conn p (otherSide s)"]
      copyStep.closeWrite [of p s "pp_conn p (otherSide s)"]
    by (cases "pp_loop p s") (auto simp: waitsForPeer_def)
next
  assume "pp_loop p s = LoopDone \<or> waitsForPeer p s"
  then show "\<nexists>q. copyStep s p q" by (auto simp: waitsForPeer_def elim!: copyStep_elim)
qed

text \<open>C29: \<^bold>\<open>A piped stream is complete in both directions.\<close> However the two goroutines of \<open>pipe\<close> and the two peers
  interleave, what a side was sent is always a prefix of what the other side has sent, also when a
  connection breaks. Unless a connection breaks: a side is half-closed only after the other one has
  finished sending and every byte of it has been written, whatever the reverse direction is doing; \<open>pipe\<close>
  returns only when both peers have finished and both streams are complete, so that an EOF in one
  direction never cuts the other; and once both peers have finished, \<open>pipe\<close> does return. In between, its
  goroutines stop only to wait for a peer, after a bounded number of steps.\<close>

theorem pipe_complete:
  "(\<forall>p s. pipeRun (startPipe up down) p \<longrightarrow> prefix (cn_out (pp_conn p (otherSide s))) (cn_sent (pp_conn p s))) \<and>
   (\<forall>p s. calmRun (startPipe up down) p \<and> cn_shut (pp_conn p (otherSide s)) \<longrightarrow>
      cn_done (pp_conn p s) \<and> cn_out (pp_conn p (otherSide s)) = cn_sent (pp_conn p s)) \<and>
   (\<forall>p s. calmRun (startPipe up down) p \<and> pipeReturns p \<longrightarrow>
      cn_done (pp_conn p s) \<and> cn_shut (pp_conn p s) \<and> cn_out (pp_conn p (otherSide s)) = cn_sent (pp_conn p s)) \<and>
   (\<forall>p. calmRun (startPipe up down) p \<longrightarrow>
      ((\<nexists>q. pipeStep p q) \<longleftrightarrow> (\<forall>s. pp_loop p s = LoopDone \<or> waitsForPeer p s)) \<and>
      ((\<forall>s. cn_done (pp_conn p s)) \<and> (\<nexists>q. pipeStep p q) \<longrightarrow> pipeReturns p)) \<and>
   (\<forall>p q n. (pipeStep ^^ n) p q \<longrightarrow> n + pipeLeft q \<le> pipeLeft p)"
proof (intro conjI allI impI; (elim conjE)?)
  fix p s
  { assume "pipeRun (startPipe up down) p"
    from pipeRun_inv [OF this, of s] show "prefix (cn_out (pp_conn p (otherSide s))) (cn_sent (pp_conn p s))"
      by (auto simp: copyInv_def Let_def split: CopyLoop.splits) }
  { assume "calmRun (startPipe up down) p" "cn_shut (pp_conn p (otherSide s))"
    then show "cn_done (pp_conn p s)" "cn_out (pp_conn p (otherSide s)) = cn_sent (pp_conn p s)"
      using calmRun_inv [of up down p s] by (auto simp: copyInv_def calmInv_def Let_def split: CopyLoop.splits) }
  { assume r: "calmRun (startPipe up down) p" "pipeReturns p"
    then have l: "pp_loop p s = LoopDone" "pp_loop p (otherSide s) = LoopDone" by (cases s; simp add: pipeReturns_def)+
    show "cn_done (pp_conn p s)" "cn_out (pp_conn p (otherSide s)) = cn_sent (pp_conn p s)" "cn_shut (pp_conn p s)"
      using calmRun_inv [OF r(1), of s] calmRun_inv [OF r(1), of "otherSide s"] l by (auto simp: copyInv_def calmInv_def Let_def) }
next
  fix p
  have stuck: "(\<nexists>q. pipeStep p q) \<longleftrightarrow> (\<forall>s. pp_loop p s = LoopDone \<or> waitsForPeer p s)"
    unfolding pipeStep_def using copyStep_stuck by blast
  then show "(\<nexists>q. pipeStep p q) \<longleftrightarrow> (\<forall>s. pp_loop p s = LoopDone \<or> waitsForPeer p s)" .
  assume "\<forall>s. cn_done (pp_conn p s)" "\<nexists>q. pipeStep p q"
  then show "pipeReturns p" using stuck by (auto simp: pipeReturns_def waitsForPeer_def)
next
  fix p q n
  assume "(pipeStep ^^ n) p q"
  then show "n + pipeLeft q \<le> pipeLeft p"
    by (induction n arbitrary: q) (fastforce dest: pipeStep_left)+
qed

lemma calmRun_refl: "calmRun p p"
  by (simp add: calmRun_def)

lemma calmRun_own: "calmRun p q \<Longrightarrow> pipeStep q r \<Longrightarrow> calmRun p r"
  unfolding calmRun_def by (simp add: rtranclp.rtrancl_into_rtrancl)

lemma calmRun_peer: "calmRun p q \<Longrightarrow> peerStep q r \<Longrightarrow> calmRun p r"
  unfolding calmRun_def by (simp add: rtranclp.rtrancl_into_rtrancl)

text \<open>The client sends its two bytes and finishes; the upstream reads EOF after them and answers, which still
  reaches the client.\<close>

theorem pipe_complete_witness:
  "\<exists>p. calmRun (startPipe ''ab'' []) p \<and> cn_shut (pp_conn p UpstreamSide) \<and> cn_out (pp_conn p UpstreamSide) = ''ab'' \<and>
     cn_out (pp_conn p ClientSide) = ''x'' \<and> \<not> cn_shut (pp_conn p ClientSide)"
proof -
  let ?c = "\<lparr>cn_sent = ''ab'', cn_unread = [], cn_done = True, cn_out = [], cn_shut = False, cn_broken = False\<rparr>"
  let ?u = "\<lparr>cn_sent = [], cn_unread = [], cn_done = False, cn_out = ''ab'', cn_shut = True, cn_broken = False\<rparr>"
  let ?p = "\<lambda>c u k l. \<lparr>pp_conn = case_Side c u, pp_loop = case_Side k l\<rparr>"
  have set: "setConn ClientSide c' (?p c u k l) = ?p c' u k l" "setConn UpstreamSide u' (?p c u k l) = ?p c u' k l"
    "setLoop ClientSide k' (?p c u k l) = ?p c u k' l" "setLoop UpstreamSide l' (?p c u k l) = ?p c u k l'" for c c' u u' k k' l l'
    by (auto simp: setConn_def setLoop_def fun_eq_iff split: Side.split)
  have start: "startPipe ''ab'' [] = ?p (freshConn ''ab'') (freshConn []) Reading Reading"
    by (auto simp: startPipe_def fun_eq_iff split: Side.split)
  have s1: "peerStep (startPipe ''ab'' []) (?p (?c\<lparr>cn_unread := ''ab''\<rparr>) (freshConn []) Reading Reading)"
    using peerStep.finishes [of _ "startPipe ''ab'' []" ClientSide] unfolding start set by (simp add: freshConn_def)
  have s2: "pipeStep (?p (?c\<lparr>cn_unread := ''ab''\<rparr>) (freshConn []) Reading Reading) (?p ?c (freshConn []) (Writing ''ab'') Reading)"
    using copyStep.readChunk [of "?p (?c\<lparr>cn_unread := ''ab''\<rparr>) (freshConn []) Reading Reading" ClientSide _ "''ab''" "[]"] unfolding set pipeStep_def by auto
  have s3: "pipeStep (?p ?c (freshConn []) (Writing ''ab'') Reading) (?p ?c (?u\<lparr>cn_shut := False\<rparr>) Reading Reading)"
    using copyStep.writeChunk [of "?p ?c (freshConn []) (Writing ''ab'') Reading" ClientSide "''ab''"] unfolding set pipeStep_def by (auto simp: set freshConn_def)
  have s4: "pipeStep (?p ?c (?u\<lparr>cn_shut := False\<rparr>) Reading Reading) (?p ?c (?u\<lparr>cn_shut := False\<rparr>) HalfClosing Reading)"
    using copyStep.eof [of "?p ?c (?u\<lparr>cn_shut := False\<rparr>) Reading Reading" ClientSide] unfolding set pipeStep_def by auto
  have s5: "pipeStep (?p ?c (?u\<lparr>cn_shut := False\<rparr>) HalfClosing Reading) (?p ?c ?u LoopDone Reading)"
    using copyStep.closeWrite [of "?p ?c (?u\<lparr>cn_shut := False\<rparr>) HalfClosing Reading" ClientSide] unfolding set pipeStep_def by (auto simp: set)
  have s6: "peerStep (?p ?c ?u LoopDone Reading) (?p ?c (?u\<lparr>cn_sent := ''x'', cn_unread := ''x''\<rparr>) LoopDone Reading)"
    using peerStep.sends [of _ "?p ?c ?u LoopDone Reading" UpstreamSide "''x''"] unfolding set by simp
  have s7: "pipeStep (?p ?c (?u\<lparr>cn_sent := ''x'', cn_unread := ''x''\<rparr>) LoopDone Reading) (?p ?c (?u\<lparr>cn_sent := ''x''\<rparr>) LoopDone (Writing ''x''))"
    using copyStep.readChunk [of "?p ?c (?u\<lparr>cn_sent := ''x'', cn_unread := ''x''\<rparr>) LoopDone Reading" UpstreamSide _ "''x''" "[]"] unfolding set pipeStep_def by auto
  have s8: "pipeStep (?p ?c (?u\<lparr>cn_sent := ''x''\<rparr>) LoopDone (Writing ''x'')) (?p (?c\<lparr>cn_out := ''x''\<rparr>) (?u\<lparr>cn_sent := ''x''\<rparr>) LoopDone Reading)"
    using copyStep.writeChunk [of "?p ?c (?u\<lparr>cn_sent := ''x''\<rparr>) LoopDone (Writing ''x'')" UpstreamSide "''x''"] unfolding set pipeStep_def by (auto simp: set)
  have run: "calmRun (startPipe ''ab'' []) (?p (?c\<lparr>cn_out := ''x''\<rparr>) (?u\<lparr>cn_sent := ''x''\<rparr>) LoopDone Reading)"
    by (rule calmRun_own [OF calmRun_own [OF calmRun_peer [OF calmRun_own [OF calmRun_own [OF calmRun_own [OF calmRun_own [OF calmRun_peer [OF calmRun_refl s1] s2] s3] s4] s5] s6] s7] s8])
  then have "cn_out (pp_conn (?p (?c\<lparr>cn_out := ''x''\<rparr>) (?u\<lparr>cn_sent := ''x''\<rparr>) LoopDone Reading) (otherSide ClientSide)) =
      cn_sent (pp_conn (?p (?c\<lparr>cn_out := ''x''\<rparr>) (?u\<lparr>cn_sent := ''x''\<rparr>) LoopDone Reading) ClientSide)"
    using pipe_complete [of "''ab''" "[]"] by simp
  with run show ?thesis by (intro exI) auto
qed

end
