(* ===== verification/Build_Client.thy ===== *)
theory Build_Client
  imports Host_Ops
begin

text \<open>
  \<open>cmd/build\<close>: the client that resolves a build, has it routed by buildd and runs it with \<open>docker buildx\<close>. The commands it
  runs (\<open>git\<close>, \<open>docker\<close>) are answered from the history, as those of the host are. Its HTTP calls act on a
  memory of the caller's choice: theorems about every server leave it open, and those that join the
  client with the routing API put the server's state there.

  The parse of a URL, the working directory and the encoding of a status line are parameters; \<open>path/filepath\<close>
  is modelled for Unix. An error text holds a value plain where the code formats it with \<open>%q\<close>.
\<close>

section \<open>\<open>path/filepath\<close>\<close>

text \<open>\<open>Clean\<close> on the segments between slashes, the last one first: \<open>.\<close> and empty segments go, \<open>..\<close> takes out the
  segment before it, or stays where there is none in a relative path.\<close>

fun cleanSegs :: "bool \<Rightarrow> string list \<Rightarrow> string list \<Rightarrow> string list" where
  "cleanSegs rooted out [] = rev out"
| "cleanSegs rooted out (s # ss) =
     (if s = [] \<or> s = ''.'' then cleanSegs rooted out ss
      else if s \<noteq> ''..'' then cleanSegs rooted (s # out) ss
      else
        (case out of
           [] \<Rightarrow> cleanSegs rooted (if rooted then [] else [''..'']) ss
         | t # ts \<Rightarrow> cleanSegs rooted (if t = ''..'' then ''..'' # out else ts) ss))"

definition isAbsPath :: "string \<Rightarrow> bool" where
  "isAbsPath p = hasPrefix p ''/''"

definition cleanPath :: "string \<Rightarrow> string" where
  "cleanPath p =
     (let segs = joinStr (cleanSegs (isAbsPath p) [] (splitByte CHR ''/'' p)) ''/'' in
      if isAbsPath p then ''/'' @ segs else if segs = [] then ''.'' else segs)"

definition joinPath :: "string list \<Rightarrow> string" where
  "joinPath elems = (let es = dropWhile (\<lambda>e. e = []) elems in if es = [] then [] else cleanPath (joinStr es ''/''))"

definition absPath :: "string + string \<Rightarrow> string \<Rightarrow> string + string" where
  "absPath cwd p = (if isAbsPath p then Inr (cleanPath p) else map_sum id (\<lambda>d. joinPath [d, p]) cwd)"

definition basePath :: "string \<Rightarrow> string" where
  "basePath p =
     (if p = [] then ''.''
      else let q = trimRight p CHR ''/'' in if q = [] then ''/'' else rev (takeWhile (\<lambda>c. c \<noteq> CHR ''/'') (rev q)))"

section \<open>Configuration\<close>

record config =
  bc_repo :: string
  bc_name :: string
  bc_target :: string
  bc_arch :: string
  bc_contextDir :: string
  bc_dockerfile :: string
  bc_tags :: "string list"
  bc_push :: bool
  bc_output :: string
  bc_progress :: string
  bc_builddURL :: string
  bc_clientCerts :: string
  bc_dryRun :: bool
  bc_untrusted :: bool
  bc_token :: string
  bc_adminToken :: string

text \<open>The values of the environment and what the command line may replace: \<open>env\<close> is \<open>os.Getenv\<close>, \<open>goarch\<close> the
  architecture the client was built for, \<open>home\<close> the user's home directory.\<close>

definition envOr :: "(string \<Rightarrow> string) \<Rightarrow> string \<Rightarrow> string \<Rightarrow> string" where
  "envOr env key fallback = (if env key \<noteq> [] then env key else fallback)"

definition envBool :: "(string \<Rightarrow> string) \<Rightarrow> string \<Rightarrow> bool" where
  "envBool env key = (toLower (trimSpace (env key)) \<in> {''1'', ''true'', ''yes''})"

definition defaultArch :: "string \<Rightarrow> string" where
  "defaultArch goarch = (let a = normalizeArch goarch in if a = ''amd64'' \<or> a = ''arm64'' then a else ''amd64'')"

definition defaultCertsDir :: "string \<Rightarrow> string" where
  "defaultCertsDir home = (if home \<noteq> [] then joinPath [home, ''.buildkit-operator'', ''certs''] else joinPath [''.buildkit-operator'', ''certs''])"

definition defaultConfig :: "(string \<Rightarrow> string) \<Rightarrow> string \<Rightarrow> string \<Rightarrow> config" where
  "defaultConfig env goarch home =
     \<lparr>bc_repo = env ''BUILDKIT_OPERATOR_REPO'', bc_name = env ''BUILDKIT_OPERATOR_NAME'', bc_target = env ''BUILDKIT_OPERATOR_TARGET'',
      bc_arch = envOr env ''BUILDKIT_OPERATOR_ARCH'' (defaultArch goarch), bc_contextDir = ''.'', bc_dockerfile = [], bc_tags = [],
      bc_push = False, bc_output = [], bc_progress = ''auto'',
      bc_builddURL = envOr env ''BUILDKIT_OPERATOR_BUILDD_URL'' ''http://buildd.buildkit-operator.svc:8080'',
      bc_clientCerts = envOr env ''BUILDKIT_OPERATOR_CLIENT_CERTS'' (defaultCertsDir home), bc_dryRun = False,
      bc_untrusted = envBool env ''BUILDKIT_OPERATOR_UNTRUSTED'', bc_token = env ''BUILDKIT_OPERATOR_TOKEN'',
      bc_adminToken = env ''BUILDKIT_OPERATOR_ADMIN_TOKEN''\<rparr>"

text \<open>A positional context replaces the flag.\<close>

definition withContext :: "config \<Rightarrow> string list \<Rightarrow> config" where
  "withContext cfg args = (if length args = 1 then cfg\<lparr>bc_contextDir := hd args\<rparr> else cfg)"

section \<open>The outside\<close>

text \<open>The answer to a POST: an error of the transport, a response that is not 200 with its status line and body, or a
  200 with the body decoded.\<close>

datatype HttpAnswer = DoErr string | StatusOther string string | Status200 "string + RouteResponse"

record Credentials =
  au_AdminToken :: string
  au_Authorization :: string

text \<open>A call is its URL, its headers and its body. A \<open>buildId\<close> left out of the body is the empty one.\<close>

datatype ClientCall = PostRoute string Credentials RouteRequest | PostComplete string Credentials CompleteRequest

datatype (plugins only: code) ClientEvent = Ran_cmd string "string list" ExecResult | Posted ClientCall HttpAnswer | Printed "string list"

record 'm ClientEnv =
  ce_exec :: "ClientEvent list \<Rightarrow> string \<Rightarrow> string list \<Rightarrow> ExecResult"
  ce_cwd :: "string + string"
  ce_badURL :: "string \<Rightarrow> string option"
  ce_post :: "ClientCall \<Rightarrow> ('m, HttpAnswer) state"

type_synonym ('m, 'a) cprog = "(ClientEvent, 'm, 'a) prog"

definition execCmd :: "'m ClientEnv \<Rightarrow> string \<Rightarrow> string list \<Rightarrow> ('m, ExecResult) cprog" where
  "execCmd env name args = call (\<lambda>l. ce_exec env l name args) (Ran_cmd name args)"

definition httpDo :: "'m ClientEnv \<Rightarrow> ClientCall \<Rightarrow> ('m, HttpAnswer) cprog" where
  "httpDo env c = State (\<lambda>w. let (a, m) = run_state (ce_post env c) (w_mem w) in (a, \<lparr>w_log = Posted c a # w_log w, w_mem = m\<rparr>))"

definition printOut :: "string list \<Rightarrow> ('m, unit) cprog" where
  "printOut ls = State (\<lambda>w. ((), w\<lparr>w_log := Printed ls # w_log w\<rparr>))"

section \<open>Resolve\<close>

definition setAuth :: "config \<Rightarrow> Credentials" where
  "setAuth cfg =
     (if bc_adminToken cfg \<noteq> [] then \<lparr>au_AdminToken = bc_adminToken cfg, au_Authorization = []\<rparr>
      else if bc_token cfg \<noteq> [] then \<lparr>au_AdminToken = [], au_Authorization = ''Bearer '' @ bc_token cfg\<rparr>
      else \<lparr>au_AdminToken = [], au_Authorization = []\<rparr>)"

definition gitRemoteURL :: "'m ClientEnv \<Rightarrow> string \<Rightarrow> ('m, string) cprog" where
  "gitRemoteURL env dir =
     do {
       r \<leftarrow> execCmd env ''git'' [''-C'', dir, ''config'', ''--get'', ''remote.origin.url''];
       ret (case r of Failed _ _ \<Rightarrow> [] | Ran out \<Rightarrow> trimSpace out)
     }"

definition resolveRepo :: "'m ClientEnv \<Rightarrow> config \<Rightarrow> ('m, string) cprog" where
  "resolveRepo env cfg =
     (if bc_repo cfg \<noteq> [] then ret (bc_repo cfg)
      else do {
        url \<leftarrow> gitRemoteURL env (bc_contextDir cfg);
        if url \<noteq> [] then ret url
        else
          let abs = (case absPath (ce_cwd env) (bc_contextDir cfg) of Inl _ \<Rightarrow> bc_contextDir cfg | Inr p \<Rightarrow> p);
              base = basePath abs
          in ret (if base = ''.'' \<or> base = ''/'' \<or> base = [] then [] else base)
      })"

section \<open>Route and release\<close>

definition client_routeBuild :: "'m ClientEnv \<Rightarrow> config \<Rightarrow> RouteRequest \<Rightarrow> ('m, string + RouteResponse) cprog" where
  "client_routeBuild env cfg req =
     (let url = trimRight (bc_builddURL cfg) CHR ''/'' @ ''/route'' in
      case ce_badURL env url of
        Some e \<Rightarrow> ret (Inl (''build route request: '' @ e))
      | None \<Rightarrow>
          do {
            a \<leftarrow> httpDo env (PostRoute url (setAuth cfg) req);
            ret (case a of
                   DoErr e \<Rightarrow> Inl (''route request to '' @ url @ '' failed: '' @ e)
                 | StatusOther status body \<Rightarrow> Inl (''route '' @ url @ '' returned '' @ status @ '': '' @ trimSpace body)
                 | Status200 (Inl e) \<Rightarrow> Inl (''decode route response: '' @ e)
                 | Status200 (Inr resp) \<Rightarrow>
                     if rr_Endpoint resp = [] then Inl (''route response from '' @ url @ '' has empty endpoint'') else Inr resp)
          })"

definition completeBuild :: "'m ClientEnv \<Rightarrow> config \<Rightarrow> string \<Rightarrow> string \<Rightarrow> ('m, unit) cprog" where
  "completeBuild env cfg key buildID =
     (let url = trimRight (bc_builddURL cfg) CHR ''/'' @ ''/complete'' in
      if ce_badURL env url \<noteq> None then ret ()
      else do {
        _ \<leftarrow> httpDo env (PostComplete url (setAuth cfg) \<lparr>cq_Key = key, cq_BuildID = buildID\<rparr>);
        ret ()
      })"

section \<open>The builder\<close>

definition isExistingBuilder :: "string \<Rightarrow> bool" where
  "isExistingBuilder errOut = (let s = toLower errOut in containsStr s ''existing instance'' \<or> containsStr s ''already exists'')"

definition createArgs :: "string \<Rightarrow> string \<Rightarrow> string \<Rightarrow> string list" where
  "createArgs builder certsDir endp =
     [''buildx'', ''create'', ''--name'', builder, ''--driver'', ''remote'', ''--driver-opt'',
      ''cacert='' @ joinPath [certsDir, ''ca.pem''] @ '',cert='' @ joinPath [certsDir, ''cert.pem''] @ '',key='' @ joinPath [certsDir, ''key.pem''],
      endp]"

definition builderHasEndpoint :: "'m ClientEnv \<Rightarrow> string \<Rightarrow> string \<Rightarrow> ('m, bool) cprog" where
  "builderHasEndpoint env builder endp =
     do {
       r \<leftarrow> execCmd env ''docker'' [''buildx'', ''inspect'', builder];
       ret (case r of Failed _ _ \<Rightarrow> False | Ran out \<Rightarrow> containsStr out endp)
     }"

definition ensureBuilder :: "'m ClientEnv \<Rightarrow> string \<Rightarrow> string \<Rightarrow> string \<Rightarrow> ('m, string option) cprog" where
  "ensureBuilder env builder certsDir endp =
     do {
       r \<leftarrow> execCmd env ''docker'' (createArgs builder certsDir endp);
       (case r of
          Ran _ \<Rightarrow> ret None
        | Failed err errOut \<Rightarrow>
            if \<not> isExistingBuilder errOut then ret (Some (''buildx create failed: '' @ err @ '': '' @ trimSpace errOut))
            else do {
              same \<leftarrow> builderHasEndpoint env builder endp;
              if same then ret None
              else do {
                _ \<leftarrow> execCmd env ''docker'' [''buildx'', ''rm'', builder];
                r \<leftarrow> execCmd env ''docker'' (createArgs builder certsDir endp);
                ret (case r of Ran _ \<Rightarrow> None | Failed err errOut \<Rightarrow> Some (''buildx recreate failed: '' @ err @ '': '' @ trimSpace errOut))
              }
            })
     }"

section \<open>Arguments\<close>

definition cacheArgs :: "CacheConfig option \<Rightarrow> string list" where
  "cacheArgs oc =
     (case oc of
        None \<Rightarrow> []
      | Some c \<Rightarrow>
          if cc_Type c \<noteq> ''s3'' \<or> cc_Bucket c = [] then []
          else
            let common = joinStr ([''type=s3'', ''bucket='' @ cc_Bucket c, ''name='' @ cc_Name c]
                  @ (if cc_Region c \<noteq> [] then [''region='' @ cc_Region c] else [])
                  @ (if cc_EndpointURL c \<noteq> [] then [''endpoint_url='' @ cc_EndpointURL c, ''use_path_style=true''] else [])) '',''
            in [''--cache-from'', common] @ (if \<not> cc_SkipExport c then [''--cache-to'', common @ '',mode=max,ignore-error=true''] else []))"

definition buildxBuildArgs :: "config \<Rightarrow> string \<Rightarrow> RouteResponse \<Rightarrow> string list" where
  "buildxBuildArgs cfg builder resp =
     [''buildx'', ''build'', ''--builder'', builder]
     @ (if bc_dockerfile cfg \<noteq> [] then [''--file'', bc_dockerfile cfg] else [])
     @ (if bc_target cfg \<noteq> [] then [''--target'', bc_target cfg] else [])
     @ concat (map (\<lambda>t. [''--tag'', t]) (bc_tags cfg))
     @ (if bc_push cfg then [''--push''] else if bc_output cfg \<noteq> [] then [''--output'', bc_output cfg] else [])
     @ (if bc_progress cfg \<noteq> [] then [''--progress'', bc_progress cfg] else [])
     @ cacheArgs (rr_Cache resp)
     @ [bc_contextDir cfg]"

definition dryRunLines :: "config \<Rightarrow> string \<Rightarrow> string \<Rightarrow> RouteResponse \<Rightarrow> string \<Rightarrow> string list \<Rightarrow> string list" where
  "dryRunLines cfg repo arch resp builder buildArgs =
     [''dry-run: resolved build (no builder created, nothing executed)'',
      ''  repo:      '' @ repo, ''  target:    '' @ bc_target cfg, ''  arch:      '' @ arch, ''  key:       '' @ rr_Key resp,
      ''  endpoint:  '' @ rr_Endpoint resp, ''  namespace: '' @ rr_Namespace resp, ''  builder:   '' @ builder,
      ''  argv:      docker '' @ joinStr buildArgs '' '']"

section \<open>The pipeline\<close>

definition client_request :: "config \<Rightarrow> string \<Rightarrow> string \<Rightarrow> RouteRequest" where
  "client_request cfg repo arch =
     \<lparr>rq_Repo = repo, rq_Name = bc_name cfg, rq_Target = bc_target cfg, rq_Arch = arch, rq_Untrusted = bc_untrusted cfg\<rparr>"

definition client_builder :: "RouteResponse \<Rightarrow> string" where
  "client_builder resp = ''buildkit-operator-'' @ rr_Key resp"

definition client_build :: "'m ClientEnv \<Rightarrow> config \<Rightarrow> RouteResponse \<Rightarrow> ('m, string option) cprog" where
  "client_build env cfg resp =
     do {
       e \<leftarrow> ensureBuilder env (client_builder resp) (bc_clientCerts cfg) (rr_Endpoint resp);
       (case e of
          Some err \<Rightarrow> ret (Some err)
        | None \<Rightarrow>
            do {
              r \<leftarrow> execCmd env ''docker'' (buildxBuildArgs cfg (client_builder resp) resp);
              ret (case r of Ran _ \<Rightarrow> None | Failed err _ \<Rightarrow> Some (''buildx build failed: '' @ err))
            })
     }"

text \<open>What follows the routing. The release is deferred as soon as the build is routed, and runs last whatever the build
  does.\<close>

definition client_finish :: "'m ClientEnv \<Rightarrow> config \<Rightarrow> string \<Rightarrow> string \<Rightarrow> string + RouteResponse \<Rightarrow> ('m, string option) cprog" where
  "client_finish env cfg repo arch r =
     (case r of
        Inl e \<Rightarrow> ret (Some e)
      | Inr resp \<Rightarrow>
          if bc_dryRun cfg then
            do {
              _ \<leftarrow> printOut (dryRunLines cfg repo arch resp (client_builder resp) (buildxBuildArgs cfg (client_builder resp) resp));
              ret None
            }
          else
            do {
              e \<leftarrow> client_build env cfg resp;
              _ \<leftarrow> completeBuild env cfg (rr_Key resp) (rr_BuildID resp);
              ret e
            })"

definition client_run :: "'m ClientEnv \<Rightarrow> config \<Rightarrow> ('m, string option) cprog" where
  "client_run env cfg =
     (if bc_push cfg \<and> bc_output cfg \<noteq> [] then ret (Some ''--push and --output are mutually exclusive'')
      else do {
        raw \<leftarrow> resolveRepo env cfg;
        let repo = normalizeRepo raw;
        let arch = normalizeArch (bc_arch cfg);
        if repo = [] then ret (Some ''could not resolve a repository: pass --repo (or run inside a git repo / non-empty context)'')
        else if arch \<noteq> ''amd64'' \<and> arch \<noteq> ''arm64'' then ret (Some (''unsupported --arch '' @ bc_arch cfg @ '': want amd64 or arm64''))
        else do {
          r \<leftarrow> client_routeBuild env cfg (client_request cfg repo arch);
          client_finish env cfg repo arch r
        }
      })"

section \<open>One route, one release\<close>

lemma wp_httpDo [wp_rules]:
  "wp (httpDo env c) Q w \<longleftrightarrow>
     (\<forall>a m. run_state (ce_post env c) (w_mem w) = (a, m) \<longrightarrow> Q a \<lparr>w_log = Posted c a # w_log w, w_mem = m\<rparr>)"
  by (auto simp: wp_run httpDo_def Let_def split: prod.splits)

lemma wp_printOut [wp_rules]: "wp (printOut ls) Q w \<longleftrightarrow> Q () (w\<lparr>w_log := Printed ls # w_log w\<rparr>)"
  by (simp add: wp_run printOut_def)

lemma wp_execCmd [wp_rules]:
  "wp (execCmd env name args) Q w \<longleftrightarrow>
     Q (ce_exec env (w_log w) name args) (w\<lparr>w_log := Ran_cmd name args (ce_exec env (w_log w) name args) # w_log w\<rparr>)"
  by (simp add: execCmd_def wp_rules)

definition isCmd :: "string \<Rightarrow> ClientEvent \<Rightarrow> bool" where
  "isCmd name e = (case e of Ran_cmd n _ _ \<Rightarrow> n = name | _ \<Rightarrow> False)"

text \<open>The response a client goes on with.\<close>

definition usable :: "HttpAnswer \<Rightarrow> RouteResponse option" where
  "usable a = (case a of Status200 (Inr resp) \<Rightarrow> if rr_Endpoint resp = [] then None else Some resp | _ \<Rightarrow> None)"

text \<open>Commands of one program only add themselves to the history and leave the memory.\<close>

definition runsOnly :: "string \<Rightarrow> ('m, 'a) cprog \<Rightarrow> bool" where
  "runsOnly name m \<longleftrightarrow> (\<forall>w. wp m (\<lambda>_ w'. w_mem w' = w_mem w \<and> (\<exists>new. w_log w' = new @ w_log w \<and> list_all (isCmd name) new)) w)"

lemma runsOnly_ret: "runsOnly name (ret x)"
  by (simp add: runsOnly_def wp_rules)

lemma runsOnly_exec: "runsOnly name (execCmd env name args)"
  by (simp add: runsOnly_def wp_rules isCmd_def)

lemma runsOnly_bind:
  fixes m :: "('m, 'a) cprog"
  assumes "runsOnly name m" "\<And>x. runsOnly name (f x)"
  shows "runsOnly name (State_Monad.bind m f)"
  unfolding runsOnly_def
proof
  fix w
  show "wp (State_Monad.bind m f) (\<lambda>_ w'. w_mem w' = w_mem w \<and> (\<exists>new. w_log w' = new @ w_log w \<and> list_all (isCmd name) new)) w"
    unfolding wp_bind
  proof (rule wp_mono [OF assms(1) [unfolded runsOnly_def, rule_format]])
    fix x and w1 :: "(ClientEvent, 'm) world" assume *: "w_mem w1 = w_mem w \<and> (\<exists>new. w_log w1 = new @ w_log w \<and> list_all (isCmd name) new)"
    show "wp (f x) (\<lambda>_ w'. w_mem w' = w_mem w \<and> (\<exists>new. w_log w' = new @ w_log w \<and> list_all (isCmd name) new)) w1"
      by (rule wp_mono [OF assms(2) [unfolded runsOnly_def, rule_format]]) (use * in auto)
  qed
qed

lemmas runsOnly_rules = runsOnly_ret runsOnly_exec runsOnly_bind

lemma runsOnly_resolve: "runsOnly ''git'' (resolveRepo env cfg)"
  unfolding resolveRepo_def gitRemoteURL_def Let_def by (auto intro!: runsOnly_rules)

lemma runsOnly_build: "runsOnly ''docker'' (client_build env cfg resp)"
  unfolding client_build_def ensureBuilder_def builderHasEndpoint_def
  by (auto intro!: runsOnly_rules split: option.split ExecResult.split)

lemma wp_runsOnly:
  fixes m :: "('m, 'a) cprog"
  assumes "runsOnly name m" "\<And>x new. list_all (isCmd name) new \<Longrightarrow> Q x \<lparr>w_log = new @ w_log w, w_mem = w_mem w\<rparr>"
  shows "wp m Q w"
proof (rule wp_mono [OF assms(1) [unfolded runsOnly_def, rule_format]])
  fix x and w' :: "(ClientEvent, 'm) world" assume "w_mem w' = w_mem w \<and> (\<exists>new. w_log w' = new @ w_log w \<and> list_all (isCmd name) new)"
  then obtain new where "w' = \<lparr>w_log = new @ w_log w, w_mem = w_mem w\<rparr>" "list_all (isCmd name) new" by (cases w') auto
  then show "Q x w'" using assms(2) by simp
qed

text \<open>What a run of the client leaves behind, oldest event first: the resolution, then at most one route, and then
  what its answer leads to.\<close>

definition afterAnswer :: "config \<Rightarrow> string option \<Rightarrow> Credentials \<Rightarrow> HttpAnswer \<Rightarrow> ClientEvent list \<Rightarrow> bool" where
  "afterAnswer cfg r au a rest \<longleftrightarrow>
     (case usable a of
        None \<Rightarrow> rest = [] \<and> r \<noteq> None
      | Some resp \<Rightarrow>
          if bc_dryRun cfg then (\<exists>ls. rest = [Printed ls]) \<and> r = None
          else (\<exists>docker url b. rest = docker @ [Posted (PostComplete url au \<lparr>cq_Key = rr_Key resp, cq_BuildID = rr_BuildID resp\<rparr>) b] \<and>
                  list_all (isCmd ''docker'') docker))"

definition clientTrace :: "config \<Rightarrow> string option \<Rightarrow> ClientEvent list \<Rightarrow> bool" where
  "clientTrace cfg r l \<longleftrightarrow>
     (\<exists>git. list_all (isCmd ''git'') git \<and>
        (l = git \<and> r \<noteq> None \<or>
         (\<exists>url au req a rest. l = git @ Posted (PostRoute url au req) a # rest \<and> afterAnswer cfg r au a rest)))"

lemma clientTrace_none: "list_all (isCmd ''git'') git \<Longrightarrow> r \<noteq> None \<Longrightarrow> clientTrace cfg r git"
  unfolding clientTrace_def by blast

lemma clientTrace_route:
  "list_all (isCmd ''git'') git \<Longrightarrow> afterAnswer cfg r au a rest \<Longrightarrow> clientTrace cfg r (git @ Posted (PostRoute url au req) a # rest)"
  unfolding clientTrace_def by blast

text \<open>The three stages: what follows the answer, the route call, and the resolution before it.\<close>

definition traced :: "config \<Rightarrow> string option \<Rightarrow> (ClientEvent, 'm) world \<Rightarrow> bool" where
  "traced cfg r w = clientTrace cfg r (rev (w_log w))"

lemma finish_traced:
  assumes "ce_badURL env (trimRight (bc_builddURL cfg) CHR ''/'' @ ''/complete'') = None" "list_all (isCmd ''git'') git"
    "case usable a of None \<Rightarrow> isl r | Some resp \<Rightarrow> r = Inr resp"
  shows "wp (client_finish env cfg repo arch r) (traced cfg) \<lparr>w_log = Posted (PostRoute url (setAuth cfg) req) a # git, w_mem = m\<rparr>"
proof -
  have git: "list_all (isCmd ''git'') (rev git)" using assms(2) by (simp add: list_all_iff)
  show ?thesis
  proof (cases r)
    case (Inl e)
    then have "afterAnswer cfg (Some e) (setAuth cfg) a []" using assms(3) by (auto simp: afterAnswer_def split: option.splits)
    from clientTrace_route [OF git this] show ?thesis by (simp add: Inl client_finish_def traced_def wp_rules)
  next
    case (Inr resp)
    then have u: "usable a = Some resp" using assms(3) by (auto split: option.splits)
    show ?thesis
    proof (cases "bc_dryRun cfg")
      case True
      then have "afterAnswer cfg None (setAuth cfg) a [Printed ls]" for ls using u by (simp add: afterAnswer_def)
      from clientTrace_route [OF git this] show ?thesis by (simp add: Inr True client_finish_def traced_def wp_rules)
    next
      case False
      have "traced cfg x \<lparr>w_log = Posted (PostComplete url' (setAuth cfg) \<lparr>cq_Key = rr_Key resp, cq_BuildID = rr_BuildID resp\<rparr>) b #
          new @ Posted (PostRoute url (setAuth cfg) req) a # git, w_mem = m'\<rparr>"
        if "list_all (isCmd ''docker'') new" for new x b url' and m' :: 'a
      proof -
        have "afterAnswer cfg x (setAuth cfg) a
            (rev new @ [Posted (PostComplete url' (setAuth cfg) \<lparr>cq_Key = rr_Key resp, cq_BuildID = rr_BuildID resp\<rparr>) b])"
          using u False that by (auto simp: afterAnswer_def list_all_iff)
        from clientTrace_route [OF git this] show ?thesis by (simp add: traced_def)
      qed
      then show ?thesis using False Inr assms(1)
        by (auto simp: client_finish_def wp_rules completeBuild_def Let_def intro!: wp_runsOnly [OF runsOnly_build])
    qed
  qed
qed

lemma route_traced:
  assumes "ce_badURL env (trimRight (bc_builddURL cfg) CHR ''/'' @ ''/complete'') = None" "list_all (isCmd ''git'') git"
  shows "wp (client_routeBuild env cfg req \<bind> client_finish env cfg repo arch) (traced cfg) \<lparr>w_log = git, w_mem = m\<rparr>"
proof (cases "ce_badURL env (trimRight (bc_builddURL cfg) CHR ''/'' @ ''/route'')")
  case None
  then show ?thesis
    by (auto simp: client_routeBuild_def Let_def wp_rules usable_def split: HttpAnswer.split sum.split intro!: finish_traced [OF assms])
next
  case (Some e)
  have "clientTrace cfg (Some x) (rev git)" for x using assms(2) by (intro clientTrace_none) (simp_all add: list_all_iff)
  then show ?thesis using Some by (simp add: client_routeBuild_def Let_def wp_rules client_finish_def traced_def)
qed

text \<open>C8: \<^bold>\<open>The client releases every build it was given, last and once.\<close> Whatever git, docker, buildd and the network
  do, a run of the client makes at most one route call, after nothing but \<open>git\<close>. If the answer is not a
  usable response the run ends there with an error. If it is one, then on a dry run nothing but the
  report follows; otherwise only \<open>docker\<close> commands follow, however they end, and then exactly one release,
  with the key and the token of the response and the credentials of the route.\<close>

theorem client_releases:
  assumes "ce_badURL env (trimRight (bc_builddURL cfg) CHR ''/'' @ ''/complete'') = None"
    "run_state (client_run env cfg) \<lparr>w_log = [], w_mem = m\<rparr> = (r, w')"
  shows "clientTrace cfg r (rev (w_log w'))"
proof -
  have none: "traced cfg (Some e) \<lparr>w_log = git, w_mem = m\<rparr>" if "list_all (isCmd ''git'') git" for git e
    using that clientTrace_none [of "rev git"] by (simp add: traced_def list_all_iff)
  have "wp (client_run env cfg) (traced cfg) \<lparr>w_log = [], w_mem = m\<rparr>"
    unfolding client_run_def wp_if wp_bind [of "resolveRepo env cfg"]
    by (auto simp: wp_rules(1) Let_def intro!: wp_runsOnly [OF runsOnly_resolve] none route_traced [OF assms(1)])
  then show ?thesis using assms(2) by (simp add: wp_run traced_def)
qed

section \<open>The builder of a project\<close>

text \<open>\<^bold>\<open>A build goes to a builder whose description holds its endpoint.\<close> When \<open>ensureBuilder\<close> succeeds, the last thing it
  did was to create the builder for this endpoint, or to read a description of the existing builder in
  which the endpoint occurs; an existing builder is removed only after a description without it.

  The endpoint may occur anywhere in the description: one that lists a longer address, such as a port
  of which this one is a prefix, keeps the old builder.\<close>

theorem builder_points_at_endpoint:
  assumes "run_state (ensureBuilder env b certs endp) w = (r, w')"
  shows "(r = None \<longrightarrow>
      (\<exists>out. hd (w_log w') = Ran_cmd ''docker'' (createArgs b certs endp) (Ran out)) \<or>
      (\<exists>out. hd (w_log w') = Ran_cmd ''docker'' [''buildx'', ''inspect'', b] (Ran out) \<and> containsStr out endp)) \<and>
    (Ran_cmd ''docker'' [''buildx'', ''rm'', b] x \<in> set (w_log w') - set (w_log w) \<longrightarrow>
      (\<exists>res. Ran_cmd ''docker'' [''buildx'', ''inspect'', b] res \<in> set (w_log w') \<and> (\<forall>out. res = Ran out \<longrightarrow> \<not> containsStr out endp))) \<and>
    (\<forall>err errOut pre post. ce_exec env (w_log w) ''docker'' (createArgs b certs endp) = Failed err errOut \<and> isExistingBuilder errOut \<and>
       ce_exec env (Ran_cmd ''docker'' (createArgs b certs endp) (Failed err errOut) # w_log w) ''docker'' [''buildx'', ''inspect'', b] = Ran (pre @ endp @ post) \<longrightarrow>
       r = None \<and> hd (w_log w') = Ran_cmd ''docker'' [''buildx'', ''inspect'', b] (Ran (pre @ endp @ post)))"
    (is "?Q r w'")
proof -
  define c where "c = createArgs b certs endp"
  have c: "c \<noteq> [''buildx'', ''rm'', b]" by (simp add: c_def createArgs_def)
  have "wp (ensureBuilder env b certs endp) ?Q w"
    unfolding ensureBuilder_def builderHasEndpoint_def c_def [symmetric]
    using c by (auto simp: wp_rules containsStr_def sublist_appendI split: ExecResult.splits)
  then show ?thesis unfolding wp_run assms fst_conv snd_conv .
qed

definition staleEnv :: "unit ClientEnv" where
  "staleEnv = \<lparr>ce_exec = \<lambda>_ _ args. if args ! 1 = ''create'' then Failed ''exit status 1'' ''ERROR: existing instance for b''
       else Ran ''Endpoint: tcp://h:12345'', ce_cwd = Inr [], ce_badURL = \<lambda>_. None, ce_post = \<lambda>_. ret (DoErr [])\<rparr>"

theorem builder_points_at_endpoint_witness:
  "fst (run_state (ensureBuilder staleEnv ''b'' ''/certs'' ''tcp://h:1234'') \<lparr>w_log = [], w_mem = ()\<rparr>) = None"
proof -
  let ?w = "\<lparr>w_log = [], w_mem = ()\<rparr> :: (ClientEvent, unit) world"
  have "isExistingBuilder ''ERROR: existing instance for b''" by code_simp
  moreover have "ce_exec staleEnv (w_log ?w) ''docker'' (createArgs ''b'' ''/certs'' ''tcp://h:1234'') = Failed ''exit status 1'' ''ERROR: existing instance for b''"
    by (simp add: staleEnv_def createArgs_def)
  moreover have "ce_exec staleEnv l ''docker'' [''buildx'', ''inspect'', ''b''] = Ran (''Endpoint: '' @ ''tcp://h:1234'' @ ''5'')" for l
    by (simp add: staleEnv_def)
  ultimately show ?thesis
    using builder_points_at_endpoint [OF surjective_pairing, of staleEnv "''b''" "''/certs''" "''tcp://h:1234''" ?w] by blast
qed

end
