(* ===== verification/Client_Server.thy ===== *)
theory Client_Server
  imports Build_Client Local_Contract
begin

text \<open>
  The build client joined with the routing API: what a run of the client does to the builds that are
  registered on the server, over every backend that keeps its contract, and so over the single-host
  backend. \<open>apiCall\<close> is the request the server reads; \<open>wire\<close> is the response the client reads.
\<close>

section \<open>The wire\<close>

text \<open>What is chosen for a request outside of client and server: the limiter's verdict, the random bytes and the
  cold-start slot.\<close>

record Arrival =
  ar_Allowed :: bool
  ar_Random :: "char list"
  ar_Slot :: bool

definition requestOf :: "Arrival \<Rightarrow> Credentials \<Rightarrow> 'b \<Rightarrow> 'b Request" where
  "requestOf ar au body = \<lparr>hr_Method = ''POST'', hr_AdminToken = au_AdminToken au, hr_Authorization = au_Authorization au, hr_Body = Inr body,
     hr_Allowed = ar_Allowed ar, hr_Random = ar_Random ar, hr_Slot = ar_Slot ar\<rparr>"

definition apiCall :: "Arrival \<Rightarrow> ClientCall \<Rightarrow> ApiCall" where
  "apiCall ar c = (case c of PostRoute _ au req \<Rightarrow> Route (requestOf ar au req) | PostComplete _ au req \<Rightarrow> Complete (requestOf ar au req))"

definition wire :: "Response \<Rightarrow> HttpAnswer" where
  "wire r = (case r of
       JsonResponse n body \<Rightarrow> if n = 200 then Status200 (Inr body) else StatusOther (itoa (int n)) []
     | ErrorResponse n e \<Rightarrow> StatusOther (itoa (int n)) e
     | NoContent \<Rightarrow> StatusOther ''204'' [])"

definition served :: "'m routeServer \<Rightarrow> (ClientCall \<Rightarrow> Arrival) \<Rightarrow> ClientCall \<Rightarrow> ('m, HttpAnswer) state" where
  "served srv ar c = do { r \<leftarrow> serve srv (apiCall (ar c) c); ret (wire r) }"

section \<open>What a routed response holds\<close>

text \<open>A program whose result satisfies \<open>R\<close>, whatever the backend does.\<close>

definition returns :: "('a \<Rightarrow> bool) \<Rightarrow> ('s, 'a) state \<Rightarrow> bool" where
  "returns R m \<longleftrightarrow> (\<forall>w. wp m (\<lambda>r _. R r) w)"

lemma returns_ret: "R x \<Longrightarrow> returns R (ret x)"
  by (simp add: returns_def wp_rules)

lemma returns_bind: "(\<And>x. returns R (f x)) \<Longrightarrow> returns R (State_Monad.bind m f)"
  by (simp add: returns_def wp_bind wp_run)

lemma returns_bindI: "returns R' m \<Longrightarrow> (\<And>x. R' x \<Longrightarrow> returns R (f x)) \<Longrightarrow> returns R (State_Monad.bind m f)"
  by (simp add: returns_def wp_bind wp_run)

definition wellFormed :: "Response \<Rightarrow> bool" where
  "wellFormed resp \<longleftrightarrow>
     (\<forall>n body. resp = JsonResponse n body \<longrightarrow> validateCompleteRequest (rr_Key body) = None \<and> validBuildID (rr_BuildID body) \<and> rr_BuildID body \<noteq> [])"

lemma hex_valid: "set s \<subseteq> set hexDigits \<Longrightarrow> list_all isHexChar s"
proof -
  have "list_all isHexChar hexDigits" by code_simp
  then show "set s \<subseteq> set hexDigits \<Longrightarrow> list_all isHexChar s" by (auto simp: list_all_iff)
qed

lemma newBuildID_valid: "length b = buildIDBytes \<Longrightarrow> validBuildID (newBuildID b)"
  using set_hex_encode [of b] by (auto simp: validBuildID_def newBuildID_def length_hex_encode intro!: hex_valid)

lemma trimSpace_Cons: "\<not> isSpace c \<Longrightarrow> trimSpace (c # t) \<noteq> []"
  by (auto simp: trimSpace_def dropWhile_eq_Nil_conv)

lemma key_valid: "validateCompleteRequest (routeKey req (projectKey r n t a)) = None"
proof -
  obtain x where "projectKey r n t a = CHR ''p'' # x" "length x = 16" using projectKey_parts by blast
  then show ?thesis
    using trimSpace_Cons [of "CHR ''p''"] trimSpace_Cons [of "CHR ''f''"]
    by (simp add: validateCompleteRequest_def routeKey_def forkKey_def isSpace_def)
qed

lemma handleRoute_returns:
  assumes "\<And>req x n t a. returns R (respondRoute srv (routeKey req (projectKey x n t a)) (newBuildID (hr_Random r)))"
    "\<And>n e. R (ErrorResponse n e)"
  shows "returns R (handleRoute srv r)"
proof -
  have abandon: "returns R (abandonRoute srv k i (ErrorResponse n e))" for k i n e
    unfolding abandonRoute_def by (intro returns_bind returns_ret assms(2))
  have denied: "decodeReq srv r = Inl resp \<Longrightarrow> R resp" for resp
    using assms(2) by (auto simp: decodeReq_def Let_def split: sum.splits if_splits option.splits prod.splits)
  show ?thesis
    unfolding handleRoute_def routeBuild_def
    by (auto simp: Let_def canonicalSpec_def intro!: returns_bind assms abandon returns_ret denied split: sum.split option.split)
qed

lemma handleRoute_wellFormed:
  assumes "length (hr_Random r) = buildIDBytes"
  shows "returns wellFormed (handleRoute srv r)"
  unfolding respondRoute_def
  by (rule handleRoute_returns, unfold respondRoute_def)
    (auto simp: wellFormed_def key_valid newBuildID_valid [OF assms] newBuildID_nonempty [OF assms] intro!: returns_bind returns_ret)

definition addressed :: "Response \<Rightarrow> bool" where
  "addressed resp \<longleftrightarrow> (\<forall>n body. resp = JsonResponse n body \<longrightarrow> rr_Endpoint body \<noteq> [])"

lemma handleRoute_addressed:
  assumes "\<And>k. returns (\<lambda>e. e \<noteq> []) (pv_Endpoint (rs_prov srv) k)"
  shows "returns addressed (handleRoute srv r)"
proof (rule handleRoute_returns)
  fix req x n t a
  show "returns addressed (respondRoute srv (routeKey req (projectKey x n t a)) (newBuildID (hr_Random r)))"
    unfolding respondRoute_def
    by (rule returns_bindI [OF assms]) (auto simp: addressed_def intro!: returns_bind returns_ret)
qed (simp add: addressed_def)

section \<open>Clients of a backend that keeps its contract\<close>

text \<open>A server that takes the client's credentials as those of a trusted caller.\<close>

definition trusts :: "'m routeServer \<Rightarrow> Credentials \<Rightarrow> bool" where
  "trusts srv au \<longleftrightarrow> identify srv (requestOf \<lparr>ar_Allowed = True, ar_Random = [], ar_Slot = True\<rparr> au ()) = Inr trusted"

lemma identify_requestOf: "identify srv (requestOf ar au body) = identify srv (requestOf ar' au body')"
proof -
  have t: "hr_AdminToken (requestOf ar au body) = hr_AdminToken (requestOf ar' au body')"
    "bearerToken (requestOf ar au body) = bearerToken (requestOf ar' au body')"
    "bearerEquals (requestOf ar au body) = bearerEquals (requestOf ar' au body')"
    by (simp_all add: requestOf_def bearerToken_def bearerEquals_def fun_eq_iff)
  show ?thesis unfolding identify_def t ..
qed

lemma trusts_identify: "trusts srv au \<Longrightarrow> identify srv (requestOf ar au body) = Inr trusted"
  unfolding trusts_def by (subst identify_requestOf) auto

lemma complete_accepted:
  assumes "trusts srv au" "ar_Allowed ar" "validateCompleteRequest k = None" "validBuildID i" "i \<noteq> []"
  shows "handleComplete srv (requestOf ar au \<lparr>cq_Key = k, cq_BuildID = i\<rparr>) =
    do { released \<leftarrow> pv_EndInflight (rs_prov srv) k i; ret NoContent }"
  using assms trusts_identify [OF assms(1), of ar "\<lparr>cq_Key = k, cq_BuildID = i\<rparr>"]
  by (simp add: handleComplete_def decodeComplete_def denial_def checkOwner_def releaseBuild_def trusted_def requestOf_def)

context prompt_provisioner
begin

lemma route_post:
  assumes "rs_prov srv = P" "ok s" "length (ar_Random (ar (PostRoute url au req))) = buildIDBytes" "\<forall>k. length (held s k) < InflightCap"
    "\<And>k. returns (\<lambda>e. e \<noteq> []) (pv_Endpoint P k)"
  shows "wp (served srv ar (PostRoute url au req))
    (\<lambda>a s'. ok s' \<and>
       (case a of
          Status200 (Inr body) \<Rightarrow> ledgerOf s' = (ledgerOf s)(rr_Key body := add_mset (inflightID (rr_BuildID body)) (ledgerOf s (rr_Key body))) \<and>
            wellFormed (JsonResponse 200 body) \<and> rr_Endpoint body \<noteq> []
        | _ \<Rightarrow> ledgerOf s' = ledgerOf s)) s"
proof -
  let ?r = "requestOf (ar (PostRoute url au req)) au req"
  have rnd: "length (hr_Random ?r) = buildIDBytes" using assms(3) by (simp add: requestOf_def)
  have "wp (serve srv (Route ?r)) (simulates s (Route ?r)) s"
    by (rule serve_simulates [OF assms(1,2)]) (simp add: realRequest_def rnd)
  moreover have "wp (serve srv (Route ?r)) (\<lambda>resp _. wellFormed resp) s"
    using handleRoute_wellFormed [OF rnd, of srv] by (simp add: returns_def serve_def)
  moreover have "wp (serve srv (Route ?r)) (\<lambda>resp _. addressed resp) s"
    using handleRoute_addressed [of srv] assms(1,5) by (simp add: returns_def serve_def)
  ultimately have "wp (serve srv (Route ?r)) (\<lambda>resp s'. simulates s (Route ?r) resp s' \<and> wellFormed resp \<and> addressed resp) s"
    by (intro wp_conj)
  moreover have "\<not> InflightCap \<le> size (ledgerOf s k)" for k using assms(4) by (simp add: ledgerOf_def linorder_not_le)
  ultimately show ?thesis unfolding served_def apiCall_def ClientCall.case wp_bind
    by (elim wp_mono) (auto simp: wp_rules simulates_def wire_def addressed_def elim!: ledgerStep.cases)
qed

lemma complete_post:
  assumes "rs_prov srv = P" "ok s" "trusts srv au" "ar_Allowed (ar (PostComplete url au \<lparr>cq_Key = k, cq_BuildID = i\<rparr>))"
    "validateCompleteRequest k = None" "validBuildID i" "i \<noteq> []" "inflightID i \<in># ledgerOf s k"
  shows "wp (served srv ar (PostComplete url au \<lparr>cq_Key = k, cq_BuildID = i\<rparr>))
    (\<lambda>_ s'. ok s' \<and> ledgerOf s' = (ledgerOf s)(k := ledgerOf s k - {#inflightID i#})) s"
proof -
  have "wp (pv_EndInflight P k i) (\<lambda>_ s'. ok s' \<and> ledgerOf s' = (ledgerOf s)(k := ledgerOf s k - {#inflightID i#})) s"
  proof (rule wp_mono [OF wp_conj [OF end_exact [OF assms(2)] end_finds [OF assms(2)]]], goal_cases)
    case (1 released s')
    then have "ok s'" "\<forall>k'. k' \<noteq> k \<longrightarrow> held s' k' = held s k'" "mset (held s' k) = ledgerOf s k - {#inflightID i#}"
      using assms(7,8) unfolding ledgerOf_def by (auto split: if_splits)
    then show ?case by (simp add: ledgerOf_upd)
  qed
  then show ?thesis using complete_accepted [OF assms(3,4,5,6,7)] assms(1)
    by (simp add: served_def apiCall_def serve_def wp_rules)
qed

text \<open>A run of the client, from any state below the cap: after a dry run that was routed one more build is registered;
  in every other case the registered builds are those from before.\<close>

definition accounted :: "config \<Rightarrow> 's \<Rightarrow> string option \<Rightarrow> 's \<Rightarrow> bool" where
  "accounted cfg s r s' \<longleftrightarrow> ok s' \<and>
     (if bc_dryRun cfg \<and> r = None then \<exists>k i. ledgerOf s' = (ledgerOf s)(k := add_mset i (ledgerOf s k)) else ledgerOf s' = ledgerOf s)"

lemma client_accounted:
  fixes env :: "'s ClientEnv"
  assumes "rs_prov srv = P" "ok s" "ce_post env = served srv ar" "trusts srv (setAuth cfg)" "\<And>c. ar_Allowed (ar c) \<and> length (ar_Random (ar c)) = buildIDBytes"
    "\<forall>k. length (held s k) < InflightCap" "ce_badURL env (trimRight (bc_builddURL cfg) CHR ''/'' @ ''/complete'') = None"
    "\<And>k. returns (\<lambda>e. e \<noteq> []) (pv_Endpoint P k)"
  shows "wp (client_run env cfg) (\<lambda>r w'. accounted cfg s r (w_mem w')) \<lparr>w_log = l, w_mem = s\<rparr>"
proof -
  have same: "accounted cfg s (Some e) s'" if "ok s'" "ledgerOf s' = ledgerOf s" for e s'
    using that by (simp add: accounted_def)
  have finish: "wp (client_finish env cfg repo arch (Inr body)) (\<lambda>r w'. accounted cfg s r (w_mem w')) \<lparr>w_log = l', w_mem = s'\<rparr>"
    if s': "ok s'" "ledgerOf s' = (ledgerOf s)(rr_Key body := add_mset (inflightID (rr_BuildID body)) (ledgerOf s (rr_Key body)))"
      "wellFormed (JsonResponse 200 body)" for repo arch body l' s'
  proof (cases "bc_dryRun cfg")
    case True
    then show ?thesis using s' by (auto simp: client_finish_def wp_rules accounted_def)
  next
    case False
    have "wp (served srv ar (PostComplete url (setAuth cfg) \<lparr>cq_Key = rr_Key body, cq_BuildID = rr_BuildID body\<rparr>))
        (\<lambda>_ t. ok t \<and> ledgerOf t = (ledgerOf s')(rr_Key body := ledgerOf s' (rr_Key body) - {#inflightID (rr_BuildID body)#})) s'" for url
      using s' assms(5) by (intro complete_post [OF assms(1) s'(1) assms(4)]) (auto simp: wellFormed_def)
    note post = this
    have "accounted cfg s r t" if "run_state (served srv ar (PostComplete url (setAuth cfg)
        \<lparr>cq_Key = rr_Key body, cq_BuildID = rr_BuildID body\<rparr>)) s' = (a, t)" for url a t r
      using post [of url] that s'(2) False by (simp add: wp_run accounted_def)
    then show ?thesis using False assms(3,7)
      by (auto simp: client_finish_def wp_rules completeBuild_def Let_def intro!: wp_runsOnly [OF runsOnly_build])
  qed
  have route: "wp (client_routeBuild env cfg req \<bind> client_finish env cfg repo arch) (\<lambda>r w'. accounted cfg s r (w_mem w')) \<lparr>w_log = l', w_mem = s\<rparr>"
    for req repo arch l'
  proof (cases "ce_badURL env (trimRight (bc_builddURL cfg) CHR ''/'' @ ''/route'')")
    case None
    define url where "url = trimRight (bc_builddURL cfg) CHR ''/'' @ ''/route''"
    obtain a s' where run: "run_state (served srv ar (PostRoute url (setAuth cfg) req)) s = (a, s')" by (cases "run_state (served srv ar (PostRoute url (setAuth cfg) req)) s")
    note post = route_post [where ar = ar and url = url and au = "setAuth cfg" and req = req, OF assms(1,2) conjunct2 [OF assms(5)] assms(6,8), unfolded wp_run run, simplified]
    have err: "client_finish env cfg repo arch (Inl e) = ret (Some e)" for e by (simp add: client_finish_def)
    show ?thesis using None post run assms(3) same finish
      by (auto simp: client_routeBuild_def Let_def wp_rules err url_def [symmetric] simp del: wp_case_sum
        split: HttpAnswer.splits sum.splits)
  next
    case (Some e)
    then show ?thesis using same [OF assms(2)] by (simp add: client_routeBuild_def Let_def wp_rules client_finish_def)
  qed
  show ?thesis
    unfolding client_run_def wp_if wp_bind [of "resolveRepo env cfg"]
    by (auto simp: wp_rules(1) Let_def intro!: wp_runsOnly [OF runsOnly_resolve] same [OF assms(2)] route)
qed

end

section \<open>Over the single-host backend\<close>

lemma local_endpoint_nonempty: "returns (\<lambda>e. e \<noteq> []) (pv_Endpoint (localBackend fuel henv lcfg) k)"
  by (auto simp: localBackend_def local_Endpoint_def endpointHost_def intro!: returns_bind returns_ret split: option.split)

text \<open>C7: \<^bold>\<open>A run of the client leaves no build behind, except a dry run.\<close> Let a client with trusted credentials run
  against the routing API over the single-host backend, with no project at its cap and no request lost.
  Whatever its repository, its flags, git and docker do, afterwards the builds registered on the server
  are exactly those from before, also when the build, the builder or the routing failed. But a dry run
  that is routed leaves one more build registered, which nothing releases.\<close>

theorem local_client_accounted:
  fixes env :: "(HostEvent, projects) world ClientEnv"
  assumes "rs_prov srv = localBackend fuel henv lcfg" "localOk w" "\<forall>k. length (localHeld w k) < InflightCap"
    "ce_post env = served srv ar" "trusts srv (setAuth cfg)" "\<And>c. ar_Allowed (ar c) \<and> length (ar_Random (ar c)) = buildIDBytes"
    "ce_badURL env (trimRight (bc_builddURL cfg) CHR ''/'' @ ''/complete'') = None"
    "run_state (client_run env cfg) \<lparr>w_log = [], w_mem = w\<rparr> = (r, w')"
  shows "localOk (w_mem w') \<and>
    (if bc_dryRun cfg \<and> r = None
     then \<exists>k i. (\<lambda>x. mset (localHeld (w_mem w') x)) = (\<lambda>x. mset (localHeld w x))(k := add_mset i (mset (localHeld w k)))
     else (\<lambda>x. mset (localHeld (w_mem w') x)) = (\<lambda>x. mset (localHeld w x)))"
proof -
  have "wp (client_run env cfg) (\<lambda>r w'. local.accounted cfg w r (w_mem w')) \<lparr>w_log = [], w_mem = w\<rparr>"
    by (rule local.client_accounted [OF assms(1,2,4,5,6,3,7) local_endpoint_nonempty])
  then show ?thesis unfolding wp_run assms(8) fst_conv snd_conv local.accounted_def local.ledgerOf_def .
qed

definition demoConfig :: config where
  "demoConfig = (defaultConfig (\<lambda>_. []) ''amd64'' ''/home/ci'')\<lparr>bc_repo := ''https://github.com/org/app.git'', bc_tags := [''app:1'']\<rparr>"

definition demoArrival :: "ClientCall \<Rightarrow> Arrival" where
  "demoArrival _ = \<lparr>ar_Allowed = True, ar_Random = ''12345678'', ar_Slot = True\<rparr>"

definition demoEnv :: "(HostEvent, projects) world ClientEnv" where
  "demoEnv = \<lparr>ce_exec = \<lambda>_ _ _. Ran [], ce_cwd = Inr ''/src'', ce_badURL = \<lambda>_. None, ce_post = served localServer demoArrival\<rparr>"

definition demoWorld :: "(ClientEvent, (HostEvent, projects) world) world" where
  "demoWorld = \<lparr>w_log = [], w_mem = \<lparr>w_log = [], w_mem = Map.empty\<rparr>\<rparr>"

theorem local_client_accounted_witness:
  "localOk (w_mem (snd (run_state (client_run demoEnv demoConfig) demoWorld))) \<and>
   (\<forall>k. mset (localHeld (w_mem (snd (run_state (client_run demoEnv demoConfig) demoWorld))) k) = {#})"
proof -
  let ?w = "\<lparr>w_log = [], w_mem = Map.empty\<rparr> :: (HostEvent, projects) world"
  have "rs_prov localServer = localBackend 5 idleHost plainLocal" "ce_post demoEnv = served localServer demoArrival" "\<not> bc_dryRun demoConfig"
    by (simp_all add: localServer_def demoEnv_def demoConfig_def defaultConfig_def)
  moreover have "localOk ?w" "\<forall>k. localHeld ?w k = []" by (simp_all add: localOk_def localHeld_def)
  moreover have "trusts localServer (setAuth demoConfig)" by code_simp
  moreover have "\<And>c. ar_Allowed (demoArrival c) \<and> length (ar_Random (demoArrival c)) = buildIDBytes" by (simp add: demoArrival_def buildIDBytes_def)
  moreover have "ce_badURL demoEnv (trimRight (bc_builddURL demoConfig) CHR ''/'' @ ''/complete'') = None" by (simp add: demoEnv_def)
  moreover have "0 < InflightCap" by (simp add: InflightCap_def)
  ultimately show ?thesis unfolding demoWorld_def
    using local_client_accounted [OF _ _ _ _ _ _ _ surjective_pairing, of localServer 5 idleHost plainLocal ?w demoEnv demoArrival demoConfig] by (simp add: fun_eq_iff)
qed

theorem client_releases_witness:
  "clientTrace demoConfig (fst (run_state (client_run demoEnv demoConfig) demoWorld)) (rev (w_log (snd (run_state (client_run demoEnv demoConfig) demoWorld))))"
  unfolding demoWorld_def by (rule client_releases [OF _ surjective_pairing]) (simp add: demoEnv_def)

end
