(* ===== verification/Float_Bounds.thy ===== *)
theory Float_Bounds
  imports Go_Float
begin

text \<open>
  Rounding is monotone on the counts of a file system: the ratio of a count to a larger one, computed in
  \<open>float64\<close> from \<open>uint64\<close> values, lies between 0 and 1, and the percentage between 0 and 100.
\<close>

lemma pow2_powi: "pow2 e = 2 powi e"
  by (simp add: pow2_def power_int_def power_divide inverse_eq_divide)

lemma pow2_add: "pow2 (a + b) = pow2 a * pow2 b"
  by (simp add: pow2_powi power_int_add)

lemma pow2_mono: "a \<le> b \<Longrightarrow> pow2 a \<le> pow2 b"
  by (simp add: pow2_powi power_int_increasing)

lemma pow2_0 [simp]: "pow2 0 = 1"
  by (simp add: pow2_def)

lemma pow2_diff: "pow2 a / pow2 b = pow2 (a - b)"
  using pow2_add [of "a - b" b] pow2_pos [of b] by (simp add: field_simps)

lemma pow2_of_nat: "pow2 (int n) = of_int (2 ^ n)"
  by (simp add: pow2_def)

lemma roundEven_bounds: "\<lfloor>x\<rfloor> \<le> roundEven x" "roundEven x \<le> \<lfloor>x\<rfloor> + 1"
  by (auto simp: roundEven_def Let_def)

lemma roundEven_mono:
  assumes "x \<le> y" shows "roundEven x \<le> roundEven y"
proof (cases "\<lfloor>x\<rfloor> = \<lfloor>y\<rfloor>")
  case True
  then show ?thesis using assms by (auto simp: roundEven_def Let_def)
next
  case False
  then have "\<lfloor>x\<rfloor> + 1 \<le> \<lfloor>y\<rfloor>" using floor_mono [OF assms] by linarith
  then show ?thesis using roundEven_bounds [of x] roundEven_bounds [of y] by linarith
qed

text \<open>The value of the nearest float, with the unit given by the exponent \<open>e\<close>.\<close>

definition roundAt :: "int \<Rightarrow> rat \<Rightarrow> rat" where
  "roundAt e x = of_int (roundEven (x / pow2 (e - 52))) * pow2 (e - 52)"

lemma roundAt_mono: "x \<le> y \<Longrightarrow> roundAt e x \<le> roundAt e y"
  unfolding roundAt_def using pow2_pos [of "e - 52"]
  by (intro mult_right_mono) (simp_all add: roundEven_mono divide_right_mono)

text \<open>Powers of two from the unit on are exact.\<close>

lemma roundAt_pow2:
  assumes "e - 52 \<le> k" shows "roundAt e (pow2 k) = pow2 k"
proof -
  have q: "pow2 k / pow2 (e - 52) = of_int (2 ^ nat (k - (e - 52)))"
    using assms pow2_of_nat [of "nat (k - (e - 52))"] by (simp add: pow2_diff)
  show ?thesis unfolding roundAt_def q roundEven_int unfolding q [symmetric] using pow2_pos [of "e - 52"] by simp
qed

lemma roundFloat_eq:
  assumes "0 < x" "x \<le> pow2 64" "ilog2 x \<le> 64"
  shows "roundFloat x = Fin (roundAt (max (ilog2 x) (- 1022)) x)"
proof -
  let ?e = "max (ilog2 x) (- 1022)"
  have "roundAt ?e x \<le> roundAt ?e (pow2 64)" by (rule roundAt_mono [OF assms(2)])
  also have "\<dots> = pow2 64" using assms(3) by (intro roundAt_pow2) auto
  also have "\<dots> < pow2 1024" by (simp add: pow2_def)
  finally have "roundAt ?e x < pow2 1024" .
  moreover have "0 \<le> roundAt ?e x" using roundEven_bounds(1) [of "x / pow2 (?e - 52)"] assms(1) pow2_pos [of "?e - 52"]
    by (auto simp: roundAt_def intro!: mult_nonneg_nonneg) (meson divide_nonneg_pos less_imp_le order_trans zero_le_floor)
  ultimately show ?thesis using assms(1) by (simp add: roundFloat_def Let_def roundAt_def)
qed

section \<open>Counts\<close>

lemma bitLen_mono:
  assumes "m \<le> n" shows "bitLen m \<le> bitLen n"
proof (cases "m = 0")
  case False
  then have "2 ^ (bitLen m - 1) < (2 :: nat) ^ bitLen n" using bitLen_bounds [of m] bitLen_bounds [of n] assms by linarith
  then have "bitLen m - 1 < bitLen n" by (simp add: power_less_imp_less_exp)
  then show ?thesis by simp
qed (simp add: bitLen_0)

lemma nat_between:
  assumes "0 < n" shows "pow2 (int (bitLen n) - 1) \<le> of_nat n" "of_nat n \<le> pow2 (int (bitLen n))"
proof -
  have "(2 ^ (bitLen n - 1) :: rat) \<le> of_nat n" "(of_nat n :: rat) < 2 ^ bitLen n"
    using bitLen_bounds [OF assms] by (metis of_nat_le_iff of_nat_numeral of_nat_power, metis of_nat_less_iff of_nat_numeral of_nat_power)
  then show "pow2 (int (bitLen n) - 1) \<le> of_nat n" "of_nat n \<le> pow2 (int (bitLen n))"
    using bitLen_bounds [OF assms] by (simp_all add: pow2_def nat_diff_distrib)
qed

lemma floatOfNat_eq:
  assumes "0 < n" "n < 2 ^ 64" shows "floatOfInt (int n) = Fin (roundAt (int (bitLen n) - 1) (of_nat n))"
proof -
  have "bitLen n \<le> 64"
  proof (rule ccontr)
    assume "\<not> bitLen n \<le> 64"
    then have "(2 :: nat) ^ 64 \<le> 2 ^ (bitLen n - 1)" by (intro power_increasing) auto
    with bitLen_bounds [OF assms(1)] assms(2) show False by linarith
  qed
  moreover from this have "(of_nat n :: rat) \<le> pow2 64" using nat_between(2) [OF assms(1)] pow2_mono [of "int (bitLen n)" 64] by simp
  ultimately show ?thesis using roundFloat_eq [of "of_nat n"] assms(1) bitLen_bounds [OF assms(1)]
    by (simp add: floatOfInt_def ilog2_nat max_def)
qed

lemma roundNat_mono:
  assumes "0 < m" "m \<le> n"
  shows "roundAt (int (bitLen m) - 1) (of_nat m) \<le> roundAt (int (bitLen n) - 1) (of_nat n)"
proof (cases "bitLen m = bitLen n")
  case True
  then show ?thesis using assms roundAt_mono by simp
next
  case False
  then have less: "int (bitLen m) \<le> int (bitLen n) - 1" using bitLen_mono [OF assms(2)] by simp
  have "roundAt (int (bitLen m) - 1) (of_nat m) \<le> roundAt (int (bitLen m) - 1) (pow2 (int (bitLen m)))"
    by (intro roundAt_mono nat_between assms)
  also have "\<dots> = pow2 (int (bitLen m))" by (intro roundAt_pow2) simp
  also have "\<dots> \<le> pow2 (int (bitLen n) - 1)" by (rule pow2_mono [OF less])
  also have "\<dots> = roundAt (int (bitLen n) - 1) (pow2 (int (bitLen n) - 1))" by (intro roundAt_pow2 [symmetric]) simp
  also have "\<dots> \<le> roundAt (int (bitLen n) - 1) (of_nat n)" using assms by (intro roundAt_mono nat_between) simp
  finally show ?thesis .
qed

lemma roundNat_pos: "0 < n \<Longrightarrow> 0 < roundAt (int (bitLen n) - 1) (of_nat n)"
  using roundAt_mono [OF nat_between(1), of n "int (bitLen n) - 1"] roundAt_pow2 [of "int (bitLen n) - 1" "int (bitLen n) - 1"]
    pow2_pos [of "int (bitLen n) - 1"] by simp

section \<open>Ratios\<close>

lemma pow2_ilog2:
  assumes "0 < q" shows "pow2 (ilog2 q) \<le> q"
proof -
  obtain n d where nd: "quotient_of q = (n, d)" by (cases "quotient_of q")
  have d: "0 < d" "q = of_int n / of_int d" using quotient_of_denom_pos [OF nd] quotient_of_div [OF nd] by auto
  have n: "0 < n" using assms d by (simp add: zero_less_divide_iff)
  have "pow2 (int (bitLen (nat n)) - 1) / pow2 (int (bitLen (nat d))) \<le> of_nat (nat n) / of_nat (nat d)"
    using n d(1) by (intro frac_le nat_between) (simp_all add: pow2_pos)
  then have "pow2 (int (bitLen (nat n)) - int (bitLen (nat d)) - 1) \<le> q" using n d by (simp add: pow2_diff algebra_simps)
  then show ?thesis by (simp add: ilog2_def nd Let_def)
qed

lemma ilog2_le:
  assumes "0 < q" "q < pow2 (k + 1)" shows "ilog2 q \<le> k"
  using pow2_ilog2 [OF assms(1)] assms(2) pow2_mono [of "k + 1" "ilog2 q"] by linarith

lemma roundAt_int:
  assumes "e \<le> 52" shows "roundAt e (of_int i) = of_int i"
proof -
  have q: "of_int i / pow2 (e - 52) = (of_int (i * 2 ^ nat (52 - e)) :: rat)" using pow2_mult_int [of "e - 52"] assms by simp
  show ?thesis unfolding roundAt_def q roundEven_int unfolding q [symmetric] using pow2_pos [of "e - 52"] by simp
qed

text \<open>Rounding does not leave an interval with integer ends.\<close>

lemma roundFloat_upto:
  assumes "0 \<le> q" "q \<le> of_nat m" "m < 2 ^ 53" shows "\<exists>v. roundFloat q = Fin v \<and> 0 \<le> v \<and> v \<le> of_nat m"
proof (cases "q = 0")
  case True
  then show ?thesis by (simp add: roundFloat_def)
next
  case False
  then have q: "0 < q" using assms by simp
  let ?e = "max (ilog2 q) (- 1022)"
  have "(of_nat m :: rat) < 2 ^ 53" using assms(3) by (metis of_nat_less_iff of_nat_numeral of_nat_power)
  then have "q < pow2 (52 + 1)" using assms(2) by (simp add: pow2_def)
  then have le: "ilog2 q \<le> 52" by (rule ilog2_le [OF q])
  have "roundAt ?e q \<le> roundAt ?e (of_int (int m))" using assms(2) by (intro roundAt_mono) simp
  moreover have "roundAt ?e (of_int (int m)) = of_int (int m)" using le by (intro roundAt_int) simp
  moreover have "0 \<le> roundAt ?e q" using roundAt_mono [of 0 q ?e] assms(1) by (simp add: roundAt_def roundEven_def)
  moreover have "roundFloat q = Fin (roundAt ?e q)"
    using q le \<open>q < pow2 (52 + 1)\<close> pow2_mono [of 53 64] by (intro roundFloat_eq) auto
  ultimately show ?thesis by simp
qed

lemma ratio_unit:
  assumes "u \<le> t" "0 < t" "t < 2 ^ 64"
  shows "\<exists>v. floatDiv (floatOfInt (int u)) (floatOfInt (int t)) = Fin v \<and> 0 \<le> v \<and> v \<le> 1"
proof -
  define b where "b = roundAt (int (bitLen t) - 1) (of_nat t)"
  have b: "floatOfInt (int t) = Fin b" "0 < b" using floatOfNat_eq [OF assms(2,3)] roundNat_pos [OF assms(2)] by (simp_all add: b_def)
  have "\<exists>a. floatOfInt (int u) = Fin a \<and> 0 \<le> a \<and> a \<le> b"
  proof (cases "u = 0")
    case True
    then show ?thesis using b(2) by (simp add: floatOfInt_def roundFloat_def)
  next
    case False
    then show ?thesis using assms floatOfNat_eq [of u] roundNat_pos [of u] roundNat_mono [of u t] by (auto simp: b_def less_imp_le)
  qed
  then obtain a where a: "floatOfInt (int u) = Fin a" "0 \<le> a" "a \<le> b" by blast
  then have "\<exists>v. roundFloat (a / b) = Fin v \<and> 0 \<le> v \<and> v \<le> 1" using b(2) roundFloat_upto [of "a / b" 1] by simp
  then show ?thesis using a b by simp
qed

lemma percent_bounds:
  assumes "u \<le> t" "0 < t" "t < 2 ^ 64"
  shows "\<exists>p. floatMul (floatDiv (floatOfInt (int u)) (floatOfInt (int t))) (floatOfInt 100) = Fin p \<and> 0 \<le> p \<and> p \<le> 100"
proof -
  obtain v where v: "floatDiv (floatOfInt (int u)) (floatOfInt (int t)) = Fin v" "0 \<le> v" "v \<le> 1" using ratio_unit [OF assms] by blast
  have "floatOfInt 100 = Fin 100" using floatOfInt_exact [of 100] by simp
  then show ?thesis using roundFloat_upto [of "v * 100" 100] v by simp
qed

end
