(* ===== verification/Companion.thy ===== *)
theory Companion
  imports Host_Ops Float_Bounds
begin

text \<open>
  \<open>cmd/companion\<close>: the sidecar of a daemon pod. It publishes the usage of the cache volume and prunes the cache when
  inodes run out (\<open>inode.go\<close>), answers the kubelet's readiness probe (\<open>state.go\<close>) and holds the pod open for a
  bounded drain (\<open>drain.go\<close>). \<open>statfs\<close>, \<open>buildctl\<close>, the done file, the clock and the pause are answered from the history.

  Counts are 64-bit words, as \<open>syscall.Statfs_t\<close> has them, with the wrap-around of \<open>uint64\<close>. The published values
  are the memory; \<open>math.Float64bits\<close> and back is the identity on them. Handlers are their answers, without the
  HTTP server around them.
\<close>

section \<open>Accounting\<close>

record Statfs =
  sf_Files :: "64 word"
  sf_Ffree :: "64 word"
  sf_Blocks :: "64 word"
  sf_Bfree :: "64 word"
  sf_Bsize :: "64 word"

record inodeStats =
  in_used :: "64 word"
  in_total :: "64 word"
  in_ratio :: float64
  in_bytesUsed :: "64 word"
  in_bytesTotal :: "64 word"
  in_bytesRatio :: float64

definition ratioOf :: "64 word \<Rightarrow> 64 word \<Rightarrow> float64" where
  "ratioOf u t = (if t > 0 then floatDiv (floatOfInt (uint u)) (floatOfInt (uint t)) else Fin 0)"

definition statsOf :: "Statfs \<Rightarrow> inodeStats" where
  "statsOf st =
     (let files = sf_Files st;
          used = (if files \<ge> sf_Ffree st then files - sf_Ffree st else 0);
          bytesTotal = sf_Blocks st * sf_Bsize st;
          bytesUsed = (if sf_Blocks st \<ge> sf_Bfree st then (sf_Blocks st - sf_Bfree st) * sf_Bsize st else 0)
      in \<lparr>in_used = used, in_total = files, in_ratio = ratioOf used files,
          in_bytesUsed = bytesUsed, in_bytesTotal = bytesTotal, in_bytesRatio = ratioOf bytesUsed bytesTotal\<rparr>)"

section \<open>The outside and the state\<close>

datatype (plugins only: code) CompanionEvent =
    StatfsEv string "string + Statfs"
  | Buildctl "string list" ExecResult
  | DoneFile string bool
  | ClockEv time
  | SleepEv duration bool

record CompanionEnv =
  cv_statfs :: "CompanionEvent list \<Rightarrow> string \<Rightarrow> string + Statfs"
  cv_buildctl :: "CompanionEvent list \<Rightarrow> string list \<Rightarrow> ExecResult"
  cv_exists :: "CompanionEvent list \<Rightarrow> string \<Rightarrow> bool"
  cv_now :: "CompanionEvent list \<Rightarrow> time"
  cv_cancelled :: "CompanionEvent list \<Rightarrow> duration \<Rightarrow> bool"

record companionConfig =
  cg_buildkitAddr :: string
  cg_cacheDir :: string
  cg_listen :: string
  cg_inodeCheckInterval :: duration
  cg_inodeThreshold :: float64
  cg_drainSeconds :: duration
  cg_drainDoneFile :: string

record companionState =
  cs_draining :: bool
  cs_inodeRatio :: float64
  cs_inodeUsed :: "64 word"
  cs_inodeTotal :: "64 word"
  cs_bytesUsed :: "64 word"
  cs_bytesTotal :: "64 word"

definition newCompanionState :: companionState where
  "newCompanionState = \<lparr>cs_draining = False, cs_inodeRatio = Fin 0, cs_inodeUsed = 0, cs_inodeTotal = 0, cs_bytesUsed = 0, cs_bytesTotal = 0\<rparr>"

type_synonym 'a sprog = "(CompanionEvent, companionState, 'a) prog"

section \<open>The inode backstop\<close>

text \<open>The failure of \<open>statfs\<close>; the text that is put around it only goes to the log.\<close>

definition statInodes :: "CompanionEnv \<Rightarrow> string \<Rightarrow> (string + inodeStats) sprog" where
  "statInodes env dir =
     do {
       r \<leftarrow> call (\<lambda>l. cv_statfs env l dir) (StatfsEv dir);
       ret (case r of Inl e \<Rightarrow> Inl e | Inr st \<Rightarrow> Inr (statsOf st))
     }"

definition publishInodes :: "inodeStats \<Rightarrow> unit sprog" where
  "publishInodes st =
     do {
       s \<leftarrow> getMem;
       putMem (s\<lparr>cs_inodeRatio := in_ratio st, cs_inodeUsed := in_used st, cs_inodeTotal := in_total st,
         cs_bytesUsed := in_bytesUsed st, cs_bytesTotal := in_bytesTotal st\<rparr>)
     }"

definition runBuildctl :: "CompanionEnv \<Rightarrow> string list \<Rightarrow> ExecResult sprog" where
  "runBuildctl env args = call (\<lambda>l. cv_buildctl env l args) (Buildctl args)"

definition pruneArgs :: "companionConfig \<Rightarrow> string list" where
  "pruneArgs cfg = [''--addr'', cg_buildkitAddr cfg, ''prune'', ''--all'']"

definition pruneCache :: "CompanionEnv \<Rightarrow> companionConfig \<Rightarrow> string option sprog" where
  "pruneCache env cfg =
     do {
       r \<leftarrow> runBuildctl env (pruneArgs cfg);
       ret (case r of Ran _ \<Rightarrow> None | Failed err out \<Rightarrow> Some (''buildctl prune --all: '' @ err @ '': '' @ trimSpace out))
     }"

definition checkInodes :: "CompanionEnv \<Rightarrow> companionConfig \<Rightarrow> unit sprog" where
  "checkInodes env cfg =
     do {
       r \<leftarrow> statInodes env (cg_cacheDir cfg);
       (case r of
          Inl _ \<Rightarrow> ret ()
        | Inr st \<Rightarrow>
            do {
              _ \<leftarrow> publishInodes st;
              if floatLe (in_ratio st) (cg_inodeThreshold cfg) then ret ()
              else do {
                e \<leftarrow> pruneCache env cfg;
                (case e of
                   Some _ \<Rightarrow> ret ()
                 | None \<Rightarrow>
                     do {
                       r \<leftarrow> statInodes env (cg_cacheDir cfg);
                       (case r of Inl _ \<Rightarrow> ret () | Inr after \<Rightarrow> publishInodes after)
                     })
              }
            })
     }"

text \<open>The loop up to the signal, after \<open>ticks\<close> ticks: a check at the start and one for each tick. \<open>time.NewTicker\<close>
  panics on an interval that is not positive: \<^const>\<open>None\<close>.\<close>

fun inodeChecks :: "nat \<Rightarrow> CompanionEnv \<Rightarrow> companionConfig \<Rightarrow> unit sprog" where
  "inodeChecks 0 env cfg = checkInodes env cfg"
| "inodeChecks (Suc ticks) env cfg = do { _ \<leftarrow> inodeChecks ticks env cfg; checkInodes env cfg }"

definition inodeLoop :: "nat \<Rightarrow> CompanionEnv \<Rightarrow> companionConfig \<Rightarrow> unit option sprog" where
  "inodeLoop ticks env cfg =
     (if cg_inodeCheckInterval cfg \<le> 0 then ret None else do { _ \<leftarrow> inodeChecks ticks env cfg; ret (Some ()) })"

section \<open>Readiness\<close>

definition setDraining :: "unit sprog" where
  "setDraining = do { s \<leftarrow> getMem; putMem (s\<lparr>cs_draining := True\<rparr>) }"

definition probeWorkers :: "CompanionEnv \<Rightarrow> companionConfig \<Rightarrow> string option sprog" where
  "probeWorkers env cfg =
     do {
       r \<leftarrow> runBuildctl env [''--addr'', cg_buildkitAddr cfg, ''debug'', ''workers''];
       ret (case r of Ran _ \<Rightarrow> None | Failed err out \<Rightarrow> Some (''buildctl debug workers: '' @ err @ '': '' @ trimSpace out))
     }"

definition companion_ready :: "CompanionEnv \<Rightarrow> companionConfig \<Rightarrow> bool sprog" where
  "companion_ready env cfg =
     do {
       s \<leftarrow> getMem;
       if cs_draining s then ret False
       else do { e \<leftarrow> probeWorkers env cfg; ret (e = None) }
     }"

text \<open>The endpoints: a status and a body. \<open>fmtG\<close> is the verb \<open>%g\<close> of \<open>fmt\<close>.\<close>

datatype Endpoint = Healthz | Readyz | Usage | Metrics

definition quoted :: "string \<Rightarrow> string" where
  "quoted s = CHR 0x22 # s @ [CHR 0x22]"

definition usageBody :: "64 word \<Rightarrow> 64 word \<Rightarrow> string \<Rightarrow> string" where
  "usageBody u t g =
     ''{'' @ quoted ''bytesUsed'' @ '':'' @ decimal (unat u) @ '','' @ quoted ''bytesTotal'' @ '':'' @ decimal (unat t) @
       '','' @ quoted ''inodeRatio'' @ '':'' @ g @ ''}'' @ [CHR 0x0A]"

definition metricsBody :: "string \<Rightarrow> companionState \<Rightarrow> string" where
  "metricsBody g s =
     ''inode_usage_ratio '' @ g @ [CHR 0x0A] @ ''inode_used '' @ decimal (unat (cs_inodeUsed s)) @ [CHR 0x0A] @
       ''inode_total '' @ decimal (unat (cs_inodeTotal s)) @ [CHR 0x0A] @ ''cache_bytes_used '' @ decimal (unat (cs_bytesUsed s)) @ [CHR 0x0A] @
       ''cache_bytes_total '' @ decimal (unat (cs_bytesTotal s)) @ [CHR 0x0A]"

definition companionServe :: "(float64 \<Rightarrow> string) \<Rightarrow> CompanionEnv \<Rightarrow> companionConfig \<Rightarrow> Endpoint \<Rightarrow> (nat \<times> string) sprog" where
  "companionServe fmtG env cfg ep =
     (case ep of
        Healthz \<Rightarrow> ret (200, ''ok'' @ [CHR 0x0A])
      | Readyz \<Rightarrow>
          do {
            b \<leftarrow> companion_ready env cfg;
            ret (if b then (200, ''ready'' @ [CHR 0x0A]) else (503, ''not ready'' @ [CHR 0x0A]))
          }
      | Usage \<Rightarrow> do { s \<leftarrow> getMem; ret (200, usageBody (cs_bytesUsed s) (cs_bytesTotal s) (fmtG (cs_inodeRatio s))) }
      | Metrics \<Rightarrow> do { s \<leftarrow> getMem; ret (200, metricsBody (fmtG (cs_inodeRatio s)) s) })"

section \<open>The drain\<close>

datatype DrainEnd = DrainDoneFile | DrainElapsed | DrainInterrupted

definition drainStep :: duration where "drainStep = 2 * second"

definition drainPause :: "duration \<Rightarrow> duration" where
  "drainPause remaining = (if remaining < drainStep then remaining else drainStep)"

text \<open>The second half of a round of the loop, up to the pause; \<open>again\<close> is the next round.\<close>

definition drainWait :: "CompanionEnv \<Rightarrow> time \<Rightarrow> DrainEnd option sprog \<Rightarrow> DrainEnd option sprog" where
  "drainWait env deadline again =
     do {
       now \<leftarrow> call (cv_now env) ClockEv;
       let remaining = timeSub deadline now;
       if remaining \<le> 0 then ret (Some DrainElapsed)
       else do {
         let sleep = drainPause remaining;
         c \<leftarrow> call (\<lambda>l. cv_cancelled env l sleep) (SleepEv sleep);
         if c then ret (Some DrainInterrupted) else again
       }
     }"

definition fileExists :: "CompanionEnv \<Rightarrow> string \<Rightarrow> bool sprog" where
  "fileExists env path = call (\<lambda>l. cv_exists env l path) (DoneFile path)"

text \<open>The outer \<^const>\<open>None\<close>: the loop has not returned when the fuel is used up.\<close>

fun drainLoop :: "nat \<Rightarrow> CompanionEnv \<Rightarrow> companionConfig \<Rightarrow> time \<Rightarrow> DrainEnd option sprog" where
  "drainLoop 0 env cfg deadline = ret None"
| "drainLoop (Suc fuel) env cfg deadline =
     do {
       gone \<leftarrow> (if cg_drainDoneFile cfg \<noteq> [] then fileExists env (cg_drainDoneFile cfg) else ret False);
       if gone then ret (Some DrainDoneFile) else drainWait env deadline (drainLoop fuel env cfg deadline)
     }"

definition drain :: "nat \<Rightarrow> CompanionEnv \<Rightarrow> companionConfig \<Rightarrow> DrainEnd option sprog" where
  "drain fuel env cfg = do { now \<leftarrow> call (cv_now env) ClockEv; drainLoop fuel env cfg (now + cg_drainSeconds cfg) }"

text \<open>What \<open>run\<close> does from the signal on, up to the shutdown of the server.\<close>

definition companionShutdown :: "nat \<Rightarrow> CompanionEnv \<Rightarrow> companionConfig \<Rightarrow> DrainEnd option sprog" where
  "companionShutdown fuel env cfg = do { _ \<leftarrow> setDraining; drain fuel env cfg }"

section \<open>The drain ends, and not early\<close>

text \<open>A clock that runs: it never goes back, and after a completed pause it shows at least as much more.\<close>

definition pauseRuns :: "CompanionEnv \<Rightarrow> bool" where
  "pauseRuns env \<longleftrightarrow> (\<forall>new l t. ClockEv t \<in> set l \<longrightarrow> t \<le> cv_now env (new @ l)) \<and>
     (\<forall>new d l t. ClockEv t \<in> set l \<longrightarrow> t + d \<le> cv_now env (new @ SleepEv d False # l))"

definition drainOver :: "companionConfig \<Rightarrow> time \<Rightarrow> DrainEnd option \<Rightarrow> (CompanionEvent, companionState) world \<Rightarrow> bool" where
  "drainOver cfg deadline r w \<longleftrightarrow>
     (case r of
        None \<Rightarrow> False
      | Some DrainElapsed \<Rightarrow> \<exists>t. ClockEv t \<in> set (w_log w) \<and> deadline \<le> t
      | Some DrainDoneFile \<Rightarrow> cg_drainDoneFile cfg \<noteq> [] \<and> DoneFile (cg_drainDoneFile cfg) True \<in> set (w_log w)
      | Some DrainInterrupted \<Rightarrow> \<exists>d. SleepEv d True \<in> set (w_log w))"

lemma drainOver_simps [simp]:
  "drainOver cfg deadline None w \<longleftrightarrow> False"
  "drainOver cfg deadline (Some DrainElapsed) w \<longleftrightarrow> (\<exists>t. ClockEv t \<in> set (w_log w) \<and> deadline \<le> t)"
  "drainOver cfg deadline (Some DrainDoneFile) w \<longleftrightarrow> cg_drainDoneFile cfg \<noteq> [] \<and> DoneFile (cg_drainDoneFile cfg) True \<in> set (w_log w)"
  "drainOver cfg deadline (Some DrainInterrupted) w \<longleftrightarrow> (\<exists>d. SleepEv d True \<in> set (w_log w))"
  by (simp_all add: drainOver_def)

lemma wp_drainWait:
  assumes "cv_now env (w_log w) = now" "deadline \<le> now \<Longrightarrow> Q (Some DrainElapsed) (w\<lparr>w_log := ClockEv now # w_log w\<rparr>)"
    "\<And>d. now < deadline \<Longrightarrow> Q (Some DrainInterrupted) (w\<lparr>w_log := SleepEv d True # ClockEv now # w_log w\<rparr>)"
    "\<And>d. now < deadline \<Longrightarrow> d = drainStep \<or> d = deadline - now \<Longrightarrow> wp again Q (w\<lparr>w_log := SleepEv d False # ClockEv now # w_log w\<rparr>)"
  shows "wp (drainWait env deadline again) Q w"
proof -
  define d where "d = drainPause (timeSub deadline now)"
  have le: "timeSub deadline now \<le> 0 \<longleftrightarrow> deadline \<le> now" by (auto simp: timeSub_def)
  have d: "now < deadline \<Longrightarrow> d = drainStep \<or> d = deadline - now"
    by (auto simp: d_def drainPause_def timeSub_def drainStep_def second_def)
  show ?thesis
    unfolding drainWait_def wp_bind wp_call assms(1) Let_def wp_if le wp_return d_def [symmetric] using assms(2-4) d
    by (cases "cv_cancelled env (ClockEv now # w_log w) d") (simp_all add: Let_def)
qed

lemma drainLoop_returns:
  assumes "pauseRuns env" "w_log w = SleepEv s False # l" "ClockEv t \<in> set l" "deadline - t \<le> s + int n * drainStep"
  shows "wp (drainLoop (Suc n) env cfg deadline) (drainOver cfg deadline) w"
  using assms(2-4)
proof (induction n arbitrary: w s l t)
  case 0
  have "wp (drainWait env deadline again) (drainOver cfg deadline) (w\<lparr>w_log := new @ w_log w\<rparr>)" for new again
  proof (rule wp_drainWait [OF refl], goal_cases)
    case (3 d)
    have "t + s \<le> cv_now env (new @ w_log w)" using assms(1) 0 by (auto simp: pauseRuns_def)
    then show ?case using 3 0 by simp
  qed auto
  from this [where new = "[]"] this [where new = "[DoneFile x y]" for x y] show ?case
    by (auto simp: wp_rules fileExists_def)
next
  case (Suc n)
  have "wp (drainWait env deadline (drainLoop (Suc n) env cfg deadline)) (drainOver cfg deadline) (w\<lparr>w_log := new @ w_log w\<rparr>)" for new
  proof (rule wp_drainWait [OF refl], goal_cases)
    case (3 d)
    let ?now = "cv_now env (new @ w_log w)"
    have "t + s \<le> ?now" using assms(1) Suc.prems by (auto simp: pauseRuns_def)
    then have "deadline - ?now \<le> int (Suc n) * drainStep" using Suc.prems(3) by simp
    moreover have "0 \<le> int n * drainStep" by (simp add: drainStep_def second_def)
    ultimately have "deadline - ?now \<le> d + int n * drainStep" using 3 by (auto simp: algebra_simps)
    moreover have "ClockEv ?now \<in> set (ClockEv ?now # new @ w_log w)" by (rule list.set_intros(1))
    ultimately show ?case by (intro Suc.IH [where t = ?now]) auto
  qed auto
  from this [of "[]"] this [of "[DoneFile x y]" for x y] show ?case unfolding drainLoop.simps(2) [of "Suc n"]
    by (auto simp: wp_rules fileExists_def simp del: drainLoop.simps)
qed

lemma drain_window:
  assumes "nat (d div drainStep) \<le> n" shows "d \<le> drainStep + int n * drainStep"
proof -
  have "d \<le> drainStep + (d div drainStep) * drainStep"
    using div_mult_mod_eq [of d drainStep] pos_mod_bound [of drainStep d] by (simp add: drainStep_def second_def)
  also have "(d div drainStep) * drainStep \<le> int n * drainStep"
    using assms by (intro mult_right_mono) (simp_all add: drainStep_def second_def)
  finally show ?thesis by simp
qed

lemma wp_drain:
  assumes "pauseRuns env" "cg_drainSeconds cfg \<le> drainStep + int n * drainStep"
  shows "wp (drain (Suc (Suc n)) env cfg) (drainOver cfg (cv_now env (w_log w) + cg_drainSeconds cfg)) w"
proof -
  define t0 where "t0 = cv_now env (w_log w)"
  let ?deadline = "t0 + cg_drainSeconds cfg" and ?log = "\<lambda>new. new @ ClockEv t0 # w_log w"
  have round: "wp (drainWait env ?deadline (drainLoop (Suc n) env cfg ?deadline)) (drainOver cfg ?deadline) (w\<lparr>w_log := ?log new\<rparr>)" for new
  proof (rule wp_drainWait [OF refl], goal_cases)
    case (3 d)
    have now: "t0 \<le> cv_now env (?log new)" using assms(1) by (simp add: pauseRuns_def)
    have "?deadline - cv_now env (?log new) \<le> d + int n * drainStep" using 3 assms(2) now by (auto simp: drainStep_def second_def)
    moreover have "ClockEv (cv_now env (?log new)) \<in> set (ClockEv (cv_now env (?log new)) # ?log new)" by (rule list.set_intros(1))
    ultimately show ?case by (intro drainLoop_returns [OF assms(1), where t = "cv_now env (?log new)"]) auto
  qed auto
  show ?thesis
    using round [of "[]"] round [of "[DoneFile x y]" for x y] unfolding drain_def drainLoop.simps(2) [of "Suc n"]
    by (auto simp: wp_rules fileExists_def t0_def simp del: drainLoop.simps)
qed

lemma keeps_drain: "keeps (\<lambda>w. w_mem w = m) (drain fuel env cfg)"
proof -
  have "keeps (\<lambda>w. w_mem w = m) (drainLoop fuel env cfg deadline)" for deadline
    by (induction fuel) (auto simp: drainWait_def fileExists_def Let_def intro!: keeps_rules)
  then show ?thesis unfolding drain_def by (intro keeps_rules)
qed

lemma companion_returns:
  assumes "pauseRuns env" "nat (cg_drainSeconds cfg div drainStep) + 2 \<le> fuel" "run_state (companionShutdown fuel env cfg) w = (r, w')"
  shows "drainOver cfg (cv_now env (w_log w) + cg_drainSeconds cfg) r w'" and "w_mem w' = (w_mem w)\<lparr>cs_draining := True\<rparr>"
proof -
  have fuel: "fuel = Suc (Suc (fuel - 2))" "nat (cg_drainSeconds cfg div drainStep) \<le> fuel - 2" using assms(2) by auto
  let ?w = "w\<lparr>w_mem := (w_mem w)\<lparr>cs_draining := True\<rparr>\<rparr>"
  have run: "run_state (drain fuel env cfg) ?w = (r, w')"
    using assms(3) by (simp add: companionShutdown_def setDraining_def getMem_def putMem_def run_state_bind)
  show "drainOver cfg (cv_now env (w_log w) + cg_drainSeconds cfg) r w'"
    using wp_drain [OF assms(1) drain_window [OF fuel(2)], of ?w] run fuel(1) by (simp add: wp_run)
  show "w_mem w' = (w_mem w)\<lparr>cs_draining := True\<rparr>"
    using keepsD [OF keeps_drain, of ?w "(w_mem w)\<lparr>cs_draining := True\<rparr>" fuel env cfg] run by (simp add: wp_run)
qed

text \<open>C31: \<^bold>\<open>The drain is bounded, complete and not ready.\<close> With a running clock, the shutdown returns after at most one
  round every two seconds of its window and two more. It ends because the done file was seen, because
  its context was cancelled, or when the clock has passed the whole window since the signal, and never
  before; and from then on the readiness probe answers no, without asking the daemon.\<close>

theorem companion_drain:
  assumes "pauseRuns env" "nat (cg_drainSeconds cfg div drainStep) + 2 \<le> fuel" "run_state (companionShutdown fuel env cfg) w = (r, w')"
  shows "drainOver cfg (cv_now env (w_log w) + cg_drainSeconds cfg) r w' \<and> cs_draining (w_mem w') \<and>
    run_state (companion_ready env cfg) w' = (False, w')"
  using companion_returns [OF assms] by (simp add: companion_ready_def getMem_def run_state_bind)

section \<open>The backstop\<close>

lemma usedOf_le: "(if f \<ge> g then f - g else 0) \<le> (f :: 64 word)"
  by (simp add: word_sub_le)

lemma ratioOf_unit:
  assumes "u \<le> t" shows "\<exists>v. ratioOf u t = Fin v \<and> 0 \<le> v \<and> v \<le> 1"
proof (cases "t = 0")
  case False
  have nat: "int (unat x) = uint x" for x :: "64 word" by simp
  have "unat u \<le> unat t" using assms by (simp add: word_le_nat_alt)
  moreover have "0 < unat t" using False by (simp add: unat_gt_0)
  moreover have "unat t < 2 ^ 64" using unsigned_less [of t, where 'a = nat] by simp
  ultimately have "\<exists>v. floatDiv (floatOfInt (uint u)) (floatOfInt (uint t)) = Fin v \<and> 0 \<le> v \<and> v \<le> 1"
    using ratio_unit [of "unat u" "unat t"] unfolding nat by blast
  moreover have "t > 0" using False by (simp add: word_gt_0)
  ultimately show ?thesis by (simp only: ratioOf_def if_True)
qed (simp add: ratioOf_def)

lemma bytesUsed_le:
  fixes b f s :: "64 word"
  assumes "uint b * uint s < 2 ^ 64" shows "(if b \<ge> f then (b - f) * s else 0) \<le> b * s"
proof (cases "b \<ge> f")
  case True
  have "uint (b - f) = uint b - uint f" using True by (simp add: uint_minus_simple_alt)
  then have "uint (b - f) * uint s \<le> uint b * uint s" using True by (intro mult_right_mono) simp_all
  then have "uint ((b - f) * s) \<le> uint (b * s)" using assms by (simp add: uint_word_ariths(3) take_bit_eq_mod)
  then show ?thesis using True by (simp add: word_le_def)
qed simp

text \<open>The published values are those of a sample.\<close>

definition publishedFrom :: "Statfs \<Rightarrow> companionState \<Rightarrow> bool" where
  "publishedFrom st s \<longleftrightarrow> cs_inodeRatio s = in_ratio (statsOf st) \<and> cs_inodeUsed s = in_used (statsOf st) \<and> cs_inodeTotal s = in_total (statsOf st) \<and>
     cs_bytesUsed s = in_bytesUsed (statsOf st) \<and> cs_bytesTotal s = in_bytesTotal (statsOf st)"

lemma published_bounds:
  assumes "publishedFrom st s"
  shows "(\<exists>v. cs_inodeRatio s = Fin v \<and> 0 \<le> v \<and> v \<le> 1) \<and> cs_inodeUsed s \<le> cs_inodeTotal s \<and>
    (uint (sf_Blocks st) * uint (sf_Bsize st) < 2 ^ 64 \<longrightarrow> cs_bytesUsed s \<le> cs_bytesTotal s)"
  using assms usedOf_le [of "sf_Ffree st" "sf_Files st"] ratioOf_unit [OF usedOf_le, of "sf_Ffree st" "sf_Files st"] bytesUsed_le [of "sf_Blocks st" "sf_Bsize st" "sf_Bfree st"]
  by (simp add: publishedFrom_def statsOf_def Let_def)

definition publish :: "inodeStats \<Rightarrow> companionState \<Rightarrow> companionState" where
  "publish st s = s\<lparr>cs_inodeRatio := in_ratio st, cs_inodeUsed := in_used st, cs_inodeTotal := in_total st,
     cs_bytesUsed := in_bytesUsed st, cs_bytesTotal := in_bytesTotal st\<rparr>"

lemma publish_simps [simp]: "cs_draining (publish st s) = cs_draining s" "publishedFrom st' (publish (statsOf st') s)"
  by (simp_all add: publish_def publishedFrom_def)

lemma wp_publish: "wp (publishInodes st) Q w = Q () (w\<lparr>w_mem := publish st (w_mem w)\<rparr>)"
  by (simp add: publishInodes_def wp_rules publish_def)

text \<open>The runs of a check: the volume cannot be read; usage is low; the prune fails; the volume cannot be read after
  it; or it can.\<close>

inductive checkRun :: "CompanionEnv \<Rightarrow> companionConfig \<Rightarrow> (CompanionEvent, companionState) world \<Rightarrow> (CompanionEvent, companionState) world \<Rightarrow> bool"
  for env cfg w where
  unread: "cv_statfs env (w_log w) (cg_cacheDir cfg) = Inl e \<Longrightarrow> checkRun env cfg w (w\<lparr>w_log := StatfsEv (cg_cacheDir cfg) (Inl e) # w_log w\<rparr>)"
| low: "cv_statfs env (w_log w) (cg_cacheDir cfg) = Inr st \<Longrightarrow> floatLe (in_ratio (statsOf st)) (cg_inodeThreshold cfg) \<Longrightarrow>
    checkRun env cfg w \<lparr>w_log = StatfsEv (cg_cacheDir cfg) (Inr st) # w_log w, w_mem = publish (statsOf st) (w_mem w)\<rparr>"
| pruned: "cv_statfs env (w_log w) (cg_cacheDir cfg) = Inr st \<Longrightarrow> \<not> floatLe (in_ratio (statsOf st)) (cg_inodeThreshold cfg) \<Longrightarrow>
    after = [] \<or> (\<exists>e. after = [StatfsEv (cg_cacheDir cfg) (Inl e)]) \<Longrightarrow>
    checkRun env cfg w \<lparr>w_log = after @ Buildctl (pruneArgs cfg) x # StatfsEv (cg_cacheDir cfg) (Inr st) # w_log w, w_mem = publish (statsOf st) (w_mem w)\<rparr>"
| resampled: "cv_statfs env (w_log w) (cg_cacheDir cfg) = Inr st \<Longrightarrow> \<not> floatLe (in_ratio (statsOf st)) (cg_inodeThreshold cfg) \<Longrightarrow>
    checkRun env cfg w \<lparr>w_log = [StatfsEv (cg_cacheDir cfg) (Inr st'), Buildctl (pruneArgs cfg) x, StatfsEv (cg_cacheDir cfg) (Inr st)] @ w_log w,
      w_mem = publish (statsOf st') (publish (statsOf st) (w_mem w))\<rparr>"

lemma checkInodes_run: "wp (checkInodes env cfg) (\<lambda>_. checkRun env cfg w) w"
proof (cases "cv_statfs env (w_log w) (cg_cacheDir cfg)")
  case (Inl e)
  then show ?thesis by (simp add: checkInodes_def statInodes_def wp_rules checkRun.unread)
next
  case (Inr st)
  show ?thesis
  proof (cases "floatLe (in_ratio (statsOf st)) (cg_inodeThreshold cfg)")
    case True
    then show ?thesis using checkRun.low [OF Inr True] Inr by (cases w) (simp add: checkInodes_def statInodes_def wp_rules wp_publish)
  next
    case False
    note p = checkRun.pruned [OF Inr False, where after = "[]", simplified] checkRun.pruned [OF Inr False, where after = "[x]" for x, simplified]
      checkRun.resampled [OF Inr False, simplified]
    show ?thesis using p Inr False
      by (cases w) (auto simp: checkInodes_def statInodes_def pruneCache_def runBuildctl_def wp_rules wp_publish split: ExecResult.split sum.split)
  qed
qed

text \<open>\<^bold>\<open>The cache is pruned exactly when inodes run out, and what is published is a sample.\<close> A check runs \<open>buildctl prune\<close>
  if and only if the volume could be read and its inode ratio is not at or below the threshold. After
  it, the published numbers are those of the newest sample that could be read, or what they were when
  none could: the ratio is a number from 0 to 1, the used count is at most the total, and so are the
  bytes unless their product overflows 64 bits. The draining flag is left alone.\<close>

theorem inode_check_exact:
  assumes "run_state (checkInodes env cfg) w = (u, w')"
  shows "\<exists>new. w_log w' = new @ w_log w \<and> cs_draining (w_mem w') = cs_draining (w_mem w) \<and>
    ((\<exists>x. Buildctl (pruneArgs cfg) x \<in> set new) \<longleftrightarrow>
       (\<exists>st. cv_statfs env (w_log w) (cg_cacheDir cfg) = Inr st \<and> \<not> floatLe (in_ratio (statsOf st)) (cg_inodeThreshold cfg))) \<and>
    (if \<exists>st. StatfsEv (cg_cacheDir cfg) (Inr st) \<in> set new
     then \<exists>st. StatfsEv (cg_cacheDir cfg) (Inr st) \<in> set new \<and> publishedFrom st (w_mem w') \<and>
       (\<exists>v. cs_inodeRatio (w_mem w') = Fin v \<and> 0 \<le> v \<and> v \<le> 1) \<and> cs_inodeUsed (w_mem w') \<le> cs_inodeTotal (w_mem w') \<and>
       (uint (sf_Blocks st) * uint (sf_Bsize st) < 2 ^ 64 \<longrightarrow> cs_bytesUsed (w_mem w') \<le> cs_bytesTotal (w_mem w'))
     else w_mem w' = w_mem w)"
  using checkInodes_run [of env cfg w] unfolding wp_run assms snd_conv
proof (cases rule: checkRun.cases)
  case (unread e)
  then show ?thesis by (intro exI [of _ "[StatfsEv (cg_cacheDir cfg) (Inl e)]"]) auto
next
  case (low st)
  then show ?thesis using published_bounds [of st "w_mem w'"]
    by (intro exI [of _ "[StatfsEv (cg_cacheDir cfg) (Inr st)]"]) auto
next
  case (pruned st after x)
  then show ?thesis using published_bounds [of st "w_mem w'"]
    by (intro exI [of _ "after @ [Buildctl (pruneArgs cfg) x, StatfsEv (cg_cacheDir cfg) (Inr st)]"]) auto
next
  case (resampled st st' x)
  then show ?thesis using published_bounds [of st' "w_mem w'"]
    by (intro exI [of _ "[StatfsEv (cg_cacheDir cfg) (Inr st'), Buildctl (pruneArgs cfg) x, StatfsEv (cg_cacheDir cfg) (Inr st)]"]) auto
qed

section \<open>Witnesses\<close>

text \<open>A clock that runs, as a function of the log; a volume with all of its eight inodes in use until it is pruned, and
  two after.\<close>

fun pausedClock :: "CompanionEvent list \<Rightarrow> time" where
  "pausedClock [] = 0"
| "pausedClock (ClockEv t # l) = max t (pausedClock l)"
| "pausedClock (SleepEv d False # l) = pausedClock l + max d 0"
| "pausedClock (_ # l) = pausedClock l"

lemma pausedClock_mono: "pausedClock l \<le> pausedClock (new @ l)"
proof (induction new)
  case (Cons e new)
  then show ?case by (cases "(e # new @ l)" rule: pausedClock.cases) auto
qed simp

lemma pausedClock_ge: "ClockEv t \<in> set l \<Longrightarrow> t \<le> pausedClock l"
proof (induction l)
  case (Cons e l)
  then show ?case by (cases "(e # l)" rule: pausedClock.cases) auto
qed simp

definition fullVolume :: CompanionEnv where
  "fullVolume =
     \<lparr>cv_statfs = (\<lambda>l dir. Inr \<lparr>sf_Files = 8, sf_Ffree = (if l = [] then 0 else 6), sf_Blocks = 4, sf_Bfree = 2, sf_Bsize = 4096\<rparr>),
      cv_buildctl = (\<lambda>l args. Ran []), cv_exists = (\<lambda>l path. False), cv_now = pausedClock, cv_cancelled = (\<lambda>l d. False)\<rparr>"

definition exampleCompanion :: companionConfig where
  "exampleCompanion = \<lparr>cg_buildkitAddr = ''unix:///run/buildkit/buildkitd.sock'', cg_cacheDir = ''/var/lib/buildkit'', cg_listen = '':8080'',
     cg_inodeCheckInterval = 60 * second, cg_inodeThreshold = Fin (85/100),
     cg_drainSeconds = 7 * second, cg_drainDoneFile = []\<rparr>"

lemma pauseRuns_fullVolume: "pauseRuns fullVolume"
proof -
  have "t \<le> pausedClock (new @ l)" if "ClockEv t \<in> set l" for new l t
    using pausedClock_ge [OF that] pausedClock_mono [of l new] by linarith
  moreover have "t + d \<le> pausedClock (new @ SleepEv d False # l)" if "ClockEv t \<in> set l" for new d l t
    using pausedClock_ge [OF that] pausedClock_mono [of "SleepEv d False # l" new] by simp
  ultimately show ?thesis by (simp add: pauseRuns_def fullVolume_def)
qed

theorem companion_drain_witness:
  "\<exists>r w'. run_state (companionShutdown 5 fullVolume exampleCompanion) \<lparr>w_log = [], w_mem = newCompanionState\<rparr> = (r, w') \<and>
     drainOver exampleCompanion (7 * second) r w' \<and> run_state (companion_ready fullVolume exampleCompanion) w' = (False, w')"
proof -
  let ?w = "\<lparr>w_log = [], w_mem = newCompanionState\<rparr>"
  obtain r w' where run: "run_state (companionShutdown 5 fullVolume exampleCompanion) ?w = (r, w')" by fastforce
  have "nat (cg_drainSeconds exampleCompanion div drainStep) + 2 \<le> 5" by (simp add: exampleCompanion_def drainStep_def second_def)
  from companion_drain [OF pauseRuns_fullVolume this run] have "drainOver exampleCompanion (7 * second) r w'"
    "run_state (companion_ready fullVolume exampleCompanion) w' = (False, w')" by (simp_all add: fullVolume_def exampleCompanion_def)
  with run show ?thesis by blast
qed

theorem inode_check_exact_witness:
  "\<exists>w'. run_state (checkInodes fullVolume exampleCompanion) \<lparr>w_log = [], w_mem = newCompanionState\<rparr> = ((), w') \<and>
     (\<exists>x. Buildctl (pruneArgs exampleCompanion) x \<in> set (w_log w')) \<and> cs_inodeUsed (w_mem w') \<le> cs_inodeTotal (w_mem w')"
proof -
  let ?w = "\<lparr>w_log = [], w_mem = newCompanionState\<rparr>"
  obtain w' where run: "run_state (checkInodes fullVolume exampleCompanion) ?w = ((), w')"
    using prod.exhaust unit.exhaust by metis
  have high: "\<exists>st. cv_statfs fullVolume [] (cg_cacheDir exampleCompanion) = Inr st \<and> \<not> floatLe (in_ratio (statsOf st)) (cg_inodeThreshold exampleCompanion)"
  proof (intro exI conjI)
    show "cv_statfs fullVolume [] (cg_cacheDir exampleCompanion) = Inr \<lparr>sf_Files = 8, sf_Ffree = 0, sf_Blocks = 4, sf_Bfree = 2, sf_Bsize = 4096\<rparr>"
      by (simp add: fullVolume_def)
    have "floatOfInt 8 = Fin 8" "roundFloat 1 = Fin 1" using floatOfInt_exact [of 8] floatOfInt_exact [of 1] by (simp_all add: floatOfInt_def)
    then show "\<not> floatLe (in_ratio (statsOf \<lparr>sf_Files = 8, sf_Ffree = 0, sf_Blocks = 4, sf_Bfree = 2, sf_Bsize = 4096\<rparr>)) (cg_inodeThreshold exampleCompanion)"
      by (simp add: statsOf_def ratioOf_def exampleCompanion_def Let_def)
  qed
  from inode_check_exact [OF run] obtain new where new: "w_log w' = new"
    "(\<exists>x. Buildctl (pruneArgs exampleCompanion) x \<in> set new) \<longleftrightarrow>
       (\<exists>st. cv_statfs fullVolume [] (cg_cacheDir exampleCompanion) = Inr st \<and> \<not> floatLe (in_ratio (statsOf st)) (cg_inodeThreshold exampleCompanion))"
    "(\<exists>st. StatfsEv (cg_cacheDir exampleCompanion) (Inr st) \<in> set new) \<longrightarrow> cs_inodeUsed (w_mem w') \<le> cs_inodeTotal (w_mem w')"
    "\<not> (\<exists>st. StatfsEv (cg_cacheDir exampleCompanion) (Inr st) \<in> set new) \<longrightarrow> w_mem w' = newCompanionState"
    by (auto split: if_splits)
  moreover have "cs_inodeUsed newCompanionState \<le> cs_inodeTotal newCompanionState" by (simp add: newCompanionState_def)
  ultimately have "\<exists>x. Buildctl (pruneArgs exampleCompanion) x \<in> set (w_log w')" "cs_inodeUsed (w_mem w') \<le> cs_inodeTotal (w_mem w')"
    using high by metis+
  with run show ?thesis by blast
qed

end
