(* ===== verification/Companion_Pod.thy ===== *)
theory Companion_Pod
  imports Companion Autogrow Go_Time
begin

text \<open>
  The companion as the operator deploys it. Its flags (\<open>newRootCmd\<close> with the environment fallbacks of \<open>env.go\<close>)
  are read from the container that \<open>statefulset.go\<close> renders, and its usage endpoint by the prober of
  \<open>autogrow.go\<close>. The flag library, \<open>time.ParseDuration\<close>, \<open>strconv.ParseFloat\<close>, the HTTP transport and \<open>encoding/json\<close>
  are parameters.
\<close>

section \<open>Flags\<close>

type_synonym environ = "string \<rightharpoonup> string"

definition envOr :: "environ \<Rightarrow> string \<Rightarrow> string \<Rightarrow> string" where
  "envOr environ key def = (case environ key of Some v \<Rightarrow> if v \<noteq> [] then v else def | None \<Rightarrow> def)"

definition envParsedOr :: "(string \<Rightarrow> 'a option) \<Rightarrow> environ \<Rightarrow> string \<Rightarrow> 'a \<Rightarrow> 'a" where
  "envParsedOr parse environ key def =
     (case environ key of
        None \<Rightarrow> def
      | Some v \<Rightarrow> if v = [] then def else (case parse v of None \<Rightarrow> def | Some x \<Rightarrow> x))"

record Parsers =
  ps_duration :: "string \<Rightarrow> duration option"
  ps_float :: "string \<Rightarrow> float64 option"

definition envDurationOr :: "Parsers \<Rightarrow> environ \<Rightarrow> string \<Rightarrow> duration \<Rightarrow> duration" where
  "envDurationOr ps = envParsedOr (ps_duration ps)"

definition envFloatOr :: "Parsers \<Rightarrow> environ \<Rightarrow> string \<Rightarrow> float64 \<Rightarrow> float64" where
  "envFloatOr ps = envParsedOr (ps_float ps)"

definition companionDefaults :: "Parsers \<Rightarrow> environ \<Rightarrow> companionConfig" where
  "companionDefaults ps environ =
     \<lparr>cg_buildkitAddr = envOr environ ''BUILDKIT_OPERATOR_BUILDKIT_ADDR'' ''unix:///run/user/1000/buildkit/buildkitd.sock'',
      cg_cacheDir = envOr environ ''BUILDKIT_OPERATOR_CACHE_DIR'' ''/home/user/.local/share/buildkit'',
      cg_listen = envOr environ ''BUILDKIT_OPERATOR_LISTEN'' '':8080'',
      cg_inodeCheckInterval = envDurationOr ps environ ''BUILDKIT_OPERATOR_INODE_CHECK_INTERVAL'' (60 * second),
      cg_inodeThreshold = envFloatOr ps environ ''BUILDKIT_OPERATOR_INODE_THRESHOLD'' (roundFloat (95 / 100)),
      cg_drainSeconds = envDurationOr ps environ ''BUILDKIT_OPERATOR_DRAIN_SECONDS'' (120 * second),
      cg_drainDoneFile = envOr environ ''BUILDKIT_OPERATOR_DRAIN_DONE_FILE'' []\<rparr>"

text \<open>The variable a flag writes; \<^const>\<open>None\<close> for a value that does not parse.\<close>

definition setFlag :: "Parsers \<Rightarrow> string \<Rightarrow> string \<Rightarrow> companionConfig \<Rightarrow> companionConfig option" where
  "setFlag ps name v c =
     (if name = ''buildkit-addr'' then Some (c\<lparr>cg_buildkitAddr := v\<rparr>)
      else if name = ''cache-dir'' then Some (c\<lparr>cg_cacheDir := v\<rparr>)
      else if name = ''listen'' then Some (c\<lparr>cg_listen := v\<rparr>)
      else if name = ''inode-check-interval'' then map_option (\<lambda>d. c\<lparr>cg_inodeCheckInterval := d\<rparr>) (ps_duration ps v)
      else if name = ''inode-threshold'' then map_option (\<lambda>x. c\<lparr>cg_inodeThreshold := x\<rparr>) (ps_float ps v)
      else if name = ''drain-seconds'' then map_option (\<lambda>d. c\<lparr>cg_drainSeconds := d\<rparr>) (ps_duration ps v)
      else if name = ''drain-done-file'' then Some (c\<lparr>cg_drainDoneFile := v\<rparr>)
      else None)"

fun setFlags :: "Parsers \<Rightarrow> (string \<times> string) list \<Rightarrow> companionConfig \<Rightarrow> companionConfig option" where
  "setFlags ps [] c = Some c"
| "setFlags ps ((name, v) # rest) c = (case setFlag ps name v c of None \<Rightarrow> None | Some c' \<Rightarrow> setFlags ps rest c')"

text \<open>\<open>newRootCmd\<close> up to \<open>run\<close>. \<open>pflag\<close> turns the command line into the assignments it makes, in order.\<close>

definition companionCmd :: "(string list \<Rightarrow> (string \<times> string) list option) \<Rightarrow> Parsers \<Rightarrow> environ \<Rightarrow> string list \<Rightarrow> companionConfig option" where
  "companionCmd pflag ps environ args =
     (case pflag args of None \<Rightarrow> None | Some sets \<Rightarrow> setFlags ps sets (companionDefaults ps environ))"

definition companionFlags :: "string list" where
  "companionFlags = [''buildkit-addr'', ''cache-dir'', ''listen'', ''inode-check-interval'', ''inode-threshold'', ''drain-seconds'', ''drain-done-file'']"

text \<open>The documented syntax \<open>--flag=value\<close> of the flag library.\<close>

definition longFlag :: "string \<times> string \<Rightarrow> string" where
  "longFlag nv = ''--'' @ fst nv @ ''='' @ snd nv"

definition readsLongFlags :: "(string list \<Rightarrow> (string \<times> string) list option) \<Rightarrow> bool" where
  "readsLongFlags pflag \<longleftrightarrow> (\<forall>sets. (\<forall>nv \<in> set sets. fst nv \<in> set companionFlags) \<longrightarrow> pflag (map longFlag sets) = Some sets)"

section \<open>The rendered companion\<close>

abbreviation podPaths :: "BuildProject \<Rightarrow> Config \<Rightarrow> string \<times> string \<times> string" where
  "podPaths bp cfg \<equiv> daemonPaths (fst (profileImage bp cfg))"

definition podCompanion :: "(string list \<Rightarrow> (string \<times> string) list option) \<Rightarrow> Parsers \<Rightarrow> BuildProject \<Rightarrow> Config \<Rightarrow> companionConfig option" where
  "podCompanion pflag ps bp cfg =
     companionCmd pflag ps (map_of (ct_Env (companionContainer bp cfg))) (ct_Args (companionContainer bp cfg))"

lemma podCompanion_config:
  assumes "readsLongFlags pflag"
  shows "podCompanion pflag ps bp cfg =
    Some \<lparr>cg_buildkitAddr = fst (snd (podPaths bp cfg)), cg_cacheDir = fst (podPaths bp cfg), cg_listen = '':'' @ itoa (cf_HealthPort cfg),
      cg_inodeCheckInterval = 60 * second, cg_inodeThreshold = roundFloat (95 / 100), cg_drainSeconds = 120 * second, cg_drainDoneFile = []\<rparr>"
proof -
  let ?sets = "[(''buildkit-addr'', fst (snd (podPaths bp cfg))), (''cache-dir'', fst (podPaths bp cfg)), (''listen'', '':'' @ itoa (cf_HealthPort cfg))]"
  have "ct_Args (companionContainer bp cfg) = map longFlag ?sets" by (simp add: companionContainer_fields longFlag_def)
  moreover have "\<forall>nv \<in> set ?sets. fst nv \<in> set companionFlags" by (simp add: companionFlags_def)
  ultimately have "pflag (ct_Args (companionContainer bp cfg)) = Some ?sets" using assms unfolding readsLongFlags_def by metis
  moreover have "ct_Env (companionContainer bp cfg) = []" by (simp add: companionContainer_def Let_def split: prod.split)
  ultimately show ?thesis
    by (simp add: podCompanion_def companionCmd_def companionDefaults_def envOr_def envDurationOr_def envFloatOr_def envParsedOr_def setFlag_def)
qed

section \<open>The drain and the grace period\<close>

text \<open>Nobody cancels \<open>context.Background()\<close>.\<close>

definition neverCancelled :: "CompanionEnv \<Rightarrow> bool" where
  "neverCancelled env \<longleftrightarrow> (\<forall>l d. \<not> cv_cancelled env l d)"

abbreviation uncancelled :: "(CompanionEvent, companionState) world \<Rightarrow> bool" where
  "uncancelled w \<equiv> \<forall>d. SleepEv d True \<notin> set (w_log w)"

lemma keeps_uncancelled_call: "(\<And>l d. ev (f l) \<noteq> SleepEv d True) \<Longrightarrow> keeps uncancelled (call f ev)"
  by (auto simp: keeps_def wp_call) metis

lemma keeps_uncancelled_put: "keeps uncancelled (putMem m)"
  by (simp add: keeps_def wp_putMem)

lemma keeps_uncancelled:
  assumes "neverCancelled env" shows "keeps uncancelled (companionShutdown fuel env cfg)"
proof -
  note rules = keeps_rules keeps_uncancelled_call keeps_uncancelled_put
  have "keeps uncancelled (drainLoop fuel env cfg deadline)" for deadline
    using assms by (induction fuel) (auto simp: drainWait_def fileExists_def Let_def neverCancelled_def intro!: rules)
  then show ?thesis by (auto simp: companionShutdown_def setDraining_def drain_def intro!: rules)
qed

text \<open>C30: \<^bold>\<open>The drain of a deployed companion outlasts the pod's grace period.\<close> The operator renders the companion
  with no \<open>--drain-seconds\<close> and no done file, so its window is the default of two minutes, which is also the
  grace period of the pod: with a running clock the drain returns, never because of the done file, and
  only once the clock has passed the signal by the whole \<open>terminationGracePeriodSeconds\<close>, the moment the kubelet kills what
  is left of the pod. The shutdown of the server and the clean exit come after it.\<close>

theorem drain_outlasts_grace:
  assumes "readsLongFlags pflag" "podCompanion pflag ps bp cfg = Some g" "pauseRuns env" "neverCancelled env" "62 \<le> fuel"
    "run_state (companionShutdown fuel env g) \<lparr>w_log = [], w_mem = newCompanionState\<rparr> = (r, w')"
  shows "r = Some DrainElapsed \<and> (\<exists>t. ClockEv t \<in> set (w_log w') \<and>
    cv_now env [] + pt_TerminationGracePeriodSeconds (ss_Template (StatefulSetOf bp cfg)) * second \<le> t)"
proof -
  let ?w = "\<lparr>w_log = [], w_mem = newCompanionState\<rparr>"
  have g: "cg_drainSeconds g = 120 * second" "cg_drainDoneFile g = []"
    using assms(2) unfolding podCompanion_config [OF assms(1)] by auto
  have "nat (cg_drainSeconds g div drainStep) + 2 \<le> fuel" using assms(5) by (simp add: g drainStep_def second_def)
  from companion_returns [OF assms(3) this assms(6)] have over: "drainOver g (cv_now env [] + 120 * second) r w'" by (simp add: g)
  have "wp (companionShutdown fuel env g) (\<lambda>_. uncancelled) ?w"
    by (rule keepsD [OF keeps_uncancelled [OF assms(4)]]) simp
  then have "uncancelled w'" by (simp add: wp_run assms(6))
  with over g have "r = Some DrainElapsed" by (auto simp: drainOver_def split: option.splits DrainEnd.splits)
  moreover have "pt_TerminationGracePeriodSeconds (ss_Template (StatefulSetOf bp cfg)) = 120"
    by (simp add: StatefulSetOf_def podTemplateOf_def Let_def)
  ultimately show ?thesis using over by simp
qed

section \<open>The usage probe\<close>

text \<open>A JSON value as \<open>encoding/json\<close> reads it: numbers are kept as their literals until the type of the target is
  known, and members in the order of the text.\<close>

datatype Json = JNull | JBool bool | JNum string | JStr string | JArr "Json list" | JObj "(string \<times> Json) list"

text \<open>Decoding into a \<open>uint64\<close>: \<open>null\<close> leaves the field as it is, a literal of digits within the range sets it,
  anything else is an error that leaves the field as it is. The flag says that there was one.\<close>

definition decodeUint64 :: "Json \<Rightarrow> 64 word \<Rightarrow> 64 word \<times> bool" where
  "decodeUint64 j old =
     (case j of
        JNull \<Rightarrow> (old, False)
      | JNum n \<Rightarrow> if n \<noteq> [] \<and> list_all (\<lambda>c. c \<in> set digitChars) n \<and> digitsVal n < 2 ^ 64 then (word_of_nat (digitsVal n), False) else (old, True)
      | _ \<Rightarrow> (old, True))"

text \<open>The struct of the prober with its two tags: a member goes to the field with that very tag, else to one whose
  tag differs in case only, else it is ignored. A later member overwrites an earlier one, and the first
  error is reported after all of them.\<close>

datatype UsageField = FieldBytesUsed | FieldBytesTotal

definition usageTag :: "UsageField \<Rightarrow> string" where
  "usageTag f = (case f of FieldBytesUsed \<Rightarrow> ''bytesUsed'' | FieldBytesTotal \<Rightarrow> ''bytesTotal'')"

definition usageField :: "string \<Rightarrow> UsageField option" where
  "usageField key =
     (case find (\<lambda>f. usageTag f = key) [FieldBytesUsed, FieldBytesTotal] of
        Some f \<Rightarrow> Some f
      | None \<Rightarrow> find (\<lambda>f. toLower (usageTag f) = toLower key) [FieldBytesUsed, FieldBytesTotal])"

definition setUsage :: "string \<times> Json \<Rightarrow> (64 word \<times> 64 word) \<times> bool \<Rightarrow> (64 word \<times> 64 word) \<times> bool" where
  "setUsage m acc =
     (case (usageField (fst m), acc) of
        (None, _) \<Rightarrow> acc
      | (Some FieldBytesUsed, ((u, t), bad)) \<Rightarrow> (case decodeUint64 (snd m) u of (u', e) \<Rightarrow> ((u', t), bad \<or> e))
      | (Some FieldBytesTotal, ((u, t), bad)) \<Rightarrow> (case decodeUint64 (snd m) t of (t', e) \<Rightarrow> ((u, t'), bad \<or> e)))"

definition decodeUsage :: "Json \<Rightarrow> string + 64 word \<times> 64 word" where
  "decodeUsage j =
     (case j of
        JNull \<Rightarrow> Inr (0, 0)
      | JObj ms \<Rightarrow> (case fold setUsage ms ((0, 0), False) of (ut, bad) \<Rightarrow> if bad then Inl ''json: cannot unmarshal'' else Inr ut)
      | _ \<Rightarrow> Inl ''json: cannot unmarshal'')"

text \<open>\<open>HTTPUsageProber\<close>. The transport answers a URL with a failure or a status and a body, of which at most 4096 bytes
  are read; \<open>readJSON\<close> is the scanner of \<open>encoding/json\<close>, which reads the first value of a text.\<close>

definition usageProber :: "(string \<Rightarrow> string + nat \<times> string) \<Rightarrow> (string \<Rightarrow> string + Json) \<Rightarrow> int \<Rightarrow> string \<Rightarrow> string + nat \<times> nat" where
  "usageProber get readJSON healthPort podIP =
     (case get (''http://'' @ podIP @ '':'' @ itoa healthPort @ ''/usage'') of
        Inl e \<Rightarrow> Inl e
      | Inr (status, body) \<Rightarrow>
          if status \<noteq> 200 then Inl (''companion /usage: HTTP '' @ decimal status)
          else (case readJSON (take 4096 body) of
                  Inl e \<Rightarrow> Inl (''companion /usage: '' @ e)
                | Inr j \<Rightarrow>
                    (case decodeUsage j of
                       Inl e \<Rightarrow> Inl (''companion /usage: '' @ e)
                     | Inr (u, t) \<Rightarrow> Inr (unat u, unat t))))"

text \<open>What JSON says of the text of an object whose keys are plain and whose values are numbers: it is that object,
  whatever the keys and the numbers are.\<close>

definition plainKey :: "string \<Rightarrow> bool" where
  "plainKey k \<longleftrightarrow> list_all (\<lambda>c. 0x20 \<le> (of_char c :: nat) \<and> of_char c < (0x7F :: nat) \<and> c \<noteq> CHR 0x22 \<and> c \<noteq> CHR 0x5C) k"

definition digits1 :: "string \<Rightarrow> bool" where
  "digits1 s \<longleftrightarrow> s \<noteq> [] \<and> list_all (\<lambda>c. c \<in> set digitChars) s"

definition jsonNumber :: "string \<Rightarrow> bool" where
  "jsonNumber s \<longleftrightarrow> (\<exists>sign i frac expo. s = sign @ i @ frac @ expo \<and> sign \<in> {[], ''-''} \<and> digits1 i \<and> (i = ''0'' \<or> hd i \<noteq> CHR ''0'') \<and>
     (frac = [] \<or> (\<exists>ds. frac = ''.'' @ ds \<and> digits1 ds)) \<and>
     (expo = [] \<or> (\<exists>e sg ds. expo = e @ sg @ ds \<and> e \<in> {''e'', ''E''} \<and> sg \<in> {[], ''+'', ''-''} \<and> digits1 ds)))"

fun jsonMembers :: "(string \<times> string) list \<Rightarrow> string" where
  "jsonMembers [] = []"
| "jsonMembers [(k, n)] = quoted k @ '':'' @ n"
| "jsonMembers ((k, n) # m # ms) = quoted k @ '':'' @ n @ '','' @ jsonMembers (m # ms)"

definition readsObjects :: "(string \<Rightarrow> string + Json) \<Rightarrow> bool" where
  "readsObjects readJSON \<longleftrightarrow>
     (\<forall>ms. list_all (\<lambda>(k, n). plainKey k \<and> jsonNumber n) ms \<longrightarrow>
        readJSON (''{'' @ jsonMembers ms @ ''}'' @ [CHR 0x0A]) = Inr (JObj (map (\<lambda>(k, n). (k, JNum n)) ms)))"

text \<open>What \<open>fmt\<close> says of \<open>%g\<close>: a finite float prints as a number of at most 32 characters.\<close>

definition printsNumbers :: "(float64 \<Rightarrow> string) \<Rightarrow> bool" where
  "printsNumbers fmtG \<longleftrightarrow> (\<forall>v. jsonNumber (fmtG (Fin v)) \<and> length (fmtG (Fin v)) \<le> 32)"

lemma hd_decimal: "0 < n \<Longrightarrow> hd (decimal n) \<noteq> CHR ''0''"
proof (induction n rule: decimal.induct)
  case (1 n)
  have z: "CHR ''0'' = digitChars ! 0" by (simp add: digitChars_def)
  show ?case
  proof (cases "n < 10")
    case True
    then show ?thesis using 1(2) z digitChars_inj [of n 0] by (auto simp: decimal_small)
  next
    case False
    then show ?thesis using 1 by (simp add: decimal_big)
  qed
qed

lemma jsonNumber_decimal: "jsonNumber (decimal n)"
proof -
  have "decimal 0 = ''0''" by (simp add: decimal_small digitChars_def)
  then have "decimal n = ''0'' \<or> hd (decimal n) \<noteq> CHR ''0''" using hd_decimal [of n] by (cases "n = 0") auto
  moreover have "digits1 (decimal n)" using decimal_digits [of n] by (auto simp: digits1_def list_all_iff)
  ultimately show ?thesis unfolding jsonNumber_def by (intro exI [of _ "[]"] exI [of _ "decimal n"]) auto
qed

lemma usageBody_json:
  "usageBody u t g = ''{'' @ jsonMembers [(''bytesUsed'', decimal (unat u)), (''bytesTotal'', decimal (unat t)), (''inodeRatio'', g)] @ ''}'' @ [CHR 0x0A]"
  by (simp add: usageBody_def)

lemma decode_usage:
  "decodeUsage (JObj [(''bytesUsed'', JNum (decimal (unat u))), (''bytesTotal'', JNum (decimal (unat t))), (''inodeRatio'', JNum g)]) = Inr (u, t)"
proof -
  have "decodeUint64 (JNum (decimal (unat w))) old = (w, False)" for w old :: "64 word"
    using decimal_digits [of "unat w"] unsigned_less [of w, where 'a = nat]
    by (auto simp: decodeUint64_def digitsVal_decimal list_all_iff)
  moreover have "usageField ''bytesUsed'' = Some FieldBytesUsed" "usageField ''bytesTotal'' = Some FieldBytesTotal" "usageField ''inodeRatio'' = None"
    by code_simp+
  ultimately show ?thesis by (simp add: decodeUsage_def setUsage_def)
qed

lemma length_usageBody: "length g \<le> 32 \<Longrightarrow> length (usageBody u t g) \<le> 4096"
proof -
  have "length (decimal (unat w)) \<le> 20" for w :: "64 word"
    using length_decimal [of "unat w" 20] unsigned_less [of w, where 'a = nat] by simp
  from this [of u] this [of t] show "length g \<le> 32 \<Longrightarrow> ?thesis" by (simp add: usageBody_def quoted_def)
qed

lemma probe_reads_companion:
  assumes "readsObjects readJSON" "printsNumbers fmtG" "cs_inodeRatio (w_mem w) = Fin v"
    "get (''http://'' @ ip @ '':'' @ itoa port @ ''/usage'') = Inr (fst (run_state (companionServe fmtG env cfg Usage) w))"
  shows "usageProber get readJSON port ip = Inr (unat (cs_bytesUsed (w_mem w)), unat (cs_bytesTotal (w_mem w)))"
proof -
  let ?u = "cs_bytesUsed (w_mem w)" and ?t = "cs_bytesTotal (w_mem w)" and ?g = "fmtG (Fin v)"
  let ?ms = "[(''bytesUsed'', decimal (unat ?u)), (''bytesTotal'', decimal (unat ?t)), (''inodeRatio'', ?g)]"
  have g: "jsonNumber ?g" "length ?g \<le> 32" using assms(2) by (simp_all add: printsNumbers_def)
  have ok: "list_all (\<lambda>(k, n). plainKey k \<and> jsonNumber n) ?ms" using g(1) jsonNumber_decimal by (simp add: plainKey_def)
  have "readJSON (usageBody ?u ?t ?g) = Inr (JObj (map (\<lambda>(k, n). (k, JNum n)) ?ms))"
    using assms(1) ok unfolding readsObjects_def usageBody_json by blast
  then show ?thesis using assms(3,4) length_usageBody [OF g(2), of ?u ?t] decode_usage
    by (simp add: usageProber_def companionServe_def getMem_def run_state_bind)
qed

section \<open>What auto-grow is told\<close>

text \<open>The published numbers are the zeros of a new companion or those of a sample of the volume.\<close>

definition publishedOf :: "CompanionEnv \<Rightarrow> companionConfig \<Rightarrow> companionState \<Rightarrow> bool" where
  "publishedOf env cfg s \<longleftrightarrow>
     cs_inodeRatio s = Fin 0 \<and> cs_bytesUsed s = 0 \<and> cs_bytesTotal s = 0 \<or>
     (\<exists>l st. cv_statfs env l (cg_cacheDir cfg) = Inr st \<and> publishedFrom st s)"

lemma keeps_published: "keeps (\<lambda>w. publishedOf env cfg (w_mem w)) (checkInodes env cfg)"
proof -
  have "publishedOf env cfg (publish (statsOf st) s)" if "cv_statfs env l (cg_cacheDir cfg) = Inr st" for l st s
    unfolding publishedOf_def using that publish_simps(2) by blast
  then have "wp (checkInodes env cfg) (\<lambda>_ w. publishedOf env cfg (w_mem w)) w" if "publishedOf env cfg (w_mem w)" for w
    using that unfolding checkInodes_def statInodes_def pruneCache_def runBuildctl_def wp_rules wp_publish
    by (auto split: sum.split option.split ExecResult.split if_splits)
  then show ?thesis by (simp add: keeps_def)
qed

lemma keeps_inodeChecks: "keeps (\<lambda>w. publishedOf env cfg (w_mem w)) (inodeChecks ticks env cfg)"
  by (induction ticks) (auto intro!: keeps_rules keeps_published)

text \<open>C33: \<^bold>\<open>Auto-grow is told the truth.\<close> After any number of checks of a new companion, the prober on its usage
  endpoint returns the two published byte counts: the body is within its limit of 4096 bytes, and the
  members it reads are the ones its struct's tags ask for. \<open>encoding/json\<close> reads an object of plain keys and
  numbers as such, and \<open>%g\<close> prints a number: both are hypotheses that do not mention the program's keys. When
  the volume's size fits 64 bits, the used count is at most the total, the percentage auto-grow computes
  from them is a number from 0 to 100, and before the first sample both are zero, on which no growth is
  decided.\<close>

theorem usage_reaches_autogrow:
  assumes "readsObjects readJSON" "printsNumbers fmtG" "run_state (inodeLoop ticks env cfg) \<lparr>w_log = [], w_mem = newCompanionState\<rparr> = (r, w)"
    "get (''http://'' @ ip @ '':'' @ itoa port @ ''/usage'') = Inr (fst (run_state (companionServe fmtG env cfg Usage) w))"
    "\<And>l st. cv_statfs env l (cg_cacheDir cfg) = Inr st \<Longrightarrow> uint (sf_Blocks st) * uint (sf_Bsize st) < 2 ^ 64"
  shows "\<exists>used tot. usageProber get readJSON port ip = Inr (used, tot) \<and> used = unat (cs_bytesUsed (w_mem w)) \<and>
    tot = unat (cs_bytesTotal (w_mem w)) \<and> used \<le> tot \<and> (tot \<noteq> 0 \<longrightarrow> (\<exists>p. usedPercent used tot = Fin p \<and> 0 \<le> p \<and> p \<le> 100))"
proof -
  let ?w = "\<lparr>w_log = [], w_mem = newCompanionState\<rparr>"
  have "keeps (\<lambda>w. publishedOf env cfg (w_mem w)) (inodeLoop ticks env cfg)"
    unfolding inodeLoop_def by (intro keeps_rules keeps_inodeChecks)
  moreover have "publishedOf env cfg (w_mem ?w)" by (simp add: publishedOf_def newCompanionState_def)
  ultimately have "wp (inodeLoop ticks env cfg) (\<lambda>_ w. publishedOf env cfg (w_mem w)) ?w" by (rule keepsD)
  then have pub: "publishedOf env cfg (w_mem w)" by (simp add: wp_run assms(3))
  then have "(\<exists>v. cs_inodeRatio (w_mem w) = Fin v) \<and> cs_bytesUsed (w_mem w) \<le> cs_bytesTotal (w_mem w)"
    unfolding publishedOf_def using published_bounds assms(5) by fastforce
  then obtain v where v: "cs_inodeRatio (w_mem w) = Fin v" "unat (cs_bytesUsed (w_mem w)) \<le> unat (cs_bytesTotal (w_mem w))"
    by (auto simp: word_le_nat_alt)
  have "unat (cs_bytesTotal (w_mem w)) < 2 ^ 64" using unsigned_less [of "cs_bytesTotal (w_mem w)", where 'a = nat] by simp
  then show ?thesis using probe_reads_companion [OF assms(1,2) v(1), of get ip port, OF assms(4)] v(2) percent_bounds [OF v(2)] by (simp add: usedPercent_def)
qed

section \<open>Witnesses\<close>

text \<open>A flag parser.\<close>

definition splitFlag :: "string \<Rightarrow> string \<times> string" where
  "splitFlag arg = (takeWhile (\<lambda>c. c \<noteq> CHR ''='') (drop 2 arg), drop 1 (dropWhile (\<lambda>c. c \<noteq> CHR ''='') (drop 2 arg)))"

lemma splitFlag_longFlag: "CHR ''='' \<notin> set (fst nv) \<Longrightarrow> splitFlag (longFlag nv) = nv"
  by (cases nv) (simp add: splitFlag_def longFlag_def takeWhile_append dropWhile_append)

lemma reads_splitFlag: "readsLongFlags (\<lambda>args. Some (map splitFlag args))"
proof -
  have "\<forall>n \<in> set companionFlags. CHR ''='' \<notin> set n" by (simp add: companionFlags_def)
  then show ?thesis by (auto simp: readsLongFlags_def splitFlag_longFlag map_idI)
qed

definition exampleParsers :: Parsers where
  "exampleParsers = \<lparr>ps_duration = (\<lambda>s. None), ps_float = (\<lambda>s. None)\<rparr>"

theorem drain_outlasts_grace_witness:
  "\<exists>g r w'. podCompanion (\<lambda>args. Some (map splitFlag args)) exampleParsers (bareProject ''p1'') zeroConfig = Some g \<and>
     run_state (companionShutdown 62 fullVolume g) \<lparr>w_log = [], w_mem = newCompanionState\<rparr> = (r, w') \<and> r = Some DrainElapsed"
proof -
  obtain g where g: "podCompanion (\<lambda>args. Some (map splitFlag args)) exampleParsers (bareProject ''p1'') zeroConfig = Some g"
    using podCompanion_config [OF reads_splitFlag] by blast
  obtain r w' where run: "run_state (companionShutdown 62 fullVolume g) \<lparr>w_log = [], w_mem = newCompanionState\<rparr> = (r, w')" by fastforce
  have "neverCancelled fullVolume" by (simp add: neverCancelled_def fullVolume_def)
  from drain_outlasts_grace [OF reads_splitFlag g pauseRuns_fullVolume this _ run] g run show ?thesis by auto
qed

text \<open>A reader of flat objects of numbers.\<close>

definition numberChar :: "char \<Rightarrow> bool" where
  "numberChar c \<longleftrightarrow> c \<in> set (digitChars @ ''+-.eE'')"

fun flatMembers :: "nat \<Rightarrow> string \<Rightarrow> (string \<times> Json) list option" where
  "flatMembers (Suc n) (q # s) =
     (let k = takeWhile (\<lambda>c. c \<noteq> CHR 0x22) s;
          v = takeWhile numberChar (drop (length k + 2) s)
      in if q \<noteq> CHR 0x22 \<or> take 2 (drop (length k) s) \<noteq> [CHR 0x22, CHR '':''] then None
         else (case drop (length k + 2 + length v) s of
                 [] \<Rightarrow> None
               | c # rest \<Rightarrow>
                   if c = CHR ''}'' then Some [(k, JNum v)]
                   else if c = CHR '','' then map_option (\<lambda>ms. (k, JNum v) # ms) (flatMembers n rest)
                   else None))"
| "flatMembers n s = None"

definition flatJSON :: "string \<Rightarrow> string + Json" where
  "flatJSON s =
     (if take 2 s = ''{}'' then Inr (JObj [])
      else if take 1 s \<noteq> ''{'' then Inl ''invalid character''
      else (case flatMembers (length s) (drop 1 s) of None \<Rightarrow> Inl ''invalid character'' | Some ms \<Rightarrow> Inr (JObj ms)))"

lemma numberChars: "jsonNumber n \<Longrightarrow> list_all numberChar n"
  unfolding jsonNumber_def digits1_def numberChar_def by (auto simp: list_all_iff)

lemma flatMember:
  assumes "plainKey k" "jsonNumber n" "c \<in> {CHR ''}'', CHR '',''}"
  shows "flatMembers (Suc m) (quoted k @ '':'' @ n @ c # rest) =
    (if c = CHR ''}'' then Some [(k, JNum n)] else map_option (\<lambda>ms. (k, JNum n) # ms) (flatMembers m rest))"
proof -
  have k: "takeWhile (\<lambda>c. c \<noteq> CHR 0x22) (k @ CHR 0x22 # x) = k" for x using assms(1)
    by (subst takeWhile_append2) (auto simp: plainKey_def list_all_iff)
  have "\<not> numberChar c" using assms(3) by (auto simp: numberChar_def digitChars_def)
  then have n: "takeWhile numberChar (n @ c # rest) = n" using numberChars [OF assms(2)]
    by (subst takeWhile_append2) (auto simp: list_all_iff)
  have s: "quoted k @ '':'' @ n @ c # rest = CHR 0x22 # (k @ CHR 0x22 # CHR '':'' # n @ c # rest)" by (simp add: quoted_def)
  show ?thesis unfolding s flatMembers.simps k using n assms(3) by (auto simp: Let_def)
qed

lemma flatMembers_json:
  "ms \<noteq> [] \<Longrightarrow> length ms \<le> fuel \<Longrightarrow> list_all (\<lambda>(k, n). plainKey k \<and> jsonNumber n) ms \<Longrightarrow>
   flatMembers fuel (jsonMembers ms @ CHR ''}'' # rest) = Some (map (\<lambda>(k, n). (k, JNum n)) ms)"
proof (induction ms arbitrary: fuel rule: jsonMembers.induct)
  case (2 k n)
  then obtain m where "fuel = Suc m" by (cases fuel) auto
  then show ?case using 2 flatMember [of k n "CHR ''}''" m rest] by simp
next
  case (3 k n m ms)
  then obtain f where f: "fuel = Suc f" by (cases fuel) auto
  then show ?case using 3 flatMember [of k n "CHR '',''" f "jsonMembers (m # ms) @ CHR ''}'' # rest"] by simp
qed simp

lemma length_jsonMembers: "length ms \<le> Suc (length (jsonMembers ms))"
  by (induction ms rule: jsonMembers.induct) auto

lemma reads_flatJSON: "readsObjects flatJSON"
proof -
  have "flatJSON (''{'' @ jsonMembers ms @ ''}'' @ [CHR 0x0A]) = Inr (JObj (map (\<lambda>(k, n). (k, JNum n)) ms))"
    if ok: "list_all (\<lambda>(k, n). plainKey k \<and> jsonNumber n) ms" for ms
  proof (cases ms)
    case Nil
    then show ?thesis by (simp add: flatJSON_def)
  next
    case (Cons m rest)
    then obtain x where "jsonMembers ms = CHR 0x22 # x" by (cases rest; cases m) (auto simp: quoted_def)
    moreover have "length ms \<le> length (''{'' @ jsonMembers ms @ ''}'' @ [CHR 0x0A])" using length_jsonMembers [of ms] by simp
    ultimately show ?thesis using flatMembers_json [OF _ _ ok, of _ "[CHR 0x0A]"] Cons by (simp add: flatJSON_def del: flatMembers.simps)
  qed
  then show ?thesis by (simp add: readsObjects_def)
qed

lemma prints_half: "printsNumbers (\<lambda>x. ''0.5'')"
proof -
  have "jsonNumber ''0.5''" unfolding jsonNumber_def
    by (rule exI [of _ "[]"], rule exI [of _ "''0''"], rule exI [of _ "''.5''"], rule exI [of _ "[]"]) (simp add: digits1_def digitChars_def)
  then show ?thesis by (simp add: printsNumbers_def)
qed

theorem usage_reaches_autogrow_witness:
  "\<exists>w used tot. snd (run_state (inodeLoop 3 fullVolume exampleCompanion) \<lparr>w_log = [], w_mem = newCompanionState\<rparr>) = w \<and>
     usageProber (\<lambda>url. Inr (fst (run_state (companionServe (\<lambda>x. ''0.5'') fullVolume exampleCompanion Usage) w))) flatJSON 8080 ''10.0.0.7'' =
       Inr (used, tot) \<and> used \<le> tot"
proof -
  obtain r w where run: "run_state (inodeLoop 3 fullVolume exampleCompanion) \<lparr>w_log = [], w_mem = newCompanionState\<rparr> = (r, w)" by fastforce
  let ?get = "\<lambda>url. Inr (fst (run_state (companionServe (\<lambda>x. ''0.5'') fullVolume exampleCompanion Usage) w))"
  have "uint (sf_Blocks st) * uint (sf_Bsize st) < 2 ^ 64" if "cv_statfs fullVolume l (cg_cacheDir exampleCompanion) = Inr st" for l st
    using that by (auto simp: fullVolume_def)
  from usage_reaches_autogrow [where get = ?get and ip = "''10.0.0.7''" and port = 8080, OF reads_flatJSON prints_half run refl this] show ?thesis using run by auto
qed

end
