(* ===== verification/Companion_Run.thy ===== *)
theory Companion_Run
  imports Companion
begin

text \<open>
  The companion's process (\<open>run\<close> of \<open>cmd/companion/main.go\<close>): the goroutine of the health server, the one of the inode
  loop and the main one, over the shared context and the shared state. The steps are the points where the
  goroutines synchronise; a check of the volume, a request and the drain are one step each.
\<close>

section \<open>The goroutines\<close>

datatype ServerRoutine = Serving | ServerReturned

datatype InodeRoutine = Starting | Ticking | InodeReturned

datatype MainRoutine = Waiting | Draining | ShuttingDown | Joining | Exited | Panicked | Killed

text \<open>\<open>pr_closed\<close>: \<open>Shutdown\<close> was called on the server. \<open>pr_failed\<close>: \<open>ListenAndServe\<close> returned an error of its own.
  \<open>pr_drained\<close>: how the drain ended.\<close>

record Process =
  pr_cancelled :: bool
  pr_server :: ServerRoutine
  pr_inode :: InodeRoutine
  pr_main :: MainRoutine
  pr_closed :: bool
  pr_failed :: bool
  pr_drained :: "DrainEnd option"
  pr_world :: "(CompanionEvent, companionState) world"

definition startProcess :: Process where
  "startProcess = \<lparr>pr_cancelled = False, pr_server = Serving, pr_inode = Starting, pr_main = Waiting, pr_closed = False, pr_failed = False,
     pr_drained = None, pr_world = \<lparr>w_log = [], w_mem = newCompanionState\<rparr>\<rparr>"

definition running :: "Process \<Rightarrow> bool" where
  "running p \<longleftrightarrow> pr_main p \<notin> {Exited, Panicked, Killed}"

text \<open>What comes from outside: a signal (or the cancellation of the parent context), a request, a tick, a failure of
  the server. The failure calls \<open>stop\<close>, which cancels the context and gives the signals back to their default: the
  next one kills the process.\<close>

inductive outsideStep :: "(float64 \<Rightarrow> string) \<Rightarrow> CompanionEnv \<Rightarrow> companionConfig \<Rightarrow> Process \<Rightarrow> Process \<Rightarrow> bool" for fmtG env cfg where
  signal: "running p \<Longrightarrow> \<not> pr_failed p \<Longrightarrow> outsideStep fmtG env cfg p (p\<lparr>pr_cancelled := True\<rparr>)"
| request: "running p \<Longrightarrow> pr_server p = Serving \<Longrightarrow> \<not> pr_closed p \<Longrightarrow>
    outsideStep fmtG env cfg p (p\<lparr>pr_world := snd (run_state (companionServe fmtG env cfg ep) (pr_world p))\<rparr>)"
| tick: "running p \<Longrightarrow> pr_inode p = Ticking \<Longrightarrow>
    outsideStep fmtG env cfg p (p\<lparr>pr_world := snd (run_state (checkInodes env cfg) (pr_world p))\<rparr>)"
| killed: "running p \<Longrightarrow> pr_failed p \<Longrightarrow> outsideStep fmtG env cfg p (p\<lparr>pr_main := Killed\<rparr>)"
| serverFails: "running p \<Longrightarrow> pr_server p = Serving \<Longrightarrow> \<not> pr_closed p \<Longrightarrow>
    outsideStep fmtG env cfg p (p\<lparr>pr_server := ServerReturned, pr_failed := True, pr_cancelled := True\<rparr>)"

text \<open>What the goroutines do by themselves. \<open>time.NewTicker\<close> panics on an interval that is not positive.\<close>

inductive ownStep :: "nat \<Rightarrow> CompanionEnv \<Rightarrow> companionConfig \<Rightarrow> Process \<Rightarrow> Process \<Rightarrow> bool" for fuel env cfg where
  inodeStarts: "running p \<Longrightarrow> pr_inode p = Starting \<Longrightarrow> cg_inodeCheckInterval cfg > 0 \<Longrightarrow>
    ownStep fuel env cfg p (p\<lparr>pr_inode := Ticking, pr_world := snd (run_state (checkInodes env cfg) (pr_world p))\<rparr>)"
| inodePanics: "running p \<Longrightarrow> pr_inode p = Starting \<Longrightarrow> cg_inodeCheckInterval cfg \<le> 0 \<Longrightarrow>
    ownStep fuel env cfg p (p\<lparr>pr_main := Panicked\<rparr>)"
| inodeReturns: "running p \<Longrightarrow> pr_inode p = Ticking \<Longrightarrow> pr_cancelled p \<Longrightarrow>
    ownStep fuel env cfg p (p\<lparr>pr_inode := InodeReturned\<rparr>)"
| serverCloses: "running p \<Longrightarrow> pr_server p = Serving \<Longrightarrow> pr_closed p \<Longrightarrow>
    ownStep fuel env cfg p (p\<lparr>pr_server := ServerReturned\<rparr>)"
| mainWakes: "pr_main p = Waiting \<Longrightarrow> pr_cancelled p \<Longrightarrow>
    ownStep fuel env cfg p (p\<lparr>pr_main := Draining, pr_world := snd (run_state setDraining (pr_world p))\<rparr>)"
| mainDrains: "pr_main p = Draining \<Longrightarrow> run_state (drain fuel env cfg) (pr_world p) = (Some e, w) \<Longrightarrow>
    ownStep fuel env cfg p (p\<lparr>pr_main := ShuttingDown, pr_drained := Some e, pr_world := w\<rparr>)"
| mainShuts: "pr_main p = ShuttingDown \<Longrightarrow> ownStep fuel env cfg p (p\<lparr>pr_main := Joining, pr_closed := True\<rparr>)"
| mainJoins: "pr_main p = Joining \<Longrightarrow> pr_server p = ServerReturned \<Longrightarrow> pr_inode p = InodeReturned \<Longrightarrow>
    ownStep fuel env cfg p (p\<lparr>pr_main := Exited\<rparr>)"

inductive reachesProcess :: "nat \<Rightarrow> (float64 \<Rightarrow> string) \<Rightarrow> CompanionEnv \<Rightarrow> companionConfig \<Rightarrow> Process \<Rightarrow> bool" for fuel fmtG env cfg where
  start: "reachesProcess fuel fmtG env cfg startProcess"
| outside: "reachesProcess fuel fmtG env cfg p \<Longrightarrow> outsideStep fmtG env cfg p p' \<Longrightarrow> reachesProcess fuel fmtG env cfg p'"
| own: "reachesProcess fuel fmtG env cfg p \<Longrightarrow> ownStep fuel env cfg p p' \<Longrightarrow> reachesProcess fuel fmtG env cfg p'"

section \<open>The shared state\<close>

lemma checkInodes_draining: "cs_draining (w_mem (snd (run_state (checkInodes env cfg) w))) = cs_draining (w_mem w)"
proof -
  have "checkRun env cfg w w' \<Longrightarrow> cs_draining (w_mem w') = cs_draining (w_mem w)" for w' by (erule checkRun.cases) auto
  then show ?thesis using checkInodes_run [of env cfg w] by (auto simp: wp_run)
qed

lemma companionServe_mem: "w_mem (snd (run_state (companionServe fmtG env cfg ep) w)) = w_mem w"
proof -
  have "keeps (\<lambda>w'. w_mem w' = w_mem w) (companionServe fmtG env cfg ep)"
    unfolding companionServe_def companion_ready_def probeWorkers_def runBuildctl_def by (cases ep) (auto intro!: keeps_rules)
  from keepsD [OF this refl] show ?thesis by (simp add: wp_run)
qed

lemma drain_mem: "run_state (drain fuel env cfg) w = (r, w') \<Longrightarrow> w_mem w' = w_mem w"
  using keepsD [OF keeps_drain, of w "w_mem w" fuel env cfg] by (simp add: wp_run)

lemma setDraining_sets: "cs_draining (w_mem (snd (run_state setDraining w)))"
  by (simp add: setDraining_def getMem_def putMem_def run_state_bind)

lemmas process_mem = checkInodes_draining companionServe_mem drain_mem setDraining_sets

section \<open>The order of the shutdown\<close>

definition orderly :: "Process \<Rightarrow> bool" where
  "orderly p \<longleftrightarrow>
     (pr_main p \<notin> {Waiting, Panicked, Killed} \<longrightarrow> pr_cancelled p \<and> cs_draining (w_mem (pr_world p))) \<and>
     (pr_main p \<in> {ShuttingDown, Joining, Exited} \<longrightarrow> pr_drained p \<noteq> None) \<and>
     (pr_closed p \<longrightarrow> pr_drained p \<noteq> None \<and> pr_main p \<in> {Joining, Exited, Panicked, Killed}) \<and>
     (pr_server p = ServerReturned \<longrightarrow> pr_closed p \<or> pr_failed p) \<and> (pr_failed p \<longrightarrow> pr_cancelled p) \<and> (pr_main p = Killed \<longrightarrow> pr_failed p) \<and>
     (pr_inode p = InodeReturned \<longrightarrow> pr_cancelled p) \<and>
     (pr_main p = Joining \<longrightarrow> pr_closed p) \<and>
     (pr_main p = Exited \<longrightarrow> pr_server p = ServerReturned \<and> pr_inode p = InodeReturned)"

lemma reaches_orderly: "reachesProcess fuel fmtG env cfg p \<Longrightarrow> orderly p"
proof (induction rule: reachesProcess.induct)
  case start
  then show ?case by (simp add: startProcess_def orderly_def)
next
  case (outside p p')
  from outside(2,3) show ?case by (induction rule: outsideStep.induct) (auto simp: orderly_def running_def process_mem)
next
  case (own p p')
  from own(2,3) show ?case by (induction rule: ownStep.induct) (auto simp: orderly_def running_def process_mem)
qed

section \<open>The drain comes first\<close>

text \<open>The drain ended for one of its reasons, with a window that began when the main goroutine read the clock.\<close>

definition drainedFor :: "companionConfig \<Rightarrow> DrainEnd \<Rightarrow> CompanionEvent list \<Rightarrow> bool" where
  "drainedFor cfg e l \<longleftrightarrow> (\<exists>t0. ClockEv t0 \<in> set l \<and>
     (case e of
        DrainElapsed \<Rightarrow> \<exists>t. ClockEv t \<in> set l \<and> t0 + cg_drainSeconds cfg \<le> t
      | DrainDoneFile \<Rightarrow> cg_drainDoneFile cfg \<noteq> [] \<and> DoneFile (cg_drainDoneFile cfg) True \<in> set l
      | DrainInterrupted \<Rightarrow> False))"

lemma drainedFor_append: "drainedFor cfg e l \<Longrightarrow> drainedFor cfg e (new @ l)"
  by (cases e) (auto simp: drainedFor_def)

lemma run_grows: "emits (\<lambda>_. True) m \<Longrightarrow> \<exists>new. w_log (snd (run_state m w)) = new @ w_log w"
  using emits_run by blast

lemma check_grows: "\<exists>new. w_log (snd (run_state (checkInodes env cfg) w)) = new @ w_log w"
  unfolding checkInodes_def statInodes_def publishInodes_def pruneCache_def runBuildctl_def by (rule run_grows) (intro emits_rules TrueI)

lemma serve_grows: "\<exists>new. w_log (snd (run_state (companionServe fmtG env cfg ep) w)) = new @ w_log w"
  unfolding companionServe_def companion_ready_def probeWorkers_def runBuildctl_def by (rule run_grows, cases ep) (auto intro!: emits_rules)

lemma drainLoop_uninterrupted:
  assumes "\<forall>l d. \<not> cv_cancelled env l d"
  shows "wp (drainLoop fuel env cfg deadline) (\<lambda>r _. r \<noteq> Some DrainInterrupted) w"
proof (induction fuel arbitrary: w)
  case (Suc fuel)
  then show ?case using assms by (auto simp: drainWait_def fileExists_def wp_rules Let_def)
qed (simp add: wp_rules)

lemma drain_uninterrupted:
  assumes "\<forall>l d. \<not> cv_cancelled env l d" "run_state (drain fuel env cfg) w = (r, w')"
  shows "r \<noteq> Some DrainInterrupted \<and> ClockEv (cv_now env (w_log w)) \<in> set (w_log w')"
proof -
  have clock: "keeps (\<lambda>w. ClockEv t \<in> set (w_log w)) (drainLoop fuel env cfg deadline)" for t deadline
    by (induction fuel) (auto simp: keeps_def drainWait_def fileExists_def wp_rules Let_def)
  have "wp (drain fuel env cfg) (\<lambda>r w'. r \<noteq> Some DrainInterrupted \<and> ClockEv (cv_now env (w_log w)) \<in> set (w_log w')) w"
    unfolding drain_def wp_rules
    using drainLoop_uninterrupted [OF assms(1)] keepsD [OF clock] by (simp add: wp_run)
  then show ?thesis using assms(2) by (simp add: wp_run)
qed

lemma drain_drainedFor:
  assumes "pauseRuns env" "nat (cg_drainSeconds cfg div drainStep) + 2 \<le> fuel" "\<forall>l d. \<not> cv_cancelled env l d"
    and "run_state (drain fuel env cfg) w = (r, w')"
  shows "\<exists>e. r = Some e \<and> drainedFor cfg e (w_log w')"
proof -
  have fuel: "fuel = Suc (Suc (fuel - 2))" "nat (cg_drainSeconds cfg div drainStep) \<le> fuel - 2" using assms(2) by auto
  have "drainOver cfg (cv_now env (w_log w) + cg_drainSeconds cfg) r w'"
    using wp_drain [OF assms(1) drain_window [OF fuel(2)], of w] assms(4) fuel(1) by (simp add: wp_run)
  then show ?thesis using drain_uninterrupted [OF assms(3,4)] by (cases r; cases "the r") (auto simp: drainedFor_def)
qed

definition drainFirst :: "companionConfig \<Rightarrow> Process \<Rightarrow> bool" where
  "drainFirst cfg p \<longleftrightarrow> pr_main p \<noteq> Panicked \<and> (\<forall>e. pr_drained p = Some e \<longrightarrow> drainedFor cfg e (w_log (pr_world p)))"

lemma drainFirst_grows:
  assumes "drainFirst cfg p" "\<exists>new. w_log w = new @ w_log (pr_world p)" shows "drainFirst cfg (p\<lparr>pr_world := w\<rparr>)"
  using assms drainedFor_append by (fastforce simp: drainFirst_def)

definition companionRuns :: "nat \<Rightarrow> CompanionEnv \<Rightarrow> companionConfig \<Rightarrow> bool" where
  "companionRuns fuel env cfg \<longleftrightarrow>
     pauseRuns env \<and> nat (cg_drainSeconds cfg div drainStep) + 2 \<le> fuel \<and> (\<forall>l d. \<not> cv_cancelled env l d) \<and> 0 < cg_inodeCheckInterval cfg"

lemma drain_ends:
  assumes "companionRuns fuel env cfg" "run_state (drain fuel env cfg) w = (r, w')"
  shows "\<exists>e. r = Some e \<and> drainedFor cfg e (w_log w')"
  using drain_drainedFor [OF _ _ _ assms(2)] assms(1) by (auto simp: companionRuns_def)

lemma ownStep_drainFirst:
  assumes "companionRuns fuel env cfg" "ownStep fuel env cfg p p'" "drainFirst cfg p" "orderly p"
  shows "drainFirst cfg p'"
  using assms(2)
proof cases
  case inodeStarts
  have "drainFirst cfg (p\<lparr>pr_inode := Ticking\<rparr>)" using assms(3) by (simp add: drainFirst_def)
  from drainFirst_grows [OF this] check_grows [of env cfg "pr_world p"] inodeStarts(1) show ?thesis by simp
next
  case mainWakes
  then show ?thesis using assms(3) by (simp add: drainFirst_def setDraining_def getMem_def putMem_def run_state_bind)
next
  case (mainDrains e w)
  then show ?thesis using drain_ends [OF assms(1) mainDrains(3)] by (auto simp: drainFirst_def)
qed (use assms in \<open>auto simp: drainFirst_def companionRuns_def\<close>)

lemma reaches_drainFirst:
  assumes "companionRuns fuel env cfg" "reachesProcess fuel fmtG env cfg p" shows "drainFirst cfg p"
  using assms(2)
proof (induction rule: reachesProcess.induct)
  case start
  then show ?case by (simp add: startProcess_def drainFirst_def)
next
  case (outside p p')
  from outside(2) show ?case
  proof cases
    case (request ep)
    then show ?thesis using drainFirst_grows [OF outside.IH serve_grows] by simp
  next
    case tick
    then show ?thesis using drainFirst_grows [OF outside.IH check_grows] by simp
  qed (use outside.IH in \<open>simp_all add: drainFirst_def\<close>)
next
  case (own p p')
  then show ?case using ownStep_drainFirst [OF assms(1)] reaches_orderly by blast
qed

section \<open>The exit\<close>

text \<open>How many steps the goroutines still take.\<close>

definition stepsLeft :: "Process \<Rightarrow> nat" where
  "stepsLeft p =
     (case pr_inode p of Starting \<Rightarrow> 2 | Ticking \<Rightarrow> 1 | InodeReturned \<Rightarrow> 0) + (case pr_server p of Serving \<Rightarrow> 1 | ServerReturned \<Rightarrow> 0) +
     (case pr_main p of Waiting \<Rightarrow> 4 | Draining \<Rightarrow> 3 | ShuttingDown \<Rightarrow> 2 | Joining \<Rightarrow> 1 | Exited \<Rightarrow> 0 | Panicked \<Rightarrow> 0 | Killed \<Rightarrow> 0)"

lemma ownStep_left: "ownStep fuel env cfg p p' \<Longrightarrow> pr_main p' \<noteq> Panicked \<Longrightarrow> Suc (stepsLeft p') = stepsLeft p"
  by (induction rule: ownStep.induct) (auto simp: stepsLeft_def running_def split: MainRoutine.split)

lemma outsideStep_left: "outsideStep fmtG env cfg p p' \<Longrightarrow> stepsLeft p' \<le> stepsLeft p"
  by (induction rule: outsideStep.induct) (auto simp: stepsLeft_def)

lemma ownStep_enabled:
  assumes r: "companionRuns fuel env cfg" and o: "orderly p" "drainFirst cfg p" and p: "pr_cancelled p" "pr_main p \<notin> {Exited, Killed}"
  shows "\<exists>p'. ownStep fuel env cfg p p'"
proof (cases "pr_main p")
  case Waiting
  then show ?thesis using ownStep.mainWakes p(1) by blast
next
  case Draining
  obtain e w where "run_state (drain fuel env cfg) (pr_world p) = (Some e, w)" using drain_ends [OF r] by (metis surjective_pairing)
  then show ?thesis using ownStep.mainDrains Draining by blast
next
  case ShuttingDown
  then show ?thesis using ownStep.mainShuts by blast
next
  case Joining
  then have j: "running p" "pr_closed p" using o(1) by (simp_all add: orderly_def running_def)
  show ?thesis
  proof (cases "pr_server p")
    case Serving
    then show ?thesis using ownStep.serverCloses j by blast
  next
    case ServerReturned
    then show ?thesis using ownStep.mainJoins [OF Joining] ownStep.inodeStarts [OF j(1)] ownStep.inodeReturns [OF j(1) _ p(1)] r
      by (cases "pr_inode p") (auto simp: companionRuns_def)
  qed
qed (use o p in \<open>simp_all add: drainFirst_def\<close>)

lemma left_exited: "orderly p \<Longrightarrow> drainFirst cfg p \<Longrightarrow> pr_main p \<noteq> Killed \<Longrightarrow> stepsLeft p = 0 \<longleftrightarrow> pr_main p = Exited"
  by (cases "pr_main p") (auto simp: stepsLeft_def orderly_def drainFirst_def)

lemma ownStep_cancelled: "ownStep fuel env cfg p p' \<Longrightarrow> pr_cancelled p \<Longrightarrow> pr_cancelled p' \<and> pr_main p' \<noteq> Killed"
  by (induction rule: ownStep.induct) (auto simp: running_def)

lemma ownSteps_left:
  assumes "companionRuns fuel env cfg" "reachesProcess fuel fmtG env cfg p" "pr_cancelled p" "pr_main p \<noteq> Killed"
  shows "(ownStep fuel env cfg ^^ n) p p' \<Longrightarrow>
    n + stepsLeft p' = stepsLeft p \<and> reachesProcess fuel fmtG env cfg p' \<and> pr_cancelled p' \<and> pr_main p' \<noteq> Killed"
proof (induction n arbitrary: p')
  case (Suc n)
  then obtain q where q: "(ownStep fuel env cfg ^^ n) p q" "ownStep fuel env cfg q p'" by auto
  then have r: "reachesProcess fuel fmtG env cfg p'" using Suc.IH reachesProcess.own by blast
  moreover have "pr_main p' \<noteq> Panicked" using reaches_drainFirst [OF assms(1) r] by (simp add: drainFirst_def)
  ultimately show ?case using Suc.IH [OF q(1)] ownStep_left [OF q(2)] ownStep_cancelled [OF q(2)] by simp
qed (simp add: assms)

text \<open>C32: \<^bold>\<open>The companion exits, after its drain.\<close> In every state the process can be in, whatever signals, requests, ticks
  and failures of the server came in which order: the server is closed only after the drain has ended, by the done file or
  by the clock passing the whole window; the process ends only when both goroutines have returned; from
  the moment it drains it is not ready; and a signal kills it only after the server has failed. Once
  the context is cancelled, at most seven steps remain; in whatever order the goroutines take them, they
  are never stuck before the exit, and they take all of them.\<close>

theorem companion_exits:
  assumes "companionRuns fuel env cfg" "reachesProcess fuel fmtG env cfg p"
  shows "orderly p \<and> drainFirst cfg p \<and> stepsLeft p \<le> 7 \<and>
    (pr_cancelled p \<and> pr_main p \<noteq> Killed \<longrightarrow> (\<forall>n p'. (ownStep fuel env cfg ^^ n) p p' \<longrightarrow>
       n \<le> stepsLeft p \<and> (pr_main p' = Exited \<longleftrightarrow> n = stepsLeft p) \<and> (n < stepsLeft p \<longrightarrow> (\<exists>p''. ownStep fuel env cfg p' p''))))"
proof (intro conjI impI allI)
  show "stepsLeft p \<le> 7" by (auto simp: stepsLeft_def split: InodeRoutine.split ServerRoutine.split MainRoutine.split)
  show "orderly p" "drainFirst cfg p" using reaches_orderly reaches_drainFirst assms by blast+
next
  fix n p' assume p: "pr_cancelled p \<and> pr_main p \<noteq> Killed" "(ownStep fuel env cfg ^^ n) p p'"
  note q = ownSteps_left [OF assms conjunct1 [OF p(1)] conjunct2 [OF p(1)] p(2)]
  then have o: "orderly p'" "drainFirst cfg p'" using reaches_orderly reaches_drainFirst [OF assms(1)] by blast+
  show "n \<le> stepsLeft p" using q by simp
  show "pr_main p' = Exited \<longleftrightarrow> n = stepsLeft p" using q left_exited [OF o] by auto
  assume "n < stepsLeft p"
  then show "\<exists>p''. ownStep fuel env cfg p' p''" using ownStep_enabled [OF assms(1) o] q left_exited [OF o] by auto
qed

text \<open>A signal right after the start.\<close>

theorem companion_exits_witness:
  "let p = startProcess\<lparr>pr_cancelled := True\<rparr> in
   stepsLeft p = 7 \<and> (\<exists>p'. ownStep 5 fullVolume exampleCompanion p p') \<and>
   (\<exists>p'. (ownStep 5 fullVolume exampleCompanion ^^ 7) p p') \<and> (\<nexists>p'. (ownStep 5 fullVolume exampleCompanion ^^ 8) p p')"
proof -
  let ?p = "startProcess\<lparr>pr_cancelled := True\<rparr>" and ?S = "ownStep 5 fullVolume exampleCompanion"
  have c: "companionRuns 5 fullVolume exampleCompanion"
    using pauseRuns_fullVolume by (simp add: companionRuns_def exampleCompanion_def drainStep_def second_def fullVolume_def)
  have "outsideStep (\<lambda>_. []) fullVolume exampleCompanion startProcess ?p" by (rule outsideStep.signal) (simp_all add: startProcess_def running_def)
  then have r: "reachesProcess 5 (\<lambda>_. []) fullVolume exampleCompanion ?p" by (rule reachesProcess.outside [OF reachesProcess.start])
  have seven: "stepsLeft ?p = 7" by (simp add: stepsLeft_def startProcess_def)
  have k: "pr_main ?p \<noteq> Killed" by (simp add: startProcess_def)
  have step: "n \<le> 7 \<and> (n < 7 \<longrightarrow> (\<exists>q'. ?S q q'))" if "(?S ^^ n) ?p q" for n q
    using companion_exits [OF c r, unfolded seven] that k by simp
  have reach: "\<exists>p'. (?S ^^ n) ?p p'" if "n \<le> 7" for n
    using that
  proof (induction n)
    case (Suc n)
    then obtain q where q: "(?S ^^ n) ?p q" by auto
    with step [OF q] Suc.prems show ?case by auto
  qed auto
  show ?thesis unfolding Let_def using seven reach [of 7] reach [of 1] step [of 8] by (simp del: relpowp.simps) blast
qed

text \<open>The drain of a companion whose health server has failed does not hold the pod open: the signal that ends the pod
  ends the process at once, with nothing drained.\<close>

lemma failed_server_unguarded:
  "\<exists>p p'. reachesProcess fuel fmtG env cfg p \<and> pr_main p = Draining \<and> outsideStep fmtG env cfg p p' \<and> pr_main p' = Killed \<and> pr_drained p' = None"
proof -
  let ?f = "startProcess\<lparr>pr_server := ServerReturned, pr_failed := True, pr_cancelled := True\<rparr>"
  let ?d = "?f\<lparr>pr_main := Draining, pr_world := snd (run_state setDraining (pr_world ?f))\<rparr>"
  have "outsideStep fmtG env cfg startProcess ?f" by (rule outsideStep.serverFails) (simp_all add: startProcess_def running_def)
  then have f: "reachesProcess fuel fmtG env cfg ?f" by (rule reachesProcess.outside [OF reachesProcess.start])
  have "ownStep fuel env cfg ?f ?d" by (rule ownStep.mainWakes) (simp_all add: startProcess_def)
  then have "reachesProcess fuel fmtG env cfg ?d" by (rule reachesProcess.own [OF f])
  moreover have "outsideStep fmtG env cfg ?d (?d\<lparr>pr_main := Killed\<rparr>)" by (rule outsideStep.killed) (simp_all add: running_def)
  ultimately show ?thesis by (intro exI [of _ ?d] exI [of _ "?d\<lparr>pr_main := Killed\<rparr>"]) (simp add: startProcess_def)
qed

end
