(* ===== verification/Buildd_Main.thy ===== *)
theory Buildd_Main
  imports Host_Safety K8s_Contract Gateway Autogrow
begin

text \<open>
  The start of \<open>buildd\<close> (\<open>cmd/buildd/main.go\<close>, \<open>certs.go\<close>): from the flags, the configuration files and the environment to
  a panic, or to the reconciler, the sweeper, the provisioner and the routing server that run. Each of these
  is the one of the component's own theory, so its theorems apply to what is started.

  Decoding and cryptography (JSON, YAML, PEM, X.509), the reading of files, the kubeconfig and the secret are
  parameters. The rate limiter, the cold-start semaphore, the metrics server and the
  leader election do not enter a model: what they decide for a request is part of the request.
\<close>

section \<open>The gateway name of the daemon certificate\<close>

record CertLib =
  cl_pem :: "string \<Rightarrow> string option"
  cl_x509 :: "string \<Rightarrow> string + string list"

datatype CertError = NotPEM | CannotParse string

text \<open>\<open>certCoversGateway\<close>: whether the DNS names of the certificate cover the gateway, and the names.\<close>

definition certCoversGateway :: "CertLib \<Rightarrow> string \<Rightarrow> string \<Rightarrow> CertError + bool \<times> string list" where
  "certCoversGateway lib certPEM gatewayHost =
     (case cl_pem lib certPEM of
        None \<Rightarrow> Inl NotPEM
      | Some block \<Rightarrow>
          (case cl_x509 lib block of
             Inl e \<Rightarrow> Inl (CannotParse e)
           | Inr dnsNames \<Rightarrow>
               let want = ''*.'' @ gatewayHost in
               Inr (list_ex (\<lambda>dns. dns = want \<or> dns = gatewayHost) dnsNames, dnsNames)))"

datatype SanCheck = SanSkippedSecret string | SanSkippedNoCert | SanSkippedCert CertError | SanCovered | SanWarning "string list"

text \<open>\<open>warnIfDaemonCertMissingGatewaySAN\<close>, as what it logs. \<open>secret\<close> is the API server's answer for the certificate secret: its
  data, absent keys being empty.\<close>

definition warnIfDaemonCertMissingGatewaySAN :: "CertLib \<Rightarrow> (string \<Rightarrow> string \<Rightarrow> string + (string \<Rightarrow> string)) \<Rightarrow> Config \<Rightarrow> string \<Rightarrow> SanCheck" where
  "warnIfDaemonCertMissingGatewaySAN lib secret cfg gatewayHost =
     (case secret (cf_DaemonCertsSecret cfg) (cf_Namespace cfg) of
        Inl e \<Rightarrow> SanSkippedSecret e
      | Inr data \<Rightarrow>
          let raw = (if data ''cert.pem'' = [] then data ''tls.crt'' else data ''cert.pem'') in
          if raw = [] then SanSkippedNoCert
          else (case certCoversGateway lib raw gatewayHost of
                  Inl e \<Rightarrow> SanSkippedCert e
                | Inr (covered, sans) \<Rightarrow> if covered then SanCovered else SanWarning sans))"

section \<open>Flags\<close>

text \<open>\<open>bf_cfg\<close> holds the flags that are bound to fields of \<open>cfg\<close>.\<close>

record builddFlags =
  bf_cfg :: Config
  bf_backend :: string
  bf_gatewayHost :: string
  bf_gatewayPort :: int
  bf_port :: int
  bf_healthPort :: int
  bf_routeWait :: duration
  bf_requireBuildID :: bool
  bf_daemonScheduling :: string
  bf_keepSnaps :: int
  bf_oidcConfig :: string
  bf_projectDefaults :: string
  bf_maxBuildSec :: int
  bf_adaptiveIdleMaxSec :: int
  bf_autoGrowThresholdPct :: int
  bf_autoGrowFactor :: float64
  bf_autoGrowMaxGi :: int
  bf_s3Bucket :: string
  bf_s3Region :: string
  bf_s3Endpoint :: string
  bf_s3ExportInterval :: duration
  bf_incusPool :: string
  bf_incusImage :: string
  bf_incusVMImage :: string
  bf_localMountPath :: string
  bf_localIdle :: duration
  bf_localSnapEvery :: duration
  bf_localKeepSnaps :: int
  bf_forkEgressStrict :: bool
  bf_localEndpointDomain :: string
  bf_localCertsPath :: string
  bf_localRuntime :: string

definition flagDefaults :: builddFlags where
  "flagDefaults =
     \<lparr>bf_cfg = zeroConfig\<lparr>cf_Namespace := ''buildkit-builds'', cf_BuildkitImage := ''moby/buildkit:v0.34.0-rootless'',
        cf_CompanionImage := ''ghcr.io/socialgouv/buildkit-operator-companion:dev'', cf_DaemonCertsSecret := ''buildkit-daemon-certs'',
        cf_BuildkitdConfigMap := ''buildkitd-config'', cf_Companion := True\<rparr>,
      bf_backend = ''k8s'', bf_gatewayHost = [], bf_gatewayPort = 0, bf_port = 1234, bf_healthPort = 8080, bf_routeWait = 180 * second,
      bf_requireBuildID = False, bf_daemonScheduling = [], bf_keepSnaps = 3, bf_oidcConfig = [], bf_projectDefaults = [],
      bf_maxBuildSec = 7200, bf_adaptiveIdleMaxSec = 21600, bf_autoGrowThresholdPct = 80, bf_autoGrowFactor = Fin (3 / 2),
      bf_autoGrowMaxGi = 240, bf_s3Bucket = [], bf_s3Region = ''us-east-1'', bf_s3Endpoint = [], bf_s3ExportInterval = 6 * hour,
      bf_incusPool = [], bf_incusImage = [], bf_incusVMImage = [], bf_localMountPath = ''/var/lib/buildkit'', bf_localIdle = 15 * minute,
      bf_localSnapEvery = 0, bf_localKeepSnaps = 3, bf_forkEgressStrict = True, bf_localEndpointDomain = [], bf_localCertsPath = [],
      bf_localRuntime = ''incus''\<rparr>"

section \<open>The start\<close>

text \<open>\<open>se_manager\<close> is the first failure of the library on the way to a running manager (its construction and the
  registration of the controller, the sweeper and the server), if any.\<close>

datatype StartPanic = UnsupportedBackend string | BadScheduling string | BadOidcConfig string | BadDefaults LoadError
  | BadProviders ConfigError | LocalFailed string | NoKubeconfig string | ManagerFailed string

record ('v, 't) StartEnv =
  se_scheduling :: "string \<Rightarrow> string + Scheduling"
  se_oidcFile :: "string \<Rightarrow> string + OidcConfig"
  se_yamlProviders :: "string \<Rightarrow> string + Provider list"
  se_oidcLib :: "('v, 't) OidcLib"
  se_readFile :: "string \<Rightarrow> string + string"
  se_yamlRules :: "string \<Rightarrow> string + Rule list"
  se_environ :: "string \<Rightarrow> string"
  se_kubeconfig :: "string option"
  se_manager :: "string option"
  se_secret :: "string \<Rightarrow> string \<Rightarrow> string + (string \<Rightarrow> string)"
  se_certLib :: CertLib

record Settings =
  sg_cfg :: Config
  sg_defaults :: "Rule list option"
  sg_verifier :: "(Verifier \<times> (string \<Rightarrow> VerifyError + Identity)) option"

text \<open>\<open>main\<close> up to the dispatch of the backend.\<close>

definition resolveSettings :: "('v, 't) StartEnv \<Rightarrow> builddFlags \<Rightarrow> StartPanic + Settings" where
  "resolveSettings env f =
     (let cfg = (bf_cfg f)\<lparr>cf_Port := wrap32 (bf_port f), cf_HealthPort := wrap32 (bf_healthPort f)\<rparr> in
      if bf_backend f \<noteq> ''k8s'' \<and> bf_backend f \<noteq> ''local'' then Inl (UnsupportedBackend (bf_backend f))
      else (case schedulingFromJSON (se_scheduling env) (bf_daemonScheduling f) cfg of
        Inl e \<Rightarrow> Inl (BadScheduling e)
      | Inr cfg \<Rightarrow>
          (case loadConfig (se_oidcFile env) (se_yamlProviders env) (bf_oidcConfig f) (se_environ env ''BUILDKIT_OPERATOR_OIDC_PROVIDERS'')
                  (se_environ env ''BUILDKIT_OPERATOR_OIDC_REPO_ALLOWLIST'') (se_environ env ''BUILDKIT_OPERATOR_OIDC_DISABLE'') of
             Inl e \<Rightarrow> Inl (BadOidcConfig e)
           | Inr oidcCfg \<Rightarrow>
               (case loadDefaults (se_readFile env) (se_yamlRules env) (bf_projectDefaults f) of
                  Inl e \<Rightarrow> Inl (BadDefaults e)
                | Inr defaults \<Rightarrow>
                    (case newVerifier (se_oidcLib env) oidcCfg of
                       Inl e \<Rightarrow> Inl (BadProviders e)
                     | Inr v \<Rightarrow>
                         Inr \<lparr>sg_cfg = cfg, sg_defaults = defaults,
                           sg_verifier = map_option (\<lambda>v. (v, \<lambda>token. fst (Verify (se_oidcLib env) v Map.empty token))) v\<rparr>)))))"

definition localParamsOf :: "builddFlags \<Rightarrow> Config \<Rightarrow> localParams" where
  "localParamsOf f cfg =
     \<lparr>lp_Namespace = cf_Namespace cfg, lp_Port = cf_Port cfg, lp_routeWait = bf_routeWait f, lp_s3Bucket = bf_s3Bucket f,
      lp_s3Region = bf_s3Region f, lp_s3Endpoint = bf_s3Endpoint f, lp_pool = bf_incusPool f, lp_image = bf_incusImage f,
      lp_vmImage = bf_incusVMImage f, lp_mountPath = bf_localMountPath f, lp_s3ExportInterval = bf_s3ExportInterval f,
      lp_idleTimeout = bf_localIdle f, lp_snapshotEvery = bf_localSnapEvery f, lp_keepSnapshots = bf_localKeepSnaps f,
      lp_maxBuildSeconds = bf_maxBuildSec f, lp_forkEgressStrict = bf_forkEgressStrict f, lp_endpointDomain = bf_localEndpointDomain f,
      lp_certsPath = bf_localCertsPath f, lp_runtime = bf_localRuntime f\<rparr>"

text \<open>What the manager runs: the reconciler, the sweeper of a namespace, and the routing server over the provisioner.\<close>

record K8sStart =
  ks_san :: "SanCheck option"
  ks_leaderNS :: string
  ks_reconciler :: BuildProjectReconciler
  ks_sweeper :: string
  ks_prov :: K8sProvisioner
  ks_server :: "(Event, unit) world routeServer"

definition startK8s :: "nat \<Rightarrow> (ApiErr \<Rightarrow> string) \<Rightarrow> Env \<Rightarrow> ('v, 't) StartEnv \<Rightarrow> builddFlags \<Rightarrow> Settings \<Rightarrow> K8sStart" where
  "startK8s fuel render api env f sg =
     (let cfg = sg_cfg sg; podNS = se_environ env ''POD_NAMESPACE'';
          prov = newK8s cfg (bf_routeWait f) (bf_gatewayHost f) (wrap32 (bf_gatewayPort f)) (wrap64 (bf_maxBuildSec f * second))
      in \<lparr>ks_san = (if bf_gatewayHost f \<noteq> [] then Some (warnIfDaemonCertMissingGatewaySAN (se_certLib env) (se_secret env) cfg (bf_gatewayHost f)) else None),
          ks_leaderNS = (if podNS = [] then cf_Namespace cfg else podNS),
          ks_reconciler = \<lparr>rc_Cfg = cfg, rc_KeepSnapshots = bf_keepSnaps f, rc_MaxBuildSeconds = bf_maxBuildSec f,
            rc_AdaptiveIdleMaxSeconds = bf_adaptiveIdleMaxSec f, rc_AutoGrowThresholdPct = bf_autoGrowThresholdPct f,
            rc_AutoGrowFactor = bf_autoGrowFactor f, rc_AutoGrowMaxGi = bf_autoGrowMaxGi f, rc_ProbeUsage = True, rc_Direct = True\<rparr>,
          ks_sweeper = cf_Namespace cfg,
          ks_prov = prov,
          ks_server = \<lparr>rs_prov = k8sBackend fuel render api prov, rs_Namespace = cf_Namespace cfg, rs_s3Bucket = bf_s3Bucket f,
            rs_s3Region = bf_s3Region f, rs_s3Endpoint = bf_s3Endpoint f, rs_s3ExportInterval = bf_s3ExportInterval f,
            rs_verifier = sg_verifier sg, rs_authToken = se_environ env ''BUILDKIT_OPERATOR_AUTH_TOKEN'',
            rs_adminToken = se_environ env ''BUILDKIT_OPERATOR_ADMIN_TOKEN'', rs_defaults = sg_defaults sg,
            rs_requireBuildID = bf_requireBuildID f\<rparr>\<rparr>)"

datatype Started = StartedLocal HostEnv "(HostEvent, projects) world routeServer" | StartedK8s K8sStart

definition buildd_main ::
  "nat \<Rightarrow> (ApiErr \<Rightarrow> string) \<Rightarrow> Env \<Rightarrow> Os \<Rightarrow> HostEnv \<Rightarrow> ('v, 't) StartEnv \<Rightarrow> builddFlags \<Rightarrow> StartPanic + Started" where
  "buildd_main fuel render api os host env f =
     (case resolveSettings env f of
        Inl p \<Rightarrow> Inl p
      | Inr sg \<Rightarrow>
          if bf_backend f = ''local'' then
            (case runLocalBackend fuel os host (localParamsOf f (sg_cfg sg)) (sg_verifier sg) (se_environ env ''BUILDKIT_OPERATOR_AUTH_TOKEN'')
                    (se_environ env ''BUILDKIT_OPERATOR_ADMIN_TOKEN'') (sg_defaults sg) of
               Inl e \<Rightarrow> Inl (LocalFailed e)
             | Inr (henv, srv) \<Rightarrow> Inr (StartedLocal henv srv))
          else (case se_kubeconfig env of
                  Some e \<Rightarrow> Inl (NoKubeconfig e)
                | None \<Rightarrow>
                    (case se_manager env of
                       Some e \<Rightarrow> Inl (ManagerFailed e)
                     | None \<Rightarrow> Inr (StartedK8s (startK8s fuel render api env f sg)))))"

section \<open>The listener of the routing API\<close>

text \<open>\<open>routeServer.Start\<close>: the endpoints, the timeouts of the connections, and what it returns when \<open>ListenAndServe\<close> does.\<close>

datatype ApiPath = RoutePath | PrewarmPath | CompletePath | HealthzPath

definition routeMux :: "(string \<times> ApiPath) list" where
  "routeMux = [(''/route'', RoutePath), (''/prewarm'', PrewarmPath), (''/complete'', CompletePath), (''/healthz'', HealthzPath)]"

record HttpServer =
  hs_Addr :: string
  hs_Handler :: "(string \<times> ApiPath) list"
  hs_ReadHeaderTimeout :: duration
  hs_ReadTimeout :: duration
  hs_WriteTimeout :: duration
  hs_IdleTimeout :: duration

definition writeTimeout :: "duration \<Rightarrow> duration" where
  "writeTimeout wait =
     (let t = wrap64 (wait + 30 * second) in if t < 30 * second then 30 * second else t)"

definition routeHttp :: "string \<Rightarrow> duration \<Rightarrow> HttpServer" where
  "routeHttp addr wait = \<lparr>hs_Addr = addr, hs_Handler = routeMux, hs_ReadHeaderTimeout = 5 * second, hs_ReadTimeout = 15 * second,
     hs_WriteTimeout = writeTimeout wait, hs_IdleTimeout = 60 * second\<rparr>"

datatype ListenEnd = ErrServerClosed | ListenFailed string

definition routeServerStart :: "ListenEnd \<Rightarrow> string option" where
  "routeServerStart e = (case e of ErrServerClosed \<Rightarrow> None | ListenFailed m \<Rightarrow> Some m)"

text \<open>A response may take thirty seconds more than the wait for a daemon, and never less than thirty seconds, even
  where the sum overflows.\<close>

lemma writeTimeout_covers:
  "30 * second \<le> hs_WriteTimeout (routeHttp addr wait)"
  "0 \<le> wait \<Longrightarrow> wait + 30 * second < 2 ^ 63 \<Longrightarrow> hs_WriteTimeout (routeHttp addr wait) = wait + 30 * second"
  by (auto simp: routeHttp_def writeTimeout_def Let_def second_def wrap64_id)

section \<open>One window for unreleased builds\<close>

lemma started_k8s:
  assumes "buildd_main fuel render api os host env f = Inr (StartedK8s s)"
  shows "\<exists>sg. resolveSettings env f = Inr sg \<and> bf_backend f = ''k8s'' \<and> s = startK8s fuel render api env f sg"
  using assms by (auto simp: buildd_main_def resolveSettings_def Let_def split: sum.splits option.splits if_splits prod.splits)

text \<open>The local server is built without \<open>requireBuildID\<close>, whatever the flag says.\<close>

lemma local_never_requires_build_id:
  assumes "buildd_main fuel render api os host env f = Inr (StartedLocal henv srv)" shows "\<not> rs_requireBuildID srv"
  using assms by (auto simp: buildd_main_def runLocalBackend_def Let_def split: sum.splits option.splits if_splits prod.splits)

text \<open>C15: \<^bold>\<open>The routing API and the reconciler agree on which builds still run.\<close> With a positive \<open>--max-build-seconds\<close> whose
  nanoseconds fit 64 bits, the set a started routing API works on is the reconciler's: the entries that are not past the
  reconciler's window. Reconciler, sweeper, provisioner and server share one namespace.

  With zero or less they differ: the reconciler falls back to two hours, and the routing API never sheds an
  entry.\<close>

theorem windows_agree:
  assumes "buildd_main fuel render api os host env f = Inr (StartedK8s s)" "\<bar>bf_maxBuildSec f * second\<bar> < 2 ^ 63"
  shows "cf_Namespace (rc_Cfg (ks_reconciler s)) = kp_namespace (ks_prov s) \<and> ks_sweeper s = kp_namespace (ks_prov s) \<and>
    rs_Namespace (ks_server s) = kp_namespace (ks_prov s) \<and>
    (0 < bf_maxBuildSec f \<longrightarrow>
       (\<forall>st now. snd (k8s_live (ks_prov s) st now) =
          fst (expireInflight (st_Inflight (fst (adoptLegacyInflight st))) now (maxBuildAge (ks_reconciler s))))) \<and>
    (bf_maxBuildSec f \<le> 0 \<longrightarrow>
       maxBuildAge (ks_reconciler s) = 2 * hour \<and>
       (\<forall>st now. snd (k8s_live (ks_prov s) st now) = st_Inflight (fst (adoptLegacyInflight st))))"
proof -
  obtain sg where s: "s = startK8s fuel render api env f sg" using started_k8s [OF assms(1)] by blast
  have w: "wrap64 (bf_maxBuildSec f * second) = bf_maxBuildSec f * second" using assms(2) by (intro wrap64_id) auto
  have sec: "0 < second" by (simp add: second_def)
  then have "bf_maxBuildSec f * second \<le> 0 \<longleftrightarrow> bf_maxBuildSec f \<le> 0" by (simp add: mult_le_0_iff)
  then show ?thesis by (auto simp: s startK8s_def newK8s_def k8s_live_def maxBuildAge_def w Let_def split: prod.split)
qed

section \<open>The name a certificate must carry\<close>

text \<open>How a TLS client of Go compares a name of a certificate with the host it dialled (\<open>crypto/x509\<close>): well-formed
  names label by label, a first label \<open>*\<close> standing for any one label, and anything else exactly.\<close>

definition hostChars :: string where
  "hostChars = lowerLetters @ upperLetters @ digitChars @ ''-_''"

definition hostLabel :: "string \<Rightarrow> bool" where
  "hostLabel p \<longleftrightarrow> p \<noteq> [] \<and> hd p \<noteq> CHR ''-'' \<and> set p \<subseteq> set hostChars"

definition validHostname :: "string \<Rightarrow> bool \<Rightarrow> bool" where
  "validHostname host isPattern =
     (let host = (if isPattern then host else trimSuffix host ''.''); parts = splitByte CHR ''.'' host
      in host \<noteq> [] \<and> host \<noteq> ''*'' \<and> list_all hostLabel (if isPattern \<and> hd parts = ''*'' then tl parts else parts))"

definition matchHostnames :: "string \<Rightarrow> string \<Rightarrow> bool" where
  "matchHostnames pattern host =
     (let pattern = toLower pattern; host = toLower (trimSuffix host ''.'');
          ps = splitByte CHR ''.'' pattern; hs = splitByte CHR ''.'' host
      in pattern \<noteq> [] \<and> host \<noteq> [] \<and> length ps = length hs \<and> (hd ps = ''*'' \<or> hd ps = hd hs) \<and> tl ps = tl hs)"

definition matchExactly :: "string \<Rightarrow> string \<Rightarrow> bool" where
  "matchExactly a b \<longleftrightarrow> a \<notin> {[], ''.''} \<and> b \<notin> {[], ''.''} \<and> toLower a = toLower b"

definition acceptsHost :: "string \<Rightarrow> string \<Rightarrow> bool" where
  "acceptsHost name host =
     (if validHostname host False \<and> validHostname name True then matchHostnames name host else matchExactly name host)"

definition daemonHost :: "string \<Rightarrow> string \<Rightarrow> string" where
  "daemonHost key gatewayHost = daemonName key @ ''.'' @ gatewayHost"

lemma lowerChar_dot: "lowerChar c = CHR ''.'' \<longleftrightarrow> c = CHR ''.''" "CHR ''.'' = lowerChar c \<longleftrightarrow> c = CHR ''.''"
proof -
  show "lowerChar c = CHR ''.'' \<longleftrightarrow> c = CHR ''.''"
  proof (cases "c \<in> set upperLetters")
    case True
    then show ?thesis by (auto simp: upperLetters_def lowerLetters_def lowerChar_def)
  qed (simp add: lowerChar_fix)
  then show "CHR ''.'' = lowerChar c \<longleftrightarrow> c = CHR ''.''" by metis
qed

lemma splitByte_label: "c \<notin> set l \<Longrightarrow> splitByte c (l @ c # r) = l # splitByte c r"
  by (induction l) auto

lemma daemonHost_parts:
  assumes "CHR ''.'' \<notin> set (daemonName key)" "h \<noteq> []" "last h \<noteq> CHR ''.''"
  shows "toLower (trimSuffix (daemonHost key h) ''.'') = toLower (daemonName key) @ CHR ''.'' # toLower h"
    and "splitByte CHR ''.'' (toLower (daemonName key) @ CHR ''.'' # toLower h) = toLower (daemonName key) # splitByte CHR ''.'' (toLower h)"
proof -
  have "\<not> hasSuffix (daemonHost key h) ''.''" using assms(2,3) by (auto simp: daemonHost_def hasSuffix_iff dest: arg_cong [where f = last])
  then show "toLower (trimSuffix (daemonHost key h) ''.'') = toLower (daemonName key) @ CHR ''.'' # toLower h"
    by (simp add: trimSuffix_def daemonHost_def toLower_def lowerChar_dot)
  have "CHR ''.'' \<notin> set (toLower (daemonName key))" using assms(1) by (auto simp: toLower_def image_iff lowerChar_dot(2) simp del: lowerChar_dot(1))
  then show "splitByte CHR ''.'' (toLower (daemonName key) @ CHR ''.'' # toLower h) = toLower (daemonName key) # splitByte CHR ''.'' (toLower h)"
    by (rule splitByte_label)
qed

lemma match_daemonHost:
  assumes "CHR ''.'' \<notin> set (daemonName key)" "h \<noteq> []" "last h \<noteq> CHR ''.''"
  shows "matchHostnames (''*.'' @ h) (daemonHost key h)" "\<not> matchHostnames h (daemonHost key h)"
proof -
  have wild: "toLower (''*.'' @ h) = ''*'' @ CHR ''.'' # toLower h" by (simp add: toLower_def lowerChar_dot lowerChar_fix upperLetters_def)
  have "splitByte CHR ''.'' (''*'' @ CHR ''.'' # toLower h) = ''*'' # splitByte CHR ''.'' (toLower h)" by (rule splitByte_label) simp
  then show "matchHostnames (''*.'' @ h) (daemonHost key h)"
    unfolding matchHostnames_def Let_def daemonHost_parts [OF assms] wild by simp
  show "\<not> matchHostnames h (daemonHost key h)"
    unfolding matchHostnames_def Let_def daemonHost_parts [OF assms] by simp
qed

lemma keyed_label:
  assumes "key = projectKey r n t a \<or> key = forkKey (projectKey r n t a)"
  shows "hostLabel (daemonName key)" "CHR ''.'' \<notin> set (daemonName key)"
proof -
  obtain x where x: "projectKey r n t a = CHR ''p'' # x" "set x \<subseteq> set hexDigits" using projectKey_parts by blast
  have chars: "set hexDigits \<subseteq> set hostChars" "set ''buildkitd-forkp'' \<subseteq> set hostChars" by code_simp+
  have "set (daemonName key) \<subseteq> set ''buildkitd-forkp'' \<union> set x" using assms x(1) by (auto simp: daemonName_def forkKey_def)
  also have "\<dots> \<subseteq> set hostChars" using chars x(2) by (meson Un_least order_trans)
  finally show "hostLabel (daemonName key)" by (simp add: hostLabel_def daemonName_def)
  show "CHR ''.'' \<notin> set (daemonName key)" using assms dots_free by (auto simp: daemonName_def forkKey_def)
qed

lemma accepts_daemonHost:
  assumes "key = projectKey r n t a \<or> key = forkKey (projectKey r n t a)" "validHostname h False" "h \<noteq> []" "last h \<noteq> CHR ''.''"
  shows "acceptsHost (''*.'' @ h) (daemonHost key h)" "\<not> acceptsHost h (daemonHost key h)"
proof -
  note key = keyed_label [OF assms(1)]
  note m = match_daemonHost [OF key(2) assms(3,4)]
  have trim: "trimSuffix h ''.'' = h" "trimSuffix (daemonHost key h) ''.'' = daemonHost key h"
    using assms(3,4) by (auto simp: trimSuffix_def daemonHost_def hasSuffix_iff dest: arg_cong [where f = last])
  have labels: "list_all hostLabel (splitByte CHR ''.'' h)" "h \<noteq> ''*''" using assms(2) by (auto simp: validHostname_def trim Let_def)
  have split: "splitByte CHR ''.'' (daemonHost key h) = daemonName key # splitByte CHR ''.'' h"
    "splitByte CHR ''.'' (''*.'' @ h) = ''*'' # splitByte CHR ''.'' h"
    using splitByte_label [OF key(2), of h] splitByte_label [of "CHR ''.''" "''*''" h] by (simp_all add: daemonHost_def)
  have host: "validHostname (daemonHost key h) False" using labels key(1) by (simp add: validHostname_def trim split Let_def) (simp add: daemonHost_def daemonName_def)
  have "validHostname (''*.'' @ h) True" using labels by (simp add: validHostname_def split [simplified] Let_def)
  then show "acceptsHost (''*.'' @ h) (daemonHost key h)" using host m(1) by (simp add: acceptsHost_def)
  have "hd (splitByte CHR ''.'' h) \<noteq> ''*''"
  proof
    assume "hd (splitByte CHR ''.'' h) = ''*''"
    then have "hostLabel ''*''" using labels(1) by (metis list.pred_inject(2) list.collapse splitByte_ne)
    moreover have "\<not> hostLabel ''*''" by code_simp
    ultimately show False by simp
  qed
  then have "validHostname h True" using labels assms(3) by (simp add: validHostname_def Let_def)
  then show "\<not> acceptsHost h (daemonHost key h)" using host m(2) by (simp add: acceptsHost_def)
qed

text \<open>C21: \<^bold>\<open>The certificate check accepts a certificate no client accepts.\<close> For every routing key and every well-formed gateway
  host, the host a client outside the cluster dials is \<open><daemon>.<gateway-host>\<close>. A certificate with the name
  \<open>*.<gateway-host>\<close> passes the check at the start, and Go's verification accepts it for every such host. A certificate
  whose only name is the gateway host itself passes the check too, with no warning, and is accepted for none of them.\<close>

theorem gateway_san_check:
  assumes "key = projectKey r n t a \<or> key = forkKey (projectKey r n t a)" "validHostname h False" "last h \<noteq> CHR ''.''"
    "cl_pem lib pem = Some block" "cl_x509 lib block = Inr sans" "kp_gatewayHost p = h"
  shows "k8s_Endpoint p key = endpointHost (daemonHost key h) (if kp_gatewayPort p > 0 then kp_gatewayPort p else kp_port p) \<and>
    (''*.'' @ h \<in> set sans \<longrightarrow> certCoversGateway lib pem h = Inr (True, sans) \<and> (\<exists>name \<in> set sans. acceptsHost name (daemonHost key h))) \<and>
    (sans = [h] \<longrightarrow> certCoversGateway lib pem h = Inr (True, sans) \<and> \<not> (\<exists>name \<in> set sans. acceptsHost name (daemonHost key h)))"
proof -
  have h: "h \<noteq> []" using assms(2) by (auto simp: validHostname_def trimSuffix_def)
  have "certCoversGateway lib pem h = Inr (list_ex (\<lambda>dns. dns = ''*.'' @ h \<or> dns = h) sans, sans)"
    using assms(4,5) by (simp add: certCoversGateway_def Let_def)
  then show ?thesis using accepts_daemonHost [OF assms(1,2) h assms(3)] h assms(6)
    by (auto simp: k8s_Endpoint_def daemonHost_def list_ex_iff)
qed

section \<open>Witnesses\<close>

definition exampleCertLib :: CertLib where
  "exampleCertLib = \<lparr>cl_pem = Some, cl_x509 = (\<lambda>der. Inr [der])\<rparr>"

theorem gateway_san_check_witness:
  "certCoversGateway exampleCertLib ''bk.example.org'' ''bk.example.org'' = Inr (True, [''bk.example.org'']) \<and>
   \<not> acceptsHost ''bk.example.org'' (daemonHost (projectKey ''github.com/acme/app'' [] [] []) ''bk.example.org'')"
proof -
  have "validHostname ''bk.example.org'' False" "last ''bk.example.org'' \<noteq> CHR ''.''" by code_simp+
  from gateway_san_check [OF disjI1, OF refl this, of exampleCertLib "''bk.example.org''" "''bk.example.org''" "[''bk.example.org'']"
      "zeroK8s\<lparr>kp_gatewayHost := ''bk.example.org''\<rparr>"]
  show ?thesis by (simp add: exampleCertLib_def)
qed

definition plainStart :: "(unit, unit) StartEnv" where
  "plainStart = \<lparr>se_scheduling = (\<lambda>s. Inl s), se_oidcFile = (\<lambda>s. Inl s), se_yamlProviders = (\<lambda>s. Inl s),
     se_oidcLib = \<lparr>ol_newProvider = (\<lambda>a b. Inl a), ol_verify = (\<lambda>a b. Inl b), ol_claims = (\<lambda>a. Inl []), ol_jsonIss = (\<lambda>a. None), ol_urlHost = (\<lambda>a. None)\<rparr>,
     se_readFile = (\<lambda>s. Inl s), se_yamlRules = (\<lambda>s. Inl s), se_environ = (\<lambda>s. []), se_kubeconfig = None, se_manager = None, se_secret = (\<lambda>a b. Inl a), se_certLib = exampleCertLib\<rparr>"

theorem windows_agree_witness:
  "\<exists>s. buildd_main 5 (\<lambda>e. []) (emptyEnv 0) emptyOs idleHost plainStart flagDefaults = Inr (StartedK8s s) \<and>
     ks_sweeper s = kp_namespace (ks_prov s) \<and>
     snd (k8s_live (ks_prov s) zeroStatus 0) = fst (expireInflight (st_Inflight (fst (adoptLegacyInflight zeroStatus))) 0 (maxBuildAge (ks_reconciler s)))"
proof -
  obtain s where s: "buildd_main 5 (\<lambda>e. []) (emptyEnv 0) emptyOs idleHost plainStart flagDefaults = Inr (StartedK8s s)"
    by (simp add: buildd_main_def resolveSettings_def plainStart_def flagDefaults_def schedulingFromJSON_def loadConfig_def loadDefaults_def
        newVerifier_def fieldsOn_def Let_def trimSpace_def)
  have "\<bar>bf_maxBuildSec flagDefaults * second\<bar> < 2 ^ 63" "0 < bf_maxBuildSec flagDefaults" by (simp_all add: flagDefaults_def second_def)
  then show ?thesis using windows_agree [OF s] s by blast
qed

end
