(* ===== verification/Live_Builds.thy ===== *)
theory Live_Builds
  imports Controller_Safety K8s_Contract
begin

text \<open>
  A live build and the reconciler. \<open>Controller_Safety\<close> justifies each destructive call by what the log shows before it;
  here the log is that of a server whose uncached reads show a live build: then the justification never exists, and
  no pass, over whatever project, takes the build's daemon down.
\<close>

section \<open>Logs of a server\<close>

text \<open>The event is the server's answer after the log. Only the answers the policy draws on are constrained.\<close>

definition answered :: "Env \<Rightarrow> Event \<Rightarrow> elog \<Rightarrow> bool" where
  "answered env e l =
     (case e of
        ENow t \<Rightarrow> t = ev_now env l
      | EGetBP rd n ns x \<Rightarrow> x = ev_getBP env l rd n ns
      | EListBP ns sel x \<Rightarrow> x = ev_listBP env l ns sel
      | ECreateBP b x \<Rightarrow> x = ev_createBP env l b
      | EUpdateBPStatus b x \<Rightarrow> x = ev_updateBPStatus env l b
      | EPatchBPStatus base b x \<Rightarrow> x = ev_patchBPStatus env l base b
      | EGetSts n ns x \<Rightarrow> x = ev_getSts env l n ns
      | EGetPvc n ns x \<Rightarrow> x = ev_getPvc env l n ns
      | EGetPod n ns x \<Rightarrow> x = ev_getPod env l n ns
      | _ \<Rightarrow> True)"

definition heard :: "Env \<Rightarrow> (Event, 'm) world \<Rightarrow> bool" where
  "heard env w \<longleftrightarrow> log_ok (answered env) (w_log w)"

named_theorems heard_rules \<comment> \<open>the methods of the reconciler only log what the server answers\<close>

lemma heard_calls [heard_rules]:
  "keeps (heard env) (timeNow env)" "keeps (heard env) (getBP env rd n ns)" "keeps (heard env) (listBP env ns sel)"
  "keeps (heard env) (createBP env b)" "keeps (heard env) (updateBP env b)" "keeps (heard env) (updateBPStatus env b)"
  "keeps (heard env) (patchBPStatus env base b)" "keeps (heard env) (deleteBP env b)"
  "keeps (heard env) (getSvc env n ns)" "keeps (heard env) (createSvc env sv)" "keeps (heard env) (updateSvc env sv)"
  "keeps (heard env) (getPDB env n ns)" "keeps (heard env) (createPDB env pd)" "keeps (heard env) (updatePDB env pd)" "keeps (heard env) (deletePDB env pd)"
  "keeps (heard env) (getSts env n ns)" "keeps (heard env) (createSts env st)" "keeps (heard env) (patchSts env st0 st)"
  "keeps (heard env) (getPvc env n ns)" "keeps (heard env) (listPvc env ns)" "keeps (heard env) (updatePvc env pv)" "keeps (heard env) (deletePvc env pv)"
  "keeps (heard env) (getPod env n ns)" "keeps (heard env) (listPod env ns n)" "keeps (heard env) (deletePod env po)"
  "keeps (heard env) (listSnap env ns n)" "keeps (heard env) (createSnap env n ns cls)" "keeps (heard env) (deleteSnap env sn)"
  "keeps (heard env) (probeUsage env n)" "keeps (heard env) (sleepFor env d)" "keeps (heard env) (putMem m)"
  by (simp_all add: keeps_def kube_calls wp_rules heard_def answered_def)

lemma heard_gates [heard_rules]: "keeps (heard env) (bounceAllow key now)" "keeps (heard env) (probeAllow key now)" "keeps (heard env) (rollsHeldSet key b)"
  unfolding bounceAllow_def probeAllow_def rollsHeldSet_def Let_def by (intro keeps_rules heard_rules)+

lemma heard_fresh [heard_rules]: "keeps (heard env) (freshInflightEntries env r bp)" "keeps (heard env) (freshInflight env r bp)"
  unfolding freshInflight_def freshInflightEntries_def by (intro keeps_rules heard_rules)+

lemma heard_grow [heard_rules]: "keeps (heard env) (recordSpecGi env lib bp gi)" "keeps (heard env) (growPvc env lib pvc gi)"
  unfolding recordSpecGi_def growPvc_def Let_def by (intro keeps_rules heard_rules)+

lemma heard_bounce [heard_rules]: "keeps (heard env) (bounceIdle env r bp)"
  unfolding bounceIdle_def bounceUnlessBusy_def bouncePod_def Let_def by (intro keeps_rules heard_rules)+

lemma heard_probe [heard_rules]: "keeps (heard env) (probeDaemon env lib impl r bp pvc)"
  unfolding probeDaemon_def decideGrow_def growVolume_def Let_def by (intro keeps_rules heard_rules)+

lemma heard_autogrow [heard_rules]: "keeps (heard env) (maybeAutoGrow env lib impl r bp ready)"
  unfolding maybeAutoGrow_def probeAndGrow_def Let_def by (intro keeps_rules heard_rules)+

lemma heard_daemonFailure [heard_rules]: "keeps (heard env) (daemonFailure env r key)"
  unfolding daemonFailure_def Let_def by (intro keeps_rules heard_rules)+

lemma heard_service [heard_rules]: "keeps (heard env) (ensureService env lib r bp)"
  unfolding ensureService_def Let_def by (intro keeps_rules heard_rules)+

lemma heard_pdb [heard_rules]: "keeps (heard env) (ensurePDB env lib r bp b)"
  unfolding ensurePDB_def Let_def by (intro keeps_rules heard_rules)+

lemma heard_reapFork [heard_rules]: "keeps (heard env) (reapFork env r bp)"
  unfolding reapFork_def Let_def by (intro keeps_rules heard_rules)+

lemma heard_holdRoll [heard_rules]: "keeps (heard env) (holdRoll env r bp sts live)"
  unfolding holdRoll_def Let_def by (intro keeps_rules heard_rules)+

lemma heard_statefulset [heard_rules]: "keeps (heard env) (ensureStatefulSet env lib r bp desired live)"
  unfolding ensureStatefulSet_def decideRoll_def Let_def by (intro keeps_rules heard_rules)+

lemma heard_snapshot [heard_rules]: "keeps (heard env) (maybeSnapshot env lib r bp)"
  unfolding maybeSnapshot_def takeSnapshot_def pruneSnapshots_def Let_def by (intro keeps_rules heard_rules)+

lemma heard_pruneClones [heard_rules]: "keeps (heard env) (pruneClones env r want cs deferred)"
  by (induction cs arbitrary: deferred) (auto simp: pruneClone_def Let_def intro!: keeps_rules heard_rules)

lemma heard_fanout [heard_rules]: "keeps (heard env) (reconcileFanout env lib r bp)"
  unfolding reconcileFanout_def ensureClones_def ensureClone_def Let_def by (intro keeps_rules heard_rules)+

lemma heard_requeue [heard_rules]: "keeps (heard env) (requeueAfter env r bp desired ready snapAfter live pending held)"
  by (cases live) (auto simp: requeueAfter_def intro!: keeps_rules heard_rules)

lemma heard_loops [heard_rules]: "keeps (heard env) (runLoops env lib impl r bp desired ready live held)"
  unfolding runLoops_def Let_def by (intro keeps_rules heard_rules)+

lemma heard_converge [heard_rules]: "keeps (heard env) (convergeDaemon env lib impl r bp desired live expired adopted)"
  unfolding convergeDaemon_def reflectStatus_def phaseAndMessage_def Let_def by (intro keeps_rules heard_rules)+

lemma heard_Reconcile: "keeps (heard env) (Reconcile env lib impl r name ns)"
  unfolding Reconcile_def takeDownOrConverge_def Let_def by (intro keeps_rules heard_rules)+

section \<open>A server that holds a live build\<close>

text \<open>The logs a pass can have on a server.\<close>

definition passLog :: "Env \<Rightarrow> Lib \<Rightarrow> BuildProjectReconciler \<Rightarrow> elog \<Rightarrow> bool" where
  "passLog env lib r l \<longleftrightarrow> log_ok (answered env) l \<and> log_ok (policy lib r) l"

lemma passLog_Cons: "passLog env lib r (e # l) \<longleftrightarrow> answered env e l \<and> policy lib r e l \<and> passLog env lib r l"
  by (auto simp: passLog_def)

lemma log_ok_suffix: "log_ok J (later @ past) \<Longrightarrow> log_ok J past"
  by (induction later) simp_all

lemma passLog_suffix: "passLog env lib r (later @ past) \<Longrightarrow> passLog env lib r past"
  by (auto simp: passLog_def dest: log_ok_suffix)

lemma log_ok_in: "log_ok J l \<Longrightarrow> e \<in> set l \<Longrightarrow> \<exists>later past. l = later @ e # past \<and> J e past"
  by (metis log_ok_iff split_list)

lemma passLog_in:
  assumes "passLog env lib r l" "e \<in> set l" shows "\<exists>later past. l = later @ e # past \<and> passLog env lib r past \<and> answered env e past"
proof -
  from assms(2) obtain later past where l: "l = later @ e # past" by (meson split_list)
  then show ?thesis using passLog_suffix [of env lib r later "e # past"] assms(1) by (auto simp: passLog_Cons)
qed

text \<open>The answer to a read of the project through the uncached reader: an error, or a status with a live build at the
  time of the next clock reading.\<close>

definition liveAt :: "Env \<Rightarrow> BuildProjectReconciler \<Rightarrow> string \<Rightarrow> string \<Rightarrow> elog \<Rightarrow> bool" where
  "liveAt env r n ns l \<longleftrightarrow>
     (case ev_getBP env l (freshReader r) n ns of
        Inl e \<Rightarrow> \<not> isNotFound e
      | Inr cur \<Rightarrow> liveEntries r (bp_Status cur) (ev_now env (EGetBP (freshReader r) n ns (Inr cur) # l)) \<noteq> [])"

text \<open>No other project has its key, and a read by name answers with the object of that name.\<close>

definition soleProject :: "Env \<Rightarrow> Lib \<Rightarrow> BuildProjectReconciler \<Rightarrow> string \<Rightarrow> string \<Rightarrow> string \<Rightarrow> bool" where
  "soleProject env lib r key n ns \<longleftrightarrow>
     (\<forall>e l. passLog env lib r l \<longrightarrow> answered env e l \<longrightarrow>
        (\<forall>b \<in> set (shownBPs e). sp_Key (bp_Spec b) = key \<longrightarrow> bp_Name b = n \<and> bp_Namespace b = ns))"

definition namedReads :: "Env \<Rightarrow> bool" where
  "namedReads env \<longleftrightarrow>
     (\<forall>l n ns s. ev_getSts env l n ns = Inr s \<longrightarrow> ss_Name s = n) \<and> (\<forall>l n ns p. ev_getPvc env l n ns = Inr p \<longrightarrow> pvc_Name p = n) \<and>
     (\<forall>l n ns p. ev_getPod env l n ns = Inr p \<longrightarrow> pod_Name p = n)"

lemma never_idle:
  assumes "passLog env lib r l" "\<And>later e past. l = later @ e # past \<Longrightarrow> liveAt env r n ns past"
  shows "\<not> confirmedIdle r n ns l"
  using assms
proof (induction l)
  case (Cons e l)
  note p = Cons.prems(1) [unfolded passLog_Cons]
  have live: "liveAt env r n ns past" if "e # l = later @ e' # past" for later e' past using Cons.prems(2) [OF that] .
  have "\<not> idleReadAt r n ns e l"
  proof
    assume i: "idleReadAt r n ns e l"
    show False
    proof (cases e)
      case (ENow t)
      with i obtain g l' where l: "l = g # l'" by (auto simp: idleReadAt_def split: list.splits)
      with i ENow obtain cur where "g = EGetBP (freshReader r) n ns (Inr cur)" "liveEntries r (bp_Status cur) t = []"
        by (auto simp: idleReadAt_def split: Event.splits sum.splits)
      moreover from this have "ev_getBP env l' (freshReader r) n ns = Inr cur" "t = ev_now env (EGetBP (freshReader r) n ns (Inr cur) # l')"
        using p l ENow by (simp_all add: answered_def passLog_Cons)
      ultimately show False using live [of "[e]" g l'] l by (simp add: liveAt_def)
    next
      case (EGetBP rd n' ns' x)
      then show False using i live [of "[]" e l] p by (auto simp: idleReadAt_def answered_def liveAt_def split: sum.splits)
    qed (use i in \<open>simp_all add: idleReadAt_def\<close>)
  qed
  moreover have "\<not> confirmedIdle r n ns l"
    by (rule Cons.IH) (use p live [of "e # _"] in auto)
  ultimately show ?case by simp
qed simp

text \<open>What a pass may do next to the daemon of a live build.\<close>

definition sparing :: "BuildProjectReconciler \<Rightarrow> string \<Rightarrow> string \<Rightarrow> string \<Rightarrow> Event \<Rightarrow> elog \<Rightarrow> bool" where
  "sparing r n ns key e l =
     (case e of
        EPatchSts base new _ \<Rightarrow> ss_Name base = daemonName key \<longrightarrow>
          ss_Replicas new \<noteq> Some 0 \<and> (ss_Template new = ss_Template base \<or> rollForced r n ns key base l)
      | EDeleteBP b _ \<Rightarrow> \<not> (bp_Name b = n \<and> bp_Namespace b = ns)
      | EDeletePvc p _ \<Rightarrow> pvc_Name p \<noteq> cachePVCName key
      | EDeletePod p _ \<Rightarrow> pod_Name p \<noteq> daemonName key @ ''-0''
      | _ \<Rightarrow> True)"

lemma known_sole:
  assumes "passLog env lib r l" "soleProject env lib r key n ns" "knownProject n' ns' key l" shows "n' = n \<and> ns' = ns"
  using assms(2,3) passLog_in [OF assms(1)] unfolding knownProject_def soleProject_def by metis

lemma named_in:
  assumes "passLog env lib r l" "namedReads env"
  shows "EGetSts n ns (Inr s) \<in> set l \<Longrightarrow> ss_Name s = n" "EGetPvc n ns (Inr p) \<in> set l \<Longrightarrow> pvc_Name p = n"
    "EGetPod n ns (Inr q) \<in> set l \<Longrightarrow> pod_Name q = n"
  using assms(2) passLog_in [OF assms(1)] by (fastforce simp: namedReads_def answered_def)+

lemma policy_spares:
  assumes idle: "\<not> confirmedIdle r n ns l" and "soleProject env lib r key n ns" "namedReads env" "passLog env lib r l" "policy lib r e l"
  shows "sparing r n ns key e l"
proof -
  note sole = known_sole [OF assms(4,2)] and named = named_in [OF assms(4,3)]
  show ?thesis
  proof (cases e)
    case (EPatchSts base new x)
    then obtain n' ns' key' where o: "knownProject n' ns' key' l" "EGetSts (daemonName key') (cf_Namespace (rc_Cfg r)) (Inr base) \<in> set l"
      "ss_Replicas new = Some 0 \<longrightarrow> confirmedIdle r n' ns' l" "ss_Template new \<noteq> ss_Template base \<longrightarrow> confirmedIdle r n' ns' l \<or> rollForced r n' ns' key' base l"
      using assms(5) by (auto simp: okPatch_def)
    show ?thesis
    proof (cases "key' = key")
      case True
      then show ?thesis using o idle sole EPatchSts by (auto simp: sparing_def)
    next
      case False
      then show ?thesis using named(1) [OF o(2)] EPatchSts by (simp add: sparing_def daemonName_def)
    qed
  next
    case (EDeleteBP b x)
    then show ?thesis using assms(5) idle by (auto simp: sparing_def okDeleteBP_def)
  next
    case (EDeletePvc p x)
    then obtain n' ns' key' where o: "knownProject n' ns' key' l" "confirmedIdle r n' ns' l"
      "EGetPvc (cachePVCName key') (cf_Namespace (rc_Cfg r)) (Inr p) \<in> set l" using assms(5) by (auto simp: okDeletePvc_def)
    then show ?thesis using named(2) [OF o(3)] idle sole EDeletePvc by (auto simp: sparing_def cachePVCName_def daemonName_def)
  next
    case (EDeletePod p x)
    then obtain n' ns' key' where o: "knownProject n' ns' key' l" "confirmedIdle r n' ns' l"
      "EGetPod (daemonName key' @ ''-0'') (cf_Namespace (rc_Cfg r)) (Inr p) \<in> set l" using assms(5) by (auto simp: okDeletePod_def)
    then show ?thesis using named(3) [OF o(3)] idle sole EDeletePod by (auto simp: sparing_def daemonName_def)
  qed (simp_all add: sparing_def)
qed

lemma Reconcile_passLog:
  "passLog env lib r (w_log (snd (run_state (Reconcile env lib impl r name ns) \<lparr>w_log = [], w_mem = m\<rparr>)))"
proof -
  let ?w = "\<lparr>w_log = [], w_mem = m\<rparr>" and ?R = "Reconcile env lib impl r name ns"
  have "wp ?R (\<lambda>_. heard env) ?w" by (rule keepsD [OF heard_Reconcile]) (simp add: heard_def)
  then show ?thesis using wp_Reconcile [of lib r ?w env impl name ns] by (simp add: wp_run heard_def passLog_def reached_def good_def)
qed

end
