(* ===== verification/Versioned_Store.thy ===== *)
theory Versioned_Store
  imports Live_Builds
begin

text \<open>
  A writer of project statuses among others. The API server keeps every version of a project under its resource
  version; the cached reader may answer with any of them, the uncached one with the newest, and a status update is
  written only over the version it names. Between two calls of the writer others write what they like, as long as
  they keep a given build. The locale \<open>optimistic_writer\<close> says what a writer's own calls must satisfy for it to keep
  the build as well; the reconciler and the routing API are its interpretations (\<open>Racing_Writers\<close>).
\<close>

section \<open>The server\<close>

type_synonym history = "elog \<Rightarrow> BuildProject list" \<comment> \<open>the versions after a log, the newest first\<close>

definition isNamed :: "string \<Rightarrow> string \<Rightarrow> BuildProject \<Rightarrow> bool" where
  "isNamed n ns b \<longleftrightarrow> bp_Name b = n \<and> bp_Namespace b = ns"

definition holding :: "InflightBuild \<Rightarrow> BuildProject \<Rightarrow> bool" where
  "holding x b \<longleftrightarrow> x \<in> set (st_Inflight (bp_Status b)) \<and> length (st_Inflight (bp_Status b)) \<le> InflightCap"

text \<open>The version a call of the writer may have written, whatever it was answered: a status update replaces the status of
  the version it names, or of the newest when it names none; a status patch leaves a list alone that is the same on
  both of its sides; an update of the object leaves the status alone.\<close>

definition wroteBy :: "history \<Rightarrow> string \<Rightarrow> string \<Rightarrow> Event \<Rightarrow> elog \<Rightarrow> BuildProject \<Rightarrow> bool" where
  "wroteBy H n ns e l v =
     (case e of
        EUpdateBPStatus b _ \<Rightarrow>
          isNamed n ns b \<and> bp_ResourceVersion b \<in> {[], bp_ResourceVersion (hd (H l))} \<and> bp_Status v = bp_Status b
      | EPatchBPStatus base b _ \<Rightarrow>
          st_Inflight (bp_Status base) = st_Inflight (bp_Status b) \<longrightarrow> st_Inflight (bp_Status v) = st_Inflight (bp_Status (hd (H l)))
      | EUpdateBP b _ \<Rightarrow> bp_Status v = bp_Status (hd (H l))
      | _ \<Rightarrow> False)"

definition keepsVersions :: "Env \<Rightarrow> history \<Rightarrow> string \<Rightarrow> string \<Rightarrow> InflightBuild \<Rightarrow> bool" where
  "keepsVersions env H n ns x \<longleftrightarrow>
     H [] \<noteq> [] \<and> holding x (hd (H [])) \<and>
     (\<forall>l. distinct (map bp_ResourceVersion (H l)) \<and> (\<forall>v \<in> set (H l). bp_ResourceVersion v \<noteq> [])) \<and>
     (\<forall>l rd n' ns' b. ev_getBP env l rd n' ns' = Inr b \<longrightarrow> isNamed n' ns' b) \<and>
     (\<forall>l rd b. ev_getBP env l rd n ns = Inr b \<longrightarrow> b \<in> set (H l)) \<and>
     (\<forall>l b. ev_getBP env l Direct n ns = Inr b \<longrightarrow> b = hd (H l)) \<and>
     (\<forall>l e. ev_getBP env l Direct n ns = Inl e \<longrightarrow> isNotFound e \<longrightarrow> (\<exists>b y. EDeleteBP b y \<in> set l \<and> isNamed n ns b)) \<and>
     (\<forall>l b b'. ev_createBP env l b = Inr b' \<longrightarrow> isNamed n ns b' \<longrightarrow> (\<exists>c y. EDeleteBP c y \<in> set l \<and> isNamed n ns c)) \<and>
     (\<forall>l e. answered env e l \<longrightarrow> (\<exists>new. H (e # l) = new @ H l \<and> (\<forall>v \<in> set new. holding x v \<or> wroteBy H n ns e l v)))"

lemma keepsVersionsD:
  assumes "keepsVersions env H n ns x"
  shows "H [] \<noteq> []" "holding x (hd (H []))" "distinct (map bp_ResourceVersion (H l))" "v \<in> set (H l) \<Longrightarrow> bp_ResourceVersion v \<noteq> []"
    "ev_getBP env l rd n' ns' = Inr b \<Longrightarrow> isNamed n' ns' b" "ev_getBP env l rd n ns = Inr b \<Longrightarrow> b \<in> set (H l)"
    "ev_getBP env l Direct n ns = Inr b \<Longrightarrow> b = hd (H l)"
    "ev_getBP env l Direct n ns = Inl e' \<Longrightarrow> isNotFound e' \<Longrightarrow> \<exists>b y. EDeleteBP b y \<in> set l \<and> isNamed n ns b"
    "ev_createBP env l c = Inr b \<Longrightarrow> isNamed n ns b \<Longrightarrow> \<exists>c y. EDeleteBP c y \<in> set l \<and> isNamed n ns c"
    "answered env e l \<Longrightarrow> \<exists>new. H (e # l) = new @ H l \<and> (\<forall>v \<in> set new. holding x v \<or> wroteBy H n ns e l v)"
  using assms unfolding keepsVersions_def by blast+

section \<open>The history grows\<close>

lemma history_grows:
  assumes k: "keepsVersions env H n ns x" and "log_ok (answered env) (later @ past)"
  shows "\<exists>more. H (later @ past) = more @ H past"
  using assms(2)
proof (induction later)
  case (Cons e later)
  then obtain more where "H (later @ past) = more @ H past" by auto
  moreover obtain new where "H (e # later @ past) = new @ H (later @ past)"
    using keepsVersionsD(10) [OF k, of e "later @ past"] Cons.prems by auto
  ultimately show ?case by simp
qed simp

lemma history_ne: "keepsVersions env H n ns x \<Longrightarrow> log_ok (answered env) l \<Longrightarrow> H l \<noteq> []"
  using history_grows [of env H n ns x l "[]"] keepsVersionsD(1) by fastforce

text \<open>What a read of the project showed is still in the history, under its resource version.\<close>

lemma read_in_history:
  assumes k: "keepsVersions env H n ns x" and p: "log_ok (answered env) l" and e: "EGetBP rd n' ns' (Inr b0) \<in> set l" and b: "isNamed n ns b0"
  shows "b0 \<in> set (H l)"
proof -
  obtain later past where l: "l = later @ EGetBP rd n' ns' (Inr b0) # past" "ev_getBP env past rd n' ns' = Inr b0"
    using log_ok_in [OF p e] by (auto simp: answered_def)
  then have "b0 \<in> set (H past)" using keepsVersionsD(5,6) [OF k] b by (auto simp: isNamed_def)
  then show ?thesis using history_grows [OF k, of "later @ [EGetBP rd n' ns' (Inr b0)]" past] p l(1) by auto
qed

lemma same_version:
  assumes "distinct (map bp_ResourceVersion vs)" "vs \<noteq> []" "b \<in> set vs" "bp_ResourceVersion b = bp_ResourceVersion (hd vs)"
  shows "b = hd vs"
  using assms by (cases vs) (auto simp: rev_image_eqI)

text \<open>An update over the newest version was computed from it, however stale the cache is otherwise.\<close>

lemma update_from_newest:
  assumes k: "keepsVersions env H n ns x" and p: "log_ok (answered env) l" and r: "EGetBP Cached n' ns' (Inr b0) \<in> set l" "isNamed n ns b0"
    and rv: "bp_ResourceVersion b = bp_ResourceVersion b0" "bp_ResourceVersion b \<in> {[], bp_ResourceVersion (hd (H l))}"
  shows "b0 = hd (H l)"
proof -
  note b0 = read_in_history [OF k p r]
  show ?thesis by (rule same_version [OF keepsVersionsD(3) [OF k] history_ne [OF k p] b0]) (use rv keepsVersionsD(4) [OF k b0] in auto)
qed

text \<open>An uncached read after the newest version was read shows it again.\<close>

lemma fresh_newest:
  assumes k: "keepsVersions env H n ns x" and p: "log_ok (answered env) l" and l: "l = later @ EGetBP Direct n ns (Inr cur) # past"
    and m: "EGetBP Cached n' ns' (Inr (hd (H l))) \<in> set past" "isNamed n ns (hd (H l))"
  shows "cur = hd (H l)"
proof -
  have past: "log_ok (answered env) past" "ev_getBP env past Direct n ns = Inr cur"
    using log_ok_suffix [OF p [unfolded l]] by (simp_all add: answered_def)
  obtain more where more: "H l = more @ H past" using history_grows [OF k, of "later @ [EGetBP Direct n ns (Inr cur)]" past] p l by auto
  have "more = []"
    using read_in_history [OF k past(1) m] keepsVersionsD(3) [OF k, of l] unfolding more by (cases more) auto
  then show ?thesis using more keepsVersionsD(7) [OF k past(2)] by simp
qed

section \<open>Writers that keep a build\<close>

text \<open>The build is in every version written since the writer started, and the project was not deleted.\<close>

definition kept :: "history \<Rightarrow> string \<Rightarrow> string \<Rightarrow> InflightBuild \<Rightarrow> elog \<Rightarrow> bool" where
  "kept H n ns x l \<longleftrightarrow>
     (\<exists>new. H l = new @ H [] \<and> (\<forall>v \<in> set new. holding x v)) \<and> (\<forall>b y. EDeleteBP b y \<in> set l \<longrightarrow> \<not> isNamed n ns b)"

definition keptThroughout :: "history \<Rightarrow> string \<Rightarrow> string \<Rightarrow> InflightBuild \<Rightarrow> elog \<Rightarrow> bool" where
  "keptThroughout H n ns x l \<longleftrightarrow> (\<forall>later past. l = later @ past \<longrightarrow> kept H n ns x past)"

lemma kept_newest: "keepsVersions env H n ns x \<Longrightarrow> kept H n ns x l \<Longrightarrow> holding x (hd (H l))"
  using keepsVersionsD(2) by (auto simp: kept_def hd_append)

lemma keptThroughout_simps:
  "keptThroughout H n ns x [] = kept H n ns x []"
  "keptThroughout H n ns x (e # l) \<longleftrightarrow> kept H n ns x (e # l) \<and> keptThroughout H n ns x l"
  by (auto simp: keptThroughout_def Cons_eq_append_conv)

text \<open>The contract of a writer that follows the rules \<open>ok\<close> where the circumstances \<open>rely\<close> hold.\<close>

locale optimistic_writer =
  fixes rely :: "Env \<Rightarrow> history \<Rightarrow> bool" and ok :: "Event \<Rightarrow> elog \<Rightarrow> bool"
    and n :: string and ns :: string and x :: InflightBuild
  assumes update: "\<lbrakk>keepsVersions env H n ns x; rely env H; log_ok (answered env) l; log_ok ok l; keptThroughout H n ns x l;
      ok (EUpdateBPStatus b y) l; isNamed n ns b; bp_ResourceVersion b \<in> {[], bp_ResourceVersion (hd (H l))}\<rbrakk> \<Longrightarrow> holding x b"
    and patch: "ok (EPatchBPStatus base b y) l \<Longrightarrow> st_Inflight (bp_Status base) = st_Inflight (bp_Status b)"
    and delete: "\<lbrakk>keepsVersions env H n ns x; rely env H; log_ok (answered env) l; log_ok ok l; keptThroughout H n ns x l;
      ok (EDeleteBP b z) l\<rbrakk> \<Longrightarrow> \<not> isNamed n ns b"
begin

lemma step_holding:
  assumes "keepsVersions env H n ns x" "rely env H" "log_ok (answered env) l" "log_ok ok l" "keptThroughout H n ns x l"
    and "ok e l" "wroteBy H n ns e l v"
  shows "holding x v"
proof -
  have h: "holding x (hd (H l))" using kept_newest [OF assms(1)] assms(5) by (metis append_Nil keptThroughout_def)
  show ?thesis
  proof (cases e)
    case (EUpdateBPStatus b y)
    then show ?thesis using update [OF assms(1-5), of b y] assms(6,7) by (auto simp: wroteBy_def holding_def)
  qed (use assms(6,7) h patch in \<open>auto simp: wroteBy_def holding_def\<close>)
qed

lemma keeps_throughout:
  assumes k: "keepsVersions env H n ns x" and r: "rely env H"
  shows "log_ok (answered env) l \<Longrightarrow> log_ok ok l \<Longrightarrow> keptThroughout H n ns x l"
proof (induction l)
  case (Cons e l)
  then have t: "log_ok (answered env) l" "log_ok ok l" "keptThroughout H n ns x l" and e: "answered env e l" "ok e l" by simp_all
  then have h: "kept H n ns x l" by (metis append_Nil keptThroughout_def)
  obtain new where new: "H (e # l) = new @ H l" "\<forall>v \<in> set new. holding x v \<or> wroteBy H n ns e l v"
    using keepsVersionsD(10) [OF k e(1)] by auto
  then have "\<forall>v \<in> set new. holding x v" using step_holding [OF k r t e(2)] by blast
  moreover have "\<not> isNamed n ns b" if "e = EDeleteBP b z" for b z using delete [OF k r t] e(2) that by blast
  ultimately have "kept H n ns x (e # l)" using h new(1) unfolding kept_def by auto
  with t show ?case by (simp add: keptThroughout_simps)
qed (simp add: kept_def keptThroughout_simps)

end

end
