(* ===== verification/Racing_Writers.thy ===== *)
theory Racing_Writers
  imports Versioned_Store
begin

text \<open>
  The two writers of a project's status, the reconciler and the routing API, each among the others: neither loses a
  build it is not told to release, whatever version its cache shows.
\<close>

section \<open>Statuses that hold a build\<close>

lemma holding_adopted: "x \<in> set (st_Inflight st) \<Longrightarrow> adoptLegacyInflight st = (st, False)"
  by (cases "st_Inflight st") (auto simp: adoptLegacyInflight_def split: option.split)

lemma holding_live:
  assumes "holding x b" "timeSub t (ib_Since x) \<le> maxBuildAge r"
  shows "x \<in> set (liveEntries r (bp_Status b) t)" "capInflight (liveEntries r (bp_Status b) t) = liveEntries r (bp_Status b) t"
    "length (liveEntries r (bp_Status b) t) \<le> InflightCap"
proof -
  have x: "x \<in> set (st_Inflight (bp_Status b))" and c: "length (st_Inflight (bp_Status b)) \<le> InflightCap" using assms(1) by (simp_all add: holding_def)
  show "x \<in> set (liveEntries r (bp_Status b) t)" using x assms(2) by (simp add: liveEntries_def holding_adopted [OF x] expireInflight_fst)
  show l: "length (liveEntries r (bp_Status b) t) \<le> InflightCap"
    using le_trans [OF length_filter_le c] by (simp add: liveEntries_def holding_adopted [OF x] expireInflight_fst)
  then show "capInflight (liveEntries r (bp_Status b) t) = liveEntries r (bp_Status b) t" by (simp add: capInflight_def)
qed

text \<open>Every version written during a log holds the build, and the newest does.\<close>

definition survives :: "history \<Rightarrow> InflightBuild \<Rightarrow> elog \<Rightarrow> bool" where
  "survives H x l \<longleftrightarrow> (\<exists>new. H l = new @ H [] \<and> (\<forall>v \<in> set new. holding x v)) \<and> holding x (hd (H l))"

section \<open>The reconciler\<close>

text \<open>The circumstances: an uncached reader is configured, and the build has not outlived the time a build may take.\<close>

definition passRely :: "BuildProjectReconciler \<Rightarrow> InflightBuild \<Rightarrow> Env \<Rightarrow> history \<Rightarrow> bool" where
  "passRely r x env H \<longleftrightarrow> rc_Direct r \<and> (\<forall>l. timeSub (ev_now env l) (ib_Since x) \<le> maxBuildAge r)"

lemma kept_liveAt:
  assumes k: "keepsVersions env H n ns x" and r: "passRely r x env H" and h: "kept H n ns x l"
  shows "liveAt env r n ns l"
proof -
  have f: "freshReader r = Direct" using r by (simp add: passRely_def freshReader_def)
  show ?thesis
  proof (cases "ev_getBP env l Direct n ns")
    case (Inl e)
    then show ?thesis using keepsVersionsD(8) [OF k Inl] h f by (auto simp: liveAt_def kept_def)
  next
    case (Inr cur)
    have "x \<in> set (liveEntries r (bp_Status cur) (ev_now env l'))" for l'
      using holding_live(1) [OF kept_newest [OF k h], of "ev_now env l'" r] r keepsVersionsD(7) [OF k Inr] by (simp add: passRely_def)
    then have "liveEntries r (bp_Status cur) (ev_now env l') \<noteq> []" for l' by (metis empty_iff empty_set)
    then show ?thesis using Inr f by (simp add: liveAt_def)
  qed
qed

lemma kept_never_idle:
  assumes "keepsVersions env H n ns x" "passRely r x env H" "passLog env lib r l" "keptThroughout H n ns x l"
  shows "\<not> confirmedIdle r n ns l"
proof (rule never_idle [OF assms(3)])
  fix later e past assume "l = later @ e # past"
  then have "kept H n ns x past" using assms(4) unfolding keptThroughout_def by (metis append_Cons append_Nil append_assoc)
  then show "liveAt env r n ns past" by (rule kept_liveAt [OF assms(1,2)])
qed

lemma pass_update:
  assumes k: "keepsVersions env H n ns x" and rl: "passRely r x env H" and p: "log_ok (answered env) l" and h: "holding x (hd (H l))"
    and u: "okUpdateStatus r b l" and b: "isNamed n ns b" and rv: "bp_ResourceVersion b \<in> {[], bp_ResourceVersion (hd (H l))}"
  shows "holding x b"
proof -
  obtain n' ns' b0 where r: "EGetBP Cached n' ns' (Inr b0) \<in> set l" "isNamed n ns b0" "bp_ResourceVersion b = bp_ResourceVersion b0" "carriesEntries r b b0 l"
    using u b unfolding okUpdateStatus_def isNamed_def by metis
  note now = update_from_newest [OF k p r(1,2,3) rv]
  have f: "freshReader r = Direct" "bp_Name b0 = n" "bp_Namespace b0 = ns" using rl r(2) by (simp_all add: passRely_def freshReader_def isNamed_def)
  have "\<exists>t. ENow t \<in> set l \<and> live = liveEntries r (bp_Status (hd (H l))) t" if "liveRead r b0 live l" for live
    using that fresh_newest [OF k p] r(2) unfolding liveRead_def f by (metis now)
  moreover have "timeSub t (ib_Since x) \<le> maxBuildAge r" if "ENow t \<in> set l" for t
    using log_ok_in [OF p that] rl by (auto simp: answered_def passRely_def)
  ultimately have "x \<in> set live \<and> capInflight live = live \<and> length live \<le> InflightCap" if "liveRead r b0 live l" for live
    using holding_live [OF h] that by metis
  then show ?thesis using r(4) h unfolding carriesEntries_def now holding_def by (metis holding_adopted fst_conv)
qed

interpretation pass: optimistic_writer "passRely r x" "policy lib r" n ns x for lib r n ns x
proof
  fix env H l b y
  assume a: "keepsVersions env H n ns x" "passRely r x env H" "log_ok (answered env) l" "keptThroughout H n ns x l"
    "policy lib r (EUpdateBPStatus b y) l" "isNamed n ns b" "bp_ResourceVersion b \<in> {[], bp_ResourceVersion (hd (H l))}"
  then have "holding x (hd (H l))" using kept_newest [OF a(1)] by (metis append_Nil keptThroughout_def)
  then show "holding x b" using pass_update [OF a(1,2,3) _ _ a(6,7)] a(5) by simp
next
  fix env H l b z
  assume a: "keepsVersions env H n ns x" "passRely r x env H" "log_ok (answered env) l" "log_ok (policy lib r) l" "keptThroughout H n ns x l"
    "policy lib r (EDeleteBP b z) l"
  then show "\<not> isNamed n ns b" using kept_never_idle [OF a(1,2) _ a(5), of lib] by (auto simp: passLog_def okDeleteBP_def isNamed_def)
qed (auto simp: okPatchStatus_def)

text \<open>A pass loses no build to a race. The server keeps the versions of a project; the cache a pass reads may lag behind by
  any number of them, and other replicas write in between. If the newest version holds a build when the
  pass starts, the build is within its time and the others keep it, then every version written during
  the pass, by the pass or by others, holds it, even when the pass was told that a write had failed. Nor
  does the pass, over whatever project, size the build's daemon to zero, bounce its pod, delete its cache
  or delete the project; it replaces the pod template only for one of the three reasons a hold is
  refused.\<close>

lemma race_keeps_build:
  assumes "keepsVersions env H n ns x" "passRely r x env H" "soleProject env lib r key n ns" "namedReads env"
    and "l = w_log (snd (run_state (Reconcile env lib impl r name ns') \<lparr>w_log = [], w_mem = m\<rparr>))"
  shows "survives H x l \<and> log_ok (sparing r n ns key) l"
proof -
  have p: "passLog env lib r l" unfolding assms(5) by (rule Reconcile_passLog)
  have kp: "keptThroughout H n ns x l'" if "passLog env lib r l'" for l' 
    using that pass.keeps_throughout [OF assms(1,2)] unfolding passLog_def by blast
  have "log_ok (sparing r n ns key) l'" if "passLog env lib r l'" for l'
    using that by (induction l') (auto simp: passLog_Cons intro: policy_spares [OF kept_never_idle [OF assms(1,2) _ kp] assms(3,4)])
  moreover have "kept H n ns x l" using kp [OF p] by (metis append_Nil keptThroughout_def)
  ultimately show ?thesis using p kept_newest [OF assms(1)] by (auto simp: kept_def survives_def)
qed

section \<open>The routing API\<close>

text \<open>The calls a handler makes of its backend, and the releases among them: of the build it routed itself, or of
  the one its caller names.\<close>

definition releasesOnly :: "(string \<Rightarrow> string \<Rightarrow> bool) \<Rightarrow> ApiCall \<Rightarrow> bool" where
  "releasesOnly R c =
     (case c of
        Route r \<Rightarrow> \<forall>key. R key (newBuildID (hr_Random r))
      | Prewarm r \<Rightarrow> True
      | Complete r \<Rightarrow> (\<forall>req. hr_Body r = Inr req \<longrightarrow> R (cq_Key req) (cq_BuildID req)))"

lemma decodeComplete_body: "decodeComplete s r = Inr req \<Longrightarrow> hr_Body r = Inr req"
  by (auto simp: decodeComplete_def Let_def split: if_splits sum.splits)

lemma keeps_serve:
  assumes "\<And>spec u. keeps I (pv_Ensure (rs_prov s) spec u)" "\<And>key. keeps I (pv_Ready (rs_prov s) key)" "\<And>key. keeps I (pv_WaitReady (rs_prov s) key)"
    "\<And>key. keeps I (pv_Endpoint (rs_prov s) key)" "\<And>key tok. keeps I (pv_StartInflight (rs_prov s) key tok)" "\<And>key. keeps I (pv_Touch (rs_prov s) key)"
    "\<And>key. keeps I (pv_ProjectRepo (rs_prov s) key)" "\<And>key iv g. keeps I (pv_S3CacheDecision (rs_prov s) key iv g)"
    "\<And>key tok. R key tok \<Longrightarrow> keeps I (pv_EndInflight (rs_prov s) key tok)" "releasesOnly R c"
  shows "keeps I (serve s c)"
proof (cases c)
  case (Route r)
  have e: "keeps I (pv_EndInflight (rs_prov s) key (newBuildID (hr_Random r)))" for key using assms(9,10) Route by (simp add: releasesOnly_def)
  show ?thesis unfolding Route serve_def ApiCall.case handleRoute_def routeBuild_def abandonRoute_def respondRoute_def cacheFor_def Let_def
    by (intro keeps_rules assms(1-8) e)
next
  case (Prewarm r)
  show ?thesis unfolding Prewarm serve_def ApiCall.case handlePrewarm_def cacheFor_def Let_def by (intro keeps_rules assms(1-8))
next
  case (Complete r)
  have e: "keeps I (releaseBuild s auth req)" if "decodeComplete s r = Inr req" for req auth
    using assms(9,10) decodeComplete_body [OF that] unfolding releaseBuild_def by (auto simp: Complete releasesOnly_def intro!: keeps_rules)
  show ?thesis unfolding Complete serve_def ApiCall.case handleComplete_def checkOwner_def
    by (cases "decodeComplete s r") (auto intro!: keeps_rules assms(7) e)
qed

lemma heard_serve:
  assumes "rs_prov s = k8sBackend fuel render env p"
  shows "keeps (heard env) (serve s c)"
proof -
  have loop: "keeps (heard env) (waitLoop k env p key deadline :: (unit, _) kprog)" for k key deadline
    by (induction k) (auto simp: waitOnce_def intro!: keeps_rules heard_rules)
  have decide: "keeps (heard env) (k8s_S3CacheDecision env p key iv g :: (unit, _) kprog)" for key iv g
    unfolding k8s_S3CacheDecision_def grantOnce_def Let_def by (intro keeps_rules heard_rules)
  show ?thesis
    by (rule keeps_serve [where R = "\<lambda>_ _. True"])
      (simp_all add: assms k8sBackend_def releasesOnly_def k8s_Ensure_def ensureBuildProject_def k8s_Ready_def k8s_WaitReady_def k8s_StartInflight_def
        k8s_EndInflight_def k8s_Touch_def k8s_ProjectRepo_def touchStatus_def touchOnce_def Let_def decide loop keeps_rules heard_rules split: ApiCall.split prod.split)
qed

text \<open>What the API promises of a status update: it is of an object it just created, or it was computed from the object
  read, at the time read, and keeps the build there if it is within its time and there is room for another.\<close>

definition inWindow :: "K8sProvisioner \<Rightarrow> InflightBuild \<Rightarrow> time \<Rightarrow> bool" where
  "inWindow p x t \<longleftrightarrow> kp_maxBuild p \<le> 0 \<or> timeSub t (ib_Since x) \<le> kp_maxBuild p"

definition holdsWithRoom :: "InflightBuild \<Rightarrow> BuildProjectStatus \<Rightarrow> bool" where
  "holdsWithRoom x st \<longleftrightarrow> x \<in> set (st_Inflight st) \<and> length (st_Inflight st) < InflightCap"

definition derivedWrite :: "K8sProvisioner \<Rightarrow> string \<Rightarrow> InflightBuild \<Rightarrow> BuildProject \<Rightarrow> elog \<Rightarrow> bool" where
  "derivedWrite p n x b l \<longleftrightarrow>
     (\<exists>k ns b0 t. EGetBP Cached k ns (Inr b0) \<in> set l \<and> bp_Name b = bp_Name b0 \<and> bp_Namespace b = bp_Namespace b0 \<and>
        bp_ResourceVersion b = bp_ResourceVersion b0 \<and> ENow t \<in> set l \<and>
        (k = n \<longrightarrow> inWindow p x t \<longrightarrow> holdsWithRoom x (bp_Status b0) \<longrightarrow> holding x b))"

definition apiRule :: "K8sProvisioner \<Rightarrow> string \<Rightarrow> InflightBuild \<Rightarrow> Event \<Rightarrow> elog \<Rightarrow> bool" where
  "apiRule p n x e l =
     (case e of
        EUpdateBPStatus b _ \<Rightarrow>
          (\<exists>c created. ECreateBP c (Inr created) \<in> set l \<and> bp_Name b = bp_Name created \<and> bp_Namespace b = bp_Namespace created) \<or>
          derivedWrite p n x b l
      | EPatchBPStatus base b _ \<Rightarrow> False
      | EDeleteBP b _ \<Rightarrow> False
      | _ \<Rightarrow> True)"

definition apiRely :: "K8sProvisioner \<Rightarrow> InflightBuild \<Rightarrow> Env \<Rightarrow> history \<Rightarrow> bool" where
  "apiRely p x env H \<longleftrightarrow>
     (\<forall>l. inWindow p x (ev_now env l)) \<and> (\<forall>l. \<forall>v \<in> set (H l). length (st_Inflight (bp_Status v)) < InflightCap)"

interpretation api: optimistic_writer "apiRely p x" "apiRule p n x" n ns x for p n ns x
proof
  fix env H l b y
  assume a: "keepsVersions env H n ns x" "apiRely p x env H" "log_ok (answered env) l" "keptThroughout H n ns x l"
    "apiRule p n x (EUpdateBPStatus b y) l" "isNamed n ns b" "bp_ResourceVersion b \<in> {[], bp_ResourceVersion (hd (H l))}"
  have k: "kept H n ns x l" using a(4) by (metis append_Nil keptThroughout_def)
  have "\<not> (ECreateBP c (Inr created) \<in> set l \<and> bp_Name b = bp_Name created \<and> bp_Namespace b = bp_Namespace created)" for c created
  proof
    assume c: "ECreateBP c (Inr created) \<in> set l \<and> bp_Name b = bp_Name created \<and> bp_Namespace b = bp_Namespace created"
    then obtain later past where l: "l = later @ ECreateBP c (Inr created) # past" "ev_createBP env past c = Inr created"
      using log_ok_in [OF a(3)] by (fastforce simp: answered_def)
    then show False using keepsVersionsD(9) [OF a(1) l(2)] c a(6) k by (auto simp: kept_def isNamed_def)
  qed
  then obtain m ns' b0 t where r: "EGetBP Cached m ns' (Inr b0) \<in> set l" "isNamed n ns b0" "bp_ResourceVersion b = bp_ResourceVersion b0"
    "ENow t \<in> set l" "m = n \<longrightarrow> inWindow p x t \<longrightarrow> holdsWithRoom x (bp_Status b0) \<longrightarrow> holding x b"
    using a(5,6) unfolding apiRule_def derivedWrite_def isNamed_def Event.case by metis
  have "m = n" using log_ok_in [OF a(3) r(1)] keepsVersionsD(5) [OF a(1)] r(2) by (fastforce simp: answered_def isNamed_def)
  moreover have "inWindow p x t" using log_ok_in [OF a(3) r(4)] a(2) by (auto simp: answered_def apiRely_def)
  moreover have "holdsWithRoom x (bp_Status b0)"
    using update_from_newest [OF a(1,3) r(1,2,3) a(7)] kept_newest [OF a(1) k] a(2) history_ne [OF a(1,3)] hd_in_set
    by (fastforce simp: holdsWithRoom_def holding_def apiRely_def)
  ultimately show "holding x b" using r(5) by blast
qed (simp_all add: apiRule_def)

text \<open>The mutations that keep the build.\<close>

definition mutationKeeps :: "K8sProvisioner \<Rightarrow> InflightBuild \<Rightarrow> (BuildProjectStatus \<Rightarrow> time \<Rightarrow> BuildProjectStatus \<times> bool) \<Rightarrow> bool" where
  "mutationKeeps p x m \<longleftrightarrow>
     (\<forall>st t st'. inWindow p x t \<longrightarrow> holdsWithRoom x st \<longrightarrow> m st t = (st', True) \<longrightarrow>
        x \<in> set (st_Inflight st') \<and> length (st_Inflight st') \<le> InflightCap)"

lemma k8s_live_holds:
  assumes "inWindow p x t" "holdsWithRoom x st"
  obtains entries where "k8s_live p st t = (st, entries)" "x \<in> set entries" "length entries < InflightCap"
proof -
  have x: "x \<in> set (st_Inflight st)" and c: "length (st_Inflight st) < InflightCap" using assms(2) by (simp_all add: holdsWithRoom_def)
  let ?e = "snd (k8s_live p st t)"
  have "k8s_live p st t = (st, ?e)" by (simp add: k8s_live_def holding_adopted [OF x])
  moreover have "x \<in> set ?e" using x assms(1) by (auto simp: k8s_live_def holding_adopted [OF x] expireInflight_fst inWindow_def)
  moreover have "length ?e < InflightCap"
    using c le_less_trans [OF length_filter_le c] by (simp add: k8s_live_def holding_adopted [OF x] expireInflight_fst)
  ultimately show ?thesis by (rule that)
qed

lemma startMutation_keeps: "mutationKeeps p x (startMutation p key tok)"
  unfolding mutationKeeps_def
proof (intro allI impI)
  fix st t st' assume a: "inWindow p x t" "holdsWithRoom x st" "startMutation p key tok st t = (st', True)"
  obtain entries where e: "k8s_live p st t = (st, entries)" "x \<in> set entries" "length entries < InflightCap" by (rule k8s_live_holds [OF a(1,2)])
  then have "st_Inflight st' = entries @ [\<lparr>ib_ID = inflightID tok, ib_Since = t\<rparr>]"
    using a(3) by (auto simp: startMutation_def setInflight_def startInflight_def capInflight_def Let_def split: if_splits)
  then show "x \<in> set (st_Inflight st') \<and> length (st_Inflight st') \<le> InflightCap" using e by simp
qed

lemma endMutation_keeps:
  assumes "tok \<noteq> []" "inflightID tok \<noteq> ib_ID x" shows "mutationKeeps p x (endMutation p tok)"
  unfolding mutationKeeps_def
proof (intro allI impI)
  fix st t st' assume a: "inWindow p x t" "holdsWithRoom x st" "endMutation p tok st t = (st', True)"
  obtain entries where e: "k8s_live p st t = (st, entries)" "x \<in> set entries" "length entries < InflightCap" by (rule k8s_live_holds [OF a(1,2)])
  let ?r = "endInflightBefore entries tok (t + wrap64 (- kp_maxBuild p))"
  have f: "snd ?r" and s: "st_Inflight st' = capInflight (fst ?r)"
    using a(3) e(1) by (auto simp: endMutation_def setInflight_def Let_def split: prod.splits if_splits)
  obtain i where i: "i < length entries" "fst ?r = take i entries @ drop (Suc i) entries" "ib_ID (entries ! i) = inflightID tok"
    using endInflightAt_removed [OF f [unfolded endInflightBefore_def]] assms(1) by (auto simp: endInflightBefore_def)
  have "x \<in> set (fst ?r)"
  proof -
    have "x \<in> set (take i entries @ entries ! i # drop (Suc i) entries)" using e(2) i(1) by (simp add: id_take_nth_drop [symmetric])
    then show ?thesis using i(2,3) assms(2) by auto
  qed
  moreover have "length (fst ?r) < InflightCap" using i e(3) by simp
  ultimately show "x \<in> set (st_Inflight st') \<and> length (st_Inflight st') \<le> InflightCap" by (simp add: s capInflight_def)
qed

definition ruled :: "K8sProvisioner \<Rightarrow> string \<Rightarrow> InflightBuild \<Rightarrow> (Event, unit) world \<Rightarrow> bool" where
  "ruled p n x w \<longleftrightarrow> log_ok (apiRule p n x) (w_log w)"

named_theorems ruled_rules \<comment> \<open>the operations of the backend follow the rules of the API\<close>

lemma ruled_calls [ruled_rules]:
  "keeps (ruled p n x) (timeNow env)" "keeps (ruled p n x) (getBP env rd k ns)" "keeps (ruled p n x) (createBP env b)"
  "keeps (ruled p n x) (getSts env k ns)" "keeps (ruled p n x) (sleepFor env d)"
  by (simp_all add: keeps_def kube_calls wp_rules ruled_def apiRule_def)

lemma ruled_touch [ruled_rules]:
  assumes "key = n \<Longrightarrow> mutationKeeps p x m" shows "keeps (ruled p n x) (touchStatus env p' key rm m)"
proof -
  have "derivedWrite p n x (b\<lparr>bp_Status := st\<lparr>st_LastBuildTime := Some t\<rparr>\<rparr>) (ENow t # EGetBP Cached key k (Inr b) # l)"
    if "m (bp_Status b) t = (st, True)" for b st t k l
    unfolding derivedWrite_def by (rule exI [of _ key], rule exI [of _ k], rule exI [of _ b], rule exI [of _ t])
      (use assms that in \<open>auto simp: mutationKeeps_def holding_def\<close>)
  then have "keeps (ruled p n x) (touchOnce env p' key m)"
    unfolding keeps_def touchOnce_def Let_def
    by (auto simp: kube_calls wp_rules ruled_def apiRule_def split: sum.split prod.split)
  then show ?thesis unfolding touchStatus_def by (intro keeps_rules)
qed

lemma ruled_ensure [ruled_rules]: "keeps (ruled p n x) (ensureBuildProject env p' spec)"
  unfolding keeps_def ensureBuildProject_def Let_def
  by (auto simp: kube_calls wp_rules ruled_def apiRule_def split: sum.split)

lemma ruled_grant [ruled_rules]: "keeps (ruled p n x) (grantOnce env p' key iv)"
proof -
  have g: "derivedWrite p n x ((applyDefaults b)\<lparr>bp_Status := (bp_Status b)\<lparr>st_LastCacheExportGrant := t\<rparr>\<rparr>) l"
    if "EGetBP Cached key k (Inr b) \<in> set l" "ENow t' \<in> set l" for b t t' k l
    unfolding derivedWrite_def by (rule exI [of _ key], rule exI [of _ k], rule exI [of _ b], rule exI [of _ t'])
      (use that in \<open>auto simp: holding_def holdsWithRoom_def\<close>)
  have "derivedWrite p n x ((applyDefaults b)\<lparr>bp_Status := (bp_Status b)\<lparr>st_LastCacheExportGrant := t\<rparr>\<rparr>) (ENow t' # EGetBP Cached key k (Inr b) # l)"
    "derivedWrite p n x ((applyDefaults b)\<lparr>bp_Status := (bp_Status b)\<lparr>st_LastCacheExportGrant := t\<rparr>\<rparr>) (ENow t' # e # EGetBP Cached key k (Inr b) # l)" for b t t' k l e
    by (rule g [where k = k and t' = t']; simp)+
  then show ?thesis unfolding keeps_def grantOnce_def Let_def
    by (auto simp: kube_calls wp_rules ruled_def apiRule_def split: sum.split option.split)
qed

lemma ruled_serve:
  assumes "rs_prov s = k8sBackend fuel render env p" "releasesOnly (\<lambda>key tok. key = n \<longrightarrow> tok \<noteq> [] \<and> inflightID tok \<noteq> ib_ID x) c"
  shows "keeps (ruled p n x) (serve s c)"
proof -
  have loop: "keeps (ruled p n x) (waitLoop k env p key deadline)" for k key deadline
    by (induction k) (auto simp: waitOnce_def intro!: keeps_rules ruled_rules)
  have decide: "keeps (ruled p n x) (k8s_S3CacheDecision env p key iv g)" for key iv g
    unfolding k8s_S3CacheDecision_def Let_def by (intro keeps_rules ruled_rules)
  have touch: "mutationKeeps p x (\<lambda>st now. (st, True))" by (auto simp: mutationKeeps_def holdsWithRoom_def)
  show ?thesis
    by (rule keeps_serve [OF _ _ _ _ _ _ _ _ _ assms(2)])
      (simp_all add: assms(1) k8sBackend_def k8s_Ensure_def k8s_Ready_def k8s_WaitReady_def k8s_StartInflight_def k8s_EndInflight_def k8s_Touch_def
        k8s_ProjectRepo_def Let_def decide loop touch startMutation_keeps endMutation_keeps keeps_rules ruled_rules split: prod.split)
qed

text \<open>Nor does a call of the API. The same server, and a replica serving a route, a prewarm or a completion from
  a cache that may lag behind by any number of versions, among other writers that keep a build. If the
  build is within its time, the project stays short of the cap on builds, and the call is not the
  release of that build, by its token or, without one, of whichever is oldest, then every version
  written meanwhile holds it, even when the replica was told that a write had failed.\<close>

lemma api_race_keeps_build:
  assumes "rs_prov srv = k8sBackend fuel render env p" "keepsVersions env H n ns x" "apiRely p x env H"
    and "releasesOnly (\<lambda>key tok. key = n \<longrightarrow> tok \<noteq> [] \<and> inflightID tok \<noteq> ib_ID x) c"
    and "l = w_log (snd (run_state (serve srv c) \<lparr>w_log = [], w_mem = ()\<rparr>))"
  shows "survives H x l"
proof -
  let ?w = "\<lparr>w_log = [], w_mem = ()\<rparr>"
  have "wp (serve srv c) (\<lambda>_. heard env) ?w" by (rule keepsD [OF heard_serve [OF assms(1)]]) (simp add: heard_def)
  moreover have "wp (serve srv c) (\<lambda>_. ruled p n x) ?w" by (rule keepsD [OF ruled_serve [OF assms(1,4)]]) (simp add: ruled_def)
  ultimately have "kept H n ns x l"
    using api.keeps_throughout [OF assms(2,3)] unfolding assms(5) wp_run heard_def ruled_def by (metis append_Nil keptThroughout_def)
  then show ?thesis using kept_newest [OF assms(2)] by (auto simp: kept_def survives_def)
qed

section \<open>A server for both\<close>

text \<open>It accepts a status update over its newest version if its list is short of the cap, and its cache is stuck at the
  first version.\<close>

definition raceKey :: string where
  "raceKey = ''0123456789abcdef''"

definition liveBuild :: InflightBuild where
  "liveBuild = \<lparr>ib_ID = ''t1'', ib_Since = 0\<rparr>"

definition firstVersion :: BuildProject where
  "firstVersion = (bareProject raceKey)\<lparr>bp_ResourceVersion := ''v'', bp_Status := setInflight [liveBuild] (bp_Status (bareProject raceKey))\<rparr>"

definition overNewest :: "BuildProject list \<Rightarrow> BuildProject \<Rightarrow> bool" where
  "overNewest vs b \<longleftrightarrow> isNamed raceKey [] b \<and> bp_ResourceVersion b = bp_ResourceVersion (hd vs) \<and> length (st_Inflight (bp_Status b)) < InflightCap"

definition nextVersion :: "BuildProject list \<Rightarrow> BuildProject \<Rightarrow> BuildProject" where
  "nextVersion vs b = firstVersion\<lparr>bp_Status := bp_Status b, bp_ResourceVersion := replicate (Suc (length vs)) CHR ''v''\<rparr>"

primrec versions :: history where
  "versions [] = [firstVersion]"
| "versions (e # l) =
     (case e of EUpdateBPStatus b (Inr _) \<Rightarrow> if overNewest (versions l) b then nextVersion (versions l) b # versions l else versions l
      | _ \<Rightarrow> versions l)"

definition laggingServer :: Env where
  "laggingServer = (emptyEnv minute)\<lparr>
     ev_getBP := \<lambda>l rd n ns. if n = raceKey \<and> ns = [] then Inr (if rd = Direct then hd (versions l) else last (versions l)) else Inl NotFound,
     ev_updateBPStatus := \<lambda>l b. if overNewest (versions l) b then Inr (nextVersion (versions l) b) else Inl Conflict,
     ev_createBP := \<lambda>_ b. Inl AlreadyExists, ev_patchBPStatus := \<lambda>_ _ _. Inl Conflict\<rparr>"

lemma versions_step:
  "versions (e # l) = versions l \<or>
   (\<exists>b y. e = EUpdateBPStatus b y \<and> overNewest (versions l) b \<and> versions (e # l) = nextVersion (versions l) b # versions l)"
  by (auto split: Event.splits sum.splits)

lemma versions_ne [simp]: "versions l \<noteq> []"
  by (induction l) (auto split: Event.splits sum.splits)

lemma versions_numbered: "map bp_ResourceVersion (versions l) = rev (map (\<lambda>i. replicate (Suc i) CHR ''v'') [0..<length (versions l)])"
proof (induction l)
  case (Cons e l)
  then show ?case using versions_step [of e l] by (auto simp: nextVersion_def simp del: versions.simps)
qed (simp add: firstVersion_def)

lemma versions_distinct: "distinct (map bp_ResourceVersion (versions l))"
  unfolding versions_numbered by (auto simp: distinct_map inj_on_def)

lemma versions_named: "v \<in> set (versions l) \<Longrightarrow> isNamed raceKey [] v \<and> bp_ResourceVersion v \<noteq> []"
proof (induction l)
  case (Cons e l)
  then show ?case using versions_step [of e l] by (auto simp: nextVersion_def firstVersion_def isNamed_def bareProject_def simp del: versions.simps)
qed (simp add: firstVersion_def isNamed_def bareProject_def)

lemma ends_named: "isNamed raceKey [] (hd (versions l))" "isNamed raceKey [] (last (versions l))"
  using versions_named [OF hd_in_set] versions_named [OF last_in_set] by simp_all

lemma first_holding: "holding liveBuild firstVersion"
  by code_simp

lemma lagging_keepsVersions: "keepsVersions laggingServer versions raceKey [] liveBuild"
  unfolding keepsVersions_def
proof (intro conjI allI impI ballI)
  fix e l assume "answered laggingServer e l"
  show "\<exists>new. versions (e # l) = new @ versions l \<and> (\<forall>v \<in> set new. holding liveBuild v \<or> wroteBy versions raceKey [] e l v)"
    using versions_step [of e l]
  proof (elim disjE exE conjE)
    fix b y assume "e = EUpdateBPStatus b y" "overNewest (versions l) b" "versions (e # l) = nextVersion (versions l) b # versions l"
    then show ?thesis by (intro exI [of _ "[nextVersion (versions l) b]"]) (simp add: wroteBy_def overNewest_def nextVersion_def)
  qed auto
qed (auto simp: laggingServer_def first_holding versions_distinct versions_named ends_named split: if_splits)

lemma lagging_sole: "soleProject laggingServer lib r raceKey raceKey []"
  using ends_named by (auto simp: soleProject_def answered_def shownBPs_def laggingServer_def emptyEnv_def nextVersion_def firstVersion_def bareProject_def isNamed_def
    split: Event.splits sum.splits if_splits)

lemma lagging_named: "namedReads laggingServer"
  by (simp add: namedReads_def laggingServer_def emptyEnv_def)

lemma versions_short: "v \<in> set (versions l) \<Longrightarrow> length (st_Inflight (bp_Status v)) < InflightCap"
proof (induction l)
  case (Cons e l)
  then show ?case using versions_step [of e l] by (auto simp: nextVersion_def overNewest_def simp del: versions.simps)
next
  case Nil
  have "length (st_Inflight (bp_Status firstVersion)) < InflightCap" by code_simp
  with Nil show ?case by simp
qed

lemma completeCall_spares: "releasesOnly (\<lambda>key tok. key = raceKey \<longrightarrow> tok \<noteq> [] \<and> inflightID tok \<noteq> ib_ID liveBuild) (Complete completeCall)"
proof -
  have "CHR ''t'' \<notin> set (inflightID tok)" for tok using set_hex_encode [of "sha256 tok"] by (auto simp: inflightID_def hexDigits_def)
  then have "inflightID tok \<noteq> ib_ID liveBuild" for tok by (metis liveBuild_def InflightBuild.select_convs(1) list.set_intros(1))
  then show ?thesis by (simp add: releasesOnly_def completeCall_def raceKey_def)
qed

end
