(* ===== verification/Spec2Isabelle.thy ===== *)
theory Spec2Isabelle
  imports Router Inflight Builder Autogrow Controller Controller_Safety Requeue Pvc_Sweeper K8s_Provisioner K8s_Contract Host_Safety Gateway_Server Client_Server Companion_Pod Companion_Run Buildd_Main Racing_Writers
begin

text \<open>
  \<^bold>\<open>buildkit-operator.\<close> A control plane that gives every project its own warm BuildKit daemon. A client (\<open>cmd/build\<close>)
  asks the routing API of \<open>buildd\<close> (\<open>cmd/buildd\<close>) for a daemon; the API verifies who asks (\<open>internal/identity\<close>), maps
  the request to a project key (\<open>internal/router\<close>), has a provisioner (\<open>internal/provisioner\<close>) make the daemon and
  registers the build. On Kubernetes a reconciler (\<open>internal/controller\<close>) runs the daemons: it renders them
  (\<open>internal/builder\<close>), scales them to zero when idle, rolls, snapshots and grows them. On a single host the local
  provisioner does the same with Incus or Docker. Clients outside the cluster pass through the gateway (\<open>cmd/gateway\<close>),
  and a companion (\<open>cmd/companion\<close>) sits beside every daemon. What all of them share is the set of builds that were
  routed and not yet released: it is why a daemon runs, and what a take-down would sever.

  \<^bold>\<open>How programs are modelled.\<close> Pure code is a function. Code that talks to the outside is a program of \<open>Effects\<close>: a state
  transformer over the process's memory and the log of the calls it made. The outside is a record of answer
  functions of that log (\<open>Env\<close>, \<open>HostEnv\<close>, \<open>Os\<close>, \<open>CompanionEnv\<close>, \<open>ClientEnv\<close>), which theorems leave arbitrary, so that stale
  reads, concurrent writers and errors at any point are covered. An error is a value of a sum or option type, and
  so is a panic. Durations, times and counters keep the width and the wrap-around of Go where it can show.

  \<^bold>\<open>Go and its library.\<close>
  \<^item> \<open>Go_Prelude\<close>: strings, numerals, integers of fixed width, time; the collections \<open>go_str\<close> and \<open>go_num\<close>.
  \<^item> \<open>Go_Sha256\<close>, \<open>Go_Time\<close>, \<open>Go_Path\<close>, \<open>Go_Float\<close>, \<open>Float_Bounds\<close>: SHA-256, RFC 3339, \<open>path.Match\<close>, IEEE doubles and the monotonicity
    of their rounding.
  \<^item> \<open>Effects\<close>: programs, \<open>wp\<close>, \<open>emits\<close>, \<open>keeps\<close> and policies on logs, with their rule collections.

  \<^bold>\<open>Components.\<close>
  \<^item> \<open>Router\<close> (\<open>router.go\<close>): normalisation and keys. URL styles of one repository share an identity; distinct repositories
    have distinct keys up to collisions of the hash prefix.
  \<^item> \<open>Api_Types\<close>, \<open>Inflight\<close> (\<open>api/v1alpha1\<close>): the resource, its defaults and children, and the set of unreleased builds. A
    release undoes its own registration and removes no other.
  \<^item> \<open>Kube_Types\<close>, \<open>Kube_Api\<close>: the objects and calls of the API server that the code uses.
  \<^item> \<open>Builder\<close> (\<open>statefulset.go\<close>): what is rendered for a project. A fork carries its mark and its
    sandbox, and the daemon's TLS certificate is the only Secret it sees.
  \<^item> \<open>Autogrow\<close>, \<open>Controller\<close>, \<open>Controller_Safety\<close>, \<open>Requeue\<close> (\<open>internal/controller\<close>): the reconciler. \<open>Controller_Safety\<close> states the policy on its log and
    proves it of every run against every API server: nothing that severs a build happens without a fresh read
    that showed none, and a status write carries the builds that were read or their live ones. \<open>Requeue\<close> reads off the log
    what a pass left pending and proves that it asks to come back in time for it.
  \<^item> \<open>Live_Builds\<close>, \<open>Versioned_Store\<close>, \<open>Racing_Writers\<close>: the reconciler and the routing API as writers of one status among others, on a
    server with resource versions, a lagging cache and writes whose answer is lost. Neither loses a build it is not told
    to release. \<open>started_keeps_builds\<close>, in this theory, says so of what \<open>buildd\<close> starts.
  \<^item> \<open>Pvc_Sweeper\<close> (\<open>pvc_sweeper.go\<close>): only orphaned claims are deleted.
  \<^item> \<open>Identity\<close>, \<open>Project_Defaults\<close>: from a token to a verified repository; the seeding rules.
  \<^item> \<open>Provisioner\<close>, \<open>Route_Api\<close>, \<open>Route_Contract\<close> (\<open>provisioner.go\<close>, \<open>route.go\<close>, \<open>server.go\<close>): the handlers over any backend. A route leaves registered
    exactly the build it answers with; a release is authorized; a verified identity decides the project.
  \<^item> \<open>K8s_Provisioner\<close>, \<open>K8s_Contract\<close> (\<open>k8s.go\<close>) and \<open>Local_Provisioner\<close>, \<open>Local_Contract\<close>, \<open>Local_Safety\<close> (\<open>local.go\<close>): the two backends, each
    alone against arbitrary answers, and under the routing API, where both refine the same ledger of builds.
  \<^item> \<open>Host_Ops\<close>, \<open>Host_Safety\<close> (\<open>host.go\<close>, \<open>host_docker.go\<close>, \<open>local_backend.go\<close>): the command lines of both runtimes.
  \<^item> \<open>Gateway\<close>, \<open>Gateway_Server\<close> (\<open>cmd/gateway\<close>): the ClientHello parser and the routing of a connection; the accept loop, the drain
    and the pipe with its half-closes as step relations. Every well-formed ClientHello is read; the stream arrives
    unchanged, and, unless a connection breaks, complete in both directions under every schedule.
  \<^item> \<open>Build_Client\<close>, \<open>Client_Server\<close> (\<open>cmd/build\<close>): the client, alone and joined with the routing API.
  \<^item> \<open>Companion\<close>, \<open>Companion_Run\<close>, \<open>Companion_Pod\<close> (\<open>cmd/companion\<close>, \<open>HTTPUsageProber\<close>): the companion's operations, its process with its goroutines as
    a step relation, and the companion as the operator renders and probes it.
  \<^item> \<open>Buildd_Main\<close> (\<open>main.go\<close>, \<open>certs.go\<close>): the start of \<open>buildd\<close>, which composes the parts above.

  \<^bold>\<open>Interfaces.\<close> \<open>provisioner_contract\<close> is what the routing API relies on of a backend: which builds it holds after each
  operation; \<open>prompt_provisioner\<close> extends it by operations that do not fail to register or release in a project that was
  ensured. The handlers, and the client joined with them, are proved once inside these locales. \<open>local\<close> interprets the
  second on the single-host backend whatever the host answers, \<open>k8s\<close> on the Kubernetes backend over a server that stores
  what it accepts, refuses a status update only with conflicts that the retries outlast, and while no build is older than the backend's maximum
  (what a failing server does to a single operation is \<open>k8s_end_exact\<close>, and to a route \<open>route_balanced\<close>). \<open>host_ops\<close> is what the local
  provisioner relies on of a runtime; \<open>incus\<close> and \<open>docker\<close> interpret it. \<open>optimistic_writer\<close> is what a writer of a status owes
  the others; \<open>pass\<close> interprets it on the reconciler's policy and \<open>api\<close> on the rules of the routing API. \<open>ledgerStep\<close> is the abstract specification of
  the routing API: a ledger of builds per key that a request changes by at most the build it names.

  \<^bold>\<open>Fuel and bounds.\<close> The polling loops (\<open>waitLoop\<close>, \<open>localWaitLoop\<close>, \<open>drainLoop\<close>) take fuel and say when it ran out;
  \<open>waitReady_returns\<close> and \<open>companion_drain\<close> show that one round for every two seconds of the window, and two more, is
  enough on a clock that runs. Retries take the number of steps of the library's backoff. The ticker loops take
  the number of ticks. Everything else recurses on its data.

  \<^bold>\<open>Parameters.\<close> The API server, the host's commands, \<open>git\<close>, \<open>docker\<close>, \<open>buildctl\<close>, \<open>statfs\<close>, clocks, the HTTP transport, the OpenID
  Connect library, the flag library of the companion, and the decoding of JSON, YAML, URLs, PEM and X.509. Where a theorem
  needs one to behave as documented, the hypothesis is a named definition (\<open>clockRuns\<close>, \<open>pauseRuns\<close>,
  \<open>readsLongFlags\<close>, \<open>readsObjects\<close>, \<open>printsNumbers\<close>, \<open>patient\<close>, \<open>keepsVersions\<close>, \<open>namedReads\<close>), and the witness gives a function that has it.

  \<^bold>\<open>Not modelled.\<close> Generated deep copies and the scheme registration (\<open>zz_generated.deepcopy.go\<close>, \<open>groupversion_info.go\<close>); the declarations of
  metrics (\<open>internal/metrics\<close>) and all logging; the HTTP library under the servers (connections, the enforcement of
  timeouts, the order of a shutdown on the wire), the health endpoint of the gateway, the rate limiter, and the timeouts
  of the clients: a request carries what these decide for it; \<open>SetupWithManager\<close> and the construction of the manager; \<open>writeJSON\<close> and \<open>clientIP\<close>
  (\<open>account.go\<close>), which only format a response and a log line.
\<close>

section \<open>The started system\<close>

text \<open>A build that is young enough for what \<open>buildd\<close> was started with, in a project that stays short of the cap.\<close>

definition runningBuild :: "Env \<Rightarrow> history \<Rightarrow> K8sStart \<Rightarrow> InflightBuild \<Rightarrow> bool" where
  "runningBuild api H s x \<longleftrightarrow>
     (\<forall>l. timeSub (ev_now api l) (ib_Since x) \<le> maxBuildAge (ks_reconciler s)) \<and>
     (\<forall>l. \<forall>v \<in> set (H l). length (st_Inflight (bp_Status v)) < InflightCap)"

lemma started_relies:
  assumes "buildd_main fuel render api os host env f = Inr (StartedK8s s)" "\<bar>bf_maxBuildSec f * second\<bar> < 2 ^ 63" "runningBuild api H s x"
  shows "passRely (ks_reconciler s) x api H" "apiRely (ks_prov s) x api H" "rs_prov (ks_server s) = k8sBackend fuel render api (ks_prov s)"
proof -
  obtain sg where s: "s = startK8s fuel render api env f sg" using started_k8s [OF assms(1)] by blast
  have "wrap64 (bf_maxBuildSec f * second) = bf_maxBuildSec f * second" using assms(2) by (intro wrap64_id) auto
  moreover have "bf_maxBuildSec f * second \<le> 0 \<longleftrightarrow> bf_maxBuildSec f \<le> 0" by (simp add: mult_le_0_iff second_def)
  ultimately show "passRely (ks_reconciler s) x api H" "apiRely (ks_prov s) x api H" "rs_prov (ks_server s) = k8sBackend fuel render api (ks_prov s)"
    using assms(3) by (auto simp: s startK8s_def newK8s_def passRely_def apiRely_def inWindow_def runningBuild_def maxBuildAge_def Let_def)
qed

text \<open>C2: \<^bold>\<open>What buildd starts loses no build to a race.\<close> The API server keeps the versions of a project, serves stale ones
  from the cache and refuses a status update over any but the newest; others write in between and keep a
  given build. If the newest version holds that build, it is within the window of \<open>--max-build-seconds\<close>
  and the project stays short of the cap, then every version written during a reconcile pass, over
  whatever project, or during a call of the routing API that is not the release of that build, holds it:
  also when the writer was told that its write had failed. And the pass sizes the build's daemon to zero,
  bounces its pod, deletes its cache or its project in no case, and replaces its pod template only for one
  of the three reasons a hold is refused.\<close>

theorem started_keeps_builds:
  assumes "buildd_main fuel render api os host env f = Inr (StartedK8s s)" "\<bar>bf_maxBuildSec f * second\<bar> < 2 ^ 63"
    and "keepsVersions api H n ns x" "runningBuild api H s x" "soleProject api lib (ks_reconciler s) key n ns" "namedReads api"
    and "releasesOnly (\<lambda>key tok. key = n \<longrightarrow> tok \<noteq> [] \<and> inflightID tok \<noteq> ib_ID x) c"
    and "lp = w_log (snd (run_state (Reconcile api lib impl (ks_reconciler s) name ns') \<lparr>w_log = [], w_mem = m\<rparr>))"
    and "la = w_log (snd (run_state (serve (ks_server s) c) \<lparr>w_log = [], w_mem = ()\<rparr>))"
  shows "survives H x lp \<and> log_ok (sparing (ks_reconciler s) n ns key) lp \<and> survives H x la"
proof -
  note r = started_relies [OF assms(1,2,4)]
  show ?thesis using race_keeps_build [OF assms(3) r(1) assms(5,6,8)] api_race_keeps_build [OF r(3) assms(3) r(2) assms(7,9)] by blast
qed

theorem started_keeps_builds_witness:
  "\<exists>s. buildd_main 5 (\<lambda>e. []) laggingServer emptyOs idleHost plainStart flagDefaults = Inr (StartedK8s s) \<and>
     survives versions liveBuild (w_log (snd (run_state (Reconcile laggingServer plainLib (\<lambda>_. 0) (ks_reconciler s) raceKey []) \<lparr>w_log = [], w_mem = w_mem Autogrow.freshWorld\<rparr>))) \<and>
     survives versions liveBuild (w_log (snd (run_state (serve (ks_server s) (Complete completeCall)) \<lparr>w_log = [], w_mem = ()\<rparr>)))"
proof -
  obtain s where s: "buildd_main 5 (\<lambda>e. []) laggingServer emptyOs idleHost plainStart flagDefaults = Inr (StartedK8s s)"
    by (simp add: buildd_main_def resolveSettings_def plainStart_def flagDefaults_def schedulingFromJSON_def loadConfig_def loadDefaults_def
        newVerifier_def fieldsOn_def Let_def trimSpace_def)
  have f: "\<bar>bf_maxBuildSec flagDefaults * second\<bar> < 2 ^ 63" by (simp add: flagDefaults_def second_def)
  have "maxBuildAge (ks_reconciler s) = bf_maxBuildSec flagDefaults * second"
    using started_k8s [OF s] by (auto simp: startK8s_def maxBuildAge_def flagDefaults_def Let_def) (simp_all add: second_def wrap64_id)
  then have b: "runningBuild laggingServer versions s liveBuild"
    by (auto simp: runningBuild_def versions_short laggingServer_def emptyEnv_def liveBuild_def timeSub_def flagDefaults_def second_def minute_def)
  show ?thesis
    using s started_keeps_builds [OF s f lagging_keepsVersions b lagging_sole lagging_named completeCall_spares refl refl] by blast
qed

end
